(* ===== verification/Dap_Prelude.thy ===== *)
theory Dap_Prelude
  imports Main "HOL-Library.Word" "HOL-Library.Char_ord" "HOL-Library.List_Lexorder"
begin

text \<open>
  What every component shares: the exceptions libdap throws and the result type of a
  fallible operation, the machine integers, and the part of the C++ standard library the
  sources lean on: positions in a \<open>std::string\<close> (\<open>find\<close>, \<open>find_first_of\<close>,
  \<open>find_first_not_of\<close>, \<open>replace\<close>, \<open>substr\<close>), extraction of an integer from a stream in
  base 8, 10 and 16, and its insertion with \<open>setw\<close> and \<open>setfill('0')\<close>.  A \<open>std::string\<close>
  is a list of bytes (HOL's \<open>char\<close>), \<open>npos\<close> is \<open>None\<close>.
\<close>

section \<open>Results\<close>

text \<open>
  \<open>Error\<close> and \<open>InternalErr\<close> are the library's own exceptions (\<open>Error.h\<close>,
  \<open>InternalErr.h\<close>), \<open>Out_Of_Range\<close> is \<open>std::out_of_range\<close>, \<open>Assert_Failed\<close> a failing
  \<open>assert\<close>, \<open>Bad_Cast\<close> is \<open>std::bad_cast\<close>, \<open>Stream_Failure\<close> is \<open>std::ios_base::failure\<close>,
  \<open>Bad_Alloc\<close> an allocation that cannot succeed (\<open>std::bad_alloc\<close>, \<open>std::length_error\<close>),
  \<open>No_Return\<close> that the fuel of a loop ran out, \<open>Undefined\<close> marks an access the language leaves undefined (a null or
  past-the-end dereference).
\<close>

datatype exn =
    Error nat string
  | InternalErr string
  | Out_Of_Range
  | Assert_Failed
  | Bad_Cast
  | Stream_Failure
  | Bad_Alloc
  | No_Return
  | Undefined

type_synonym 'a res = "exn + 'a"

definition unknown_error :: nat where "unknown_error = 1001"
definition no_such_variable :: nat where "no_such_variable = 1004"
definition malformed_expr :: nat where "malformed_expr = 1005"

fun bindE :: "'a res \<Rightarrow> ('a \<Rightarrow> 'b res) \<Rightarrow> 'b res" where
  "bindE (Inl e) f = Inl e"
| "bindE (Inr x) f = f x"

lemma bindE_split:
  "P (bindE r f) \<longleftrightarrow> (\<forall>e. r = Inl e \<longrightarrow> P (Inl e)) \<and> (\<forall>x. r = Inr x \<longrightarrow> P (f x))"
  by (cases r) auto

lemma bindE_split_asm:
  "P (bindE r f) \<longleftrightarrow> \<not> ((\<exists>e. r = Inl e \<and> \<not> P (Inl e)) \<or> (\<exists>x. r = Inr x \<and> \<not> P (f x)))"
  by (cases r) auto

lemmas bindE_splits = bindE_split bindE_split_asm

lemma bindE_eq_Inr [simp]: "bindE r f = Inr y \<longleftrightarrow> (\<exists>x. r = Inr x \<and> f x = Inr y)"
  by (cases r) auto

lemma bindE_assoc: "bindE (bindE r f) g = bindE r (\<lambda>x. bindE (f x) g)"
  by (cases r) auto

definition is_ok :: "'a res \<Rightarrow> bool" where
  "is_ok r = (case r of Inl _ \<Rightarrow> False | Inr _ \<Rightarrow> True)"

lemma is_ok_simps [simp]: "is_ok (Inr x)" "\<not> is_ok (Inl e)"
  by (simp_all add: is_ok_def)

lemma is_ok_iff: "is_ok r \<longleftrightarrow> (\<exists>x. r = Inr x)"
  by (cases r) auto

text \<open>
  A member function that changes its object and may throw is a function from the object to
  the result and the object it leaves behind; \<open>bindS\<close> runs two of them in sequence, the
  second one only when the first returns.
\<close>

type_synonym ('s, 'a) action = "'s \<Rightarrow> 'a res \<times> 's"

fun bindS :: "('s, 'a) action \<Rightarrow> ('a \<Rightarrow> ('s, 'b) action) \<Rightarrow> ('s, 'b) action" where
  "bindS m f s = (case m s of (Inl e, s') \<Rightarrow> (Inl e, s') | (Inr x, s') \<Rightarrow> f x s')"

definition returnS :: "'a \<Rightarrow> ('s, 'a) action" where
  "returnS x s = (Inr x, s)"

definition throwS :: "exn \<Rightarrow> ('s, 'a) action" where
  "throwS e s = (Inl e, s)"

declare returnS_def [simp] throwS_def [simp]

section \<open>Machine integers\<close>

type_synonym u8 = "8 word"
type_synonym u16 = "16 word"
type_synonym u32 = "32 word"
type_synonym u64 = "64 word"

abbreviation (input) int_max :: int where "int_max \<equiv> 2147483647"
abbreviation (input) int_min :: int where "int_min \<equiv> - 2147483648"

lemma sint_of_nat_small: "n < 2 ^ 31 \<Longrightarrow> sint (of_nat n :: u32) = int n"
  by (simp add: sint_uint unsigned_of_nat take_bit_nat_eq_self signed_take_bit_int_eq_self uint_nat unat_of_nat)

text \<open>An \<open>int\<close> that wraps around, and division rounding towards 0.\<close>

definition s32 :: "int \<Rightarrow> int" where "s32 v = signed_take_bit 31 v"

definition c_div :: "int \<Rightarrow> int \<Rightarrow> int" where
  "c_div a b = sgn a * sgn b * (\<bar>a\<bar> div \<bar>b\<bar>)"

lemma s32_id: "int_min \<le> v \<Longrightarrow> v \<le> int_max \<Longrightarrow> s32 v = v"
  by (simp add: s32_def signed_take_bit_int_eq_self)

lemma s32_mult: "s32 (s32 x * y) = s32 (x * y)"
  unfolding s32_def
  by (metis mult.commute signed_take_bit_mult signed_take_bit_signed_take_bit min.idem)

lemma c_div_nonneg: "0 \<le> a \<Longrightarrow> 0 < b \<Longrightarrow> c_div a b = a div b"
  by (cases "a = 0") (simp_all add: c_div_def)

section \<open>Characters\<close>

abbreviation bslash :: char where "bslash \<equiv> CHR 0x5C"
abbreviation dquote :: char where "dquote \<equiv> CHR 0x22"
abbreviation nul :: char where "nul \<equiv> CHR 0x00"

definition ord_of :: "char \<Rightarrow> nat" where "ord_of c = of_char c"

lemma ord_of_less [simp]: "ord_of c < 256"
  by (simp add: ord_of_def)

lemma char_of_ord_of [simp]: "char_of (ord_of c) = c"
  by (simp add: ord_of_def)

lemma ord_of_inject [simp]: "ord_of c = ord_of d \<longleftrightarrow> c = d"
  by (simp add: ord_of_def)

text \<open>\<open>isspace\<close>, \<open>tolower\<close> and \<open>isdigit\<close> of the C locale.\<close>

definition is_space :: "char \<Rightarrow> bool" where
  "is_space c = (c = CHR 0x20 \<or> 9 \<le> ord_of c \<and> ord_of c \<le> 13)"

definition to_lower :: "char \<Rightarrow> char" where
  "to_lower c = (if 65 \<le> ord_of c \<and> ord_of c \<le> 90 then char_of (ord_of c + 32) else c)"

definition is_digit :: "char \<Rightarrow> bool" where
  "is_digit c = (48 \<le> ord_of c \<and> ord_of c \<le> 57)"

text \<open>The value of a digit in bases up to 16.\<close>

definition digit_value :: "char \<Rightarrow> nat option" where
  "digit_value c =
     (let n = ord_of c in
      if 48 \<le> n \<and> n \<le> 57 then Some (n - 48)
      else if 65 \<le> n \<and> n \<le> 70 then Some (n - 55)
      else if 97 \<le> n \<and> n \<le> 102 then Some (n - 87)
      else None)"

definition digit_in :: "nat \<Rightarrow> char \<Rightarrow> nat option" where
  "digit_in base c = (case digit_value c of None \<Rightarrow> None
     | Some d \<Rightarrow> if d < base then Some d else None)"

definition digit_char :: "nat \<Rightarrow> char" where
  "digit_char d = (if d < 10 then char_of (48 + d) else char_of (87 + d))"

lemma digit_value_digit_char: "d < 16 \<Longrightarrow> digit_value (digit_char d) = Some d"
  by (auto simp: digit_value_def digit_char_def ord_of_def Let_def)

lemma digit_in_digit_char: "d < base \<Longrightarrow> base \<le> 16 \<Longrightarrow> digit_in base (digit_char d) = Some d"
  by (simp add: digit_in_def digit_value_digit_char)

lemma digit_in_less: "digit_in base c = Some d \<Longrightarrow> d < base"
  by (auto simp: digit_in_def split: option.splits if_splits)

section \<open>Positions in a string\<close>

fun find_idx :: "(char \<Rightarrow> bool) \<Rightarrow> string \<Rightarrow> nat option" where
  "find_idx P [] = None"
| "find_idx P (c # cs) = (if P c then Some 0 else map_option Suc (find_idx P cs))"

text \<open>\<open>s.find_first_of\<close> and \<open>s.find_first_not_of\<close> from position \<open>i\<close>, for the test \<open>P\<close>.\<close>

definition find_from :: "(char \<Rightarrow> bool) \<Rightarrow> string \<Rightarrow> nat \<Rightarrow> nat option" where
  "find_from P s i = map_option (\<lambda>k. k + i) (find_idx P (drop i s))"

definition find_first_of :: "string \<Rightarrow> string \<Rightarrow> nat \<Rightarrow> nat option" where
  "find_first_of cs s i = find_from (\<lambda>c. c \<in> set cs) s i"

definition find_first_not_of :: "string \<Rightarrow> string \<Rightarrow> nat \<Rightarrow> nat option" where
  "find_first_not_of cs s i = find_from (\<lambda>c. c \<notin> set cs) s i"

fun find_sub :: "string \<Rightarrow> string \<Rightarrow> nat option" where
  "find_sub p [] = (if p = [] then Some 0 else None)"
| "find_sub p (c # cs) =
     (if take (length p) (c # cs) = p then Some 0 else map_option Suc (find_sub p cs))"

text \<open>\<open>s.find(p, i)\<close> for a string \<open>p\<close>.\<close>

definition str_find :: "string \<Rightarrow> string \<Rightarrow> nat \<Rightarrow> nat option" where
  "str_find p s i = (if i \<le> length s then map_option (\<lambda>k. k + i) (find_sub p (drop i s)) else None)"

text \<open>\<open>s.rfind(c)\<close> for a character.\<close>

definition str_rfind :: "char \<Rightarrow> string \<Rightarrow> nat option" where
  "str_rfind c s = map_option (\<lambda>k. length s - 1 - k) (find_idx (\<lambda>x. x = c) (rev s))"

text \<open>\<open>s.replace(i, n, r)\<close> and \<open>s.substr(i, n)\<close> at a position inside the string.\<close>

definition str_replace :: "string \<Rightarrow> nat \<Rightarrow> nat \<Rightarrow> string \<Rightarrow> string" where
  "str_replace s i n r = take i s @ r @ drop (i + n) s"

definition substr :: "string \<Rightarrow> nat \<Rightarrow> nat \<Rightarrow> string" where
  "substr s i n = take n (drop i s)"

text \<open>The bytes a C function sees through \<open>c_str()\<close>.\<close>

definition c_str :: "string \<Rightarrow> string" where
  "c_str s = takeWhile (\<lambda>c. c \<noteq> nul) s"

text \<open>Counting the characters still ahead of a position: the measure of the scanning loops.\<close>

definition count_from :: "(char \<Rightarrow> bool) \<Rightarrow> string \<Rightarrow> nat \<Rightarrow> nat" where
  "count_from P s i = length (filter P (drop i s))"

lemma count_from_mono: "i \<le> j \<Longrightarrow> count_from P s j \<le> count_from P s i"
proof -
  assume "i \<le> j"
  then have "drop i s = take (j - i) (drop i s) @ drop j s"
    by (metis append_take_drop_id drop_drop le_add_diff_inverse2)
  then have "count_from P s i = length (filter P (take (j - i) (drop i s))) + count_from P s j"
    by (metis count_from_def filter_append length_append)
  then show ?thesis by simp
qed

lemma count_from_step: "k < length s \<Longrightarrow> P (s ! k) \<Longrightarrow> i \<le> k \<Longrightarrow> count_from P s (Suc k) < count_from P s i"
proof -
  assume a: "k < length s" "P (s ! k)" "i \<le> k"
  have "count_from P s k = Suc (count_from P s (Suc k))"
    using a by (simp add: count_from_def Cons_nth_drop_Suc [symmetric])
  with a(3) show ?thesis using count_from_mono [of i k P s] by simp
qed

lemma find_idx_None: "find_idx P s = None \<longleftrightarrow> (\<forall>c\<in>set s. \<not> P c)"
  by (induction s) auto

lemma find_idx_Some:
  "find_idx P s = Some k \<Longrightarrow> k < length s \<and> P (s ! k) \<and> (\<forall>j<k. \<not> P (s ! j))"
proof (induction s arbitrary: k)
  case (Cons c cs)
  then show ?case
    by (auto split: if_splits simp: less_Suc_eq_0_disj)
qed simp

lemma find_from_None: "find_from P s i = None \<longleftrightarrow> (\<forall>c\<in>set (drop i s). \<not> P c)"
  by (simp add: find_from_def find_idx_None)

lemma find_from_Some:
  "find_from P s i = Some k \<Longrightarrow> i \<le> k \<and> k < length s \<and> P (s ! k)"
  by (cases "i \<le> length s") (auto simp: find_from_def add.commute dest!: find_idx_Some)

lemma find_from_hit: "P c \<Longrightarrow> find_from P (pre @ c # s) (length pre) = Some (length pre)"
  by (simp add: find_from_def)

lemma find_from_miss:
  "\<not> P c \<Longrightarrow> find_from P (pre @ c # s) (length pre) = find_from P (pre @ c # s) (Suc (length pre))"
  by (cases "find_idx P s") (simp_all add: find_from_def)

lemma find_from_end [simp]: "length s \<le> i \<Longrightarrow> find_from P s i = None"
  by (simp add: find_from_def)

lemma find_sub_Some:
  "find_sub p s = Some k \<Longrightarrow> k + length p \<le> length s \<and> take (length p) (drop k s) = p"
proof (induction s arbitrary: k)
  case (Cons c cs)
  show ?case
  proof (cases "take (length p) (c # cs) = p")
    case True
    then have "length p \<le> length (c # cs)"
      by (metis length_take min.cobounded1 min_def nle_le)
    with True Cons.prems show ?thesis by auto
  next
    case False
    with Cons.prems obtain j where "find_sub p cs = Some j" "k = Suc j"
      by (auto split: if_splits)
    with Cons.IH show ?thesis by auto
  qed
qed (auto split: if_splits)

lemma find_sub_hit: "find_sub p (p @ s) = Some 0"
  by (cases "p @ s") (auto, metis append_eq_conv_conj)

lemma find_sub_bound: "find_sub p s = Some k \<Longrightarrow> p \<noteq> [] \<Longrightarrow> k < length s"
  by (auto dest!: find_sub_Some) (cases p; simp)

lemma str_find_Some: "str_find p s i = Some k \<Longrightarrow> p \<noteq> [] \<Longrightarrow> i \<le> k \<and> k + length p \<le> length s"
  by (force simp: str_find_def split: if_splits dest: find_sub_Some)

lemma find_sub_None_first:
  "p = c # q \<Longrightarrow> c \<notin> set s \<Longrightarrow> find_sub p s = None"
  by (induction s) auto

lemma str_find_None_first:
  "p = c # q \<Longrightarrow> c \<notin> set s \<Longrightarrow> str_find p s i = None"
  by (auto simp: str_find_def intro!: find_sub_None_first dest: in_set_dropD)

lemma length_str_replace:
  "i + n \<le> length s \<Longrightarrow> length (str_replace s i n r) = length s + length r - n"
  by (simp add: str_replace_def)

lemma str_replace_at: "str_replace (pre @ c # s) (length pre) (Suc 0) r = pre @ r @ s"
  by (simp add: str_replace_def)

lemma c_str_id [simp]: "nul \<notin> set s \<Longrightarrow> c_str s = s"
  by (auto simp: c_str_def intro!: takeWhile_eq_all_conv [THEN iffD2])

section \<open>Integers in streams\<close>

fun digits_value :: "nat \<Rightarrow> nat \<Rightarrow> string \<Rightarrow> nat" where
  "digits_value base acc [] = acc"
| "digits_value base acc (c # cs) =
     (case digit_in base c of None \<Rightarrow> acc | Some d \<Rightarrow> digits_value base (acc * base + d) cs)"

text \<open>
  \<open>istringstream(s) >> val\<close> for an \<open>int\<close> in base 8, 10 or 16: white space is skipped, a sign
  and, in base 16, a \<open>0x\<close> prefix are accepted, digits are taken as far as they go; a value
  that does not fit is clamped and an extraction that finds no digit stores 0.
\<close>

definition clamp_int :: "int \<Rightarrow> int" where
  "clamp_int v = (if v > int_max then int_max else if v < int_min then int_min else v)"

definition istream_int :: "nat \<Rightarrow> string \<Rightarrow> int" where
  "istream_int base s =
     (let s1 = dropWhile is_space s;
          neg = (s1 \<noteq> [] \<and> hd s1 = CHR ''-'');
          s2 = (if s1 \<noteq> [] \<and> (hd s1 = CHR ''-'' \<or> hd s1 = CHR ''+'') then tl s1 else s1);
          s3 = (if base = 16 \<and> take 1 s2 = ''0'' \<and> take 1 (drop 1 s2) \<in> {''x'', ''X''}
                then drop 2 s2 else s2);
          v = int (digits_value base 0 s3)
      in clamp_int (if neg then - v else v))"

text \<open>\<open>oss << setw(w) << setfill('0') << n\<close>: at least \<open>w\<close> digits.\<close>

fun digits_of :: "nat \<Rightarrow> nat \<Rightarrow> string" where
  "digits_of base n =
     (if n < base \<or> base < 2 then [digit_char n] else digits_of base (n div base) @ [digit_char (n mod base)])"

declare digits_of.simps [simp del]

definition ostream_padded :: "nat \<Rightarrow> nat \<Rightarrow> nat \<Rightarrow> string" where
  "ostream_padded base w n =
     (let d = digits_of base n in replicate (w - length d) (CHR ''0'') @ d)"

definition ostream_int :: "int \<Rightarrow> string" where
  "ostream_int v = (if v < 0 then CHR ''-'' # digits_of 10 (nat (- v)) else digits_of 10 (nat v))"

lemma digits_of_two:
  "n < base * base \<Longrightarrow> 2 \<le> base \<Longrightarrow>
   ostream_padded base 2 n = [digit_char (n div base), digit_char (n mod base)]"
proof -
  assume a: "n < base * base" "2 \<le> base"
  have q: "n div base < base" using a by (simp add: less_mult_imp_div_less)
  have z: "digit_char 0 = CHR ''0''" by (simp add: digit_char_def char_of_eq_iff take_bit_eq_mod)
  show ?thesis
  proof (cases "n < base")
    case True
    with a z show ?thesis
      by (simp add: ostream_padded_def digits_of.simps [of base n])
  next
    case False
    with a q show ?thesis
      by (simp add: ostream_padded_def digits_of.simps [of base n] digits_of.simps [of base "n div base"])
  qed
qed

lemma digit_char_not_space: "d < 16 \<Longrightarrow> \<not> is_space (digit_char d)"
  by (auto simp: is_space_def digit_char_def ord_of_def char_of_eq_iff take_bit_eq_mod)

lemma digit_char_not_sign: "d < 16 \<Longrightarrow> digit_char d \<notin> {CHR ''-'', CHR ''+'', CHR ''x'', CHR ''X''}"
  by (auto simp: digit_char_def char_of_eq_iff take_bit_eq_mod)

end
