(* ===== verification/Dap_Util.thy ===== *)
theory Dap_Util
  imports Dap_Prelude
begin

text \<open>
  The DAP type codes (\<open>enum Type\<close> of \<open>BaseType.h\<close>) and the helpers of \<open>util.cc\<close>: names and
  kinds of types, cleaning of URLs and quoted strings, the check that the names in a
  constructor are unique, integers as strings in any base, the file name of a path, the
  \<open>glob\<close> matcher, and the two checks that guard allocations and path names.
\<close>

section \<open>Type codes\<close>

datatype dap_type =
    dods_null_c | dods_byte_c | dods_int16_c | dods_uint16_c | dods_int32_c | dods_uint32_c
  | dods_float32_c | dods_float64_c | dods_str_c | dods_url_c | dods_array_c
  | dods_structure_c | dods_sequence_c | dods_grid_c
  | dods_int8_c | dods_uint8_c | dods_int64_c | dods_uint64_c | dods_url4_c
  | dods_enum_c | dods_group_c

text \<open>The value of an enumerator; it orders the type codes.\<close>

primrec type_code :: "dap_type \<Rightarrow> nat" where
  "type_code dods_null_c = 0" | "type_code dods_byte_c = 1" | "type_code dods_int16_c = 2"
| "type_code dods_uint16_c = 3" | "type_code dods_int32_c = 4" | "type_code dods_uint32_c = 5"
| "type_code dods_float32_c = 6" | "type_code dods_float64_c = 7" | "type_code dods_str_c = 8"
| "type_code dods_url_c = 9" | "type_code dods_array_c = 10" | "type_code dods_structure_c = 11"
| "type_code dods_sequence_c = 12" | "type_code dods_grid_c = 13" | "type_code dods_int8_c = 14"
| "type_code dods_uint8_c = 15" | "type_code dods_int64_c = 16" | "type_code dods_uint64_c = 17"
| "type_code dods_url4_c = 18" | "type_code dods_enum_c = 19" | "type_code dods_group_c = 20"

lemma type_code_inject [simp]: "type_code s = type_code t \<longleftrightarrow> s = t"
  by (cases s; cases t; simp)

instantiation dap_type :: linorder
begin

definition less_eq_dap_type :: "dap_type \<Rightarrow> dap_type \<Rightarrow> bool" where
  "less_eq_dap_type s t = (type_code s \<le> type_code t)"

definition less_dap_type :: "dap_type \<Rightarrow> dap_type \<Rightarrow> bool" where
  "less_dap_type s t = (type_code s < type_code t)"

instance
  by standard (auto simp: less_eq_dap_type_def less_dap_type_def)

end

definition get_type :: "string \<Rightarrow> dap_type" where
  "get_type name =
    (if name = ''Byte'' then dods_byte_c
     else if name = ''Int8'' then dods_int8_c
     else if name = ''UInt8'' then dods_uint8_c
     else if name = ''Int16'' then dods_int16_c
     else if name = ''UInt16'' then dods_uint16_c
     else if name = ''Int32'' then dods_int32_c
     else if name = ''UInt32'' then dods_uint32_c
     else if name = ''Int64'' then dods_int64_c
     else if name = ''UInt64'' then dods_uint64_c
     else if name = ''Float32'' then dods_float32_c
     else if name = ''Float64'' then dods_float64_c
     else if name = ''String'' then dods_str_c
     else if name = ''URL'' then dods_url4_c
     else if name = ''Url'' then dods_url_c
     else if name = ''Array'' then dods_array_c
     else if name = ''Structure'' then dods_structure_c
     else if name = ''Sequence'' then dods_sequence_c
     else if name = ''Grid'' then dods_grid_c
     else dods_null_c)"

primrec type_name :: "dap_type \<Rightarrow> string" where
  "type_name dods_null_c = ''Null''"
| "type_name dods_byte_c = ''Byte''"
| "type_name dods_int16_c = ''Int16''"
| "type_name dods_uint16_c = ''UInt16''"
| "type_name dods_int32_c = ''Int32''"
| "type_name dods_uint32_c = ''UInt32''"
| "type_name dods_float32_c = ''Float32''"
| "type_name dods_float64_c = ''Float64''"
| "type_name dods_str_c = ''String''"
| "type_name dods_url_c = ''Url''"
| "type_name dods_array_c = ''Array''"
| "type_name dods_structure_c = ''Structure''"
| "type_name dods_sequence_c = ''Sequence''"
| "type_name dods_grid_c = ''Grid''"
| "type_name dods_int8_c = ''Int8''"
| "type_name dods_uint8_c = ''UInt8''"
| "type_name dods_int64_c = ''Int64''"
| "type_name dods_uint64_c = ''UInt64''"
| "type_name dods_url4_c = ''URL''"
| "type_name dods_group_c = ''Group''"
| "type_name dods_enum_c = ''Enum''"

definition is_simple_type :: "dap_type \<Rightarrow> bool" where
  "is_simple_type t = (t \<in> {dods_byte_c, dods_int8_c, dods_uint8_c, dods_int16_c, dods_uint16_c,
     dods_int32_c, dods_uint32_c, dods_int64_c, dods_uint64_c, dods_float32_c, dods_float64_c,
     dods_str_c, dods_url_c, dods_url4_c, dods_enum_c})"

definition is_vector_type :: "dap_type \<Rightarrow> bool" where
  "is_vector_type t = (t = dods_array_c)"

definition is_constructor_type :: "dap_type \<Rightarrow> bool" where
  "is_constructor_type t = (t \<in> {dods_structure_c, dods_sequence_c, dods_grid_c, dods_group_c})"

definition is_integer_type :: "dap_type \<Rightarrow> bool" where
  "is_integer_type t = (t \<in> {dods_byte_c, dods_int8_c, dods_uint8_c, dods_int16_c, dods_uint16_c,
     dods_int32_c, dods_uint32_c, dods_int64_c, dods_uint64_c})"

lemma type_kinds_partition:
  "t = dods_null_c \<or> is_simple_type t \<or> is_vector_type t \<or> is_constructor_type t"
  "\<not> (is_simple_type t \<and> is_vector_type t)" "\<not> (is_simple_type t \<and> is_constructor_type t)"
  "\<not> (is_vector_type t \<and> is_constructor_type t)" "is_integer_type t \<Longrightarrow> is_simple_type t"
  by (cases t; simp add: is_simple_type_def is_vector_type_def is_constructor_type_def is_integer_type_def)+

section \<open>Strings\<close>

text \<open>An \<open>unsigned int\<close> that receives a position: \<open>npos\<close> becomes the largest value.\<close>

definition pos_u32 :: "nat option \<Rightarrow> nat" where
  "pos_u32 p = (case p of None \<Rightarrow> 4294967295 | Some k \<Rightarrow> k mod 4294967296)"

definition prune_spaces :: "string \<Rightarrow> string res" where
  "prune_spaces name =
     (if find_first_of '' '' name 0 = None then Inr name
      else let i = pos_u32 (find_first_not_of '' '' name 0)
        in if length name < i then Inl Out_Of_Range
        else let tmp_name = drop i name;
                 j = (pos_u32 (find_first_of ''?'' tmp_name 0) + 1) mod 4294967296;
                 k = pos_u32 (find_first_not_of '' '' tmp_name j)
          in if length tmp_name < j then Inl Out_Of_Range
             else Inr (take j tmp_name @ drop (j + (k + 4294967296 - j) mod 4294967296) tmp_name))"

definition downcase :: "string \<Rightarrow> string" where
  "downcase s = map to_lower s"

definition is_quoted :: "string \<Rightarrow> bool" where
  "is_quoted s = (s \<noteq> [] \<and> hd s = dquote \<and> last s = dquote)"

text \<open>\<open>s.substr(1, s.length() - 2)\<close>: for the lone quote the length wraps around, and the rest,
  the empty string, is taken.\<close>

definition remove_quotes :: "string \<Rightarrow> string" where
  "remove_quotes s =
     (if is_quoted s then if length s < 2 then drop 1 s else substr s 1 (length s - 2) else s)"

text \<open>The names are copied and sorted; two consecutive equal names are a duplicate.\<close>

fun adjacent_equal :: "string list \<Rightarrow> string option" where
  "adjacent_equal (x # y # l) = (if x = y then Some y else adjacent_equal (y # l))"
| "adjacent_equal _ = None"

definition unique_names :: "string list \<Rightarrow> string \<Rightarrow> string \<Rightarrow> string option" where
  "unique_names names var_name ty_name =
     (case adjacent_equal (sort names) of
        None \<Rightarrow> None
      | Some n \<Rightarrow> Some (''The variable `'' @ n @ [CHR 0x27] @ '' is used more than once in ''
                 @ ty_name @ '' `'' @ var_name @ [CHR 0x27]))"

definition path_to_filename :: "string \<Rightarrow> string" where
  "path_to_filename path =
     (case str_rfind (CHR ''/'') path of None \<Rightarrow> path | Some pos \<Rightarrow> drop (pos + 1) path)"

section \<open>Integers as strings\<close>

definition long_digit :: "nat \<Rightarrow> char" where
  "long_digit d = ''0123456789ABCDEFGHIJKLMNOPQRSTUVWXYZ'' ! d"

text \<open>
  The recursive call gets the quotient of \<open>labs(val)\<close>, so only the outermost call can see a
  negative value.  \<open>labs\<close> of the least \<open>long\<close> is undefined; a bad base throws
  \<open>std::invalid_argument\<close>.
\<close>

datatype num_exn = Invalid_Argument | Labs_Overflow

function append_digits :: "nat \<Rightarrow> nat \<Rightarrow> string \<Rightarrow> string" where
  "append_digits base n str_val =
     (if base < 2 then str_val
      else (if n div base > 0 then append_digits base (n div base) str_val else str_val)
        @ [long_digit (n mod base)])"
  by pat_completeness auto
termination
  by (relation "measure (\<lambda>(b, n, s). n)") (auto simp: div_greater_zero_iff)

declare append_digits.simps [simp del]

definition append_long_to_string :: "int \<Rightarrow> int \<Rightarrow> string \<Rightarrow> num_exn + string" where
  "append_long_to_string val base str_val =
     (if base > 36 \<or> base < 2 then Inl Invalid_Argument
      else if val = - 9223372036854775808 then Inl Labs_Overflow
      else let s = (if val < 0 then str_val @ ''-'' else str_val)
        in Inr (append_digits (nat base) (nat \<bar>val\<bar>) s))"

definition long_to_string :: "int \<Rightarrow> int \<Rightarrow> num_exn + string" where
  "long_to_string val base = append_long_to_string val base ''''"

section \<open>The \<open>glob\<close> matcher\<close>

text \<open>
  \<open>globchars\<close> builds the bit list of a character class from the text between the opening
  bracket and the position after the closing one (the closing bracket is part of it).  The
  list has 128 bits: a character above 127 indexes outside of it.
\<close>

fun class_bits :: "string \<Rightarrow> nat set" where
  "class_bits [] = {}"
| "class_bits (a # d # b # w) =
     (if d = CHR ''-'' then {ord_of a..ord_of b} \<union> class_bits w
      else insert (ord_of a) (class_bits (d # b # w)))"
| "class_bits (a # w) = insert (ord_of a) (class_bits w)"

definition globchars :: "string \<Rightarrow> nat set" where
  "globchars w =
     (if w \<noteq> [] \<and> hd w = CHR ''^'' then {0..127} - class_bits (tl w) else class_bits w) - {0}"

text \<open>
  The scan for the closing bracket: it starts one character after the opening bracket and
  never takes that first character for the closing one.  The result is the class text and
  the rest of the pattern.
\<close>

definition class_scan :: "string \<Rightarrow> (string \<times> string) option" where
  "class_scan c = (if c = [] then None
     else case find_from (\<lambda>x. x = CHR '']'') c 1 of
        None \<Rightarrow> None | Some k \<Rightarrow> Some (take (k + 1) c, drop (k + 1) c))"

lemma class_scan_length: "class_scan c = Some (w, r) \<Longrightarrow> length r < length c"
  by (auto simp: class_scan_def split: if_splits option.splits dest!: find_from_Some)



text \<open>
  The loop over the suffixes a star may leave, shortest first, down to but without \<open>here\<close>;
  it returns the value the function returns, if it does.
\<close>

fun star_loop :: "int \<Rightarrow> (string \<Rightarrow> int res) \<Rightarrow> string list \<Rightarrow> int option res" where
  "star_loop i g [] = Inr None"
| "star_loop i g (t # ts) = bindE (g t) (\<lambda>r.
     if r = 0 then Inr (Some 0) else if r < 0 then Inr (Some i) else star_loop i g ts)"

definition proper_suffixes :: "string \<Rightarrow> string list" where
  "proper_suffixes s = map (\<lambda>k. drop (length s - k) s) [0..<length s]"

lemma star_loop_cong [fundef_cong]:
  "i = j \<Longrightarrow> ts = us \<Longrightarrow> (\<And>t. t \<in> set us \<Longrightarrow> f t = g t) \<Longrightarrow> star_loop i f ts = star_loop j g us"
  by (induction us arbitrary: ts) (auto split: bindE_splits)

function glob_loop :: "int \<Rightarrow> string \<Rightarrow> string \<Rightarrow> int res" where
  "glob_loop i [] s = Inr (if s = [] then 0 else - 1)"
| "glob_loop i (p # c) s =
    (if p = CHR ''?'' then if s = [] then Inr i else glob_loop (i + 1) c (tl s)
     else if p = CHR ''['' then
       case class_scan c of
         None \<Rightarrow> Inr i
       | Some (w, r) \<Rightarrow>
           if \<not> list_all (\<lambda>x. ord_of x < 128) (w @ take 1 s) then Inl Undefined
           else if s = [] \<or> ord_of (hd s) \<notin> globchars w then Inr i
           else glob_loop (i + 1) r (tl s)
     else if p = CHR ''*'' then
       bindE (star_loop i (\<lambda>t. if c \<noteq> [] then glob_loop 1 c t else Inr (if t \<noteq> [] then - 1 else 0))
                (proper_suffixes s))
         (\<lambda>v. case v of Some r \<Rightarrow> Inr r | None \<Rightarrow> glob_loop (i + 1) c s)
     else if p = bslash then
       if c = [] \<or> s = [] \<or> hd s \<noteq> hd c then Inr i else glob_loop (i + 1) (tl c) (tl s)
     else if s = [] \<or> hd s \<noteq> p then Inr i else glob_loop (i + 1) c (tl s))"
  by pat_completeness auto
termination
  by (relation "measure (\<lambda>(i, c, s). length c)") (auto dest!: class_scan_length)

declare glob_loop.simps [simp del]

definition glob :: "string \<Rightarrow> string \<Rightarrow> int res" where
  "glob c s = glob_loop 1 (c_str c) (c_str s)"

section \<open>Checks on sizes and path names\<close>

text \<open>Both arguments and the division are \<open>unsigned int\<close>.\<close>

definition size_ok :: "u32 \<Rightarrow> u32 \<Rightarrow> bool" where
  "size_ok sz nelem = (sz > 0 \<and> nelem < (- 1) div sz)"

text \<open>
  \<open>Regex::match\<close> for a pattern \<open>[...]+\<close>: the length of the leftmost longest run of characters
  of the set, or -1.  The class \<open>[-0-9A-z_./]\<close> has the six characters between \<open>Z\<close> and \<open>a\<close>;
  \<open>[:print:]\<close> outside of a bracket is the set of the seven characters in it.
\<close>

definition regex_match_plus :: "(char \<Rightarrow> bool) \<Rightarrow> string \<Rightarrow> int" where
  "regex_match_plus P s =
     (if length s > 32766 then - 1
      else case dropWhile (\<lambda>c. \<not> P c) (c_str s) of
        [] \<Rightarrow> - 1 | t \<Rightarrow> int (length (takeWhile P t)))"

definition strict_char :: "char \<Rightarrow> bool" where
  "strict_char c = (c \<in> set ''-_./'' \<or> is_digit c \<or> 65 \<le> ord_of c \<and> ord_of c \<le> 122)"

definition lax_char :: "char \<Rightarrow> bool" where
  "lax_char c = (c \<in> set '':print'')"

definition pathname_ok :: "string \<Rightarrow> bool \<Rightarrow> bool" where
  "pathname_ok path strict =
     (\<not> length path > 255
      \<and> regex_match_plus (if strict then strict_char else lax_char) path = int (length path))"



section \<open>The matcher against its specification\<close>

text \<open>The strings a pattern matches.  \<open>globchars w\<close> is the set of codes of a class.\<close>

inductive glob_matches :: "string \<Rightarrow> string \<Rightarrow> bool" where
  gm_end: "glob_matches [] []"
| gm_any: "glob_matches c s \<Longrightarrow> glob_matches (CHR ''?'' # c) (x # s)"
| gm_class: "class_scan c = Some (w, r) \<Longrightarrow> ord_of x \<in> globchars w \<Longrightarrow> glob_matches r s
    \<Longrightarrow> glob_matches (CHR ''['' # c) (x # s)"
| gm_star: "glob_matches c s \<Longrightarrow> glob_matches (CHR ''*'' # c) (u @ s)"
| gm_escape: "glob_matches c s \<Longrightarrow> glob_matches (bslash # x # c) (x # s)"
| gm_char: "p \<notin> {CHR ''?'', CHR ''['', CHR ''*'', bslash} \<Longrightarrow> glob_matches c s
    \<Longrightarrow> glob_matches (p # c) (p # s)"

inductive_simps glob_matches_Nil: "glob_matches [] s"
inductive_simps glob_matches_any: "glob_matches (CHR ''?'' # c) s"
inductive_simps glob_matches_class: "glob_matches (CHR ''['' # c) s"
inductive_simps glob_matches_star: "glob_matches (CHR ''*'' # c) s"
inductive_simps glob_matches_escape: "glob_matches (bslash # c) s"
inductive_simps glob_matches_Cons: "glob_matches (p # c) s"

text \<open>
  What a call promises: a value, zero exactly for a match, and negative only where no longer
  string with the same end matches either, which is why the loop of a star may give up.
\<close>

definition glob_result :: "(string \<Rightarrow> bool) \<Rightarrow> string \<Rightarrow> int res \<Rightarrow> bool" where
  "glob_result M s res =
     (\<exists>r. res = Inr r \<and> (r = 0 \<longleftrightarrow> M s) \<and> (r < 0 \<longrightarrow> (\<forall>u. \<not> M (u @ s))))"

lemma star_loop_result:
  assumes "\<And>t. t \<in> set ts \<Longrightarrow> glob_result M t (g t)"
    and "sorted_wrt (\<lambda>a b. \<exists>u. b = u @ a) (ts @ [s])" and "i > 0"
  shows "\<exists>v. star_loop i g ts = Inr v \<and>
    (case v of None \<Rightarrow> \<forall>t\<in>set ts. \<not> M t
     | Some r \<Rightarrow> r = 0 \<and> (\<exists>t\<in>set ts. M t) \<or> r > 0 \<and> (\<forall>t\<in>set ts \<union> {s}. \<not> M t) \<and> (\<forall>u. \<not> M (u @ s)))"
  using assms(1,2)
proof (induction ts)
  case (Cons t ts)
  from Cons.prems(1) [of t] obtain r
    where r: "g t = Inr r" "r = 0 \<longleftrightarrow> M t" "r < 0 \<longrightarrow> (\<forall>u. \<not> M (u @ t))"
    by (auto simp: glob_result_def)
  consider "r = 0" | "r < 0" | "r > 0" by linarith
  then show ?case
  proof cases
    case 1
    with r show ?thesis by auto
  next
    case 2
    then have no: "\<not> M (u @ t)" for u using r(3) by blast
    have "\<exists>u. x = u @ t" if "x \<in> set ts \<union> {s}" for x
      using Cons.prems(2) that by auto
    with no have "\<forall>x\<in>set ts \<union> {s}. \<not> M x" by metis
    moreover from Cons.prems(2) obtain u where "s = u @ t" by auto
    with no have "\<forall>v. \<not> M (v @ s)" by (metis append.assoc)
    ultimately show ?thesis using r 2 no [of "[]"] \<open>i > 0\<close> by auto
  next
    case 3
    from Cons.IH Cons.prems obtain v where v: "star_loop i g ts = Inr v"
      "case v of None \<Rightarrow> \<forall>t\<in>set ts. \<not> M t
        | Some r \<Rightarrow> r = 0 \<and> (\<exists>t\<in>set ts. M t) \<or> r > 0 \<and> (\<forall>t\<in>set ts \<union> {s}. \<not> M t) \<and> (\<forall>u. \<not> M (u @ s))"
      by auto
    with r 3 show ?thesis by (auto split: option.splits)
  qed
qed simp

lemma set_proper_suffixes: "set (proper_suffixes s) = {t. \<exists>u. u \<noteq> [] \<and> s = u @ t}"
proof (intro set_eqI iffI)
  fix t assume "t \<in> set (proper_suffixes s)"
  then obtain k where k: "k < length s" "t = drop (length s - k) s"
    by (auto simp: proper_suffixes_def)
  then have "take (length s - k) s \<noteq> [] \<and> s = take (length s - k) s @ t" by auto
  then show "t \<in> {t. \<exists>u. u \<noteq> [] \<and> s = u @ t}" by blast
next
  fix t assume "t \<in> {t. \<exists>u. u \<noteq> [] \<and> s = u @ t}"
  then obtain u where u: "u \<noteq> []" "s = u @ t" by auto
  then have "t = drop (length s - length t) s" "length t < length s" by auto
  then show "t \<in> set (proper_suffixes s)" by (auto simp: proper_suffixes_def)
qed

lemma sorted_proper_suffixes: "sorted_wrt (\<lambda>a b. \<exists>u. b = u @ a) (proper_suffixes s @ [s])"
proof -
  have "\<exists>u. drop (length s - l) s = u @ drop (length s - k) s" if "k \<le> l" "l \<le> length s" for k l
  proof -
    have "drop (length s - k) s = drop (l - k) (drop (length s - l) s)" using that by simp
    then show ?thesis by (metis append_take_drop_id)
  qed
  then have *: "sorted_wrt (\<lambda>a b. \<exists>u. b = u @ a) (proper_suffixes s)"
    by (auto simp: proper_suffixes_def sorted_wrt_map sorted_wrt_iff_nth_less)
  show ?thesis using * by (auto simp: sorted_wrt_append set_proper_suffixes)
qed

lemma class_scan_parts: "class_scan c = Some (w, r) \<Longrightarrow> c = w @ r"
  by (auto simp: class_scan_def split: if_splits option.splits)

definition ascii :: "string \<Rightarrow> bool" where
  "ascii s = (\<forall>x\<in>set s. ord_of x < 128)"

lemma glob_result_step:
  assumes "glob_result M s res" and "M' (x # s) \<longleftrightarrow> M s"
    and "\<And>u. M' (u @ x # s) \<Longrightarrow> \<exists>v. M (v @ s)"
  shows "glob_result M' (x # s) res"
  using assms unfolding glob_result_def by blast

lemma glob_result_fail: "\<not> M s \<Longrightarrow> i > 0 \<Longrightarrow> glob_result M s (Inr i)"
  by (simp add: glob_result_def)

text \<open>After the first character of a pattern is used, the rest of a longer string is longer too.\<close>

lemma longer_rest: "u @ x # s = y # w \<Longrightarrow> \<exists>v. w = v @ s"
  by (cases u) (auto intro: exI [of _ "_ @ [x]"] simp del: append_assoc simp add: append.assoc [symmetric])


lemma star_split:
  assumes "u @ s = v @ t"
  shows "(\<exists>w. t = w @ s) \<or> t \<in> set (proper_suffixes s)"
proof -
  from assms consider us where "u @ us = v" "s = us @ t" | us where "us @ s = t"
    by (auto simp: append_eq_append_conv2)
  then show ?thesis
  proof cases
    case (1 us)
    then show ?thesis by (cases "us = []") (auto simp: set_proper_suffixes)
  qed auto
qed

lemma star_longer:
  "glob_matches (CHR ''*'' # c) (u @ s) \<Longrightarrow>
   (\<exists>w. glob_matches c (w @ s)) \<or> (\<exists>t\<in>set (proper_suffixes s). glob_matches c t)"
  unfolding glob_matches_star using star_split by blast

lemma star_iff:
  "glob_matches (CHR ''*'' # c) s \<longleftrightarrow> glob_matches c s \<or> (\<exists>t\<in>set (proper_suffixes s). glob_matches c t)"
proof
  assume "glob_matches (CHR ''*'' # c) s"
  then obtain u t where "s = u @ t" "glob_matches c t" by (auto simp: glob_matches_star)
  then show "glob_matches c s \<or> (\<exists>t\<in>set (proper_suffixes s). glob_matches c t)"
    by (cases "u = []") (auto simp: set_proper_suffixes)
next
  assume "glob_matches c s \<or> (\<exists>t\<in>set (proper_suffixes s). glob_matches c t)"
  then show "glob_matches (CHR ''*'' # c) s"
    using gm_star [of c s "[]"] by (auto simp: set_proper_suffixes intro: gm_star)
qed

lemma glob_loop_result:
  assumes "ascii c" and "ascii s" and "i > 0"
  shows "glob_result (glob_matches c) s (glob_loop i c s)"
  using assms
proof (induction i c s rule: glob_loop.induct)
  case (1 i s)
  then show ?case by (auto simp: glob_result_def glob_loop.simps glob_matches_Nil)
next
  case (2 i p c s)
  have c: "ascii c" "ascii (tl c)" and s: "ascii (tl s)"
    using 2 by (auto simp: ascii_def dest: list.set_sel(2) [rotated]) (metis list.sel(2) list.set_sel(2))+
  consider "p = CHR ''?''" | "p = CHR ''[''" | "p = CHR ''*''" | "p = bslash"
    | "p \<notin> {CHR ''?'', CHR ''['', CHR ''*'', bslash}" by blast
  then show ?case
  proof cases
    case 1
    show ?thesis
    proof (cases s)
      case (Cons x t)
      have "glob_result (glob_matches c) t (glob_loop (i + 1) c t)"
        using "2.IH"(1) 1 Cons c s "2.prems" by simp
      then have "glob_result (glob_matches (p # c)) (x # t) (glob_loop (i + 1) c t)"
        by (rule glob_result_step) (auto simp: 1 glob_matches_any dest!: longer_rest)
      then show ?thesis using 1 Cons by (simp add: glob_loop.simps(2))
    qed (use 1 "2.prems" in \<open>auto simp: glob_loop.simps glob_matches_any intro!: glob_result_fail\<close>)
  next
    case 2
    show ?thesis
    proof (cases "class_scan c")
      case None
      with 2 "2.prems" show ?thesis
        by (auto simp: glob_loop.simps(2) glob_matches_class intro!: glob_result_fail)
    next
      case (Some wr)
      obtain w r where wr: "class_scan c = Some (w, r)" using Some by (cases wr) auto
      have asc: "list_all (\<lambda>x. ord_of x < 128) (w @ take 1 s)" "ascii r"
        using class_scan_parts [OF wr] c \<open>ascii s\<close>
        by (auto simp: ascii_def list_all_iff dest: in_set_takeD)
      show ?thesis
      proof (cases "s = [] \<or> ord_of (hd s) \<notin> globchars w")
        case True
        with 2 wr asc "2.prems" show ?thesis
          by (auto simp: glob_loop.simps(2) glob_matches_class intro!: glob_result_fail)
      next
        case False
        then obtain x t where s': "s = x # t" by (cases s) auto
        have "glob_result (glob_matches r) t (glob_loop (i + 1) r t)"
          using "2.IH"(2) [of "(w, r)" w r] 2 wr False asc s s' "2.prems" by simp
        then have "glob_result (glob_matches (p # c)) (x # t) (glob_loop (i + 1) r t)"
          by (rule glob_result_step) (use 2 wr False s' in \<open>auto simp: glob_matches_class dest!: longer_rest\<close>)
        then show ?thesis using 2 wr False asc s'
          by (simp add: glob_loop.simps(2))
      qed
    qed
  next
    case 3
    have sub: "glob_result (glob_matches c) t (if c \<noteq> [] then glob_loop 1 c t else Inr (if t \<noteq> [] then - 1 else 0))"
      if "t \<in> set (proper_suffixes s)" for t
    proof (cases "c = []")
      case False
      have "ascii t" using that \<open>ascii s\<close> by (auto simp: set_proper_suffixes ascii_def)
      with False show ?thesis using "2.IH"(3) 3 c that by simp
    qed (auto simp: glob_result_def glob_matches_Nil)
    obtain v where v: "star_loop i (\<lambda>t. if c \<noteq> [] then glob_loop 1 c t else Inr (if t \<noteq> [] then - 1 else 0))
        (proper_suffixes s) = Inr v"
      and post: "case v of None \<Rightarrow> \<forall>t\<in>set (proper_suffixes s). \<not> glob_matches c t
        | Some r \<Rightarrow> r = 0 \<and> (\<exists>t\<in>set (proper_suffixes s). glob_matches c t)
          \<or> r > 0 \<and> (\<forall>t\<in>set (proper_suffixes s) \<union> {s}. \<not> glob_matches c t) \<and> (\<forall>u. \<not> glob_matches c (u @ s))"
      using star_loop_result [OF sub sorted_proper_suffixes \<open>i > 0\<close>] by blast
    show ?thesis
    proof (cases v)
      case (Some r)
      show ?thesis using post Some v 3
        by (auto simp: glob_loop.simps(2) glob_result_def star_iff dest!: star_longer)
    next
      case None
      have rec: "glob_result (glob_matches c) s (glob_loop (i + 1) c s)"
        using "2.IH"(4) 3 c "2.prems" by simp
      have no: "\<not> glob_matches c t" if "t \<in> set (proper_suffixes s)" for t
        using post None that by simp
      have "glob_matches (p # c) s \<longleftrightarrow> glob_matches c s"
        using no 3 by (auto simp: star_iff)
      moreover have "\<exists>v. glob_matches c (v @ s)" if "glob_matches (p # c) (u @ s)" for u
        using star_longer that no 3 by blast
      ultimately have "glob_result (glob_matches (p # c)) s (glob_loop (i + 1) c s)"
        using rec unfolding glob_result_def by blast
      then show ?thesis using 3 v None by (simp add: glob_loop.simps(2))
    qed
  next
    case 4
    show ?thesis
    proof (cases "c = [] \<or> s = [] \<or> hd s \<noteq> hd c")
      case True
      with 4 "2.prems" show ?thesis
        by (auto simp: glob_loop.simps(2) glob_matches_escape intro!: glob_result_fail)
    next
      case False
      then obtain x c' t where s': "c = x # c'" "s = x # t" by (cases c; cases s) auto
      have "glob_result (glob_matches c') t (glob_loop (i + 1) c' t)"
        using "2.IH"(5) 4 s s' c "2.prems" by simp
      then have "glob_result (glob_matches (p # c)) (x # t) (glob_loop (i + 1) c' t)"
        by (rule glob_result_step) (use 4 s' in \<open>auto simp: glob_matches_escape dest!: longer_rest\<close>)
      then show ?thesis using 4 s' by (simp add: glob_loop.simps(2))
    qed
  next
    case 5
    show ?thesis
    proof (cases "s = [] \<or> hd s \<noteq> p")
      case True
      with 5 "2.prems" show ?thesis
        by (cases s) (auto simp: glob_loop.simps(2) glob_matches_Cons intro!: glob_result_fail)
    next
      case False
      then obtain t where s': "s = p # t" by (cases s) auto
      have "glob_result (glob_matches c) t (glob_loop (i + 1) c t)"
        using "2.IH"(6) 5 s s' c "2.prems" by simp
      then have "glob_result (glob_matches (p # c)) (p # t) (glob_loop (i + 1) c t)"
        by (rule glob_result_step) (use 5 s' in \<open>auto simp: glob_matches_Cons dest!: longer_rest\<close>)
      then show ?thesis using 5 s' by (simp add: glob_loop.simps(2))
    qed
  qed
qed


section \<open>What a pattern means\<close>

text \<open>
  The patterns the documentation of \<open>glob\<close> lists, as syntax trees: a class is given by its ranges,
  a single character being a range of its own.  The documented meaning is that a class matches a
  character in one of its ranges, or in none of them; what \<open>glob\<close> does is to count the closing
  bracket among the characters of the class.
\<close>

datatype pattern_item = Any_Text | Any_Char | Plain char | Quoted char | Class bool "(char \<times> char) list"

definition in_class :: "bool \<Rightarrow> (char \<times> char) list \<Rightarrow> char \<Rightarrow> bool" where
  "in_class negated ranges x \<longleftrightarrow>
     (x = CHR '']'' \<or> list_ex (\<lambda>(a, b). ord_of a \<le> ord_of x \<and> ord_of x \<le> ord_of b) ranges) \<noteq> negated"

primrec item_strings :: "pattern_item \<Rightarrow> string set" where
  "item_strings Any_Text = UNIV"
| "item_strings Any_Char = {s. length s = 1}"
| "item_strings (Plain c) = {[c]}"
| "item_strings (Quoted c) = {[c]}"
| "item_strings (Class negated ranges) = {[x] | x. in_class negated ranges x}"

primrec pattern_strings :: "pattern_item list \<Rightarrow> string set" where
  "pattern_strings [] = {[]}"
| "pattern_strings (i # is) = {u @ v | u v. u \<in> item_strings i \<and> v \<in> pattern_strings is}"

text \<open>How a pattern is written, and which trees can be.\<close>

fun range_text :: "char \<times> char \<Rightarrow> string" where
  "range_text (a, b) = (if a = b then [a] else [a, CHR ''-'', b])"

primrec item_text :: "pattern_item \<Rightarrow> string" where
  "item_text Any_Text = ''*''"
| "item_text Any_Char = ''?''"
| "item_text (Plain c) = [c]"
| "item_text (Quoted c) = [bslash, c]"
| "item_text (Class negated ranges) = ''['' @ (if negated then ''^'' else []) @ concat (map range_text ranges) @ '']''"

definition range_ok :: "char \<times> char \<Rightarrow> bool" where
  "range_ok r \<longleftrightarrow> fst r \<notin> set ''-]'' \<and> snd r \<noteq> CHR '']''"

primrec item_ok :: "pattern_item \<Rightarrow> bool" where
  "item_ok Any_Text = True"
| "item_ok Any_Char = True"
| "item_ok (Plain c) = (c \<notin> {CHR ''?'', CHR ''['', CHR ''*'', bslash})"
| "item_ok (Quoted c) = True"
| "item_ok (Class negated ranges) = (list_all range_ok ranges \<and> (negated \<or> ranges \<noteq> [] \<and> fst (hd ranges) \<noteq> CHR ''^''))"

definition pattern_text :: "pattern_item list \<Rightarrow> string" where
  "pattern_text is = concat (map item_text is)"

text \<open>The bits of a class are those of its ranges and the bracket's.\<close>

lemma class_bits_single: "w = [] \<or> hd w \<noteq> CHR ''-'' \<Longrightarrow> class_bits (a # w) = insert (ord_of a) (class_bits w)"
  by (cases w; cases "tl w") auto

lemma ranges_text_hd: "list_all range_ok rs \<Longrightarrow> hd (concat (map range_text rs) @ '']'') \<noteq> CHR ''-''"
  by (cases rs) (auto simp: range_ok_def split: if_splits)

lemma class_bits_ranges:
  "list_all range_ok rs \<Longrightarrow>
   class_bits (concat (map range_text rs) @ '']'') = insert (ord_of (CHR '']'')) (\<Union>(a, b) \<in> set rs. {ord_of a..ord_of b})"
proof (induction rs)
  case (Cons r rs)
  obtain a b where r: "r = (a, b)" by (cases r)
  have ok: "list_all range_ok rs" using Cons.prems by simp
  show ?case
  proof (cases "a = b")
    case True
    have "class_bits (a # concat (map range_text rs) @ '']'') = insert (ord_of a) (class_bits (concat (map range_text rs) @ '']''))"
      by (rule class_bits_single) (rule disjI2, rule ranges_text_hd [OF ok])
    then show ?thesis using Cons.IH [OF ok] r True by auto
  next
    case False
    then show ?thesis using Cons.IH [OF ok] r by auto
  qed
qed simp

lemma ranges_text_bracket: "list_all range_ok rs \<Longrightarrow> CHR '']'' \<notin> set (concat (map range_text rs))"
  by (induction rs) (auto simp: range_ok_def split: if_splits)

lemma find_idx_append:
  "\<forall>x\<in>set xs. \<not> P x \<Longrightarrow> P c \<Longrightarrow> find_idx P (xs @ c # ys) = Some (length xs)"
  by (induction xs) auto

lemma class_scan_text: "w \<noteq> [] \<Longrightarrow> CHR '']'' \<notin> set w \<Longrightarrow> class_scan (w @ CHR '']'' # r) = Some (w @ '']'', r)"
proof -
  assume w: "w \<noteq> []" "CHR '']'' \<notin> set w"
  have "find_from (\<lambda>x. x = CHR '']'') (w @ CHR '']'' # r) 1 = Some (length w)"
    using w find_idx_append [of "drop 1 w" "\<lambda>x. x = CHR '']''" "CHR '']''" r]
    by (cases w) (auto simp: find_from_def)
  then show "class_scan (w @ CHR '']'' # r) = Some (w @ '']'', r)" using w by (simp add: class_scan_def)
qed

lemma class_text:
  assumes "item_ok (Class negated ranges)" "0 < ord_of x" "ord_of x < 128"
  shows "\<exists>w. class_scan (tl (item_text (Class negated ranges)) @ r) = Some (w, r) \<and> (ord_of x \<in> globchars w \<longleftrightarrow> in_class negated ranges x)"
proof -
  let ?body = "concat (map range_text ranges)"
  let ?w = "(if negated then ''^'' else []) @ ?body"
  have ok: "list_all range_ok ranges" using assms(1) by simp
  have head: "\<not> negated \<Longrightarrow> ?body \<noteq> [] \<and> hd ?body \<noteq> CHR ''^''"
    using assms(1) by (cases ranges) (auto split: if_splits)
  then have "?w \<noteq> []" "CHR '']'' \<notin> set ?w" using ranges_text_bracket [OF ok] by auto
  from class_scan_text [OF this, of r]
  have s: "class_scan (tl (item_text (Class negated ranges)) @ r) = Some (?w @ '']'', r)" by simp
  have "class_bits (?body @ '']'') = insert (ord_of (CHR '']'')) (\<Union>(a, b) \<in> set ranges. {ord_of a..ord_of b})"
    by (rule class_bits_ranges [OF ok])
  moreover have "ord_of x = ord_of (CHR '']'') \<longleftrightarrow> x = CHR '']''" by (simp only: ord_of_def of_char_eq_iff)
  ultimately have c: "ord_of x \<in> class_bits (?body @ '']'') \<longleftrightarrow> in_class False ranges x"
    by (simp add: in_class_def list_ex_iff case_prod_beta)
  have "ord_of x \<in> globchars (?w @ '']'') \<longleftrightarrow> in_class negated ranges x"
  proof (cases negated)
    case True
    then show ?thesis using c assms(2,3) by (simp add: globchars_def in_class_def)
  next
    case False
    with head c assms(2) show ?thesis by (simp add: globchars_def)
  qed
  with s show ?thesis by blast
qed

text \<open>The matching relation of the code agrees with the meaning of the tree.\<close>

lemma glob_matches_one:
  assumes "item_strings i = {[x] | x. P x}"
    and "\<And>y v. s = y # v \<Longrightarrow> M (y # v) \<longleftrightarrow> P y \<and> v \<in> pattern_strings is"
    and "\<not> M []"
  shows "M s \<longleftrightarrow> s \<in> pattern_strings (i # is)"
proof (cases s)
  case Nil
  with assms(1,3) show ?thesis by simp
next
  case (Cons y v)
  have "y # v \<in> pattern_strings (i # is) \<longleftrightarrow> P y \<and> v \<in> pattern_strings is"
    unfolding pattern_strings.simps(2) assms(1) by (auto intro: exI [of _ "[y]"])
  with assms(2) [OF Cons] Cons show ?thesis by simp
qed

lemma pattern_matches:
  "list_all item_ok is \<Longrightarrow> ascii s \<Longrightarrow> nul \<notin> set s \<Longrightarrow> glob_matches (pattern_text is) s \<longleftrightarrow> s \<in> pattern_strings is"
proof (induction "is" arbitrary: s)
  case Nil
  then show ?case by (simp add: pattern_text_def glob_matches_Nil)
next
  case (Cons i "is")
  have IH: "glob_matches (pattern_text is) t \<longleftrightarrow> t \<in> pattern_strings is" if "s = u @ t" for u t
    using Cons that by (simp add: ascii_def)
  have IH1: "glob_matches (pattern_text is) v \<longleftrightarrow> v \<in> pattern_strings is" if "s = y # v" for y v
    using IH [of "[y]" v] that by simp
  have t: "pattern_text (i # is) = item_text i @ pattern_text is" by (simp add: pattern_text_def)
  show ?case
  proof (cases i)
    case Any_Text
    have "glob_matches (CHR ''*'' # pattern_text is) s \<longleftrightarrow> (\<exists>u v. s = u @ v \<and> v \<in> pattern_strings is)"
      unfolding glob_matches_star using IH by blast
    then show ?thesis by (simp add: pattern_text_def Any_Text)
  next
    case Any_Char
    show ?thesis unfolding t
      by (rule glob_matches_one [where P = "\<lambda>x. True"])
        (use IH1 in \<open>auto simp: Any_Char length_Suc_conv glob_matches_any\<close>)
  next
    case (Plain c)
    have c: "c \<noteq> CHR ''?''" "c \<noteq> CHR ''[''" "c \<noteq> CHR ''*''" "c \<noteq> bslash" using Cons.prems(1) Plain by auto
    show ?thesis unfolding t
      by (rule glob_matches_one [where P = "\<lambda>x. x = c"])
        (use IH1 c in \<open>auto simp: Plain glob_matches_Cons\<close>)
  next
    case (Quoted c)
    show ?thesis unfolding t
      by (rule glob_matches_one [where P = "\<lambda>x. x = c"])
        (use IH1 in \<open>auto simp: Quoted glob_matches_escape\<close>)
  next
    case (Class negated ranges)
    have g: "glob_matches (CHR ''['' # tl (item_text i) @ pattern_text is) (y # v) \<longleftrightarrow>
        in_class negated ranges y \<and> v \<in> pattern_strings is" if s: "s = y # v" for y v
    proof -
      have "nul \<noteq> y" "ord_of y < 128" using Cons.prems(2,3) s by (auto simp: ascii_def ord_of_def)
      moreover have "ord_of nul = 0" by (simp add: ord_of_def)
      ultimately have "0 < ord_of y" "ord_of y < 128" by (metis gr0I ord_of_inject)+
      then obtain w where "class_scan (tl (item_text i) @ pattern_text is) = Some (w, pattern_text is)"
          "ord_of y \<in> globchars w \<longleftrightarrow> in_class negated ranges y"
        using class_text [of negated ranges y "pattern_text is"] Class Cons.prems(1) by auto
      then show ?thesis using IH1 [OF s] by (simp add: glob_matches_class)
    qed
    have i: "item_text i = CHR ''['' # tl (item_text i)" using Class by simp
    show ?thesis unfolding t
      by (subst i, rule glob_matches_one [where P = "in_class negated ranges"])
        (use g in \<open>simp_all add: Class glob_matches_class\<close>)
  qed
qed

section \<open>Lemmas on the other helpers\<close>

lemma adjacent_equal_None: "sorted xs \<Longrightarrow> adjacent_equal xs = None \<longleftrightarrow> distinct xs"
  by (induction xs rule: adjacent_equal.induct) (auto dest: order.antisym)

lemma adjacent_equal_Some: "adjacent_equal xs = Some n \<Longrightarrow> n \<in> set xs"
  by (induction xs rule: adjacent_equal.induct) (auto split: if_splits)

text \<open>The value of a digit string in a base up to 36, as \<open>strtol\<close> reads it.\<close>

definition long_digit_value :: "char \<Rightarrow> nat" where
  "long_digit_value c =
     (if is_digit c then ord_of c - 48 else ord_of c - 55)"

definition digits_number :: "nat \<Rightarrow> string \<Rightarrow> nat" where
  "digits_number base s = foldl (\<lambda>n c. base * n + long_digit_value c) 0 s"

lemma long_digit_value: "d < 36 \<Longrightarrow> long_digit_value (long_digit d) = d"
proof -
  have "\<forall>d\<in>set [0..<36]. long_digit_value (long_digit d) = d" by code_simp
  then show "d < 36 \<Longrightarrow> long_digit_value (long_digit d) = d" by simp
qed

lemma long_digit_not_minus: "d < 36 \<Longrightarrow> long_digit d \<noteq> CHR ''-''"
proof -
  have "\<forall>d\<in>set [0..<36]. long_digit d \<noteq> CHR ''-''" by code_simp
  then show "d < 36 \<Longrightarrow> long_digit d \<noteq> CHR ''-''" by simp
qed

lemma append_digits_append: "append_digits b n (s @ t) = s @ append_digits b n t"
proof (induction b n t rule: append_digits.induct)
  case (1 b n t)
  then show ?case
    by (cases "b < 2") (simp_all add: append_digits.simps [of b n "s @ t"] append_digits.simps [of b n t])
qed

lemma digits_number_append_digits:
  "2 \<le> b \<Longrightarrow> b \<le> 36 \<Longrightarrow> digits_number b (append_digits b n []) = n"
proof (induction b n "[] :: string" rule: append_digits.induct)
  case (1 b n)
  have "digits_number b (if n div b > 0 then append_digits b (n div b) [] else []) = n div b"
    using 1 by (auto simp: digits_number_def)
  moreover have mod36: "n mod b < 36" using 1(2,3) by (meson less_le_trans mod_less_divisor zero_less_numeral)
  ultimately show ?case
    using 1(2,3) by (simp add: append_digits.simps [of b n] digits_number_def long_digit_value [OF mod36])
qed

lemma append_digits_head:
  "2 \<le> b \<Longrightarrow> b \<le> 36 \<Longrightarrow> append_digits b n [] \<noteq> [] \<and> hd (append_digits b n []) \<noteq> CHR ''-''"
proof (induction b n "[] :: string" rule: append_digits.induct)
  case (1 b n)
  have "n mod b < 36" using 1(2,3) by (meson less_le_trans mod_less_divisor zero_less_numeral)
  note m = long_digit_not_minus [OF this]
  show ?case
    using 1 m by (auto simp: append_digits.simps [of b n] hd_append)
qed

definition read_long :: "nat \<Rightarrow> string \<Rightarrow> int" where
  "read_long base s =
     (if s \<noteq> [] \<and> hd s = CHR ''-'' then - int (digits_number base (tl s)) else int (digits_number base s))"

lemma takeWhile_all_length: "length (takeWhile P s) = length s \<longleftrightarrow> list_all P s"
  by (induction s) auto

lemma takeWhile_dropWhile_length:
  "length (takeWhile P (dropWhile (\<lambda>c. \<not> P c) s)) = length s \<longleftrightarrow> list_all P s"
proof (induction s)
  case (Cons c s)
  have "length (takeWhile P (dropWhile (\<lambda>c. \<not> P c) s)) \<le> length s"
    by (meson le_trans length_dropWhile_le length_takeWhile_le)
  then show ?case by (simp add: takeWhile_all_length)
qed simp

lemma regex_match_plus_all:
  assumes "length s \<le> 32766" and "\<not> P nul"
  shows "regex_match_plus P s = int (length s) \<longleftrightarrow> s \<noteq> [] \<and> list_all P s"
proof -
  let ?t = "dropWhile (\<lambda>c. \<not> P c) (c_str s)"
  have len: "length (takeWhile P ?t) \<le> length (c_str s)"
    by (meson le_trans length_dropWhile_le length_takeWhile_le)
  have cs: "length (c_str s) = length s \<longleftrightarrow> list_all (\<lambda>c. c \<noteq> nul) s"
    by (simp add: c_str_def takeWhile_all_length)
  have cle: "length (c_str s) \<le> length s" by (simp add: c_str_def length_takeWhile_le)
  have "length (takeWhile P ?t) = length s \<longleftrightarrow> list_all P s"
  proof
    assume *: "length (takeWhile P ?t) = length s"
    then have "list_all (\<lambda>c. c \<noteq> nul) s" using len cle cs by simp
    then have "c_str s = s" by (auto simp: list_all_iff intro: c_str_id)
    with * show "list_all P s" using takeWhile_dropWhile_length [of P s] by simp
  next
    assume *: "list_all P s"
    then have "c_str s = s" using assms(2) by (auto simp: list_all_iff intro!: c_str_id)
    with * show "length (takeWhile P ?t) = length s" using takeWhile_dropWhile_length [of P s] by simp
  qed
  then show ?thesis
  proof (cases ?t)
    case Nil
    with \<open>_ \<longleftrightarrow> list_all P s\<close> have "list_all P s \<longleftrightarrow> s = []" by auto
    have "regex_match_plus P s = - 1" by (simp only: regex_match_plus_def Nil list.case if_cancel)
    with \<open>list_all P s \<longleftrightarrow> s = []\<close> show ?thesis by auto
  next
    case (Cons a l)
    then have "s \<noteq> []" by (auto simp: c_str_def)
    with Cons \<open>_ \<longleftrightarrow> list_all P s\<close> show ?thesis using assms(1) by (simp add: regex_match_plus_def)
  qed
qed

section \<open>Properties\<close>

text \<open>
  the name of a type is read back as that type, except that \<open>get_type\<close> does not know the
  names of groups and enumerations, which it reads as the null type.
\<close>

lemma get_type_type_name:
  "get_type (type_name t) = (if t \<in> {dods_group_c, dods_enum_c} then dods_null_c else t)"
  by (cases t) (simp_all add: get_type_def)

text \<open>
  \<open>unique_names\<close> reports no error exactly when the names are pairwise different.
\<close>

lemma unique_names_distinct: "unique_names names var_name ty_name = None \<longleftrightarrow> distinct names"
proof -
  have "adjacent_equal (sort names) = None \<longleftrightarrow> distinct names"
    by (simp add: adjacent_equal_None)
  then show ?thesis by (auto simp: unique_names_def split: option.splits)
qed

text \<open>
  for a base from 2 to 36 and every \<open>long\<close> but the least, \<open>long_to_string\<close> returns a
  string that denotes the number in that base.
\<close>

lemma long_to_string_value:
  assumes "2 \<le> base" "base \<le> 36" and "- 9223372036854775808 < v" "v \<le> 9223372036854775807"
  shows "\<exists>s. long_to_string v base = Inr s \<and> read_long (nat base) s = v"
proof -
  have b: "2 \<le> nat base" "nat base \<le> 36" using assms by auto
  note d = append_digits_head [OF b] digits_number_append_digits [OF b]
  have "append_digits (nat base) n ''-'' = CHR ''-'' # append_digits (nat base) n []" for n
    using append_digits_append [of "nat base" n "''-''" "[]"] by simp
  then show ?thesis
    using assms d by (auto simp: long_to_string_def append_long_to_string_def read_long_def)
qed

lemma long_to_string_value_witness:
  "\<exists>s. long_to_string (- 255) 16 = Inr s \<and> read_long (nat 16) s = - 255"
  by (rule long_to_string_value) simp_all

text \<open>
  every pattern, also one with a class that is not closed or with a backslash at its end: the value is
  0 exactly when \<open>glob_matches\<close> holds, although the loop of a star gives up early.
\<close>

lemma glob_value:
  assumes "ascii c" and "ascii s" and "nul \<notin> set c" and "nul \<notin> set s"
  shows "\<exists>r. glob c s = Inr r \<and> (r = 0 \<longleftrightarrow> glob_matches c s)"
  using glob_loop_result [OF assms(1,2), of 1] assms(3,4)
  by (auto simp: glob_def glob_result_def)

text \<open>
  C15: on ASCII text \<open>glob\<close> always returns a value and the value is 0 exactly when the whole string is
  among those the pattern stands for, in spite of the early exit of the star loop; the pattern is any
  that can be written from a syntax tree, and a class has its closing bracket as a character of its own.
\<close>

theorem glob_decides_match:
  assumes "list_all item_ok is" and "ascii (pattern_text is)" and "ascii s" and "nul \<notin> set (pattern_text is)" and "nul \<notin> set s"
  shows "\<exists>r. glob (pattern_text is) s = Inr r \<and> (r = 0 \<longleftrightarrow> s \<in> pattern_strings is)"
  using glob_value [OF assms(2-5)] pattern_matches [OF assms(1,3,5)] by simp

text \<open>The pattern \<open>*.n[^ac-e]\<close>.\<close>

theorem glob_decides_match_witness:
  "\<exists>r. glob ''*.n[^ac-e]'' ''x.nb'' = Inr r \<and>
     (r = 0 \<longleftrightarrow> ''x.nb'' \<in> pattern_strings [Any_Text, Plain (CHR ''.''), Plain (CHR ''n''), Class True [(CHR ''a'', CHR ''a''), (CHR ''c'', CHR ''e'')]])"
proof -
  let ?is = "[Any_Text, Plain (CHR ''.''), Plain (CHR ''n''), Class True [(CHR ''a'', CHR ''a''), (CHR ''c'', CHR ''e'')]]"
  have p: "pattern_text ?is = ''*.n[^ac-e]''" by (simp add: pattern_text_def)
  show ?thesis
    by (rule glob_decides_match [of ?is "''x.nb''", unfolded p])
      (simp_all add: range_ok_def ascii_def ord_of_def)
qed

text \<open>The documentation says that a class matches the characters of its ranges; it matches a bracket too.\<close>

lemma glob_class_bracket: "glob ''[a-z]'' '']'' = Inr 0"
  by code_simp

text \<open>
  leading spaces of a URL and of its constraint expression are removed and nothing else.
\<close>

lemma prune_spaces_removes_leading:
  assumes "CHR ''?'' \<notin> set url" "url \<noteq> []" "hd url \<noteq> CHR '' ''" "ce \<noteq> []" "hd ce \<noteq> CHR '' ''"
    and "m + length url + n + length ce < 4294967295"
  shows "prune_spaces (replicate m (CHR '' '') @ url @ ''?'' @ replicate n (CHR '' '') @ ce) = Inr (url @ ''?'' @ ce)"
proof (cases "find_first_of '' '' (replicate m (CHR '' '') @ url @ ''?'' @ replicate n (CHR '' '') @ ce) 0")
  case None
  then have no: "\<forall>c\<in>set (drop 0 (replicate m (CHR '' '') @ url @ ''?'' @ replicate n (CHR '' '') @ ce)). c \<notin> set '' ''"
    unfolding find_first_of_def find_from_None by assumption
  have "CHR '' '' \<notin> set (replicate m (CHR '' '') @ url @ ''?'' @ replicate n (CHR '' '') @ ce)"
    using bspec [OF no, of "CHR '' ''"] by (simp only: drop_0 list.set insert_iff simp_thms) blast
  then have "m = 0" "n = 0" by simp_all
  with None show ?thesis by (simp add: prune_spaces_def)
next
  case (Some k)
  let ?tmp = "url @ ''?'' @ replicate n (CHR '' '') @ ce"
  have i: "find_first_not_of '' '' (replicate m (CHR '' '') @ ?tmp) 0 = Some m"
    using assms(2,3) find_idx_append [of "replicate m (CHR '' '')" "\<lambda>c. c \<notin> set '' ''" "hd url" "tl url @ ''?'' @ replicate n (CHR '' '') @ ce"]
    by (cases url) (simp_all add: find_first_not_of_def find_from_def)
  have j: "find_first_of ''?'' ?tmp 0 = Some (length url)"
    using assms(1) find_idx_append [of url "\<lambda>c. c \<in> set ''?''" "CHR ''?''"]
    by (auto simp: find_first_of_def find_from_def)
  have k: "find_first_not_of '' '' ?tmp (length url + 1) = Some (n + (length url + 1))"
    using assms(4,5) find_idx_append [of "replicate n (CHR '' '')" "\<lambda>c. c \<notin> set '' ''" "hd ce" "tl ce"]
    by (cases ce) (simp_all add: find_first_not_of_def find_from_def)
  have "(n + (length url + 1) + 4294967296 - (length url + 1)) mod 4294967296 = n"
    using assms(6) by simp
  with Some i j k assms(6) show ?thesis
    by (simp add: prune_spaces_def pos_u32_def Let_def del: append_assoc find_from_end)
qed

lemma prune_spaces_removes_leading_witness:
  "prune_spaces (replicate 1 (CHR '' '') @ ''h'' @ ''?'' @ replicate 2 (CHR '' '') @ ''u'') = Inr (''h'' @ ''?'' @ ''u'')"
  by (rule prune_spaces_removes_leading) simp_all

text \<open>
  when \<open>size_ok\<close> accepts a number of elements of some size, their total size does not
  wrap around in an \<open>unsigned int\<close>.
\<close>

lemma size_ok_no_overflow:
  assumes "size_ok sz nelem"
  shows "unat (sz * nelem) = unat sz * unat nelem"
proof -
  have "unat nelem < unat (- 1 :: u32) div unat sz"
    using assms by (simp add: size_ok_def word_less_nat_alt unat_div_distrib)
  then have "unat nelem * unat sz \<le> unat (- 1 :: u32)"
    by (metis div_times_less_eq_dividend dual_order.trans less_or_eq_imp_le mult_le_mono1)
  also have "unat (- 1 :: u32) < 2 ^ 32" using unsigned_less [of "- 1 :: u32"] by simp
  finally have "unat sz * unat nelem < 2 ^ 32" by (simp add: mult.commute)
  then show ?thesis using unat_mult_lem [of sz nelem] by simp
qed

lemma size_ok_no_overflow_witness: "size_ok 8 1000 \<and> unat (8 * 1000 :: u32) = unat (8 :: u32) * unat (1000 :: u32)"
proof
  show "size_ok 8 1000" by (simp add: size_ok_def)
  then show "unat (8 * 1000 :: u32) = unat (8 :: u32) * unat (1000 :: u32)"
    by (rule size_ok_no_overflow)
qed

text \<open>
  \<open>pathname_ok\<close> accepts a path exactly when it is not empty, has at most 255 bytes and
  every byte is in the class; without \<open>strict\<close> the class is the seven characters of \<open>:print\<close>,
  so hardly any path is accepted.
\<close>

lemma pathname_ok_characters:
  "pathname_ok path strict \<longleftrightarrow> path \<noteq> [] \<and> \<not> length path > 255
     \<and> list_all (if strict then strict_char else lax_char) path"
proof -
  have "\<not> (if strict then strict_char else lax_char) nul"
    by (simp add: strict_char_def lax_char_def is_digit_def ord_of_def)
  then show ?thesis
    using regex_match_plus_all [of path "if strict then strict_char else lax_char"]
    by (auto simp: pathname_ok_def)
qed

end
