(* ===== verification/Escaping.thy ===== *)
theory Escaping
  imports Dap_Prelude
begin

text \<open>
  \<open>escaping.cc\<close>: the escape and unescape routines for DAP2 identifiers (hex escapes), HDF
  attribute values (octal escapes), XML text (entities) and quoted strings.  Each routine
  is the loop of the source: a search from the current position, a \<open>replace\<close> in place, a
  new position.  The locale \<open>char_scan\<close> says what such a loop computes (a character by
  character substitution) and is interpreted on every loop of that shape; the round trips
  follow from it.
\<close>

section \<open>Hex and octal strings\<close>

definition hexstring :: "char \<Rightarrow> string" where
  "hexstring val = ostream_padded 16 2 (ord_of val)"

text \<open>\<open>string(tmp_str)\<close> of a two byte buffer: empty when the byte is NUL.\<close>

definition one_char :: "int \<Rightarrow> string" where
  "one_char v = (let c = char_of (nat (v mod 256)) in if c = nul then [] else [c])"

definition unhexstring :: "string \<Rightarrow> string" where
  "unhexstring s = one_char (istream_int 16 s)"

definition octstring :: "char \<Rightarrow> string" where
  "octstring val = ostream_padded 8 3 (ord_of val)"

definition unoctstring :: "string \<Rightarrow> string" where
  "unoctstring s = one_char (istream_int 8 s)"

definition octal_to_hex :: "string \<Rightarrow> string" where
  "octal_to_hex s = ostream_padded 16 2 (nat (istream_int 8 s mod 2 ^ 32))"

section \<open>Identifiers: \<open>id2www\<close> and \<open>www2id\<close>\<close>

definition id_allowable :: string where
  "id_allowable = ''ABCDEFGHIJKLMNOPQRSTUVWXYZabcdefghijklmnopqrstuvwxyz0123456789-+_/.'' @ [bslash] @ ''*''"

definition ce_allowable :: string where
  "ce_allowable = ''ABCDEFGHIJKLMNOPQRSTUVWXYZabcdefghijklmnopqrstuvwxyz0123456789-+_/.'' @ [bslash]"

lemma length_hexstring: "length (hexstring c) = 2"
  by (simp add: hexstring_def digits_of_two)

function id2www_loop :: "string \<Rightarrow> string \<Rightarrow> nat \<Rightarrow> string" where
  "id2www_loop allowable s i =
     (case find_first_not_of allowable s i of
        None \<Rightarrow> s
      | Some k \<Rightarrow> id2www_loop allowable (str_replace s k 1 (CHR ''%'' # hexstring (s ! k))) (k + 3))"
  by pat_completeness auto
termination
  by (relation "measure (\<lambda>(a, s, i). length s - i)")
     (auto simp: find_first_not_of_def str_replace_def length_hexstring dest!: find_from_Some)

declare id2www_loop.simps [simp del]

definition id2www :: "string \<Rightarrow> string \<Rightarrow> string" where
  "id2www s allowable = id2www_loop allowable s 0"

definition id2www_ce :: "string \<Rightarrow> string \<Rightarrow> string" where
  "id2www_ce s allowable = id2www s allowable"

text \<open>\<open>except.find(t) != npos\<close>.\<close>

definition occurs_in :: "string \<Rightarrow> string \<Rightarrow> bool" where
  "occurs_in t s = (find_sub t s \<noteq> None)"

lemma length_one_char: "length (one_char v) \<le> 1"
  by (simp add: one_char_def Let_def)

function www2id_loop :: "string \<Rightarrow> string \<Rightarrow> string \<Rightarrow> nat \<Rightarrow> string" where
  "www2id_loop escape except res i =
     (case find_first_of escape res i of
        None \<Rightarrow> res
      | Some k \<Rightarrow>
          if occurs_in (substr res k 3) except
          then www2id_loop escape except res (k + 3)
          else www2id_loop escape except
                 (str_replace res k 3 (unhexstring (substr res (k + 1) 2))) (k + 1))"
  by pat_completeness auto
termination
  apply (relation "measure (\<lambda>(e, x, s, i). length s - i)")
    apply simp
   apply (auto simp: find_first_of_def dest!: find_from_Some)[1]
  subgoal for e x s i k
    using length_one_char [of "istream_int 16 (substr s (k + 1) 2)"]
    by (auto simp: find_first_of_def str_replace_def unhexstring_def dest!: find_from_Some)
  done

declare www2id_loop.simps [simp del]

definition www2id :: "string \<Rightarrow> string \<Rightarrow> string \<Rightarrow> string" where
  "www2id s escape except = www2id_loop escape except s 0"

text \<open>\<open>www2id(s)\<close> with the default arguments.\<close>

definition www2id_dflt :: "string \<Rightarrow> string" where
  "www2id_dflt s = www2id s ''%'' ''''"

function esc2underscore :: "string \<Rightarrow> string" where
  "esc2underscore s =
     (case find_first_of ''%'' s 0 of None \<Rightarrow> s | Some pos \<Rightarrow> esc2underscore (str_replace s pos 3 ''_''))"
  by pat_completeness auto
termination
proof (relation "measure (\<lambda>s. count_from (\<lambda>c. c = CHR ''%'') s 0)")
  fix s :: string and k
  assume "find_first_of ''%'' s 0 = Some k"
  then have k: "k < length s" "s ! k = CHR ''%''"
    by (auto simp: find_first_of_def dest: find_from_Some)
  have "count_from (\<lambda>c. c = CHR ''%'') (str_replace s k 3 ''_'') 0 =
      length (filter (\<lambda>c. c = CHR ''%'') (take k s)) + count_from (\<lambda>c. c = CHR ''%'') s (k + 3)"
    by (simp add: str_replace_def count_from_def)
  also have "\<dots> \<le> length (filter (\<lambda>c. c = CHR ''%'') (take k s)) + count_from (\<lambda>c. c = CHR ''%'') s (Suc k)"
    using count_from_mono [of "Suc k" "k + 3"] by simp
  also have "\<dots> < length (filter (\<lambda>c. c = CHR ''%'') (take k s)) + count_from (\<lambda>c. c = CHR ''%'') s k"
    using k by (simp add: count_from_step)
  also have "\<dots> = count_from (\<lambda>c. c = CHR ''%'') s 0"
    by (metis append_take_drop_id count_from_def drop0 filter_append length_append)
  finally show "(str_replace s k 3 ''_'', s) \<in> measure (\<lambda>s. count_from (\<lambda>c. c = CHR ''%'') s 0)"
    by simp
qed simp

declare esc2underscore.simps [simp del]

section \<open>XML: \<open>id2xml\<close> and \<open>xml2id\<close>\<close>

definition entity :: "char \<Rightarrow> string res" where
  "entity c =
     (if c = CHR ''>'' then Inr ''&gt;''
      else if c = CHR ''<'' then Inr ''&lt;''
      else if c = CHR ''&'' then Inr ''&amp;''
      else if c = CHR 0x27 then Inr ''&apos;''
      else if c = dquote then Inr ''&quot;''
      else Inl (InternalErr ''Unrecognized character.''))"

definition xml_not_allowed :: string where
  "xml_not_allowed = [CHR ''>'', CHR ''<'', CHR ''&'', CHR 0x27, dquote]"

definition xml_special :: "char \<Rightarrow> bool" where
  "xml_special c = (c \<in> {CHR ''>'', CHR ''<'', CHR ''&'', CHR 0x27, dquote})"

lemma entity_shape:
  assumes "entity c = Inr e"
  shows "xml_special c" and "e \<noteq> []" and "\<forall>x\<in>set (tl e). \<not> xml_special x"
  using assms by (auto simp: entity_def xml_special_def split: if_splits)

function id2xml_loop :: "string \<Rightarrow> string \<Rightarrow> nat \<Rightarrow> string res" where
  "id2xml_loop not_allowed s i =
     (case find_first_of not_allowed s i of
        None \<Rightarrow> Inr s
      | Some k \<Rightarrow> (case entity (s ! k) of
            Inl e \<Rightarrow> Inl e
          | Inr ent \<Rightarrow> id2xml_loop not_allowed (str_replace s k 1 ent) (k + 1)))"
  by pat_completeness auto
termination
proof (relation "measure (\<lambda>(a, s, i). count_from xml_special s i)")
  fix na s i k ent
  assume f: "find_first_of na s i = Some k" and e: "entity (s ! k) = Inr ent"
  then have k: "i \<le> k" "k < length s"
    by (auto simp: find_first_of_def dest: find_from_Some)
  have "drop (k + 1) (str_replace s k 1 ent) = tl ent @ drop (k + 1) s"
    using k entity_shape(2) [OF e] by (cases ent) (auto simp: str_replace_def)
  then have "count_from xml_special (str_replace s k 1 ent) (k + 1) = count_from xml_special s (Suc k)"
    using entity_shape(3) [OF e] by (simp add: count_from_def filter_empty_conv)
  with count_from_step [where P = xml_special, OF k(2) entity_shape(1) [OF e] k(1)]
  show "((na, str_replace s k 1 ent, k + 1), (na, s, i)) \<in> measure (\<lambda>(a, s, i). count_from xml_special s i)"
    by simp
qed simp

declare id2xml_loop.simps [simp del]

definition id2xml :: "string \<Rightarrow> string \<Rightarrow> string res" where
  "id2xml s not_allowed = id2xml_loop not_allowed s 0"

text \<open>
  One pass of \<open>xml2id\<close>, \<open>while ((i = in.find(ent, i)) != npos) in.replace(i, n, rep)\<close>;
  \<open>i\<close> stays where the replacement was made.
\<close>

function entity_pass :: "string \<Rightarrow> char \<Rightarrow> string \<Rightarrow> nat \<Rightarrow> string" where
  "entity_pass ent rep s i =
     (if length ent < 2 then s
      else case str_find ent s i of
        None \<Rightarrow> s
      | Some k \<Rightarrow> entity_pass ent rep (str_replace s k (length ent) [rep]) k)"
  by pat_completeness auto
termination
proof (relation "measure (\<lambda>(e, r, s, i). length s)")
  fix ent :: string and rep s i k
  assume a: "\<not> length ent < 2" "str_find ent s i = Some k"
  then have "ent \<noteq> []" by auto
  with a have "k + length ent \<le> length s"
    by (blast dest: str_find_Some)
  with a(1) show "((ent, rep, str_replace s k (length ent) [rep], k), (ent, rep, s, i))
      \<in> measure (\<lambda>(e, r, s, i). length s)"
    by (simp add: str_replace_def)
qed simp

declare entity_pass.simps [simp del]

definition xml2id :: "string \<Rightarrow> string" where
  "xml2id s =
     (let s1 = entity_pass ''&gt;'' (CHR ''>'') s 0;
          s2 = entity_pass ''&lt;'' (CHR ''<'') s1 0;
          s3 = entity_pass ''&amp;'' (CHR ''&'') s2 0;
          s4 = entity_pass ''&apos;'' (CHR 0x27) s3 0
      in entity_pass ''&quot;'' dquote s4 0)"

section \<open>HDF attribute values: \<open>escattr\<close> and \<open>unescattr\<close>\<close>

definition attr_printable :: string where
  "attr_printable = '' ABCDEFGHIJKLMNOPQRSTUVWXYZabcdefghijklmnopqrstuvwxyz0123456789~`!@#$%^&*()_-+={[}]|'' @
     [bslash] @ '':;<,>.?/'' @ [CHR 0x27, dquote]"

text \<open>The first and the third loop of \<open>escattr\<close>: double \<open>c\<close>, or put a backslash before it.\<close>

function prefix_loop :: "char \<Rightarrow> string \<Rightarrow> nat \<Rightarrow> string" where
  "prefix_loop c s ind =
     (case find_from (\<lambda>x. x = c) s ind of
        None \<Rightarrow> s
      | Some k \<Rightarrow> prefix_loop c (str_replace s k 1 [bslash, c]) (k + 2))"
  by pat_completeness auto
termination
  by (relation "measure (\<lambda>(c, s, i). length s - i)")
     (auto simp: str_replace_def dest!: find_from_Some)

declare prefix_loop.simps [simp del]

lemma octstring_printable: "set (octstring c) \<subseteq> set attr_printable"
proof -
  have "set (digits_of 8 n) \<subseteq> set ''01234567''" for n
  proof (induction n rule: less_induct)
    case (less n)
    have "\<forall>m\<in>set [0..<8]. digit_char m \<in> set ''01234567''"
      by code_simp
    then have d: "digit_char m \<in> set ''01234567''" if "m < 8" for m
      using that by simp
    show ?case
    proof (cases "n < 8")
      case True
      with d [of n] show ?thesis by (simp add: digits_of.simps [of 8 n])
    next
      case False
      then have "n div 8 < n" by simp
      with less have "set (digits_of 8 (n div 8)) \<subseteq> set ''01234567''" by blast
      with False d [of "n mod 8"] show ?thesis by (simp add: digits_of.simps [of 8 n])
    qed
  qed
  then have "set (octstring c) \<subseteq> set ''01234567''"
    by (auto simp: octstring_def ostream_padded_def Let_def)
  then show ?thesis
    by (rule order_trans) (simp add: attr_printable_def)
qed

lemma printable_bslash: "bslash \<in> set attr_printable" and printable_dquote: "dquote \<in> set attr_printable"
  by (simp_all add: attr_printable_def)

text \<open>The second loop of \<open>escattr\<close>: \<open>ind\<close> stays, the replacement is printable.\<close>

abbreviation unprintable :: "char \<Rightarrow> bool" where
  "unprintable \<equiv> \<lambda>c. c \<notin> set attr_printable"

function octal_loop :: "string \<Rightarrow> nat \<Rightarrow> string" where
  "octal_loop s ind =
     (case find_first_not_of attr_printable s ind of
        None \<Rightarrow> s
      | Some k \<Rightarrow> octal_loop (str_replace s k 1 (bslash # octstring (s ! k))) k)"
  by pat_completeness auto
termination
proof (relation "measure (\<lambda>(s, i). count_from unprintable s i)")
  fix s i k
  assume "find_first_not_of attr_printable s i = Some k"
  then have k: "i \<le> k" "k < length s" "unprintable (s ! k)"
    by (auto simp: find_first_not_of_def dest: find_from_Some)
  have "count_from unprintable (str_replace s k 1 (bslash # octstring (s ! k))) k =
        count_from unprintable s (Suc k)"
    using k(2) printable_bslash octstring_printable [of "s ! k"]
    by (auto simp: count_from_def str_replace_def filter_empty_conv)
  with count_from_step [where P = unprintable, OF k(2) k(3) k(1)]
  show "((str_replace s k 1 (bslash # octstring (s ! k)), k), (s, i))
      \<in> measure (\<lambda>(s, i). count_from unprintable s i)"
    by simp
qed simp

declare octal_loop.simps [simp del]

definition escattr :: "string \<Rightarrow> string" where
  "escattr s =
     (let s1 = prefix_loop bslash s 0;
          s2 = octal_loop s1 0
      in prefix_loop dquote s2 0)"

text \<open>
  \<open>Regex::search\<close> (\<open>GNU/GNURegex.cc\<close>) for the three patterns of \<open>unescattr\<close>: strings longer
  than 32766 are not searched, the match is looked for in the C string, and the answer is
  the position of the first match.
\<close>

fun find_match :: "(string \<Rightarrow> bool) \<Rightarrow> string \<Rightarrow> nat option" where
  "find_match m [] = (if m [] then Some 0 else None)"
| "find_match m (c # cs) = (if m (c # cs) then Some 0 else map_option Suc (find_match m cs))"

definition regex_search :: "(string \<Rightarrow> bool) \<Rightarrow> string \<Rightarrow> nat option" where
  "regex_search m s = (if length s > 32766 then None else find_match m (c_str s))"

definition match_esc_esc :: "string \<Rightarrow> bool" where
  "match_esc_esc s = (take 2 s = [bslash, bslash])"

definition match_esc_quote :: "string \<Rightarrow> bool" where
  "match_esc_quote s = (take 2 s = [bslash, dquote])"

definition match_octal :: "string \<Rightarrow> bool" where
  "match_octal s = (case take 4 s of
     [b, x, y, z] \<Rightarrow> b = bslash \<and> x \<in> set ''0123'' \<and> y \<in> set ''01234567'' \<and> z \<in> set ''01234567''
   | _ \<Rightarrow> False)"

lemma find_match_Some: "find_match m s = Some k \<Longrightarrow> k \<le> length s \<and> m (drop k s)"
  by (induction s arbitrary: k) (auto split: if_splits)

lemma length_c_str: "length (c_str s) \<le> length s"
  by (simp add: c_str_def length_takeWhile_le)

lemma regex_search_Some:
  assumes "regex_search m s = Some k" and "\<And>t. m t \<Longrightarrow> n \<le> length t"
  shows "k + n \<le> length s"
proof -
  from assms(1) have "find_match m (c_str s) = Some k"
    by (auto simp: regex_search_def split: if_splits)
  then have "k \<le> length (c_str s)" "m (drop k (c_str s))"
    by (auto dest: find_match_Some)
  with assms(2) [OF this(2)] length_c_str [of s] show ?thesis
    by simp
qed

lemma match_lengths:
  "match_esc_esc t \<Longrightarrow> 2 \<le> length t" "match_esc_quote t \<Longrightarrow> 2 \<le> length t" "match_octal t \<Longrightarrow> 4 \<le> length t"
proof -
  show "match_esc_esc t \<Longrightarrow> 2 \<le> length t" "match_esc_quote t \<Longrightarrow> 2 \<le> length t"
    by (cases t; cases "tl t"; simp add: match_esc_esc_def match_esc_quote_def)+
  show "match_octal t \<Longrightarrow> 4 \<le> length t"
    by (rule ccontr) (auto simp: match_octal_def split: list.splits dest: arg_cong [where f = length])
qed

text \<open>The loops of \<open>unescattr\<close>: each starts again at the front of the string.\<close>

function unesc_esc_loop :: "string \<Rightarrow> string" where
  "unesc_esc_loop s = (case regex_search match_esc_esc s of
      None \<Rightarrow> s | Some k \<Rightarrow> unesc_esc_loop (str_replace s k 2 [bslash]))"
  by pat_completeness auto
termination
  by (relation "measure length")
     (auto simp: str_replace_def dest!: regex_search_Some [OF _ match_lengths(1)])

function unesc_quote_loop :: "string \<Rightarrow> string" where
  "unesc_quote_loop s = (case regex_search match_esc_quote s of
      None \<Rightarrow> s | Some k \<Rightarrow> unesc_quote_loop (str_replace s k 2 [dquote]))"
  by pat_completeness auto
termination
  by (relation "measure length")
     (auto simp: str_replace_def dest!: regex_search_Some [OF _ match_lengths(2)])

function unesc_octal_loop :: "string \<Rightarrow> string" where
  "unesc_octal_loop s = (case regex_search match_octal s of
      None \<Rightarrow> s | Some k \<Rightarrow> unesc_octal_loop (str_replace s k 4 (unoctstring (substr s (k + 1) 3))))"
  by pat_completeness auto
termination
proof (relation "measure length")
  fix s k
  assume "regex_search match_octal s = Some k"
  from regex_search_Some [OF this match_lengths(3)] have "k + 4 \<le> length s" by simp
  then show "(str_replace s k 4 (unoctstring (substr s (k + 1) 3)), s) \<in> measure length"
    using length_one_char [of "istream_int 8 (substr s (k + 1) 3)"]
    by (simp add: str_replace_def unoctstring_def)
qed simp

declare unesc_esc_loop.simps [simp del] unesc_quote_loop.simps [simp del] unesc_octal_loop.simps [simp del]

definition unescattr :: "string \<Rightarrow> string" where
  "unescattr s = unesc_octal_loop (unesc_quote_loop (unesc_esc_loop s))"

section \<open>Quoted strings\<close>

definition escape_double_quotes :: "string \<Rightarrow> string" where
  "escape_double_quotes s = prefix_loop dquote s 0"

function unquote_loop :: "string \<Rightarrow> nat \<Rightarrow> string" where
  "unquote_loop s idx = (case str_find [bslash, dquote] s idx of
      None \<Rightarrow> s | Some k \<Rightarrow> unquote_loop (str_replace s k 2 [dquote]) (k + 1))"
  by pat_completeness auto
termination
  by (relation "measure (\<lambda>(s, i). length s)") (auto simp: str_replace_def dest!: str_find_Some)

declare unquote_loop.simps [simp del]

definition unescape_double_quotes :: "string \<Rightarrow> string" where
  "unescape_double_quotes s = unquote_loop s 0"

text \<open>
  \<open>munge_error_message\<close>.  The loop runs \<open>miter\<close> over the characters strictly between the
  first and the last one, with the character before it at hand; on a string of fewer than
  two characters \<open>begin() + 1\<close> is already past \<open>end() - 1\<close> and the loop runs out of the
  string, and \<open>*begin()\<close> of an empty string is undefined: both are \<open>Undefined\<close>.
\<close>

fun munge_inner :: "char \<Rightarrow> string \<Rightarrow> string" where
  "munge_inner prev [] = []"
| "munge_inner prev [c] = [c]"
| "munge_inner prev (c # d # cs) =
     (if c = dquote \<and> prev \<noteq> bslash then bslash # dquote # munge_inner dquote (d # cs)
      else c # munge_inner c (d # cs))"

definition munge_error_message :: "string \<Rightarrow> string res" where
  "munge_error_message msg =
     (if msg = [] then Inl Undefined
      else
        let m1 = (if hd msg \<noteq> dquote then dquote # msg else msg);
            m2 = (if last m1 \<noteq> dquote then m1 @ [dquote] else m1)
        in if length m2 < 2 then Inl Undefined
           else Inr (hd m2 # munge_inner (hd m2) (tl m2)))"

section \<open>What a scanning loop computes\<close>

text \<open>
  A loop that looks for the next character satisfying \<open>P\<close>, replaces it by \<open>enc c\<close> and goes
  on \<open>adv c\<close> characters further, where what it has not stepped over yet of \<open>enc c\<close> holds
  no \<open>P\<close> character.
\<close>

locale char_scan =
  fixes P :: "char \<Rightarrow> bool" and enc :: "char \<Rightarrow> string" and adv :: "char \<Rightarrow> nat"
    and loop :: "string \<Rightarrow> nat \<Rightarrow> string"
  assumes loop_unfold: "loop s i = (case find_from P s i of None \<Rightarrow> s
      | Some k \<Rightarrow> loop (str_replace s k 1 (enc (s ! k))) (k + adv (s ! k)))"
    and adv_le: "P c \<Longrightarrow> adv c \<le> length (enc c)"
    and tail_free: "P c \<Longrightarrow> x \<in> set (drop (adv c) (enc c)) \<Longrightarrow> \<not> P x"
begin

definition subst_char :: "char \<Rightarrow> string" where
  "subst_char c = (if P c then enc c else [c])"

lemma loop_skip:
  "\<forall>c\<in>set mid. \<not> P c \<Longrightarrow> loop (pre @ mid @ s) (length pre) = loop (pre @ mid @ s) (length (pre @ mid))"
proof (induction mid arbitrary: pre)
  case (Cons c mid)
  have "loop (pre @ c # mid @ s) (length pre) = loop ((pre @ [c]) @ mid @ s) (length (pre @ [c]))"
    using Cons.prems
    by (simp add: loop_unfold [of "pre @ c # mid @ s" "length pre"]
        loop_unfold [of "pre @ c # mid @ s" "Suc (length pre)"] find_from_miss)
  with Cons.IH [of "pre @ [c]"] Cons.prems show ?case by simp
qed simp

lemma loop_subst: "loop (pre @ s) (length pre) = pre @ concat (map subst_char s)"
proof (induction s arbitrary: pre)
  case Nil
  show ?case by (simp add: loop_unfold [of pre])
next
  case (Cons c s)
  show ?case
  proof (cases "P c")
    case True
    let ?a = "take (adv c) (enc c)" and ?b = "drop (adv c) (enc c)"
    have "loop (pre @ c # s) (length pre) = loop (pre @ enc c @ s) (length pre + adv c)"
      using True by (simp add: loop_unfold [of "pre @ c # s"] find_from_hit str_replace_at)
    also have "\<dots> = loop ((pre @ ?a) @ ?b @ s) (length (pre @ ?a))"
      using adv_le [OF True] by (simp flip: append_assoc) (simp add: min_absorb2)
    also have "\<dots> = loop ((pre @ ?a) @ ?b @ s) (length ((pre @ ?a) @ ?b))"
      using tail_free [OF True] by (intro loop_skip) blast
    also have "\<dots> = loop ((pre @ enc c) @ s) (length (pre @ enc c))"
      by (simp only: append_assoc append_take_drop_id) (simp flip: append_assoc)
    finally show ?thesis
      using Cons.IH [of "pre @ enc c"] True by (simp add: subst_char_def)
  next
    case False
    then show ?thesis
      using loop_skip [of "[c]" pre s] Cons.IH [of "pre @ [c]"] by (simp add: subst_char_def)
  qed
qed

lemma loop_from_start: "loop s 0 = concat (map subst_char s)"
  using loop_subst [of "[]" s] by simp

end

interpretation www: char_scan "\<lambda>c. c \<notin> set allowable" "\<lambda>c. CHR ''%'' # hexstring c" "\<lambda>_. 3"
  "id2www_loop allowable" for allowable
  by unfold_locales
    (simp_all add: id2www_loop.simps find_first_not_of_def length_hexstring)

interpretation octal: char_scan unprintable "\<lambda>c. bslash # octstring c" "\<lambda>_. 0" octal_loop
  by unfold_locales
    (use octstring_printable printable_bslash in
      \<open>auto simp: octal_loop.simps find_first_not_of_def split: option.splits\<close>)

interpretation pref: char_scan "\<lambda>x. x = c" "\<lambda>x. [bslash, x]" "\<lambda>_. 2" "prefix_loop c" for c
proof unfold_locales
  fix s i
  show "prefix_loop c s i = (case find_from (\<lambda>x. x = c) s i of None \<Rightarrow> s
      | Some k \<Rightarrow> prefix_loop c (str_replace s k 1 [bslash, s ! k]) (k + 2))"
    by (subst prefix_loop.simps) (auto split: option.splits dest: find_from_Some)
qed simp_all

text \<open>The reference definitions the loops implement.\<close>

lemma id2www_subst:
  "id2www s allowable = concat (map (\<lambda>c. if c \<in> set allowable then [c] else CHR ''%'' # hexstring c) s)"
  unfolding id2www_def www.loop_from_start
  by (rule arg_cong [where f = concat], rule map_cong) (simp_all add: www.subst_char_def)

lemma escape_double_quotes_subst:
  "escape_double_quotes s = concat (map (\<lambda>c. if c = dquote then [bslash, c] else [c]) s)"
  unfolding escape_double_quotes_def pref.loop_from_start
  by (rule arg_cong [where f = concat], rule map_cong) (simp_all add: pref.subst_char_def)

lemma id2www_Cons:
  "id2www (c # s) allowable = (if c \<in> set allowable then [c] else CHR ''%'' # hexstring c) @ id2www s allowable"
  by (simp add: id2www_subst)

lemma escape_double_quotes_Cons:
  "escape_double_quotes (c # s) = (if c = dquote then [bslash, c] else [c]) @ escape_double_quotes s"
  by (simp add: escape_double_quotes_subst)

section \<open>Round trips\<close>

lemma digits_value_map:
  "\<forall>d\<in>set ds. d < base \<Longrightarrow> base \<le> 16 \<Longrightarrow>
   digits_value base acc (map digit_char ds) = foldl (\<lambda>a d. a * base + d) acc ds"
  by (induction ds arbitrary: acc) (simp_all add: digit_in_digit_char)

lemma istream_int_digits:
  assumes "\<forall>d\<in>set ds. d < base" and "base \<le> 16" and "ds \<noteq> []"
  shows "istream_int base (map digit_char ds) = clamp_int (int (foldl (\<lambda>a d. a * base + d) 0 ds))"
proof -
  obtain d es where ds: "ds = d # es" using assms(3) by (cases ds) auto
  then have d: "d < 16" using assms(1,2) by auto
  have e: "take 1 (map digit_char es) \<noteq> ''x''" "take 1 (map digit_char es) \<noteq> ''X''"
    using assms(1,2) ds digit_char_not_sign [of "hd es"] by (cases es; force)+
  show ?thesis
    using ds d e digit_char_not_space [OF d] digit_char_not_sign [OF d] digits_value_map [OF assms(1,2), of 0]
    by (auto simp: istream_int_def Let_def)
qed

lemma unhexstring_hexstring: "c \<noteq> nul \<Longrightarrow> unhexstring (hexstring c) = [c]"
proof -
  assume "c \<noteq> nul"
  have "hexstring c = map digit_char [ord_of c div 16, ord_of c mod 16]"
    by (simp add: hexstring_def digits_of_two)
  moreover have "ord_of c div 16 < 16"
    using ord_of_less [of c] by (simp add: less_mult_imp_div_less)
  ultimately have "istream_int 16 (hexstring c) = clamp_int (int (ord_of c))"
    using istream_int_digits [of "[ord_of c div 16, ord_of c mod 16]" 16] by simp
  moreover have "int (ord_of c) < 256" using ord_of_less [of c] by linarith
  ultimately show ?thesis
    using \<open>c \<noteq> nul\<close> by (simp add: unhexstring_def one_char_def clamp_int_def)
qed

lemma www2id_plain:
  "c \<noteq> CHR ''%'' \<Longrightarrow>
   www2id_loop ''%'' '''' (pre @ c # s) (length pre) = www2id_loop ''%'' '''' (pre @ c # s) (Suc (length pre))"
  by (simp add: www2id_loop.simps [of _ _ _ "length pre"] www2id_loop.simps [of _ _ _ "Suc (length pre)"]
      find_first_of_def find_from_miss)

lemma not_occurs_in_empty: "t \<noteq> [] \<Longrightarrow> \<not> occurs_in t ''''"
  by (simp add: occurs_in_def)

lemma www2id_hex:
  assumes "c \<noteq> nul"
  shows "www2id_loop ''%'' '''' (pre @ CHR ''%'' # hexstring c @ s) (length pre) =
         www2id_loop ''%'' '''' (pre @ c # s) (Suc (length pre))"
proof -
  obtain x y where h: "hexstring c = [x, y]"
    using length_hexstring [of c] by (auto simp: length_Suc_conv numeral_2_eq_2)
  have u: "unhexstring [x, y] = [c]"
    using unhexstring_hexstring [OF assms] h by simp
  show ?thesis
    by (simp add: www2id_loop.simps [of _ _ _ "length pre"] find_first_of_def find_from_hit h
        not_occurs_in_empty substr_def str_replace_def u)
qed

lemma www2id_loop_id2www:
  "CHR ''%'' \<notin> set allowable \<Longrightarrow> nul \<notin> set s \<Longrightarrow>
   www2id_loop ''%'' '''' (pre @ id2www s allowable) (length pre) = pre @ s"
proof (induction s arbitrary: pre)
  case Nil
  show ?case by (simp add: id2www_subst www2id_loop.simps find_first_of_def)
next
  case (Cons c s)
  have IH: "www2id_loop ''%'' '''' ((pre @ [c]) @ id2www s allowable) (length (pre @ [c])) = (pre @ [c]) @ s"
    using Cons.prems by (intro Cons.IH) simp_all
  have c: "c \<noteq> nul" using Cons.prems by auto
  show ?case
  proof (cases "c \<in> set allowable")
    case True
    then have "c \<noteq> CHR ''%''" using Cons.prems(1) by auto
    with True IH show ?thesis
      by (simp add: id2www_Cons www2id_plain)
  next
    case False
    with IH show ?thesis
      using www2id_hex [OF c, of pre "id2www s allowable"] by (simp add: id2www_Cons)
  qed
qed

lemma unquote_plain:
  assumes "c \<noteq> bslash"
  shows "unquote_loop (pre @ c # s) (length pre) = unquote_loop (pre @ c # s) (Suc (length pre))"
proof -
  have "str_find [bslash, dquote] (pre @ c # s) (length pre) = str_find [bslash, dquote] (pre @ c # s) (Suc (length pre))"
    using assms by (cases "find_sub [bslash, dquote] s") (simp_all add: str_find_def)
  then show ?thesis
    by (simp add: unquote_loop.simps [of _ "length pre"] unquote_loop.simps [of _ "Suc (length pre)"])
qed

lemma unquote_bslash:
  assumes "take 1 s \<noteq> [dquote]"
  shows "unquote_loop (pre @ bslash # s) (length pre) = unquote_loop (pre @ bslash # s) (Suc (length pre))"
proof -
  have "str_find [bslash, dquote] (pre @ bslash # s) (length pre) = str_find [bslash, dquote] (pre @ bslash # s) (Suc (length pre))"
    using assms by (cases "find_sub [bslash, dquote] s"; cases s) (simp_all add: str_find_def)
  then show ?thesis
    by (simp add: unquote_loop.simps [of _ "length pre"] unquote_loop.simps [of _ "Suc (length pre)"])
qed

lemma unquote_hit:
  "unquote_loop (pre @ bslash # dquote # s) (length pre) = unquote_loop (pre @ dquote # s) (Suc (length pre))"
  by (simp add: unquote_loop.simps [of _ "length pre"] str_find_def str_replace_def)

lemma unquote_loop_escape: "unquote_loop (pre @ escape_double_quotes s) (length pre) = pre @ s"
proof (induction s arbitrary: pre)
  case Nil
  show ?case by (simp add: escape_double_quotes_subst unquote_loop.simps str_find_def)
next
  case (Cons c s)
  let ?e = "escape_double_quotes s"

  have IH: "unquote_loop ((pre @ [c]) @ ?e) (length (pre @ [c])) = (pre @ [c]) @ s"
    by (rule Cons.IH)
  have "take 1 ?e \<noteq> [dquote]"
    by (cases s) (simp_all add: escape_double_quotes_subst)
  with IH show ?case
    by (cases "c = dquote"; cases "c = bslash")
      (simp_all add: escape_double_quotes_Cons unquote_hit unquote_plain unquote_bslash)
qed

subsection \<open>XML entities\<close>

lemma id2xml_loop_total: "set na \<subseteq> set xml_not_allowed \<Longrightarrow> \<exists>r. id2xml_loop na s i = Inr r"
proof (induction na s i rule: id2xml_loop.induct)
  case (1 na s i)
  show ?case
  proof (cases "find_first_of na s i")
    case None
    then show ?thesis by (simp add: id2xml_loop.simps)
  next
    case (Some k)
    then have "s ! k \<in> set na"
      by (auto simp: find_first_of_def dest: find_from_Some)
    with "1.prems" obtain e where "entity (s ! k) = Inr e"
      by (auto simp: xml_not_allowed_def entity_def)
    with "1.IH" [OF Some] "1.prems" Some show ?thesis
      by (simp add: id2xml_loop.simps [of na s i])
  qed
qed

interpretation xml: char_scan "\<lambda>c. c \<in> set xml_not_allowed" "\<lambda>c. projr (entity c)" "\<lambda>_. 1"
  "\<lambda>s i. projr (id2xml_loop xml_not_allowed s i)"
proof unfold_locales
  fix s i
  show "projr (id2xml_loop xml_not_allowed s i) =
    (case find_from (\<lambda>c. c \<in> set xml_not_allowed) s i of None \<Rightarrow> s
     | Some k \<Rightarrow> projr (id2xml_loop xml_not_allowed (str_replace s k 1 (projr (entity (s ! k)))) (k + 1)))"
    by (subst id2xml_loop.simps)
      (auto simp: find_first_of_def xml_not_allowed_def entity_def split: option.splits dest!: find_from_Some)
qed (auto simp: xml_not_allowed_def entity_def)

text \<open>\<open>xml_token A c\<close>: the text of \<open>c\<close> when only the characters of \<open>A\<close> are encoded.\<close>

definition xml_token :: "char set \<Rightarrow> char \<Rightarrow> string" where
  "xml_token A c = (if c \<in> A then projr (entity c) else [c])"

lemma id2xml_tokens:
  "id2xml s xml_not_allowed = Inr (concat (map (xml_token (set xml_not_allowed)) s))"
proof -
  obtain r where r: "id2xml_loop xml_not_allowed s 0 = Inr r"
    using id2xml_loop_total [of xml_not_allowed s 0] by auto
  have "xml.subst_char = xml_token (set xml_not_allowed)"
    by (simp add: fun_eq_iff xml.subst_char_def xml_token_def)
  with r xml.loop_from_start [of s] show ?thesis
    by (simp add: id2xml_def)
qed

lemma entity_pass_skip:
  assumes "take (length ent) (x # s) \<noteq> ent"
  shows "entity_pass ent rep (pre @ x # s) (length pre) = entity_pass ent rep (pre @ x # s) (Suc (length pre))"
proof -
  have "str_find ent (pre @ x # s) (length pre) = str_find ent (pre @ x # s) (Suc (length pre))"
    using assms by (cases "find_sub ent s") (simp_all add: str_find_def)
  then show ?thesis
    by (simp add: entity_pass.simps [of _ _ _ "length pre"] entity_pass.simps [of _ _ _ "Suc (length pre)"])
qed

lemma entity_pass_skip_many:
  "CHR ''&'' \<notin> set mid \<Longrightarrow>
   entity_pass (CHR ''&'' # e) rep (pre @ mid @ s) (length pre) =
   entity_pass (CHR ''&'' # e) rep (pre @ mid @ s) (length (pre @ mid))"
proof (induction mid arbitrary: pre)
  case (Cons x mid)
  have "take (length (CHR ''&'' # e)) (x # mid @ s) \<noteq> CHR ''&'' # e"
    using Cons.prems by auto
  then have "entity_pass (CHR ''&'' # e) rep (pre @ x # mid @ s) (length pre) =
      entity_pass (CHR ''&'' # e) rep ((pre @ [x]) @ mid @ s) (length (pre @ [x]))"
    using entity_pass_skip by simp
  also have "\<dots> = entity_pass (CHR ''&'' # e) rep ((pre @ [x]) @ mid @ s) (length ((pre @ [x]) @ mid))"
    using Cons.prems by (intro Cons.IH) simp
  finally show ?case by simp
qed simp

lemma entity_pass_tokens:
  assumes e: "e \<noteq> []" and rep: "rep \<noteq> CHR ''&''"
    and T: "\<And>c. c \<in> set s \<Longrightarrow> T c = CHR ''&'' # e \<or>
      T c \<noteq> [] \<and> CHR ''&'' \<notin> set (tl (T c)) \<and> (\<forall>rest. take (Suc (length e)) (T c @ rest) \<noteq> CHR ''&'' # e)"
  shows "entity_pass (CHR ''&'' # e) rep (pre @ concat (map T s)) (length pre) =
         pre @ concat (map (\<lambda>c. if T c = CHR ''&'' # e then [rep] else T c) s)"
  using T
proof (induction s arbitrary: pre)
  case Nil
  show ?case by (simp add: entity_pass.simps str_find_def)
next
  case (Cons c s)
  let ?ent = "CHR ''&'' # e" and ?r = "concat (map T s)"
  show ?case
  proof (cases "T c = ?ent")
    case True
    have "entity_pass ?ent rep (pre @ ?ent @ ?r) (length pre) = entity_pass ?ent rep (pre @ [rep] @ ?r) (length pre)"
      using e by (subst entity_pass.simps) (simp add: str_find_def str_replace_def)
    also have "\<dots> = entity_pass ?ent rep ((pre @ [rep]) @ ?r) (length (pre @ [rep]))"
      using entity_pass_skip_many [of "[rep]" e rep pre ?r] rep by simp
    finally show ?thesis
      using True Cons.IH [of "pre @ [rep]"] Cons.prems by simp
  next
    case False
    with Cons.prems [of c] obtain x t where t: "T c = x # t" "CHR ''&'' \<notin> set t"
      "\<forall>rest. take (Suc (length e)) (T c @ rest) \<noteq> ?ent"
      by (cases "T c") auto
    have "take (length ?ent) (x # (t @ ?r)) \<noteq> ?ent" using t(1) t(3)[rule_format, of ?r] by simp
    then have "entity_pass ?ent rep (pre @ T c @ ?r) (length pre) =
        entity_pass ?ent rep ((pre @ [x]) @ t @ ?r) (length (pre @ [x]))"
      using entity_pass_skip [of ?ent x "t @ ?r" rep pre] t(1) by simp
    also have "\<dots> = entity_pass ?ent rep ((pre @ T c) @ ?r) (length (pre @ T c))"
      using entity_pass_skip_many [OF t(2), of e rep "pre @ [x]" ?r] t(1) by simp
    finally show ?thesis
      using False Cons.IH [of "pre @ T c"] Cons.prems by simp
  qed
qed

lemma entity_defined: "c \<in> set xml_not_allowed \<Longrightarrow> \<exists>x. entity c = Inr x"
  by (auto simp: xml_not_allowed_def entity_def)

lemma entity_pairs:
  "entity c = Inr x \<Longrightarrow> (c, x) \<in> set [(CHR ''>'', ''&gt;''), (CHR ''<'', ''&lt;''),
     (CHR ''&'', ''&amp;''), (CHR 0x27, ''&apos;''), (dquote, ''&quot;'')]"
  by (simp add: entity_def split: if_splits)

text \<open>No entity is a prefix of what another one starts.\<close>

lemma entity_prefix_free:
  assumes "entity c = Inr x" and "entity d = Inr y" and "c \<noteq> d"
  shows "take (length y) (x @ rest) \<noteq> y"
  using entity_pairs [OF assms(1)] entity_pairs [OF assms(2)] assms(3)
  by (simp; elim disjE conjE; simp)

text \<open>One pass of \<open>xml2id\<close> decodes the character it is for and leaves the other tokens alone.\<close>

lemma entity_pass_decodes:
  assumes "CHR ''&'' \<notin> set s" and "A \<subseteq> set xml_not_allowed"
    and "entity d = Inr ent" and "d \<noteq> CHR ''&''"
  shows "entity_pass ent d (concat (map (xml_token A) s)) 0 = concat (map (xml_token (A - {d})) s)"
proof -
  obtain e where e: "ent = CHR ''&'' # e" "e \<noteq> []"
    using assms(3) by (auto simp: entity_def split: if_splits)
  have tok: "\<exists>x. entity c = Inr x \<and> xml_token A c = x" if "c \<in> A" for c
    using that entity_defined [OF subsetD [OF assms(2) that]] by (auto simp: xml_token_def)
  have T: "xml_token A c = ent \<or> xml_token A c \<noteq> [] \<and> CHR ''&'' \<notin> set (tl (xml_token A c)) \<and>
      (\<forall>rest. take (Suc (length e)) (xml_token A c @ rest) \<noteq> ent)" if "c \<in> set s" for c
  proof (cases "c \<in> A")
    case True
    from tok [OF True] obtain x where "entity c = Inr x" "xml_token A c = x" by blast
    with entity_prefix_free [OF _ assms(3), of c x] e(1) assms(3) entity_shape [of c x] show ?thesis
      by (cases "c = d") (auto simp: xml_special_def)
  next
    case False
    with that assms(1) e show ?thesis by (auto simp: xml_token_def)
  qed
  have R: "(if xml_token A c = ent then [d] else xml_token A c) = xml_token (A - {d}) c"
    if "c \<in> set s" for c
  proof (cases "c \<in> A")
    case True
    from tok [OF True] obtain x where "entity c = Inr x" "xml_token A c = x" by blast
    moreover have "x \<noteq> ent" if "c \<noteq> d"
      using entity_prefix_free [OF \<open>entity c = Inr x\<close> assms(3) that, of "[]"] by auto
    ultimately show ?thesis
      using assms(3) True by (cases "c = d") (simp_all add: xml_token_def)
  qed (use e in \<open>auto simp: xml_token_def\<close>)
  have "entity_pass ent d (concat (map (xml_token A) s)) 0 =
      concat (map (\<lambda>c. if xml_token A c = ent then [d] else xml_token A c) s)"
    using entity_pass_tokens [OF e(2) assms(4), of s "xml_token A" "[]"] T e(1) by simp
  also have "\<dots> = concat (map (xml_token (A - {d})) s)"
    using R by (intro arg_cong [where f = concat] map_cong) auto
  finally show ?thesis .
qed

text \<open>Without an ampersand in \<open>s\<close> the pass for \<open>&amp;\<close> finds nothing.\<close>

lemma entity_pass_amp:
  assumes "CHR ''&'' \<notin> set s" and "A \<subseteq> set xml_not_allowed"
  shows "entity_pass ''&amp;'' (CHR ''&'') (concat (map (xml_token A) s)) 0 = concat (map (xml_token A) s)"
proof -
  have T: "find_sub ''&amp;'' (concat (map (xml_token A) s)) = None"
    using assms(1)
  proof (induction s)
    case (Cons c s)
    have skip: "find_sub ''&amp;'' (x # t) = map_option Suc (find_sub ''&amp;'' t)" if "x \<noteq> CHR ''&''" for x t
      using that by simp
    show ?case
    proof (cases "c \<in> A")
      case True
      with assms(2) Cons.prems have "c \<in> {CHR ''>'', CHR ''<'', CHR 0x27, dquote}"
        by (auto simp: xml_not_allowed_def)
      with True Cons show ?thesis
        by (auto simp: xml_token_def entity_def)
    qed (use Cons in \<open>auto simp: xml_token_def\<close>)
  qed simp
  then show ?thesis
    by (simp add: entity_pass.simps str_find_def)
qed

subsection \<open>Octal escapes\<close>

lemma concat_map_concat: "concat (map g (concat (map f s))) = concat (map (\<lambda>c. concat (map g (f c))) s)"
  by (induction s) simp_all

lemma concat_map_id: "(\<And>c. c \<in> set t \<Longrightarrow> g c = [c]) \<Longrightarrow> concat (map g t) = t"
  by (induction t) auto

lemma ord_of_div_64: "ord_of c div 64 < 8"
proof -
  have "ord_of c < 8 * 64" using ord_of_less [of c] by linarith
  then show ?thesis by (rule less_mult_imp_div_less)
qed

lemma octstring_digits: "octstring c =
    [digit_char (ord_of c div 64), digit_char (ord_of c div 8 mod 8), digit_char (ord_of c mod 8)]"
proof -
  let ?n = "ord_of c"
  have n: "?n < 256" by simp
  have z: "digit_char 0 = CHR ''0''" by (simp add: digit_char_def char_of_eq_iff take_bit_eq_mod)
  have dd: "?n div 8 div 8 = ?n div 64" "?n div 64 < 8"
    using ord_of_div_64 by (simp_all add: div_mult2_eq [symmetric])
  consider "?n < 8" | "8 \<le> ?n" "?n < 64" | "64 \<le> ?n" by linarith
  then show ?thesis
  proof cases
    case 1
    with z show ?thesis
      by (simp add: octstring_def ostream_padded_def digits_of.simps [of 8 ?n] numeral_2_eq_2)
  next
    case 2
    then have "?n div 8 < 8" by (simp add: less_mult_imp_div_less)
    with 2 z show ?thesis
      by (simp add: octstring_def ostream_padded_def digits_of.simps [of 8 ?n] digits_of.simps [of 8 "?n div 8"])
  next
    case 3
    then have "\<not> ?n div 8 < 8" by (simp add: not_less less_eq_div_iff_mult_less_eq)
    with 3 dd show ?thesis
      by (simp add: octstring_def ostream_padded_def digits_of.simps [of 8 ?n]
          digits_of.simps [of 8 "?n div 8"] digits_of.simps [of 8 "?n div 64"])
  qed
qed

lemma octal_digit: "m < 8 \<Longrightarrow> digit_char m \<in> set ''01234567''"
proof -
  have "\<forall>m\<in>set [0..<8]. digit_char m \<in> set ''01234567''" by code_simp
  then show "m < 8 \<Longrightarrow> digit_char m \<in> set ''01234567''" by simp
qed

lemma octal_first_digit: "m < 4 \<Longrightarrow> digit_char m \<in> set ''0123''"
proof -
  have "\<forall>m\<in>set [0..<4]. digit_char m \<in> set ''0123''" by code_simp
  then show "m < 4 \<Longrightarrow> digit_char m \<in> set ''0123''" by simp
qed

lemma octstring_no_special:
  "x \<in> set (octstring c) \<Longrightarrow> x \<in> set ''01234567''"
proof -
  note d = octal_digit [OF ord_of_div_64 [of c]] octal_digit [of "ord_of c div 8 mod 8"] octal_digit [of "ord_of c mod 8"]
  assume "x \<in> set (octstring c)"
  then have "x = digit_char (ord_of c div 64) \<or> x = digit_char (ord_of c div 8 mod 8) \<or> x = digit_char (ord_of c mod 8)"
    by (simp add: octstring_digits)
  then show "x \<in> set ''01234567''"
    using d by (elim disjE) (simp_all only: mod_less_divisor zero_less_numeral)
qed

lemma unoctstring_octstring: "c \<noteq> nul \<Longrightarrow> unoctstring (octstring c) = [c]"
proof -
  assume "c \<noteq> nul"
  let ?n = "ord_of c"
  have n: "?n < 256" by simp
  have "?n div 64 < 8" by (rule ord_of_div_64)
  then have "istream_int 8 (octstring c) = clamp_int (int (?n div 64 * 64 + ?n div 8 mod 8 * 8 + ?n mod 8))"
    using istream_int_digits [of "[?n div 64, ?n div 8 mod 8, ?n mod 8]" 8]
    by (simp add: octstring_digits algebra_simps)
  moreover have "?n div 64 * 64 + ?n div 8 mod 8 * 8 + ?n mod 8 = ?n"
  proof -
    have "?n div 64 = ?n div 8 div 8" by (simp add: div_mult2_eq [symmetric])
    moreover have "?n div 8 div 8 * 8 + ?n div 8 mod 8 = ?n div 8" "?n div 8 * 8 + ?n mod 8 = ?n"
      by (rule div_mult_mod_eq)+
    ultimately show ?thesis by linarith
  qed
  moreover have "int ?n < 256" using n by linarith
  ultimately show ?thesis
    using \<open>c \<noteq> nul\<close> by (simp add: unoctstring_def one_char_def clamp_int_def)
qed

text \<open>The text of one character of an attribute value.\<close>

definition attr_token :: "char \<Rightarrow> string" where
  "attr_token c =
     (if c = bslash then [bslash, bslash] else if unprintable c then bslash # octstring c
      else if c = dquote then [bslash, dquote] else [c])"

lemma escattr_tokens: "escattr s = concat (map attr_token s)"
proof -
  have o: "concat (map octal.subst_char t) = t" if "\<forall>x\<in>set t. \<not> unprintable x" for t
    using that by (intro concat_map_id) (simp add: octal.subst_char_def)
  have q: "concat (map (pref.subst_char dquote) t) = t" if "dquote \<notin> set t" for t
    using that by (intro concat_map_id) (auto simp: pref.subst_char_def)
  have b: "concat (map octal.subst_char (pref.subst_char bslash c)) =
      (if c = bslash then [bslash, bslash] else if unprintable c then bslash # octstring c else [c])" for c
    using printable_bslash by (auto simp: pref.subst_char_def octal.subst_char_def)
  have "dquote \<notin> set (octstring c)" for c
    using octstring_no_special [of dquote c] by auto
  then have t: "concat (map (pref.subst_char dquote) (concat (map octal.subst_char (pref.subst_char bslash c)))) =
      attr_token c" for c
    unfolding b using q [of "octstring c"] printable_dquote
    by (auto simp: attr_token_def pref.subst_char_def)
  have "escattr s = concat (map (pref.subst_char dquote) (concat (map octal.subst_char
      (concat (map (pref.subst_char bslash) s)))))"
    by (simp add: escattr_def Let_def pref.loop_from_start octal.loop_from_start)
  also have "\<dots> = concat (map attr_token s)"
    by (induction s) (simp_all add: t)
  finally show ?thesis .
qed

text \<open>
  The loops of \<open>unescattr\<close>, on a string made of tokens: the pattern \<open>m\<close> matches the tokens
  it is for, wherever they stand, and nothing that overlaps the other tokens.
\<close>

locale regex_loop =
  fixes m :: "string \<Rightarrow> bool" and n :: nat and f :: "string \<Rightarrow> string" and loop :: "string \<Rightarrow> string"
  assumes unfold: "loop s = (case regex_search m s of None \<Rightarrow> s
      | Some k \<Rightarrow> loop (str_replace s k n (f (substr s k n))))"
    and m_Nil: "\<not> m []"
begin

definition clean :: "string \<Rightarrow> bool" where
  "clean t = (\<forall>k<length t. \<forall>rest. \<not> m (drop k t @ rest))"

lemma clean_append: "clean s \<Longrightarrow> clean t \<Longrightarrow> clean (s @ t)"
  unfolding clean_def
proof (intro allI impI)
  fix k rest
  assume s: "\<forall>k<length s. \<forall>rest. \<not> m (drop k s @ rest)" and t: "\<forall>k<length t. \<forall>rest. \<not> m (drop k t @ rest)"
    and k: "k < length (s @ t)"
  show "\<not> m (drop k (s @ t) @ rest)"
  proof (cases "k < length s")
    case True
    with s [rule_format, of k "t @ rest"] show ?thesis by simp
  next
    case False
    with t [rule_format, of "k - length s" rest] k show ?thesis by simp
  qed
qed

lemma find_match_clean:
  "clean pre \<Longrightarrow> find_match m (pre @ t) = map_option (\<lambda>k. k + length pre) (find_match m t)"
proof (induction pre)
  case (Cons c pre)
  from Cons.prems have "\<not> m (c # pre @ t)" "clean pre"
    unfolding clean_def by (auto dest: spec [of _ 0] spec [of _ "Suc _"])
  with Cons.IH show ?case by (cases "find_match m t") simp_all
qed (simp add: option.map_ident)

lemma loop_tokens:
  assumes T: "\<And>c. c \<in> set s \<Longrightarrow> T c \<noteq> [] \<and> nul \<notin> set (T c) \<and>
      (clean (T c) \<or> length (T c) = n \<and> (\<forall>rest. m (T c @ rest)) \<and> clean (f (T c)) \<and>
         length (f (T c)) \<le> n \<and> nul \<notin> set (f (T c)))"
    and "clean pre" and "nul \<notin> set pre" and "length (pre @ concat (map T s)) \<le> 32766"
  shows "loop (pre @ concat (map T s)) = pre @ concat (map (\<lambda>c. if m (T c) then f (T c) else T c) s)"
  using assms
proof (induction s arbitrary: pre)
  case Nil
  then have "find_match m (c_str pre) = None"
    using find_match_clean [of pre "[]"] m_Nil by simp
  then show ?case by (simp add: unfold [of pre] regex_search_def)
next
  case (Cons c s)
  let ?r = "concat (map T s)"
  have c: "T c \<noteq> []" "nul \<notin> set (T c)" using Cons.prems(1) [of c] by auto
  have r: "nul \<notin> set ?r" using Cons.prems(1) by auto
  show ?case
  proof (cases "m (T c)")
    case True
    then have "\<not> clean (T c)"
      using c by (auto simp: clean_def intro!: exI [of _ 0] exI [of _ "[]"])
    with Cons.prems(1) [of c] have h: "length (T c) = n" "\<forall>rest. m (T c @ rest)" "clean (f (T c))"
      "length (f (T c)) \<le> n" "nul \<notin> set (f (T c))" by auto
    have "c_str (pre @ T c @ ?r) = pre @ T c @ ?r"
      using Cons.prems(3) c r by (intro c_str_id) simp
    moreover have "find_match m (T c @ ?r) = Some 0"
      using h(2) c(1) by (cases "T c @ ?r") (auto, metis append_Cons)
    ultimately have "regex_search m (pre @ T c @ ?r) = Some (length pre)"
      using find_match_clean [OF Cons.prems(2)] Cons.prems(4) by (simp add: regex_search_def)
    then have "loop (pre @ T c @ ?r) = loop ((pre @ f (T c)) @ ?r)"
      using h(1) by (subst unfold) (simp add: str_replace_def substr_def)
    also have "\<dots> = (pre @ f (T c)) @ concat (map (\<lambda>c. if m (T c) then f (T c) else T c) s)"
      using Cons.prems h by (intro Cons.IH) (auto intro: clean_append)
    finally show ?thesis using True by simp
  next
    case False
    with Cons.prems(1) [of c] have "clean (T c)" by (auto dest: spec [of _ "[]"])
    then have "loop ((pre @ T c) @ ?r) = (pre @ T c) @ concat (map (\<lambda>c. if m (T c) then f (T c) else T c) s)"
      using Cons.prems c by (intro Cons.IH) (auto intro: clean_append)
    with False show ?thesis by simp
  qed
qed

end

interpretation esc: regex_loop match_esc_esc 2 "\<lambda>_. [bslash]" unesc_esc_loop
  by unfold_locales (simp_all add: unesc_esc_loop.simps match_esc_esc_def)

interpretation quot: regex_loop match_esc_quote 2 "\<lambda>_. [dquote]" unesc_quote_loop
  by unfold_locales (simp_all add: unesc_quote_loop.simps match_esc_quote_def)

interpretation oct: regex_loop match_octal 4 "\<lambda>t. unoctstring (substr t 1 3)" unesc_octal_loop
proof unfold_locales
  fix s
  have "substr (substr s k 4) 1 3 = substr s (k + 1) 3" for k
    by (simp add: substr_def drop_take)
  then show "unesc_octal_loop s = (case regex_search match_octal s of None \<Rightarrow> s
      | Some k \<Rightarrow> unesc_octal_loop (str_replace s k 4 (unoctstring (substr (substr s k 4) 1 3))))"
    by (subst unesc_octal_loop.simps) (simp split: option.splits)
qed (simp add: match_octal_def)

lemma plain_clean:
  assumes "x \<noteq> bslash"
  shows "esc.clean [x]" "quot.clean [x]" "oct.clean [x]"
  using assms by (auto simp: esc.clean_def quot.clean_def oct.clean_def match_esc_esc_def
      match_esc_quote_def match_octal_def split: list.splits)

lemma octal_token_shape:
  obtains x y z where "octstring c = [x, y, z]" "x \<in> set ''0123''" "y \<in> set ''01234567''" "z \<in> set ''01234567''"
proof -
  have "ord_of c < 4 * 64" using ord_of_less [of c] by linarith
  then have "ord_of c div 64 < 4" by (rule less_mult_imp_div_less)
  from that [OF octstring_digits octal_first_digit [OF this]
      octal_digit [of "ord_of c div 8 mod 8"] octal_digit [of "ord_of c mod 8"]]
  show thesis by simp
qed

lemma octal_token_clean: "esc.clean (bslash # octstring c)" "quot.clean (bslash # octstring c)"
proof -
  obtain x y z where o: "octstring c = [x, y, z]" "x \<in> set ''0123''" "y \<in> set ''01234567''" "z \<in> set ''01234567''"
    by (rule octal_token_shape)
  then have "bslash \<notin> {x, y, z}" "dquote \<notin> {x, y, z}" by auto
  then show "esc.clean (bslash # octstring c)" "quot.clean (bslash # octstring c)"
    unfolding o(1) by (auto simp: esc.clean_def quot.clean_def match_esc_esc_def match_esc_quote_def
        less_Suc_eq numeral_eq_Suc)
qed

lemma octal_token_match: "match_octal ((bslash # octstring c) @ rest)"
  by (rule octal_token_shape [of c]) (simp add: match_octal_def)

lemma clean_no_match:
  "t \<noteq> [] \<Longrightarrow> esc.clean t \<Longrightarrow> \<not> match_esc_esc t"
  "t \<noteq> [] \<Longrightarrow> quot.clean t \<Longrightarrow> \<not> match_esc_quote t"
  "t \<noteq> [] \<Longrightarrow> oct.clean t \<Longrightarrow> \<not> match_octal t"
  unfolding esc.clean_def quot.clean_def oct.clean_def
  by (auto dest!: spec [of _ 0] spec [of _ "[]"])

lemma unprintable_not_bslash: "unprintable c \<Longrightarrow> c \<noteq> bslash"
  using printable_bslash by auto

lemma octstring_nul: "nul \<notin> set (octstring c)"
  using octstring_no_special [of nul c] by auto

text \<open>The text of one character after the first two loops of \<open>unescattr\<close>.\<close>

definition octal_token :: "char \<Rightarrow> string" where
  "octal_token c = (if unprintable c then bslash # octstring c else [c])"

lemma unesc_esc_tokens:
  assumes "bslash \<notin> set s" and "nul \<notin> set s" and "length (escattr s) \<le> 32766"
  shows "unesc_esc_loop (escattr s) = escattr s"
proof -
  have T: "attr_token c \<noteq> [] \<and> nul \<notin> set (attr_token c) \<and> esc.clean (attr_token c)" if "c \<in> set s" for c
    using that assms(1,2) octal_token_clean(1) [of c] plain_clean(1) [of c] octstring_nul [of c]
    by (auto simp: attr_token_def) (auto simp: esc.clean_def match_esc_esc_def less_Suc_eq)
  have "unesc_esc_loop ([] @ concat (map attr_token s)) =
      [] @ concat (map (\<lambda>c. if match_esc_esc (attr_token c) then [bslash] else attr_token c) s)"
    using T assms(3) by (intro esc.loop_tokens) (auto simp: escattr_tokens esc.clean_def)
  also have "\<dots> = [] @ concat (map attr_token s)"
    using T clean_no_match(1) by (auto intro!: arg_cong [where f = concat] map_cong)
  finally show ?thesis by (simp add: escattr_tokens)
qed

lemma unesc_quote_tokens:
  assumes "bslash \<notin> set s" and "nul \<notin> set s" and "length (escattr s) \<le> 32766"
  shows "unesc_quote_loop (escattr s) = concat (map octal_token s)"
proof -
  have q: "quot.clean [dquote]" by (rule plain_clean) simp
  have T: "attr_token c \<noteq> [] \<and> nul \<notin> set (attr_token c) \<and> (quot.clean (attr_token c) \<or>
      length (attr_token c) = 2 \<and> (\<forall>rest. match_esc_quote (attr_token c @ rest)) \<and> quot.clean [dquote] \<and>
      length [dquote] \<le> 2 \<and> nul \<notin> set [dquote])"
    if "c \<in> set s" for c
    using that q assms(1,2) octal_token_clean(2) [of c] plain_clean(2) [of c] octstring_nul [of c]
    by (auto simp: attr_token_def match_esc_quote_def)
  have "unesc_quote_loop ([] @ concat (map attr_token s)) =
      [] @ concat (map (\<lambda>c. if match_esc_quote (attr_token c) then [dquote] else attr_token c) s)"
    using T assms(3) by (intro quot.loop_tokens) (simp_all add: escattr_tokens quot.clean_def [of "[]"])
  also have "\<dots> = concat (map octal_token s)"
  proof -
    have "(if match_esc_quote (attr_token c) then [dquote] else attr_token c) = octal_token c" if "c \<in> set s" for c
    proof -
      have "c \<noteq> bslash" using that assms(1) by auto
      then consider "unprintable c" | "c = dquote" | "\<not> unprintable c" "c \<noteq> dquote" by auto
      then show ?thesis
      proof cases
        case 1
        with clean_no_match(2) [OF _ octal_token_clean(2) [of c]] show ?thesis
          by (simp add: attr_token_def octal_token_def unprintable_not_bslash)
      next
        case 2
        with printable_dquote show ?thesis
          by (simp add: attr_token_def octal_token_def match_esc_quote_def)
      next
        case 3
        with clean_no_match(2) [OF _ plain_clean(2) [of c]] \<open>c \<noteq> bslash\<close> show ?thesis
          by (simp add: attr_token_def octal_token_def)
      qed
    qed
    then show ?thesis by (auto intro!: arg_cong [where f = concat] map_cong)
  qed
  finally show ?thesis by (simp add: escattr_tokens)
qed

lemma length_octal_tokens: "length (concat (map octal_token s)) \<le> length (escattr s)"
proof -
  have "length (octal_token c) \<le> length (attr_token c)" for c
    using printable_bslash by (simp add: octal_token_def attr_token_def)
  then show ?thesis
    unfolding escattr_tokens by (induction s) (simp_all add: add_mono)
qed

lemma unesc_octal_tokens:
  assumes "bslash \<notin> set s" and "nul \<notin> set s" and "length (concat (map octal_token s)) \<le> 32766"
  shows "unesc_octal_loop (concat (map octal_token s)) = s"
proof -
  let ?f = "\<lambda>t. unoctstring (substr t 1 3)"
  have u: "?f (bslash # octstring c) = [c]" if "c \<noteq> nul" for c
    using unoctstring_octstring [OF that] by (simp add: substr_def octstring_digits)
  have T: "octal_token c \<noteq> [] \<and> nul \<notin> set (octal_token c) \<and> (oct.clean (octal_token c) \<or>
      length (octal_token c) = 4 \<and> (\<forall>rest. match_octal (octal_token c @ rest)) \<and> oct.clean (?f (octal_token c)) \<and>
      length (?f (octal_token c)) \<le> 4 \<and> nul \<notin> set (?f (octal_token c)))"
    and R: "(if match_octal (octal_token c) then ?f (octal_token c) else octal_token c) = [c]"
    if "c \<in> set s" for c
  proof -
    have c: "c \<noteq> bslash" "c \<noteq> nul" using that assms(1,2) by auto
    note m = octal_token_match [of c] octal_token_match [of c "[]"]
    show "octal_token c \<noteq> [] \<and> nul \<notin> set (octal_token c) \<and> (oct.clean (octal_token c) \<or>
      length (octal_token c) = 4 \<and> (\<forall>rest. match_octal (octal_token c @ rest)) \<and> oct.clean (?f (octal_token c)) \<and>
      length (?f (octal_token c)) \<le> 4 \<and> nul \<notin> set (?f (octal_token c)))"
      using c m u [OF c(2)] plain_clean(3) [OF c(1)] octstring_nul [of c]
      by (auto simp: octal_token_def octstring_digits)
    show "(if match_octal (octal_token c) then ?f (octal_token c) else octal_token c) = [c]"
      using c m u [OF c(2)] clean_no_match(3) [OF _ plain_clean(3) [OF c(1)]]
      by (auto simp: octal_token_def)
  qed
  have "unesc_octal_loop ([] @ concat (map octal_token s)) =
      [] @ concat (map (\<lambda>c. if match_octal (octal_token c) then ?f (octal_token c) else octal_token c) s)"
    using T assms(3) by (intro oct.loop_tokens) (auto simp: oct.clean_def [of "[]"])
  also have "\<dots> = s"
    using R concat_map_id [of s] by simp
  finally show ?thesis by simp
qed

subsection \<open>The other transformations\<close>

lemma esc2underscore_no_percent: "CHR ''%'' \<notin> set (esc2underscore s)"
proof (induction s rule: esc2underscore.induct)
  case (1 s)
  show ?case
  proof (cases "find_first_of ''%'' s 0")
    case None
    then have "\<forall>j<length s. s ! j \<noteq> CHR ''%''"
      using find_from_None [of "\<lambda>c. c \<in> set ''%''" s 0] by (simp add: find_first_of_def)
    then have "CHR ''%'' \<notin> set s" by (metis in_set_conv_nth)
    with None show ?thesis by (simp add: esc2underscore.simps [of s])
  next
    case (Some k)
    with "1.IH" show ?thesis by (simp add: esc2underscore.simps [of s])
  qed
qed

lemma escattr_printable: "set (escattr s) \<subseteq> set attr_printable"
proof -
  have "set (attr_token c) \<subseteq> set attr_printable" for c
    using printable_bslash printable_dquote octstring_printable [of c] by (auto simp: attr_token_def)
  then show ?thesis by (auto simp: escattr_tokens)
qed

text \<open>Every double quote strictly inside the message has a backslash before it.\<close>

fun inner_quotes_escaped :: "char \<Rightarrow> string \<Rightarrow> bool" where
  "inner_quotes_escaped prev [] = True"
| "inner_quotes_escaped prev [c] = True"
| "inner_quotes_escaped prev (c # d # cs) =
     ((c = dquote \<longrightarrow> prev = bslash) \<and> inner_quotes_escaped c (d # cs))"

lemma munge_inner_Nil [simp]: "munge_inner prev xs = [] \<longleftrightarrow> xs = []"
  by (cases "(prev, xs)" rule: munge_inner.cases) auto

lemma inner_quotes_escaped_Cons:
  "xs \<noteq> [] \<Longrightarrow> inner_quotes_escaped prev (c # xs) \<longleftrightarrow> (c = dquote \<longrightarrow> prev = bslash) \<and> inner_quotes_escaped c xs"
  by (cases xs) auto

lemma munge_inner_escaped: "inner_quotes_escaped prev (munge_inner prev xs)"
  by (induction prev xs rule: munge_inner.induct) (auto simp: inner_quotes_escaped_Cons)

lemma munge_inner_last: "xs \<noteq> [] \<Longrightarrow> last (munge_inner prev xs) = last xs"
  by (induction prev xs rule: munge_inner.induct) auto

section \<open>Properties\<close>

text \<open>
  C1: an identifier escaped with \<open>id2www\<close> (for any set of allowed characters without the
  percent sign) is restored by \<open>www2id\<close>, for every identifier without a NUL byte.
\<close>

theorem www2id_id2www:
  assumes "CHR ''%'' \<notin> set allowable" and "nul \<notin> set s"
  shows "www2id (id2www s allowable) ''%'' '''' = s"
  unfolding www2id_def using www2id_loop_id2www [OF assms, of "[]"] by simp

theorem www2id_id2www_witness:
  "CHR ''%'' \<notin> set id_allowable \<and> www2id (id2www ''a b%c'' id_allowable) ''%'' '''' = ''a b%c''"
proof
  show "CHR ''%'' \<notin> set id_allowable" by (simp add: id_allowable_def)
  then show "www2id (id2www ''a b%c'' id_allowable) ''%'' '''' = ''a b%c''"
    by (rule www2id_id2www) simp
qed

text \<open>
  text without ampersands that is encoded for XML by \<open>id2xml\<close> (which then never
  throws) is restored by the five passes of \<open>xml2id\<close>.
\<close>

lemma xml2id_id2xml:
  assumes "CHR ''&'' \<notin> set s"
  shows "\<exists>x. id2xml s xml_not_allowed = Inr x \<and> xml2id x = s"
proof -
  let ?A = "set xml_not_allowed"
  have sub: "?A - {CHR ''>''} \<subseteq> ?A" "?A - {CHR ''>''} - {CHR ''<''} \<subseteq> ?A"
    "?A - {CHR ''>''} - {CHR ''<''} - {CHR 0x27} \<subseteq> ?A" by auto
  have ents: "entity (CHR ''>'') = Inr ''&gt;''" "entity (CHR ''<'') = Inr ''&lt;''"
    "entity (CHR 0x27) = Inr ''&apos;''" "entity dquote = Inr ''&quot;''"
    by (simp_all add: entity_def)
  have "xml2id (concat (map (xml_token ?A) s)) =
      concat (map (xml_token (?A - {CHR ''>''} - {CHR ''<''} - {CHR 0x27} - {dquote})) s)"
    using entity_pass_decodes [OF assms order_refl ents(1)] entity_pass_decodes [OF assms sub(1) ents(2)]
      entity_pass_amp [OF assms sub(2)] entity_pass_decodes [OF assms sub(2) ents(3)]
      entity_pass_decodes [OF assms sub(3) ents(4)]
    by (simp add: xml2id_def Let_def)
  also have "\<dots> = concat (map (\<lambda>c. [c]) s)"
    using assms by (intro arg_cong [where f = concat] map_cong)
      (auto simp: xml_token_def xml_not_allowed_def)
  finally have "xml2id (concat (map (xml_token ?A) s)) = s" by simp
  with id2xml_tokens [of s] show ?thesis by simp
qed

lemma xml2id_id2xml_witness:
  "\<exists>x. id2xml ''a<b'' xml_not_allowed = Inr x \<and> xml2id x = ''a<b''"
  by (rule xml2id_id2xml) simp

text \<open>
  With an ampersand the round trip can fail: \<open>xml2id\<close> decodes \<open>&amp;\<close> before \<open>&apos;\<close> and
  \<open>&quot;\<close> and looks again at the ampersand it has just produced.
\<close>

lemma xml2id_not_inverse:
  "id2xml ''&apos;'' xml_not_allowed = Inr ''&amp;apos;''" "xml2id ''&amp;apos;'' = [CHR 0x27]"
  by code_simp+

text \<open>
  C19: an attribute value without backslashes (and NUL bytes) that \<open>escattr\<close> escapes is
  restored by \<open>unescattr\<close>, as long as the escaped value is within the 32766 bytes the
  regular expressions are matched against.
\<close>

theorem unescattr_escattr:
  assumes "bslash \<notin> set s" and "nul \<notin> set s" and "length (escattr s) \<le> 32766"
  shows "unescattr (escattr s) = s"
  using unesc_esc_tokens [OF assms] unesc_quote_tokens [OF assms]
    unesc_octal_tokens [OF assms(1,2) order_trans [OF length_octal_tokens assms(3)]]
  by (simp add: unescattr_def)

theorem unescattr_escattr_witness:
  "unescattr (escattr (''a'' @ [CHR 0x0A, dquote])) = ''a'' @ [CHR 0x0A, dquote]"
proof (rule unescattr_escattr)
  show "length (escattr (''a'' @ [CHR 0x0A, dquote])) \<le> 32766"
    by (simp add: escattr_tokens attr_token_def octstring_digits attr_printable_def)
qed simp_all

text \<open>
  A backslash does not survive: the octal escapes are decoded after the doubled backslashes
  have been collapsed, and runs of backslashes are collapsed to one.
\<close>

lemma unescattr_not_inverse:
  "escattr [bslash, CHR ''1'', CHR ''0'', CHR ''1''] = [bslash, bslash, CHR ''1'', CHR ''0'', CHR ''1'']"
  "unescattr [bslash, bslash, CHR ''1'', CHR ''0'', CHR ''1''] = ''A''"
proof -
  let ?b = bslash
  have esc: "unesc_esc_loop [?b, ?b, CHR ''1'', CHR ''0'', CHR ''1''] = [?b, CHR ''1'', CHR ''0'', CHR ''1'']"
    by (simp add: unesc_esc_loop.simps regex_search_def c_str_def match_esc_esc_def str_replace_def)
  have quot: "unesc_quote_loop [?b, CHR ''1'', CHR ''0'', CHR ''1''] = [?b, CHR ''1'', CHR ''0'', CHR ''1'']"
    by (simp add: unesc_quote_loop.simps regex_search_def c_str_def match_esc_quote_def)
  have "unoctstring ''101'' = ''A''" by code_simp
  then have oct: "unesc_octal_loop [?b, CHR ''1'', CHR ''0'', CHR ''1''] = ''A''"
    by (simp add: unesc_octal_loop.simps regex_search_def c_str_def match_octal_def str_replace_def substr_def)
  show "unescattr [?b, ?b, CHR ''1'', CHR ''0'', CHR ''1''] = ''A''"
    by (simp add: unescattr_def esc quot oct)
  show "escattr [?b, CHR ''1'', CHR ''0'', CHR ''1''] = [?b, ?b, CHR ''1'', CHR ''0'', CHR ''1'']"
    by (simp add: escattr_tokens attr_token_def attr_printable_def)
qed

text \<open>
  escaping the double quotes of any string and unescaping them gives the string back.
\<close>

lemma unescape_escape_double_quotes: "unescape_double_quotes (escape_double_quotes s) = s"
  unfolding unescape_double_quotes_def using unquote_loop_escape [of "[]" s] by simp

text \<open>
  the error message a client gets is a quoted string: unless the message is empty or a
  lone double quote, \<open>munge_error_message\<close> returns a text that starts and ends with a
  double quote and whose inner double quotes are all escaped.
\<close>

lemma munge_error_message_quoted:
  assumes "msg \<noteq> []" and "msg \<noteq> [dquote]"
  shows "\<exists>r. munge_error_message msg = Inr (dquote # r) \<and> r \<noteq> [] \<and> last r = dquote
    \<and> inner_quotes_escaped dquote r"
proof -
  define m where "m = (let m1 = (if hd msg \<noteq> dquote then dquote # msg else msg)
    in if last m1 \<noteq> dquote then m1 @ [dquote] else m1)"
  have m: "hd m = dquote" "last m = dquote" "tl m \<noteq> []"
    using assms by (cases msg; cases "tl msg"; auto simp: m_def Let_def)+
  then have l: "last (tl m) = dquote" "\<not> length m < 2"
    by (cases m; cases "tl m"; simp)+
  have "munge_error_message msg = Inr (hd m # munge_inner (hd m) (tl m))"
    using assms(1) l(2) by (simp add: munge_error_message_def m_def Let_def)
  then show ?thesis
    using m l munge_inner_last [OF m(3)] munge_inner_escaped by auto
qed

lemma munge_error_message_quoted_witness:
  "\<exists>r. munge_error_message [CHR ''a'', dquote, CHR ''b''] = Inr (dquote # r) \<and> r \<noteq> [] \<and> last r = dquote
    \<and> inner_quotes_escaped dquote r"
  by (rule munge_error_message_quoted) simp_all

text \<open>The two messages it cannot take.\<close>

lemma munge_error_message_undefined:
  "munge_error_message [] = Inl Undefined" "munge_error_message [dquote] = Inl Undefined"
  by (simp_all add: munge_error_message_def)

end
