(* ===== verification/Http_Time.thy ===== *)
theory Http_Time
  imports Dap_Prelude
begin

text \<open>
  Dates of HTTP headers (\<open>util_mit.cc\<close>): \<open>parse_time\<close> and \<open>date_time_str\<close>.  A pointer into a C
  string is the part of the string from there on; the empty list is the pointer to its NUL.
  Moving such a pointer is \<open>Undefined\<close>.
\<close>

section \<open>Reading numbers\<close>

text \<open>\<open>strtol(s, &s, 10)\<close>: the number, clamped to a \<open>long\<close>, and where it ends; the pointer stays
  where it is when there is none.\<close>

definition clamp_long :: "int \<Rightarrow> int" where
  "clamp_long v = (if v > 2 ^ 63 - 1 then 2 ^ 63 - 1 else if v < - (2 ^ 63) then - (2 ^ 63) else v)"

definition strtol :: "string \<Rightarrow> int \<times> string" where
  "strtol s =
     (let s1 = dropWhile is_space s;
          s2 = (if s1 \<noteq> [] \<and> (hd s1 = CHR ''-'' \<or> hd s1 = CHR ''+'') then tl s1 else s1);
          ds = takeWhile is_digit s2; v = int (digits_value 10 0 ds)
      in if ds = [] then (0, s)
         else (clamp_long (if hd s1 = CHR ''-'' then - v else v), drop (length ds) s2))"

definition atol :: "string \<Rightarrow> int" where "atol s = fst (strtol s)"

text \<open>A number assigned to an \<open>int\<close> member of \<open>struct tm\<close>.\<close>

definition int_field :: "string \<Rightarrow> int \<times> string" where
  "int_field s = map_prod s32 id (strtol s)"

definition year_field :: "string \<Rightarrow> int \<times> string" where
  "year_field s = map_prod (\<lambda>v. s32 (v - 1900)) id (strtol s)"

fun next_char :: "string \<Rightarrow> string res" where
  "next_char [] = Inl Undefined"
| "next_char (_ # s) = Inr s"

fun find_index_of :: "('a \<Rightarrow> bool) \<Rightarrow> 'a list \<Rightarrow> nat option" where
  "find_index_of P [] = None"
| "find_index_of P (x # xs) = (if P x then Some 0 else map_option Suc (find_index_of P xs))"

section \<open>Months\<close>

definition months :: "string list" where
  "months = [''Jan'', ''Feb'', ''Mar'', ''Apr'', ''May'', ''Jun'', ''Jul'', ''Aug'', ''Sep'', ''Oct'', ''Nov'', ''Dec'']"

definition wkdays :: "string list" where
  "wkdays = [''Sun'', ''Mon'', ''Tue'', ''Wed'', ''Thu'', ''Fri'', ''Sat'']"

definition is_alpha :: "char \<Rightarrow> bool" where
  "is_alpha c = (65 \<le> ord_of c \<and> ord_of c \<le> 90 \<or> 97 \<le> ord_of c \<and> ord_of c \<le> 122)"

text \<open>\<open>strncasecomp(m, s, 3) == 0\<close> for a month of three letters.\<close>

definition same_letters :: "string \<Rightarrow> string \<Rightarrow> bool" where
  "same_letters m s = (map to_lower m = map to_lower (take 3 s))"

text \<open>\<open>make_month\<close> looks for the next letter, past the end of the string if there is none; an
  unknown name is month 0.  The pointer is moved by three, which may be past the end.\<close>

definition make_month :: "string \<Rightarrow> (int \<times> string) res" where
  "make_month s =
     (let ptr = dropWhile (\<lambda>c. \<not> is_alpha c) s in
      if ptr = [] \<or> length ptr < 3 then Inl Undefined
      else Inr (case find_index_of (\<lambda>m. same_letters m ptr) months of None \<Rightarrow> 0 | Some i \<Rightarrow> int i, drop 3 ptr))"

section \<open>Parsing a time\<close>

record tm =
  tm_sec :: int
  tm_min :: int
  tm_hour :: int
  tm_mday :: int
  tm_mon :: int
  tm_year :: int

definition clock :: "string \<Rightarrow> (int \<times> int \<times> int \<times> string) res" where
  "clock s =
     (case int_field s of (hour, s1) \<Rightarrow> bindE (next_char s1) (\<lambda>s2.
      case int_field s2 of (mins, s3) \<Rightarrow> bindE (next_char s3) (\<lambda>s4.
      case int_field s4 of (sec, s5) \<Rightarrow> Inr (hour, mins, sec, s5))))"

text \<open>\<open>Weekday, 00-Mon-00 00:00:00 GMT\<close>\<close>

definition rfc850_fields :: "string \<Rightarrow> tm res" where
  "rfc850_fields s =
     (case int_field s of (mday, s1) \<Rightarrow> bindE (make_month s1) (\<lambda>(mon, s2). bindE (next_char s2) (\<lambda>s3.
      case int_field s3 of (year, s4) \<Rightarrow> bindE (clock s4) (\<lambda>(hour, mins, sec, _).
        Inr \<lparr>tm_sec = sec, tm_min = mins, tm_hour = hour, tm_mday = mday, tm_mon = mon, tm_year = year\<rparr>))))"

text \<open>\<open>Wkd, 00 Mon 0000 00:00:00 GMT\<close>\<close>

definition rfc1123_fields :: "string \<Rightarrow> tm res" where
  "rfc1123_fields s =
     (case int_field s of (mday, s1) \<Rightarrow> bindE (make_month s1) (\<lambda>(mon, s2).
      case year_field s2 of (year, s3) \<Rightarrow> bindE (clock s3) (\<lambda>(hour, mins, sec, _).
        Inr \<lparr>tm_sec = sec, tm_min = mins, tm_hour = hour, tm_mday = mday, tm_mon = mon, tm_year = year\<rparr>)))"

text \<open>\<open>YYYY.MM.DDThh:mmStzWkd\<close>\<close>

definition iso_fields :: "string \<Rightarrow> tm res" where
  "iso_fields s =
     (case year_field s of (year, s1) \<Rightarrow> bindE (next_char s1) (\<lambda>s2.
      case int_field s2 of (mon, s3) \<Rightarrow> bindE (next_char s3) (\<lambda>s4.
      case int_field s4 of (mday, s5) \<Rightarrow> bindE (next_char s5) (\<lambda>s6. bindE (clock s6) (\<lambda>(hour, mins, sec, _).
        Inr \<lparr>tm_sec = sec, tm_min = mins, tm_hour = hour, tm_mday = mday, tm_mon = mon, tm_year = year\<rparr>)))))"

text \<open>\<open>Wkd Mon 00 00:00:00 0000 GMT\<close>; the month is looked for from the weekday on.\<close>

definition ctime_fields :: "string \<Rightarrow> tm res" where
  "ctime_fields s =
     bindE (make_month s) (\<lambda>(mon, s1).
      case int_field s1 of (mday, s2) \<Rightarrow> bindE (clock s2) (\<lambda>(hour, mins, sec, s3).
      case year_field s3 of (year, _) \<Rightarrow>
        Inr \<lparr>tm_sec = sec, tm_min = mins, tm_hour = hour, tm_mday = mday, tm_mon = mon, tm_year = year\<rparr>))"

definition legal_time :: "tm \<Rightarrow> bool" where
  "legal_time t = (0 \<le> tm_sec t \<and> tm_sec t \<le> 59 \<and> 0 \<le> tm_min t \<and> tm_min t \<le> 59 \<and> 0 \<le> tm_hour t \<and> tm_hour t \<le> 23
     \<and> 1 \<le> tm_mday t \<and> tm_mday t \<le> 31 \<and> 0 \<le> tm_mon t \<and> tm_mon t \<le> 11 \<and> 70 \<le> tm_year t \<and> tm_year t \<le> 120)"

text \<open>\<open>timegm\<close> is the C library's, \<open>now\<close> what \<open>time(NULL)\<close> returns; \<open>expand\<close> is true by default.\<close>

definition parse_fields :: "(tm \<Rightarrow> int) \<Rightarrow> nat \<Rightarrow> (string \<Rightarrow> tm res) \<Rightarrow> string \<Rightarrow> int res" where
  "parse_fields timegm n rd s =
     (if length s < n then Inr 0
      else bindE (rd s) (\<lambda>t. Inr (if legal_time t then timegm t else 0)))"

definition skip_blanks :: "string \<Rightarrow> string" where
  "skip_blanks s = dropWhile (\<lambda>c. c = CHR '' '') s"

definition parse_time :: "(tm \<Rightarrow> int) \<Rightarrow> int \<Rightarrow> string \<Rightarrow> bool \<Rightarrow> int res" where
  "parse_time timegm now str0 expand =
     (let str = c_str str0 in
      if CHR '','' \<in> set str
      then (let s = skip_blanks (tl (dropWhile (\<lambda>c. c \<noteq> CHR '','') str)) in
            if CHR ''-'' \<in> set s then parse_fields timegm 18 rfc850_fields s
            else parse_fields timegm 20 rfc1123_fields s)
      else if str \<noteq> [] \<and> is_digit (hd str)
      then (if CHR ''T'' \<in> set str then parse_fields timegm 21 iso_fields (skip_blanks str)
            else Inr (if expand then now + atol str else atol str))
      else parse_fields timegm 24 ctime_fields (skip_blanks str))"

text \<open>\<open>date_time_str\<close> for GMT, from what \<open>gmtime\<close> has found (the version without \<open>strftime\<close>).\<close>

definition date_time_str :: "nat \<Rightarrow> tm \<Rightarrow> string" where
  "date_time_str wday t =
     wkdays ! wday @ '', '' @ ostream_padded 10 2 (nat (tm_mday t)) @ '' '' @ months ! nat (tm_mon t) @ '' ''
     @ ostream_padded 10 4 (nat (tm_year t + 1900)) @ '' '' @ ostream_padded 10 2 (nat (tm_hour t)) @ '':''
     @ ostream_padded 10 2 (nat (tm_min t)) @ '':'' @ ostream_padded 10 2 (nat (tm_sec t)) @ '' GMT''"

section \<open>Numbers that were printed\<close>

lemma digit_char_is_digit: "d < 10 \<Longrightarrow> is_digit (digit_char d)"
  by (simp add: is_digit_def digit_char_def ord_of_def)

lemma is_digit_head: "is_digit c \<Longrightarrow> \<not> is_space c \<and> c \<noteq> CHR ''-'' \<and> c \<noteq> CHR ''+''"
  by (auto simp: is_digit_def is_space_def ord_of_def)

lemma digits_of_digits: "\<exists>ds. digits_of 10 n = map digit_char ds \<and> ds \<noteq> [] \<and> (\<forall>d \<in> set ds. d < 10) \<and> foldl (\<lambda>a d. a * 10 + d) 0 ds = n"
proof (induction n rule: less_induct)
  case (less n)
  show ?case
  proof (cases "n < 10")
    case True
    then show ?thesis by (intro exI [of _ "[n]"]) (simp add: digits_of.simps [of 10 n])
  next
    case False
    then have "n div 10 < n" by simp
    from less [OF this] obtain ds where ds: "digits_of 10 (n div 10) = map digit_char ds" "ds \<noteq> []" "\<forall>d \<in> set ds. d < 10"
        "foldl (\<lambda>a d. a * 10 + d) 0 ds = n div 10" by blast
    with False show ?thesis by (intro exI [of _ "ds @ [n mod 10]"]) (simp add: digits_of.simps [of 10 n])
  qed
qed

lemma padded_digits:
  "\<exists>ds. ostream_padded 10 w n = map digit_char ds \<and> ds \<noteq> [] \<and> (\<forall>d \<in> set ds. d < 10) \<and> foldl (\<lambda>a d. a * 10 + d) 0 ds = n"
proof -
  obtain ds where ds: "digits_of 10 n = map digit_char ds" "ds \<noteq> []" "\<forall>d \<in> set ds. d < 10" "foldl (\<lambda>a d. a * 10 + d) 0 ds = n"
    using digits_of_digits by blast
  have z: "foldl (\<lambda>a d. a * 10 + d) 0 (replicate k 0 @ ds) = n" for k :: nat
    using ds(4) by (induction k) simp_all
  have "digit_char 0 = CHR ''0''" by code_simp
  then have c: "replicate k (CHR ''0'') = map digit_char (replicate k 0)" for k by simp
  show ?thesis
    by (intro exI [of _ "replicate (w - length ds) 0 @ ds"])
      (use ds z in \<open>auto simp: ostream_padded_def Let_def c simp del: foldl_append\<close>)
qed

lemma digits_value_digits:
  "\<forall>d \<in> set ds. d < 10 \<Longrightarrow> digits_value 10 acc (map digit_char ds) = foldl (\<lambda>a d. a * 10 + d) acc ds"
  by (induction ds arbitrary: acc) (simp_all add: digit_in_digit_char)

lemma strtol_padded:
  assumes "n < 2 ^ 31" "rest = [] \<or> \<not> is_digit (hd rest)"
  shows "strtol (ostream_padded 10 w n @ rest) = (int n, rest)" "strtol (CHR '' '' # ostream_padded 10 w n @ rest) = (int n, rest)"
proof -
  obtain ds where ds: "ostream_padded 10 w n = map digit_char ds" "ds \<noteq> []" "\<forall>d \<in> set ds. d < 10" "foldl (\<lambda>a d. a * 10 + d) 0 ds = n"
    using padded_digits by blast
  obtain d ds' where d: "ds = d # ds'" using ds(2) by (cases ds) simp_all
  let ?s = "map digit_char ds @ rest"
  have h: "\<not> is_space (digit_char d)" "digit_char d \<noteq> CHR ''-''" "digit_char d \<noteq> CHR ''+''"
    using is_digit_head [OF digit_char_is_digit, of d] ds(3) d by simp_all
  have t: "takeWhile is_digit ?s = map digit_char ds"
  proof -
    have "takeWhile is_digit rest = []" using assms(2) by (cases rest) simp_all
    moreover have "takeWhile is_digit ?s = map digit_char ds @ takeWhile is_digit rest"
      by (rule takeWhile_append2) (use ds(3) digit_char_is_digit in auto)
    ultimately show ?thesis by simp
  qed
  have v: "clamp_long (int n) = int n" using assms(1) by (simp add: clamp_long_def)
  have v': "int (digits_value 10 0 (map digit_char ds)) = int n" by (simp only: digits_value_digits [OF ds(3)] ds(4))
  have w: "dropWhile is_space ?s = ?s" using h d by simp
  have sp: "dropWhile is_space (CHR '' '' # ?s) = ?s" proof -
    have "is_space (CHR '' '')" by (simp add: is_space_def)
    then show ?thesis using w by simp
  qed
  have hd: "hd ?s = digit_char d" "?s \<noteq> []" using d by simp_all
  show "strtol (ostream_padded 10 w n @ rest) = (int n, rest)"
    unfolding ds(1) strtol_def Let_def w hd(1) using h t v v' ds(2) by simp
  show "strtol (CHR '' '' # ostream_padded 10 w n @ rest) = (int n, rest)"
    unfolding ds(1) strtol_def Let_def sp hd(1) using h t v v' ds(2) by simp
qed

lemma month_letters: "i < 12 \<Longrightarrow> \<exists>a b c. months ! i = [a, b, c] \<and> is_alpha a"
proof -
  have "\<forall>m \<in> set months. \<exists>a b c. m = [a, b, c] \<and> is_alpha a"
    by (simp add: months_def is_alpha_def ord_of_def)
  then show "i < 12 \<Longrightarrow> ?thesis" by (simp add: months_def [THEN arg_cong, of length])
qed

lemma months_distinct_letters: "i < 12 \<Longrightarrow> find_index_of (\<lambda>m. same_letters m (months ! i @ s)) months = Some i"
proof -
  have "\<forall>i \<in> set [0..<12]. find_index_of (\<lambda>m. map to_lower m = map to_lower (months ! i)) months = Some i"
    by code_simp
  moreover assume i: "i < 12"
  ultimately have "find_index_of (\<lambda>m. map to_lower m = map to_lower (months ! i)) months = Some i" by simp
  moreover have "take 3 (months ! i @ s) = months ! i" using month_letters [OF i] by auto
  ultimately show ?thesis unfolding same_letters_def by simp
qed

lemma make_month_name: "i < 12 \<Longrightarrow> make_month (CHR '' '' # months ! i @ s) = Inr (int i, s)"
proof -
  assume i: "i < 12"
  then obtain a b c where m: "months ! i = [a, b, c]" "is_alpha a" using month_letters by blast
  have n: "\<not> is_alpha (CHR '' '')" by (simp add: is_alpha_def ord_of_def)
  have d: "dropWhile (\<lambda>c. \<not> is_alpha c) (CHR '' '' # months ! i @ s) = months ! i @ s" using m n by simp
  have l: "months ! i @ s \<noteq> []" "\<not> length (months ! i @ s) < 3" "drop 3 (months ! i @ s) = s" using m by simp_all
  show ?thesis unfolding make_month_def Let_def d months_distinct_letters [OF i] option.case l(3)
    using l(1,2) by simp
qed

lemma padded_set: "c \<in> set (ostream_padded 10 w n) \<Longrightarrow> is_digit c"
  using padded_digits [of w n] digit_char_is_digit by auto

lemma padded_length: "w \<le> length (ostream_padded 10 w n)"
  by (simp add: ostream_padded_def Let_def)

lemma int_field_padded:
  assumes "0 \<le> v" "v < 2 ^ 31" "rest = [] \<or> \<not> is_digit (hd rest)"
  shows "int_field (ostream_padded 10 w (nat v) @ rest) = (v, rest)" "int_field (CHR '' '' # ostream_padded 10 w (nat v) @ rest) = (v, rest)"
proof -
  have n: "nat v < 2 ^ 31" using assms(1,2) by simp
  have "s32 v = v" using assms by (intro s32_id) simp_all
  then show "int_field (ostream_padded 10 w (nat v) @ rest) = (v, rest)" "int_field (CHR '' '' # ostream_padded 10 w (nat v) @ rest) = (v, rest)"
    using assms(1) strtol_padded [OF n assms(3), of w] by (simp_all add: int_field_def)
qed

lemma year_field_padded:
  assumes "0 \<le> v" "v < 10000" "rest = [] \<or> \<not> is_digit (hd rest)"
  shows "year_field (CHR '' '' # ostream_padded 10 w (nat v) @ rest) = (v - 1900, rest)"
proof -
  have n: "nat v < 2 ^ 31" using assms(1,2) by simp
  have "s32 (v - 1900) = v - 1900" using assms by (intro s32_id) simp_all
  then show ?thesis using assms(1) strtol_padded(2) [OF n assms(3), of w] by (simp add: year_field_def)
qed

text \<open>The fields of a printed date, from the day of the month on.\<close>

definition after_comma :: "tm \<Rightarrow> string" where
  "after_comma t =
     ostream_padded 10 2 (nat (tm_mday t)) @ CHR '' '' # months ! nat (tm_mon t) @ CHR '' ''
     # ostream_padded 10 4 (nat (tm_year t + 1900)) @ CHR '' '' # ostream_padded 10 2 (nat (tm_hour t)) @ CHR '':''
     # ostream_padded 10 2 (nat (tm_min t)) @ CHR '':'' # ostream_padded 10 2 (nat (tm_sec t)) @ '' GMT''"

definition small_fields :: "tm \<Rightarrow> bool" where
  "small_fields t = (0 \<le> tm_mday t \<and> tm_mday t < 100 \<and> 0 \<le> tm_hour t \<and> tm_hour t < 100 \<and> 0 \<le> tm_min t \<and> tm_min t < 100
     \<and> 0 \<le> tm_sec t \<and> tm_sec t < 100 \<and> 0 \<le> tm_mon t \<and> tm_mon t < 12 \<and> 0 \<le> tm_year t + 1900 \<and> tm_year t + 1900 < 10000)"

lemma no_digit_heads: "\<not> is_digit (CHR '' '')" "\<not> is_digit (CHR '':'')"
  by (simp_all add: is_digit_def ord_of_def)

lemma rfc1123_after_comma:
  fixes t :: tm
  assumes "small_fields t"
  shows "rfc1123_fields (after_comma t) = Inr t"
proof -
  have b: "0 \<le> tm_mday t" "tm_mday t < 2 ^ 31" "0 \<le> tm_hour t" "tm_hour t < 2 ^ 31" "0 \<le> tm_min t" "tm_min t < 2 ^ 31"
      "0 \<le> tm_sec t" "tm_sec t < 2 ^ 31" "nat (tm_mon t) < 12" "int (nat (tm_mon t)) = tm_mon t"
      "0 \<le> tm_year t + 1900" "tm_year t + 1900 < 10000"
    using assms by (auto simp: small_fields_def nat_less_iff)
  have m: "0 \<le> tm_mon t" using assms by (simp add: small_fields_def)
  show ?thesis unfolding after_comma_def rfc1123_fields_def using m
    by (simp add: int_field_padded [OF b(1,2)] make_month_name [OF b(9)] b(10) year_field_padded [OF b(11,12)] clock_def
        int_field_padded [OF b(3,4)] int_field_padded [OF b(5,6)] int_field_padded [OF b(7,8)] no_digit_heads)
qed

lemma month_chars: "i < 12 \<Longrightarrow> c \<in> set (months ! i) \<Longrightarrow> c \<noteq> CHR ''-'' \<and> c \<noteq> nul"
proof -
  have "\<forall>m \<in> set months. CHR ''-'' \<notin> set m \<and> nul \<notin> set m" by (simp add: months_def)
  moreover assume "i < 12" "c \<in> set (months ! i)"
  moreover have "length months = 12" by (simp add: months_def)
  ultimately show ?thesis by (metis nth_mem)
qed

lemma after_comma_chars: "c \<in> set (after_comma t) \<Longrightarrow> nat (tm_mon t) < 12 \<Longrightarrow> c \<noteq> CHR ''-'' \<and> c \<noteq> nul"
proof -
  have "is_digit c \<Longrightarrow> c \<noteq> CHR ''-'' \<and> c \<noteq> nul" by (auto simp: is_digit_def ord_of_def)
  moreover assume "c \<in> set (after_comma t)"
  then have "c \<in> set (months ! nat (tm_mon t)) \<or> is_digit c \<or> c \<in> set '' :GMT''"
    unfolding after_comma_def by (simp only: set_append set_simps Un_iff insert_iff) (elim disjE; simp add: padded_set)
  moreover assume "nat (tm_mon t) < 12"
  ultimately show ?thesis using month_chars by auto
qed

lemma after_comma_length: "nat (tm_mon t) < 12 \<Longrightarrow> 20 \<le> length (after_comma t)"
proof -
  assume "nat (tm_mon t) < 12"
  then obtain a b c where "months ! nat (tm_mon t) = [a, b, c]" using month_letters by blast
  then show ?thesis
    using padded_length [of 2 "nat (tm_mday t)"] padded_length [of 4 "nat (tm_year t + 1900)"] padded_length [of 2 "nat (tm_hour t)"]
      padded_length [of 2 "nat (tm_min t)"] padded_length [of 2 "nat (tm_sec t)"]
    by (simp add: after_comma_def)
qed

lemma skip_blanks_after_comma: "skip_blanks (CHR '' '' # after_comma t) = after_comma t"
proof -
  obtain ds where ds: "ostream_padded 10 2 (nat (tm_mday t)) = map digit_char ds" "ds \<noteq> []" "\<forall>d \<in> set ds. d < 10"
    using padded_digits by blast
  then obtain d ds' where "ds = d # ds'" by (cases ds) simp_all
  with ds have "ostream_padded 10 2 (nat (tm_mday t)) = digit_char d # map digit_char ds'" "digit_char d \<noteq> CHR '' ''"
    using digit_char_is_digit [of d] no_digit_heads by auto
  then show ?thesis by (simp add: skip_blanks_def after_comma_def)
qed

lemma date_time_str_split:
  assumes "wday < 7"
  shows "\<exists>a b c. date_time_str wday t = [a, b, c] @ CHR '','' # CHR '' '' # after_comma t \<and> CHR '','' \<notin> {a, b, c} \<and> nul \<notin> {a, b, c}"
proof -
  have "\<forall>m \<in> set wkdays. \<exists>a b c. m = [a, b, c] \<and> CHR '','' \<notin> {a, b, c} \<and> nul \<notin> {a, b, c}" by (simp add: wkdays_def)
  moreover have "wkdays ! wday \<in> set wkdays" using assms by (intro nth_mem) (simp add: wkdays_def)
  ultimately obtain a b c where "wkdays ! wday = [a, b, c]" "CHR '','' \<notin> {a, b, c} \<and> nul \<notin> {a, b, c}" by blast
  then show ?thesis by (intro exI [of _ a] exI [of _ b] exI [of _ c]) (simp add: date_time_str_def after_comma_def)
qed

section \<open>Properties\<close>

text \<open>
  C35: the dates \<open>date_time_str\<close> prints are read back by \<open>parse_time\<close> when they are before 2021;
  every later date is read as 0.
\<close>
theorem http_date_read_back:
  fixes t :: tm
  assumes "wday < 7" "legal_time (t\<lparr>tm_year := 70\<rparr>)" "70 \<le> tm_year t" "tm_year t < 8100"
  shows "parse_time timegm now (date_time_str wday t) expand = Inr (if tm_year t \<le> 120 then timegm t else 0)"
proof -
  have f: "small_fields t" "nat (tm_mon t) < 12" using assms(2-4) by (simp_all add: legal_time_def small_fields_def nat_less_iff)
  obtain a b c where d: "date_time_str wday t = [a, b, c] @ CHR '','' # CHR '' '' # after_comma t"
      "CHR '','' \<notin> {a, b, c}" "nul \<notin> {a, b, c}" using date_time_str_split [OF assms(1)] by blast
  have n: "nul \<notin> set (after_comma t)" "CHR ''-'' \<notin> set (after_comma t)" using after_comma_chars f(2) by blast+
  have c: "c_str (date_time_str wday t) = date_time_str wday t" using d n by (intro c_str_id) simp
  have ne: "a \<noteq> CHR '',''" "b \<noteq> CHR '',''" "c \<noteq> CHR '',''" using d(2) by auto
  have s: "CHR '','' \<in> set (date_time_str wday t)" "skip_blanks (tl (dropWhile (\<lambda>c. c \<noteq> CHR '','') (date_time_str wday t))) = after_comma t"
    using d(1) ne skip_blanks_after_comma by simp_all
  have l: "legal_time t = (tm_year t \<le> 120)" using assms(2,3) by (simp add: legal_time_def)
  show ?thesis unfolding parse_time_def Let_def c s(2) parse_fields_def rfc1123_after_comma [OF f(1)]
    using s(1) n(2) after_comma_length [OF f(2)] l by simp
qed

theorem http_date_read_back_witness:
  "parse_time (\<lambda>t. tm_sec t) 0 (date_time_str 0 \<lparr>tm_sec = 37, tm_min = 49, tm_hour = 8, tm_mday = 6, tm_mon = 10, tm_year = 94\<rparr>) True = Inr 37 \<and>
   parse_time (\<lambda>t. tm_sec t) 0 (date_time_str 5 \<lparr>tm_sec = 37, tm_min = 0, tm_hour = 0, tm_mday = 1, tm_mon = 0, tm_year = 121\<rparr>) True = Inr 0"
  using http_date_read_back [of 0 "\<lparr>tm_sec = 37, tm_min = 49, tm_hour = 8, tm_mday = 6, tm_mon = 10, tm_year = 94\<rparr>" "\<lambda>t. tm_sec t" 0 True]
    http_date_read_back [of 5 "\<lparr>tm_sec = 37, tm_min = 0, tm_hour = 0, tm_mday = 1, tm_mon = 0, tm_year = 121\<rparr>" "\<lambda>t. tm_sec t" 0 True]
  by (simp add: legal_time_def)

end
