(* ===== verification/Number_Checks.thy ===== *)
theory Number_Checks
  imports Dap_Util Http_Time
begin

text \<open>
  What the parsers use to check words (\<open>parser-util.cc\<close>): numbers in the text of attributes and
  constraints, keywords, and errors with a line number.
\<close>

section \<open>Errors\<close>

text \<open>The status and the error a parser leaves in its argument.\<close>

record parser_arg =
  arg_status :: bool
  arg_error :: "exn option"

definition error_text :: "string \<Rightarrow> int \<Rightarrow> string option \<Rightarrow> num_exn + string" where
  "error_text msg line_num context =
     (case (if line_num \<noteq> 0 then append_long_to_string line_num 10 ''Error parsing the text on line '' else Inr ''Parse error.'') of
        Inl e \<Rightarrow> Inl e
      | Inr oss \<Rightarrow> Inr (case context of
            Some c \<Rightarrow> oss @ '' at or near: '' @ c @ [CHR 0x0A] @ msg @ [CHR 0x0A]
          | None \<Rightarrow> oss @ [CHR 0x0A] @ msg @ [CHR 0x0A]))"

definition parse_error_arg :: "string \<Rightarrow> int \<Rightarrow> string option \<Rightarrow> (parser_arg, unit) action" where
  "parse_error_arg msg line_num context arg =
     (let a = arg\<lparr>arg_status := False\<rparr> in
      case error_text msg line_num context of
        Inl _ \<Rightarrow> (Inl Undefined, a)
      | Inr oss \<Rightarrow> (Inr (), a\<lparr>arg_error := Some (Error unknown_error oss)\<rparr>))"

definition parse_error :: "string \<Rightarrow> int \<Rightarrow> string option \<Rightarrow> exn" where
  "parse_error msg line_num context =
     (case error_text (c_str msg) line_num context of Inl _ \<Rightarrow> Undefined | Inr oss \<Rightarrow> Error unknown_error oss)"

section \<open>Words\<close>

definition id_max :: nat where "id_max = 256"

text \<open>A word is copied into a buffer of \<open>ID_MAX\<close> bytes.\<close>

definition save_str :: "string \<Rightarrow> int \<Rightarrow> string res" where
  "save_str src line_num =
     (if length (c_str src) \<ge> id_max
      then Inl (parse_error (''The word `'' @ c_str src @ [CHR 0x27] @ '' is too long (it should be no longer than '' @ ''256'' @ '').'')
        line_num None)
      else Inr (c_str src))"

definition is_keyword :: "string \<Rightarrow> string \<Rightarrow> bool res" where
  "is_keyword i keyword = bindE (prune_spaces (downcase i)) (\<lambda>w. Inr (w = keyword))"

section \<open>Integers\<close>

text \<open>
  \<open>strtol\<close> and \<open>strtoul\<close> in base 0: the sign, the magnitude and the rest of the text; nothing when
  there is no digit.
\<close>

definition unsigned_text :: "bool \<Rightarrow> string \<Rightarrow> (bool \<times> nat \<times> string) option" where
  "unsigned_text neg s =
     (if take 1 s = ''0''
      then (if take 1 (drop 1 s) \<in> {''x'', ''X''} \<and> takeWhile (\<lambda>c. digit_in 16 c \<noteq> None) (drop 2 s) \<noteq> []
            then Some (neg, digits_value 16 0 (drop 2 s), dropWhile (\<lambda>c. digit_in 16 c \<noteq> None) (drop 2 s))
            else Some (neg, digits_value 8 0 s, dropWhile (\<lambda>c. digit_in 8 c \<noteq> None) s))
      else if takeWhile is_digit s = [] then None
      else Some (neg, digits_value 10 0 s, dropWhile is_digit s))"

definition number_text :: "string \<Rightarrow> (bool \<times> nat \<times> string) option" where
  "number_text s =
     (let s1 = dropWhile is_space s in
      unsigned_text (take 1 s1 = ''-'') (if take 1 s1 = ''-'' \<or> take 1 s1 = ''+'' then drop 1 s1 else s1))"

text \<open>The value, the rest and whether \<open>errno\<close> is \<open>ERANGE\<close>.\<close>

definition strtol0 :: "string \<Rightarrow> int \<times> string \<times> bool" where
  "strtol0 s =
     (case number_text s of None \<Rightarrow> (0, s, False)
      | Some (neg, m, rest) \<Rightarrow> let v = (if neg then - int m else int m) in
          if v > 2 ^ 63 - 1 then (2 ^ 63 - 1, rest, True)
          else if v < - (2 ^ 63) then (- (2 ^ 63), rest, True) else (v, rest, False))"

definition strtoul0 :: "string \<Rightarrow> int \<times> string \<times> bool" where
  "strtoul0 s =
     (case number_text s of None \<Rightarrow> (0, s, False)
      | Some (neg, m, rest) \<Rightarrow>
          if int m > 2 ^ 64 - 1 then (2 ^ 64 - 1, rest, True)
          else ((if neg then - int m else int m) mod 2 ^ 64, rest, False))"

text \<open>No number at the start of the text, or something behind it.\<close>

definition not_a_number :: "int \<Rightarrow> string \<Rightarrow> string \<Rightarrow> bool" where
  "not_a_number v val rest = (v = 0 \<and> rest = val \<or> rest \<noteq> [])"

definition check_byte :: "string \<Rightarrow> bool" where
  "check_byte val =
     (case strtol0 (c_str val) of (v, rest, _) \<Rightarrow>
        if not_a_number v (c_str val) rest then False
        else if v < 0 \<and> v < -128 \<or> v > 0 \<and> v > 255 then False else True)"

definition check_int16 :: "string \<Rightarrow> bool" where
  "check_int16 val =
     (case strtol0 (c_str val) of (v, rest, _) \<Rightarrow>
        if not_a_number v (c_str val) rest then False else if v > 32767 \<or> v < -32768 then False else True)"

text \<open>The result of \<open>strtol\<close> is stored in an \<open>unsigned long\<close>.\<close>

definition check_uint16 :: "string \<Rightarrow> bool" where
  "check_uint16 val =
     (case strtol0 (c_str val) of (l, rest, _) \<Rightarrow> let v = l mod 2 ^ 64 in
        if not_a_number v (c_str val) rest then False else if v > 65535 then False else True)"

definition check_int32 :: "string \<Rightarrow> bool" where
  "check_int32 val =
     (case strtol0 (c_str val) of (v, rest, erange) \<Rightarrow>
        if not_a_number v (c_str val) rest then False
        else if erange then False
        else if v > int_max \<or> v < int_min then False else True)"

definition check_uint32 :: "string \<Rightarrow> bool" where
  "check_uint32 val =
     (if take 1 (dropWhile is_space (c_str val)) = ''-'' then False
      else case strtoul0 (c_str val) of (v, rest, erange) \<Rightarrow>
        if not_a_number v (c_str val) rest then False
        else if erange then False
        else if v > 4294967295 then False else True)"

section \<open>Floating point numbers and URLs\<close>

text \<open>\<open>strtod\<close> and the comparisons of what it returns with the limits of \<open>float\<close> and \<open>double\<close>.\<close>

record 'f reals =
  r_strtod :: "string \<Rightarrow> 'f \<times> string \<times> bool"
  r_zero :: "'f \<Rightarrow> bool"
  r_above_float :: "'f \<Rightarrow> bool"
  r_below_float :: "'f \<Rightarrow> bool"
  r_above_double :: "'f \<Rightarrow> bool"
  r_below_double :: "'f \<Rightarrow> bool"

definition check_float32 :: "'f reals \<Rightarrow> string \<Rightarrow> bool" where
  "check_float32 fr val =
     (case r_strtod fr (c_str val) of (v, rest, erange) \<Rightarrow>
        if erange \<or> r_zero fr v \<and> rest = c_str val \<or> rest \<noteq> [] then False
        else if r_above_float fr v \<or> \<not> r_zero fr v \<and> r_below_float fr v then False else True)"

definition check_float64 :: "'f reals \<Rightarrow> string \<Rightarrow> bool" where
  "check_float64 fr val =
     (case r_strtod fr (c_str val) of (v, rest, erange) \<Rightarrow>
        if erange \<or> r_zero fr v \<and> rest = c_str val \<or> rest \<noteq> [] then False
        else if r_above_double fr v \<or> \<not> r_zero fr v \<and> r_below_double fr v then False else True)"

definition check_url :: "string \<Rightarrow> bool" where "check_url val = True"

section \<open>Numbers that are printed\<close>

lemma digits_of_head: "0 < n \<Longrightarrow> take 1 (digits_of 10 n) \<noteq> ''0''"
proof (induction n rule: less_induct)
  case (less n)
  have z: "digit_char k \<noteq> CHR ''0''" if "0 < k" "k < 10" for k
  proof
    assume "digit_char k = CHR ''0''"
    then have "digit_value (digit_char k) = digit_value (CHR ''0'')" by simp
    moreover have "digit_value (CHR ''0'') = Some 0" by code_simp
    ultimately show False using digit_value_digit_char [of k] that by simp
  qed
  show ?case
  proof (cases "n < 10")
    case True
    with less.prems z show ?thesis by (simp add: digits_of.simps [of 10 n])
  next
    case False
    have "digits_of 10 (n div 10) \<noteq> []" by (subst digits_of.simps) simp
    then obtain c cs where c: "digits_of 10 (n div 10) = c # cs" by (cases "digits_of 10 (n div 10)") simp_all
    have "0 < n div 10" "n div 10 < n" using False by (simp_all add: div_greater_zero_iff)
    with less.IH [of "n div 10"] c False show ?thesis by (simp add: digits_of.simps [of 10 n])
  qed
qed

lemma printed_number:
  "number_text (ostream_int v) = Some (v < 0, nat \<bar>v\<bar>, []) \<and> nul \<notin> set (ostream_int v) \<and>
   (take 1 (dropWhile is_space (ostream_int v)) = ''-'' \<longleftrightarrow> v < 0)"
proof -
  obtain ds where ds: "digits_of 10 (nat \<bar>v\<bar>) = map digit_char ds" "ds \<noteq> []" "\<forall>d \<in> set ds. d < 10" "foldl (\<lambda>a d. a * 10 + d) 0 ds = nat \<bar>v\<bar>"
    using digits_of_digits by blast
  obtain d ds' where d: "ds = d # ds'" using ds(2) by (cases ds) simp_all
  have h: "\<not> is_space (digit_char d)" "digit_char d \<noteq> CHR ''-''" "digit_char d \<noteq> CHR ''+''"
    using is_digit_head [OF digit_char_is_digit, of d] ds(3) d by simp_all
  have m: "\<not> is_space (CHR ''-'')" by (simp add: is_space_def ord_of_def)
  have dg: "is_digit x" if "x \<in> set (map digit_char ds)" for x using that ds(3) digit_char_is_digit by auto
  have t: "takeWhile is_digit (map digit_char ds) = map digit_char ds" "dropWhile is_digit (map digit_char ds) = []"
    using dg by (simp_all add: takeWhile_eq_all_conv dropWhile_eq_Nil_conv)
  have v: "digits_value 10 0 (map digit_char ds) = nat \<bar>v\<bar>" by (simp only: digits_value_digits [OF ds(3)] ds(4))
  have nn: "nul \<notin> set (map digit_char ds)" using dg [of nul] by (auto simp: is_digit_def ord_of_def)
  have body: "unsigned_text neg (map digit_char ds) = Some (neg, nat \<bar>v\<bar>, [])" for neg
  proof (cases "v = 0")
    case True
    have "digit_char 0 = CHR ''0''" by code_simp
    with True have "map digit_char ds = ''0''" using ds(1) by (simp add: digits_of.simps [of 10 0])
    moreover have "unsigned_text neg ''0'' = Some (neg, 0, [])" by code_simp
    ultimately show ?thesis using True by simp
  next
    case False
    then have "take 1 (map digit_char ds) \<noteq> ''0''" using digits_of_head [of "nat \<bar>v\<bar>"] ds(1) by simp
    moreover have "takeWhile is_digit (map digit_char ds) \<noteq> []" unfolding t(1) using ds(2) by simp
    ultimately show ?thesis unfolding unsigned_text_def by (simp only: if_False t(2) v)
  qed
  show ?thesis
  proof (cases "v < 0")
    case True
    then have o: "ostream_int v = CHR ''-'' # map digit_char ds" using ds(1) by (simp add: ostream_int_def)
    then show ?thesis using body [of True] m nn True by (simp add: number_text_def Let_def)
  next
    case False
    then have o: "ostream_int v = map digit_char ds" using ds(1) by (simp add: ostream_int_def)
    then show ?thesis using body [of False] h nn d False by (simp add: number_text_def Let_def)
  qed
qed

text \<open>
  C36: an integer printed in decimal is accepted by the check of a type exactly when it is a value of that
  type; a byte may be signed or unsigned.
\<close>
theorem checks_accept_values:
  "(check_byte (ostream_int v) \<longleftrightarrow> -128 \<le> v \<and> v \<le> 255) \<and>
   (check_int16 (ostream_int v) \<longleftrightarrow> -32768 \<le> v \<and> v \<le> 32767) \<and>
   (check_uint16 (ostream_int v) \<longleftrightarrow> 0 \<le> v \<and> v \<le> 65535) \<and>
   (check_int32 (ostream_int v) \<longleftrightarrow> int_min \<le> v \<and> v \<le> int_max) \<and>
   (check_uint32 (ostream_int v) \<longleftrightarrow> 0 \<le> v \<and> v \<le> 4294967295)"
proof -
  have n: "number_text (ostream_int v) = Some (v < 0, nat \<bar>v\<bar>, [])" "c_str (ostream_int v) = ostream_int v"
    "take 1 (dropWhile is_space (ostream_int v)) = ''-'' \<longleftrightarrow> v < 0"
    using printed_number [of v] by auto
  have ne: "ostream_int v \<noteq> []"
  proof
    assume "ostream_int v = []"
    then show False using n(1) by (simp add: number_text_def unsigned_text_def)
  qed
  have l: "strtol0 (ostream_int v) = (if v > 2 ^ 63 - 1 then (2 ^ 63 - 1, [], True) else if v < - (2 ^ 63) then (- (2 ^ 63), [], True) else (v, [], False))"
    by (simp add: strtol0_def n(1) Let_def)
  have u: "strtoul0 (ostream_int v) = (if \<bar>v\<bar> > 2 ^ 64 - 1 then (2 ^ 64 - 1, [], True) else (v mod 2 ^ 64, [], False))"
    by (simp add: strtoul0_def n(1)) linarith
  have nn: "\<not> not_a_number w (ostream_int v) []" for w using ne by (simp add: not_a_number_def)
  have neg: "w mod 2 ^ 64 = w + 2 ^ 64" if "- (2 ^ 63) \<le> w" "w < 0" for w :: int
    using mod_add_self2 [of w "2 ^ 64"] mod_pos_pos_trivial [of "w + 2 ^ 64" "2 ^ 64"] that by simp
  have pos: "w mod 2 ^ 64 = w" if "0 \<le> w" "w \<le> 2 ^ 64 - 1" for w :: int using that by simp
  have "check_byte (ostream_int v) \<longleftrightarrow> -128 \<le> v \<and> v \<le> 255" by (auto simp: check_byte_def n(2) l nn)
  moreover have "check_int16 (ostream_int v) \<longleftrightarrow> -32768 \<le> v \<and> v \<le> 32767" by (auto simp: check_int16_def n(2) l nn)
  moreover have "check_uint16 (ostream_int v) \<longleftrightarrow> 0 \<le> v \<and> v \<le> 65535"
  proof -
    consider "v < - (2 ^ 63)" | "- (2 ^ 63) \<le> v" "v < 0" | "0 \<le> v" "v \<le> 2 ^ 63 - 1" | "2 ^ 63 - 1 < v" by linarith
    then show ?thesis
    proof cases
      case 2
      with neg [of v] show ?thesis by (simp add: check_uint16_def n(2) l nn Let_def)
    qed (simp_all add: check_uint16_def n(2) l nn Let_def)
  qed
  moreover have "check_int32 (ostream_int v) \<longleftrightarrow> int_min \<le> v \<and> v \<le> int_max" by (auto simp: check_int32_def n(2) l nn)
  moreover have "check_uint32 (ostream_int v) \<longleftrightarrow> 0 \<le> v \<and> v \<le> 4294967295"
    using n(3) by (cases "v < 0") (auto simp: check_uint32_def n(2) u nn)
  ultimately show ?thesis by blast
qed

end
