(* ===== verification/Operators.thy ===== *)
theory Operators
  imports Dap_Util
begin

text \<open>
  The relational operators of a constraint expression: the comparison policies \<open>Cmp\<close>,
  \<open>USCmp\<close>, \<open>SUCmp\<close> and \<open>StrCmp\<close> of \<open>Operators.h\<close>, and the \<open>ops\<close> member of every simple type,
  which fetches the two values and picks the policy for the pair of types.

  Integers keep their width in the values; the usual arithmetic conversions between two
  signed or two unsigned types keep the numbers, so \<open>Cmp\<close> compares numbers.  Floating point
  arithmetic and the regular expressions of the C library are parameters.
\<close>

section \<open>Values\<close>

datatype 'f scalar =
    V_int8 "8 word" | V_byte "8 word" | V_int16 "16 word" | V_uint16 "16 word"
  | V_int32 "32 word" | V_uint32 "32 word" | V_int64 "64 word" | V_uint64 "64 word"
  | V_float32 'f | V_float64 'f | V_str string | V_url string | V_other dap_type

primrec scalar_type :: "'f scalar \<Rightarrow> dap_type" where
  "scalar_type (V_int8 v) = dods_int8_c" | "scalar_type (V_byte v) = dods_byte_c"
| "scalar_type (V_int16 v) = dods_int16_c" | "scalar_type (V_uint16 v) = dods_uint16_c"
| "scalar_type (V_int32 v) = dods_int32_c" | "scalar_type (V_uint32 v) = dods_uint32_c"
| "scalar_type (V_int64 v) = dods_int64_c" | "scalar_type (V_uint64 v) = dods_uint64_c"
| "scalar_type (V_float32 v) = dods_float32_c" | "scalar_type (V_float64 v) = dods_float64_c"
| "scalar_type (V_str v) = dods_str_c" | "scalar_type (V_url v) = dods_url_c"
| "scalar_type (V_other t) = t"

text \<open>
  What the comparisons use of floating point arithmetic: equality and the two orders (which
  are not each other's negations on NaN), the conversion of integers to \<open>float\<close> and to
  \<open>double\<close>, and the truncation of a number that is not negative to 64 bits.
\<close>

record 'f fpu =
  f_eq :: "'f \<Rightarrow> 'f \<Rightarrow> bool"
  f_less :: "'f \<Rightarrow> 'f \<Rightarrow> bool"
  f_le :: "'f \<Rightarrow> 'f \<Rightarrow> bool"
  f_single :: "int \<Rightarrow> 'f"
  f_double :: "int \<Rightarrow> 'f"
  f_trunc :: "'f \<Rightarrow> 64 word"

section \<open>The comparison policies\<close>

datatype rel_op =
    SCAN_EQUAL | SCAN_NOT_EQUAL | SCAN_GREATER | SCAN_GREATER_EQL | SCAN_LESS | SCAN_LESS_EQL
  | SCAN_REGEXP | SCAN_OTHER int

definition strings_only :: exn where
  "strings_only = Error unknown_error ''Regular expressions are supported for strings only.''"

definition unrecognized_operator :: exn where
  "unrecognized_operator = Error unknown_error ''Unrecognized operator.''"

primrec Cmp :: "rel_op \<Rightarrow> int \<Rightarrow> int \<Rightarrow> bool res" where
  "Cmp SCAN_EQUAL v1 v2 = Inr (v1 = v2)"
| "Cmp SCAN_NOT_EQUAL v1 v2 = Inr (v1 \<noteq> v2)"
| "Cmp SCAN_GREATER v1 v2 = Inr (v1 > v2)"
| "Cmp SCAN_GREATER_EQL v1 v2 = Inr (v1 \<ge> v2)"
| "Cmp SCAN_LESS v1 v2 = Inr (v1 < v2)"
| "Cmp SCAN_LESS_EQL v1 v2 = Inr (v1 \<le> v2)"
| "Cmp SCAN_REGEXP v1 v2 = Inl strings_only"
| "Cmp (SCAN_OTHER n) v1 v2 = Inl unrecognized_operator"

text \<open>\<open>Cmp\<close> where one of the types is a floating point type.\<close>

primrec Cmp_float :: "'f fpu \<Rightarrow> rel_op \<Rightarrow> 'f \<Rightarrow> 'f \<Rightarrow> bool res" where
  "Cmp_float fp SCAN_EQUAL v1 v2 = Inr (f_eq fp v1 v2)"
| "Cmp_float fp SCAN_NOT_EQUAL v1 v2 = Inr (\<not> f_eq fp v1 v2)"
| "Cmp_float fp SCAN_GREATER v1 v2 = Inr (f_less fp v2 v1)"
| "Cmp_float fp SCAN_GREATER_EQL v1 v2 = Inr (f_le fp v2 v1)"
| "Cmp_float fp SCAN_LESS v1 v2 = Inr (f_less fp v1 v2)"
| "Cmp_float fp SCAN_LESS_EQL v1 v2 = Inr (f_le fp v1 v2)"
| "Cmp_float fp SCAN_REGEXP v1 v2 = Inl strings_only"
| "Cmp_float fp (SCAN_OTHER n) v1 v2 = Inl unrecognized_operator"

text \<open>\<open>dap_floor_zero\<close> on a signed integer (at most 64 bits wide) and on a float.\<close>

definition dap_floor_zero :: "int \<Rightarrow> 64 word" where
  "dap_floor_zero i = word_of_int (if i < 0 then 0 else i)"

definition dap_floor_zero_float :: "'f fpu \<Rightarrow> 'f \<Rightarrow> 64 word" where
  "dap_floor_zero_float fp x = (if f_less fp x (f_double fp 0) then 0 else f_trunc fp x)"

text \<open>
  \<open>USCmp\<close> and \<open>SUCmp\<close>, given the 64-bit values that are compared: the unsigned operand (a
  conversion to \<open>unsigned long long\<close> keeps it) and the other one cut off at zero.
\<close>

primrec ull_switch :: "rel_op \<Rightarrow> 64 word \<Rightarrow> 64 word \<Rightarrow> bool res" where
  "ull_switch SCAN_EQUAL v1 v2 = Inr (v1 = v2)"
| "ull_switch SCAN_NOT_EQUAL v1 v2 = Inr (v1 \<noteq> v2)"
| "ull_switch SCAN_GREATER v1 v2 = Inr (v1 > v2)"
| "ull_switch SCAN_GREATER_EQL v1 v2 = Inr (v1 \<ge> v2)"
| "ull_switch SCAN_LESS v1 v2 = Inr (v1 < v2)"
| "ull_switch SCAN_LESS_EQL v1 v2 = Inr (v1 \<le> v2)"
| "ull_switch SCAN_REGEXP v1 v2 = Inl strings_only"
| "ull_switch (SCAN_OTHER n) v1 v2 = Inl unrecognized_operator"

definition USCmp :: "rel_op \<Rightarrow> int \<Rightarrow> int \<Rightarrow> bool res" where
  "USCmp op v1 v2 = ull_switch op (word_of_int v1) (dap_floor_zero v2)"

definition SUCmp :: "rel_op \<Rightarrow> int \<Rightarrow> int \<Rightarrow> bool res" where
  "SUCmp op v1 v2 = ull_switch op (dap_floor_zero v1) (word_of_int v2)"

definition USCmp_float :: "'f fpu \<Rightarrow> rel_op \<Rightarrow> int \<Rightarrow> 'f \<Rightarrow> bool res" where
  "USCmp_float fp op v1 v2 = ull_switch op (word_of_int v1) (dap_floor_zero_float fp v2)"

definition SUCmp_float :: "'f fpu \<Rightarrow> rel_op \<Rightarrow> 'f \<Rightarrow> int \<Rightarrow> bool res" where
  "SUCmp_float fp op v1 v2 = ull_switch op (dap_floor_zero_float fp v1) (word_of_int v2)"

text \<open>
  Strings; \<open>rx p s\<close> is the length \<open>Regex(p).match(s)\<close> returns, or the error of a pattern that
  does not compile.
\<close>

primrec StrCmp :: "(string \<Rightarrow> string \<Rightarrow> int res) \<Rightarrow> rel_op \<Rightarrow> string \<Rightarrow> string \<Rightarrow> bool res" where
  "StrCmp rx SCAN_EQUAL v1 v2 = Inr (v1 = v2)"
| "StrCmp rx SCAN_NOT_EQUAL v1 v2 = Inr (v1 \<noteq> v2)"
| "StrCmp rx SCAN_GREATER v1 v2 = Inr (v1 > v2)"
| "StrCmp rx SCAN_GREATER_EQL v1 v2 = Inr (v1 \<ge> v2)"
| "StrCmp rx SCAN_LESS v1 v2 = Inr (v1 < v2)"
| "StrCmp rx SCAN_LESS_EQL v1 v2 = Inr (v1 \<le> v2)"
| "StrCmp rx SCAN_REGEXP v1 v2 = bindE (rx (c_str v2) (c_str v1)) (\<lambda>n. Inr (n > 0))"
| "StrCmp rx (SCAN_OTHER n) v1 v2 = Inl unrecognized_operator"

section \<open>The dispatch on the type of the second operand\<close>

primrec Byte_cmp :: "'f fpu \<Rightarrow> rel_op \<Rightarrow> 8 word \<Rightarrow> 'f scalar \<Rightarrow> bool res" where
  "Byte_cmp fp op d (V_int8 v) = USCmp op (uint d) (sint v)"
| "Byte_cmp fp op d (V_byte v) = Cmp op (uint d) (uint v)"
| "Byte_cmp fp op d (V_int16 v) = USCmp op (uint d) (sint v)"
| "Byte_cmp fp op d (V_uint16 v) = Cmp op (uint d) (uint v)"
| "Byte_cmp fp op d (V_int32 v) = USCmp op (uint d) (sint v)"
| "Byte_cmp fp op d (V_uint32 v) = Cmp op (uint d) (uint v)"
| "Byte_cmp fp op d (V_int64 v) = USCmp op (uint d) (sint v)"
| "Byte_cmp fp op d (V_uint64 v) = Cmp op (uint d) (uint v)"
| "Byte_cmp fp op d (V_float32 v) = USCmp_float fp op (uint d) v"
| "Byte_cmp fp op d (V_float64 v) = USCmp_float fp op (uint d) v"
| "Byte_cmp fp op d (V_str v) = Inr False"
| "Byte_cmp fp op d (V_url v) = Inr False"
| "Byte_cmp fp op d (V_other v) = Inr False"

primrec Int8_cmp :: "'f fpu \<Rightarrow> rel_op \<Rightarrow> 8 word \<Rightarrow> 'f scalar \<Rightarrow> bool res" where
  "Int8_cmp fp op d (V_int8 v) = Cmp op (sint d) (sint v)"
| "Int8_cmp fp op d (V_byte v) = SUCmp op (sint d) (uint v)"
| "Int8_cmp fp op d (V_int16 v) = Cmp op (sint d) (sint v)"
| "Int8_cmp fp op d (V_uint16 v) = SUCmp op (sint d) (uint v)"
| "Int8_cmp fp op d (V_int32 v) = Cmp op (sint d) (sint v)"
| "Int8_cmp fp op d (V_uint32 v) = SUCmp op (sint d) (uint v)"
| "Int8_cmp fp op d (V_int64 v) = Cmp op (sint d) (sint v)"
| "Int8_cmp fp op d (V_uint64 v) = SUCmp op (sint d) (uint v)"
| "Int8_cmp fp op d (V_float32 v) = Cmp_float fp op (f_single fp (sint d)) v"
| "Int8_cmp fp op d (V_float64 v) = Cmp_float fp op (f_double fp (sint d)) v"
| "Int8_cmp fp op d (V_str v) = Inr False"
| "Int8_cmp fp op d (V_url v) = Inr False"
| "Int8_cmp fp op d (V_other v) = Inr False"

primrec Int16_cmp :: "'f fpu \<Rightarrow> rel_op \<Rightarrow> 16 word \<Rightarrow> 'f scalar \<Rightarrow> bool res" where
  "Int16_cmp fp op d (V_int8 v) = Cmp op (sint d) (sint v)"
| "Int16_cmp fp op d (V_byte v) = SUCmp op (sint d) (uint v)"
| "Int16_cmp fp op d (V_int16 v) = Cmp op (sint d) (sint v)"
| "Int16_cmp fp op d (V_uint16 v) = SUCmp op (sint d) (uint v)"
| "Int16_cmp fp op d (V_int32 v) = Cmp op (sint d) (sint v)"
| "Int16_cmp fp op d (V_uint32 v) = SUCmp op (sint d) (uint v)"
| "Int16_cmp fp op d (V_int64 v) = Cmp op (sint d) (sint v)"
| "Int16_cmp fp op d (V_uint64 v) = SUCmp op (sint d) (uint v)"
| "Int16_cmp fp op d (V_float32 v) = Cmp_float fp op (f_single fp (sint d)) v"
| "Int16_cmp fp op d (V_float64 v) = Cmp_float fp op (f_double fp (sint d)) v"
| "Int16_cmp fp op d (V_str v) = Inr False"
| "Int16_cmp fp op d (V_url v) = Inr False"
| "Int16_cmp fp op d (V_other v) = Inr False"

primrec Int32_cmp :: "'f fpu \<Rightarrow> rel_op \<Rightarrow> 32 word \<Rightarrow> 'f scalar \<Rightarrow> bool res" where
  "Int32_cmp fp op d (V_int8 v) = Cmp op (sint d) (sint v)"
| "Int32_cmp fp op d (V_byte v) = SUCmp op (sint d) (uint v)"
| "Int32_cmp fp op d (V_int16 v) = Cmp op (sint d) (sint v)"
| "Int32_cmp fp op d (V_uint16 v) = SUCmp op (sint d) (uint v)"
| "Int32_cmp fp op d (V_int32 v) = Cmp op (sint d) (sint v)"
| "Int32_cmp fp op d (V_uint32 v) = SUCmp op (sint d) (uint v)"
| "Int32_cmp fp op d (V_int64 v) = Cmp op (sint d) (sint v)"
| "Int32_cmp fp op d (V_uint64 v) = SUCmp op (sint d) (uint v)"
| "Int32_cmp fp op d (V_float32 v) = Cmp_float fp op (f_single fp (sint d)) v"
| "Int32_cmp fp op d (V_float64 v) = Cmp_float fp op (f_double fp (sint d)) v"
| "Int32_cmp fp op d (V_str v) = Inr False"
| "Int32_cmp fp op d (V_url v) = Inr False"
| "Int32_cmp fp op d (V_other v) = Inr False"

primrec Int64_cmp :: "'f fpu \<Rightarrow> rel_op \<Rightarrow> 64 word \<Rightarrow> 'f scalar \<Rightarrow> bool res" where
  "Int64_cmp fp op d (V_int8 v) = Cmp op (sint d) (sint v)"
| "Int64_cmp fp op d (V_byte v) = SUCmp op (sint d) (uint v)"
| "Int64_cmp fp op d (V_int16 v) = Cmp op (sint d) (sint v)"
| "Int64_cmp fp op d (V_uint16 v) = SUCmp op (sint d) (uint v)"
| "Int64_cmp fp op d (V_int32 v) = Cmp op (sint d) (sint v)"
| "Int64_cmp fp op d (V_uint32 v) = SUCmp op (sint d) (uint v)"
| "Int64_cmp fp op d (V_int64 v) = Cmp op (sint d) (sint v)"
| "Int64_cmp fp op d (V_uint64 v) = SUCmp op (sint d) (uint v)"
| "Int64_cmp fp op d (V_float32 v) = Cmp_float fp op (f_single fp (sint d)) v"
| "Int64_cmp fp op d (V_float64 v) = Cmp_float fp op (f_double fp (sint d)) v"
| "Int64_cmp fp op d (V_str v) = Inr False"
| "Int64_cmp fp op d (V_url v) = Inr False"
| "Int64_cmp fp op d (V_other v) = Inr False"

primrec UInt16_cmp :: "'f fpu \<Rightarrow> rel_op \<Rightarrow> 16 word \<Rightarrow> 'f scalar \<Rightarrow> bool res" where
  "UInt16_cmp fp op d (V_int8 v) = USCmp op (uint d) (sint v)"
| "UInt16_cmp fp op d (V_byte v) = Cmp op (uint d) (uint v)"
| "UInt16_cmp fp op d (V_int16 v) = USCmp op (uint d) (sint v)"
| "UInt16_cmp fp op d (V_uint16 v) = Cmp op (uint d) (uint v)"
| "UInt16_cmp fp op d (V_int32 v) = USCmp op (uint d) (sint v)"
| "UInt16_cmp fp op d (V_uint32 v) = Cmp op (uint d) (uint v)"
| "UInt16_cmp fp op d (V_int64 v) = USCmp op (uint d) (sint v)"
| "UInt16_cmp fp op d (V_uint64 v) = Cmp op (uint d) (uint v)"
| "UInt16_cmp fp op d (V_float32 v) = USCmp_float fp op (uint d) v"
| "UInt16_cmp fp op d (V_float64 v) = USCmp_float fp op (uint d) v"
| "UInt16_cmp fp op d (V_str v) = Inr False"
| "UInt16_cmp fp op d (V_url v) = Inr False"
| "UInt16_cmp fp op d (V_other v) = Inr False"

primrec UInt32_cmp :: "'f fpu \<Rightarrow> rel_op \<Rightarrow> 32 word \<Rightarrow> 'f scalar \<Rightarrow> bool res" where
  "UInt32_cmp fp op d (V_int8 v) = USCmp op (uint d) (sint v)"
| "UInt32_cmp fp op d (V_byte v) = Cmp op (uint d) (uint v)"
| "UInt32_cmp fp op d (V_int16 v) = USCmp op (uint d) (sint v)"
| "UInt32_cmp fp op d (V_uint16 v) = Cmp op (uint d) (uint v)"
| "UInt32_cmp fp op d (V_int32 v) = USCmp op (uint d) (sint v)"
| "UInt32_cmp fp op d (V_uint32 v) = Cmp op (uint d) (uint v)"
| "UInt32_cmp fp op d (V_int64 v) = USCmp op (uint d) (sint v)"
| "UInt32_cmp fp op d (V_uint64 v) = Cmp op (uint d) (uint v)"
| "UInt32_cmp fp op d (V_float32 v) = USCmp_float fp op (uint d) v"
| "UInt32_cmp fp op d (V_float64 v) = USCmp_float fp op (uint d) v"
| "UInt32_cmp fp op d (V_str v) = Inr False"
| "UInt32_cmp fp op d (V_url v) = Inr False"
| "UInt32_cmp fp op d (V_other v) = Inr False"

primrec UInt64_cmp :: "'f fpu \<Rightarrow> rel_op \<Rightarrow> 64 word \<Rightarrow> 'f scalar \<Rightarrow> bool res" where
  "UInt64_cmp fp op d (V_int8 v) = USCmp op (uint d) (sint v)"
| "UInt64_cmp fp op d (V_byte v) = Cmp op (uint d) (uint v)"
| "UInt64_cmp fp op d (V_int16 v) = USCmp op (uint d) (sint v)"
| "UInt64_cmp fp op d (V_uint16 v) = Cmp op (uint d) (uint v)"
| "UInt64_cmp fp op d (V_int32 v) = USCmp op (uint d) (sint v)"
| "UInt64_cmp fp op d (V_uint32 v) = Cmp op (uint d) (uint v)"
| "UInt64_cmp fp op d (V_int64 v) = USCmp op (uint d) (sint v)"
| "UInt64_cmp fp op d (V_uint64 v) = Cmp op (uint d) (uint v)"
| "UInt64_cmp fp op d (V_float32 v) = USCmp_float fp op (uint d) v"
| "UInt64_cmp fp op d (V_float64 v) = USCmp_float fp op (uint d) v"
| "UInt64_cmp fp op d (V_str v) = Inr False"
| "UInt64_cmp fp op d (V_url v) = Inr False"
| "UInt64_cmp fp op d (V_other v) = Inr False"

primrec Float32_cmp :: "'f fpu \<Rightarrow> rel_op \<Rightarrow> 'f \<Rightarrow> 'f scalar \<Rightarrow> bool res" where
  "Float32_cmp fp op d (V_int8 v) = Cmp_float fp op d (f_single fp (sint v))"
| "Float32_cmp fp op d (V_byte v) = SUCmp_float fp op d (uint v)"
| "Float32_cmp fp op d (V_int16 v) = Cmp_float fp op d (f_single fp (sint v))"
| "Float32_cmp fp op d (V_uint16 v) = SUCmp_float fp op d (uint v)"
| "Float32_cmp fp op d (V_int32 v) = Cmp_float fp op d (f_single fp (sint v))"
| "Float32_cmp fp op d (V_uint32 v) = SUCmp_float fp op d (uint v)"
| "Float32_cmp fp op d (V_int64 v) = Cmp_float fp op d (f_single fp (sint v))"
| "Float32_cmp fp op d (V_uint64 v) = SUCmp_float fp op d (uint v)"
| "Float32_cmp fp op d (V_float32 v) = Cmp_float fp op d v"
| "Float32_cmp fp op d (V_float64 v) = Cmp_float fp op d v"
| "Float32_cmp fp op d (V_str v) = Inr False"
| "Float32_cmp fp op d (V_url v) = Inr False"
| "Float32_cmp fp op d (V_other v) = Inr False"

primrec Float64_cmp :: "'f fpu \<Rightarrow> rel_op \<Rightarrow> 'f \<Rightarrow> 'f scalar \<Rightarrow> bool res" where
  "Float64_cmp fp op d (V_int8 v) = Cmp_float fp op d (f_double fp (sint v))"
| "Float64_cmp fp op d (V_byte v) = SUCmp_float fp op d (uint v)"
| "Float64_cmp fp op d (V_int16 v) = Cmp_float fp op d (f_double fp (sint v))"
| "Float64_cmp fp op d (V_uint16 v) = SUCmp_float fp op d (uint v)"
| "Float64_cmp fp op d (V_int32 v) = Cmp_float fp op d (f_double fp (sint v))"
| "Float64_cmp fp op d (V_uint32 v) = SUCmp_float fp op d (uint v)"
| "Float64_cmp fp op d (V_int64 v) = Cmp_float fp op d (f_double fp (sint v))"
| "Float64_cmp fp op d (V_uint64 v) = SUCmp_float fp op d (uint v)"
| "Float64_cmp fp op d (V_float32 v) = Cmp_float fp op d v"
| "Float64_cmp fp op d (V_float64 v) = Cmp_float fp op d v"
| "Float64_cmp fp op d (V_str v) = Inr False"
| "Float64_cmp fp op d (V_url v) = Inr False"
| "Float64_cmp fp op d (V_other v) = Inr False"

definition Str_cmp :: "(string \<Rightarrow> string \<Rightarrow> int res) \<Rightarrow> rel_op \<Rightarrow> string \<Rightarrow> 'f scalar \<Rightarrow> bool res" where
  "Str_cmp rx op d b =
     (case b of V_str v \<Rightarrow> StrCmp rx op d v | V_url v \<Rightarrow> StrCmp rx op d v | _ \<Rightarrow> Inr False)"


section \<open>The \<open>ops\<close> members\<close>

text \<open>
  An operand is a variable with its \<open>read_p\<close> flag and its buffer.  \<open>read()\<close> is a virtual
  function that data handlers override: it is the parameter \<open>rd\<close>, which returns the flag
  and the variable after the call, or throws.
\<close>

record 'f operand =
  op_val :: "'f scalar"
  op_read :: bool

type_synonym 'f reader = "'f operand \<Rightarrow> (bool \<times> 'f operand) res"

definition fetch :: "'f reader \<Rightarrow> 'f operand \<Rightarrow> string \<Rightarrow> 'f operand res" where
  "fetch rd x msg =
     (if op_read x then Inr x
      else bindE (rd x) (\<lambda>(ok, x'). if ok then Inr x' else Inl (InternalErr msg)))"

text \<open>
  The operands' prologue.  \<open>Int8\<close>, \<open>Int32\<close>, \<open>Int64\<close> and \<open>Float64\<close> use the second operand
  without the test for a null pointer that the other types make.
\<close>

definition fetch_second :: "bool \<Rightarrow> 'f reader \<Rightarrow> 'f operand option \<Rightarrow> string \<Rightarrow> 'f operand res" where
  "fetch_second null_check rd b msg =
     (case b of
        None \<Rightarrow> Inl (if null_check then InternalErr msg else Undefined)
      | Some x \<Rightarrow> fetch rd x msg)"

definition ops_prologue ::
  "bool \<Rightarrow> string \<Rightarrow> string \<Rightarrow> 'f reader \<Rightarrow> 'f operand \<Rightarrow> 'f operand option \<Rightarrow> ('f operand \<times> 'f operand) res" where
  "ops_prologue null_check msg1 msg2 rd a b =
     bindE (fetch rd a msg1) (\<lambda>a'. bindE (fetch_second null_check rd b msg2) (\<lambda>b'. Inr (a', b')))"

definition not_read :: string where "not_read = ''This value not read!''"
definition was_not_read :: string where "was_not_read = ''This value was not read!''"

type_synonym 'f ops = "'f fpu \<Rightarrow> 'f reader \<Rightarrow> 'f operand \<Rightarrow> 'f operand option \<Rightarrow> rel_op \<Rightarrow>
  (bool \<times> 'f operand \<times> 'f operand) res"

text \<open>
  The body shared by the types: the value of the first operand is taken from the variable
  after its \<open>read\<close> (whose type does not change).
\<close>

definition finish_ops :: "('f scalar \<Rightarrow> 'f scalar \<Rightarrow> bool res) \<Rightarrow> 'f operand \<times> 'f operand \<Rightarrow>
    (bool \<times> 'f operand \<times> 'f operand) res" where
  "finish_ops cmp ab = bindE (cmp (op_val (fst ab)) (op_val (snd ab))) (\<lambda>r. Inr (r, fst ab, snd ab))"

definition Byte_ops :: "'f ops" where
  "Byte_ops fp rd a b op = bindE (ops_prologue True not_read not_read rd a b)
     (finish_ops (\<lambda>x y. case x of V_byte d \<Rightarrow> Byte_cmp fp op d y | _ \<Rightarrow> Inl Undefined))"

definition Int8_ops :: "'f ops" where
  "Int8_ops fp rd a b op = bindE (ops_prologue False not_read not_read rd a b)
     (finish_ops (\<lambda>x y. case x of V_int8 d \<Rightarrow> Int8_cmp fp op d y | _ \<Rightarrow> Inl Undefined))"

definition Int16_ops :: "'f ops" where
  "Int16_ops fp rd a b op = bindE (ops_prologue True not_read not_read rd a b)
     (finish_ops (\<lambda>x y. case x of V_int16 d \<Rightarrow> Int16_cmp fp op d y | _ \<Rightarrow> Inl Undefined))"

definition UInt16_ops :: "'f ops" where
  "UInt16_ops fp rd a b op = bindE (ops_prologue True was_not_read was_not_read rd a b)
     (finish_ops (\<lambda>x y. case x of V_uint16 d \<Rightarrow> UInt16_cmp fp op d y | _ \<Rightarrow> Inl Undefined))"

definition Int32_ops :: "'f ops" where
  "Int32_ops fp rd a b op = bindE (ops_prologue False not_read not_read rd a b)
     (finish_ops (\<lambda>x y. case x of V_int32 d \<Rightarrow> Int32_cmp fp op d y | _ \<Rightarrow> Inl Undefined))"

definition UInt32_ops :: "'f ops" where
  "UInt32_ops fp rd a b op = bindE (ops_prologue True was_not_read was_not_read rd a b)
     (finish_ops (\<lambda>x y. case x of V_uint32 d \<Rightarrow> UInt32_cmp fp op d y | _ \<Rightarrow> Inl Undefined))"

definition Int64_ops :: "'f ops" where
  "Int64_ops fp rd a b op = bindE (ops_prologue False not_read not_read rd a b)
     (finish_ops (\<lambda>x y. case x of V_int64 d \<Rightarrow> Int64_cmp fp op d y | _ \<Rightarrow> Inl Undefined))"

definition UInt64_ops :: "'f ops" where
  "UInt64_ops fp rd a b op = bindE (ops_prologue True was_not_read was_not_read rd a b)
     (finish_ops (\<lambda>x y. case x of V_uint64 d \<Rightarrow> UInt64_cmp fp op d y | _ \<Rightarrow> Inl Undefined))"

definition Float32_ops :: "'f ops" where
  "Float32_ops fp rd a b op = bindE (ops_prologue True not_read not_read rd a b)
     (finish_ops (\<lambda>x y. case x of V_float32 d \<Rightarrow> Float32_cmp fp op d y | _ \<Rightarrow> Inl Undefined))"

definition Float64_ops :: "'f ops" where
  "Float64_ops fp rd a b op = bindE (ops_prologue False not_read not_read rd a b)
     (finish_ops (\<lambda>x y. case x of V_float64 d \<Rightarrow> Float64_cmp fp op d y | _ \<Rightarrow> Inl Undefined))"

text \<open>\<open>Url\<close> inherits from \<open>Str\<close>.\<close>

definition Str_ops :: "(string \<Rightarrow> string \<Rightarrow> int res) \<Rightarrow> 'f reader \<Rightarrow> 'f operand \<Rightarrow> 'f operand option \<Rightarrow> rel_op \<Rightarrow>
    (bool \<times> 'f operand \<times> 'f operand) res" where
  "Str_ops rx rd a b op = bindE (ops_prologue True was_not_read ''Argument value was not read!'' rd a b)
     (finish_ops (\<lambda>x y. case x of V_str d \<Rightarrow> Str_cmp rx op d y | V_url d \<Rightarrow> Str_cmp rx op d y
        | _ \<Rightarrow> Inl Undefined))"

text \<open>The virtual call; the other classes inherit \<open>BaseType::ops\<close>, which throws.\<close>

definition ops :: "'f fpu \<Rightarrow> (string \<Rightarrow> string \<Rightarrow> int res) \<Rightarrow> 'f reader \<Rightarrow> 'f operand \<Rightarrow> 'f operand option \<Rightarrow> rel_op \<Rightarrow>
    (bool \<times> 'f operand \<times> 'f operand) res" where
  "ops fp rx rd a b op =
     (case op_val a of
        V_int8 _ \<Rightarrow> Int8_ops fp rd a b op | V_byte _ \<Rightarrow> Byte_ops fp rd a b op
      | V_int16 _ \<Rightarrow> Int16_ops fp rd a b op | V_uint16 _ \<Rightarrow> UInt16_ops fp rd a b op
      | V_int32 _ \<Rightarrow> Int32_ops fp rd a b op | V_uint32 _ \<Rightarrow> UInt32_ops fp rd a b op
      | V_int64 _ \<Rightarrow> Int64_ops fp rd a b op | V_uint64 _ \<Rightarrow> UInt64_ops fp rd a b op
      | V_float32 _ \<Rightarrow> Float32_ops fp rd a b op | V_float64 _ \<Rightarrow> Float64_ops fp rd a b op
      | V_str _ \<Rightarrow> Str_ops rx rd a b op | V_url _ \<Rightarrow> Str_ops rx rd a b op
      | V_other _ \<Rightarrow> Inl (InternalErr ''Unimplemented operator.''))"

lemmas ops_members = Int8_ops_def Byte_ops_def Int16_ops_def UInt16_ops_def Int32_ops_def UInt32_ops_def
  Int64_ops_def UInt64_ops_def Float32_ops_def Float64_ops_def Str_ops_def

section \<open>What the comparisons of integers mean\<close>

text \<open>The number an integer variable holds, and whether its type is signed.\<close>

fun int_value :: "'f scalar \<Rightarrow> (bool \<times> int) option" where
  "int_value (V_int8 v) = Some (True, sint v)" | "int_value (V_byte v) = Some (False, uint v)"
| "int_value (V_int16 v) = Some (True, sint v)" | "int_value (V_uint16 v) = Some (False, uint v)"
| "int_value (V_int32 v) = Some (True, sint v)" | "int_value (V_uint32 v) = Some (False, uint v)"
| "int_value (V_int64 v) = Some (True, sint v)" | "int_value (V_uint64 v) = Some (False, uint v)"
| "int_value _ = None"

text \<open>
  The numbers that are compared: between a signed and an unsigned type the signed number is
  raised to zero.
\<close>

definition floor_zero :: "int \<Rightarrow> int" where "floor_zero i = (if i < 0 then 0 else i)"

definition int_compare :: "rel_op \<Rightarrow> bool \<times> int \<Rightarrow> bool \<times> int \<Rightarrow> bool res" where
  "int_compare op a b =
     (if fst a = fst b then Cmp op (snd a) (snd b) else Cmp op (floor_zero (snd a)) (floor_zero (snd b)))"

lemma ull_switch_Cmp:
  "0 \<le> x \<Longrightarrow> x < 18446744073709551616 \<Longrightarrow> 0 \<le> y \<Longrightarrow> y < 18446744073709551616 \<Longrightarrow>
   ull_switch op (word_of_int x) (word_of_int y) = Cmp op x y"
proof -
  assume a: "0 \<le> x" "x < 18446744073709551616" "0 \<le> y" "y < 18446744073709551616"
  let ?x = "word_of_int x :: 64 word" and ?y = "word_of_int y :: 64 word"
  have u: "uint ?x = x" "uint ?y = y" using a by (simp_all add: uint_word_of_int_eq take_bit_int_eq_self)
  then have "?x = ?y \<longleftrightarrow> x = y" "?x < ?y \<longleftrightarrow> x < y" "?x \<le> ?y \<longleftrightarrow> x \<le> y" "?y < ?x \<longleftrightarrow> y < x" "?y \<le> ?x \<longleftrightarrow> y \<le> x"
    by (metis, simp_all only: word_less_def word_le_def u)
  then show ?thesis by (cases op) simp_all
qed

definition fits :: "bool \<times> int \<Rightarrow> bool" where
  "fits a = (if fst a then - 9223372036854775808 \<le> snd a \<and> snd a < 9223372036854775808
             else 0 \<le> snd a \<and> snd a < 18446744073709551616)"

lemma USCmp_int: "fits (False, x) \<Longrightarrow> fits (True, y) \<Longrightarrow> USCmp op x y = int_compare op (False, x) (True, y)"
  by (auto simp: USCmp_def dap_floor_zero_def fits_def int_compare_def floor_zero_def ull_switch_Cmp
        simp del: word_of_int_0)

lemma SUCmp_int: "fits (True, x) \<Longrightarrow> fits (False, y) \<Longrightarrow> SUCmp op x y = int_compare op (True, x) (False, y)"
  by (auto simp: SUCmp_def dap_floor_zero_def fits_def int_compare_def floor_zero_def ull_switch_Cmp
        simp del: word_of_int_0)

lemma Cmp_int: "Cmp op x y = int_compare op (s, x) (s, y)"
  by (simp add: int_compare_def)


lemma int_value_fits: "int_value v = Some x \<Longrightarrow> fits x"
proof -
  have s: "- 9223372036854775808 \<le> sint w \<and> sint w < 9223372036854775808"
    if "LENGTH('w) \<le> 64" for w :: "'w::len word"
  proof -
    have "(2 ^ (LENGTH('w) - 1) :: int) \<le> 2 ^ 63"
      using that by (intro power_increasing) simp_all
    then show ?thesis using sint_ge [of w] sint_lt [of w] by simp
  qed
  have u: "0 \<le> uint w \<and> uint w < 18446744073709551616" if "LENGTH('w) \<le> 64" for w :: "'w::len word"
  proof -
    show ?thesis using lt2p_lem [OF that, of w] by simp
  qed
  show "int_value v = Some x \<Longrightarrow> fits x"
    by (cases v) (auto simp: fits_def s u less_imp_le)
qed

lemma ops_read:
  "op_read a \<Longrightarrow> op_read b \<Longrightarrow> ops_prologue nc m1 m2 rd a (Some b) = Inr (a, b)"
  by (simp add: ops_prologue_def fetch_def fetch_second_def)

text \<open>The comparison \<open>ops\<close> makes once both operands are read.\<close>

definition cmp_values :: "'f fpu \<Rightarrow> (string \<Rightarrow> string \<Rightarrow> int res) \<Rightarrow> rel_op \<Rightarrow> 'f scalar \<Rightarrow> 'f scalar \<Rightarrow> bool res" where
  "cmp_values fp rx op x y =
     (case x of
        V_int8 d \<Rightarrow> Int8_cmp fp op d y | V_byte d \<Rightarrow> Byte_cmp fp op d y
      | V_int16 d \<Rightarrow> Int16_cmp fp op d y | V_uint16 d \<Rightarrow> UInt16_cmp fp op d y
      | V_int32 d \<Rightarrow> Int32_cmp fp op d y | V_uint32 d \<Rightarrow> UInt32_cmp fp op d y
      | V_int64 d \<Rightarrow> Int64_cmp fp op d y | V_uint64 d \<Rightarrow> UInt64_cmp fp op d y
      | V_float32 d \<Rightarrow> Float32_cmp fp op d y | V_float64 d \<Rightarrow> Float64_cmp fp op d y
      | V_str d \<Rightarrow> Str_cmp rx op d y | V_url d \<Rightarrow> Str_cmp rx op d y
      | V_other _ \<Rightarrow> Inl (InternalErr ''Unimplemented operator.''))"

lemma ops_cmp_values:
  assumes "op_read a" and "op_read b"
  shows "ops fp rx rd a (Some b) op = bindE (cmp_values fp rx op (op_val a) (op_val b)) (\<lambda>r. Inr (r, a, b))"
  by (cases "op_val a") (simp_all add: ops_def ops_members ops_read [OF assms] finish_ops_def cmp_values_def)

lemma cmp_values_int:
  assumes "int_value x = Some m" and "int_value y = Some n"
  shows "cmp_values fp rx op x y = int_compare op m n"
  using assms int_value_fits [OF assms(1)] int_value_fits [OF assms(2)]
  by (cases x; simp; cases y; simp add: cmp_values_def) (auto simp: USCmp_int SUCmp_int int_compare_def)

section \<open>Exchanging the operands\<close>

primrec mirror :: "rel_op \<Rightarrow> rel_op" where
  "mirror SCAN_EQUAL = SCAN_EQUAL" | "mirror SCAN_NOT_EQUAL = SCAN_NOT_EQUAL"
| "mirror SCAN_GREATER = SCAN_LESS" | "mirror SCAN_GREATER_EQL = SCAN_LESS_EQL"
| "mirror SCAN_LESS = SCAN_GREATER" | "mirror SCAN_LESS_EQL = SCAN_GREATER_EQL"
| "mirror SCAN_REGEXP = SCAN_REGEXP" | "mirror (SCAN_OTHER n) = SCAN_OTHER n"

definition symmetric_eq :: "'f fpu \<Rightarrow> bool" where
  "symmetric_eq fp = (\<forall>x y. f_eq fp x y = f_eq fp y x)"

lemma Cmp_mirror: "Cmp (mirror op) y x = Cmp op x y"
  by (cases op) auto

lemma Cmp_float_mirror: "symmetric_eq fp \<Longrightarrow> Cmp_float fp (mirror op) y x = Cmp_float fp op x y"
  by (cases op) (auto simp: symmetric_eq_def)

lemma ull_mirror: "ull_switch (mirror op) y x = ull_switch op x y"
  by (cases op) auto

lemma US_mirror: "USCmp (mirror op) y x = SUCmp op x y" "SUCmp (mirror op) y x = USCmp op x y"
  "USCmp_float fp (mirror op) y z = SUCmp_float fp op z y"
  "SUCmp_float fp (mirror op) z y = USCmp_float fp op y z"
  by (simp_all add: USCmp_def SUCmp_def USCmp_float_def SUCmp_float_def ull_mirror)

lemma StrCmp_mirror: "op \<noteq> SCAN_REGEXP \<Longrightarrow> StrCmp rx (mirror op) y x = StrCmp rx op x y"
  by (cases op) auto

lemma cmp_values_mirror:
  assumes "symmetric_eq fp" and "op \<noteq> SCAN_REGEXP"
    and "\<forall>t. x \<noteq> V_other t" and "\<forall>t. y \<noteq> V_other t"
  shows "cmp_values fp rx (mirror op) y x = cmp_values fp rx op x y"
  using assms(3,4)
  by (cases x; simp; cases y;
      simp add: cmp_values_def Cmp_mirror Cmp_float_mirror [OF assms(1)] US_mirror Str_cmp_def StrCmp_mirror [OF assms(2)])

text \<open>An instance of the parameter: floating point numbers that are integers.\<close>

definition int_fpu :: "int fpu" where
  "int_fpu = \<lparr>f_eq = (=), f_less = (<), f_le = (\<le>), f_single = id, f_double = id, f_trunc = word_of_int\<rparr>"

section \<open>Properties\<close>

text \<open>
  C2: a comparison of two integer variables that hold their values, of any two of the eight
  integer types, compares the numbers, after raising a negative number to zero when exactly
  one of the types is unsigned; the variables are not changed.
\<close>

theorem ops_integers:
  assumes "op_read a" "op_read b"
    and "int_value (op_val a) = Some m" "int_value (op_val b) = Some n"
  shows "ops fp rx rd a (Some b) op = bindE (int_compare op m n) (\<lambda>r. Inr (r, a, b))"
  by (simp only: ops_cmp_values [OF assms(1,2)] cmp_values_int [OF assms(3,4)])

theorem ops_integers_witness:
  "ops int_fpu (\<lambda>p s. Inr 0) (\<lambda>x. Inr (True, x)) \<lparr>op_val = V_int8 (- 1), op_read = True\<rparr> (Some \<lparr>op_val = V_byte 0, op_read = True\<rparr>) SCAN_EQUAL
    = bindE (int_compare SCAN_EQUAL (True, - 1) (False, 0))
        (\<lambda>r. Inr (r, \<lparr>op_val = V_int8 (- 1), op_read = True\<rparr>, \<lparr>op_val = V_byte 0, op_read = True\<rparr>))"
  by (rule ops_integers) simp_all



end
