(* ===== verification/Constraint_Eval.thy ===== *)
theory Constraint_Eval
  imports Operators
begin

text \<open>
  The selection part of a constraint after it was parsed: values and calls (\<open>RValue.cc\<close>), clauses
  (\<open>Clause.cc\<close>), the evaluator (\<open>ConstraintEvaluator.cc\<close>) and the list of server functions
  (\<open>ServerFunctionsList.cc\<close>).  A \<open>BaseType *\<close> is an address in the dataset, or null; server
  functions are values of the model, as they are pointers in the code.  The state of the dataset
  when a comparison throws is the one before it.
\<close>

section \<open>Values\<close>

record 'f dataset =
  v_obj :: "nat \<Rightarrow> 'f operand option"
  v_send :: "nat \<Rightarrow> bool"
  v_name :: string

type_synonym 'f btp_func = "nat option list \<Rightarrow> ('f dataset, nat option) action"
type_synonym 'f bool_func = "nat option list \<Rightarrow> ('f dataset, bool) action"

datatype 'f rvalue = Value nat | Call "'f btp_func" "'f rvalue list option" | No_value

fun in_turn :: "('s, 'a) action list \<Rightarrow> ('s, 'a list) action" where
  "in_turn [] = returnS []"
| "in_turn (m # ms) = bindS m (\<lambda>x. bindS (in_turn ms) (\<lambda>xs. returnS (x # xs)))"

text \<open>A null list of arguments counts as an empty one.\<close>

definition run_args :: "('s, nat option) action list option \<Rightarrow> ('s, nat option list) action" where
  "run_args args =
     (let argc = (case args of None \<Rightarrow> 0 | Some ms \<Rightarrow> length ms) in
      if \<not> size_ok 8 (of_nat (argc + 1))
      then throwS (Error malformed_expr (''Malformed argument list ('' @ ostream_int (int argc) @ '').''))
      else case args of None \<Rightarrow> returnS [] | Some ms \<Rightarrow> in_turn ms)"

text \<open>The function gets \<open>d_args->size()\<close>, which is undefined for a call without a list of arguments.\<close>

primrec bvalue :: "'f rvalue \<Rightarrow> ('f dataset, nat option) action" where
  "bvalue (Value p) = returnS (Some p)"
| "bvalue (Call f args) =
     bindS (run_args (map_option (map bvalue) args)) (\<lambda>argv. if args = None then throwS Undefined else f argv)"
| "bvalue No_value = returnS None"

definition build_btp_args :: "'f rvalue list option \<Rightarrow> ('f dataset, nat option list) action" where
  "build_btp_args args = run_args (map_option (map bvalue) args)"

definition make_rvalue_list :: "'f rvalue \<Rightarrow> 'f rvalue list" where "make_rvalue_list rv = [rv]"
definition append_rvalue_list :: "'f rvalue list \<Rightarrow> 'f rvalue \<Rightarrow> 'f rvalue list" where "append_rvalue_list rvals rv = rvals @ [rv]"

section \<open>Comparing\<close>

text \<open>
  \<open>ops\<close> on variables of the dataset.  When both operands are the same variable, the second is
  seen after the first has been read.
\<close>

definition after_read :: "'f reader \<Rightarrow> 'f operand \<Rightarrow> 'f operand" where
  "after_read rd x = (case fetch rd x [] of Inr x' \<Rightarrow> x' | Inl _ \<Rightarrow> x)"

definition second_operand :: "'f reader \<Rightarrow> 'f dataset \<Rightarrow> nat \<Rightarrow> 'f operand \<Rightarrow> nat option \<Rightarrow> 'f operand option res" where
  "second_operand rd s a x q =
     (case q of None \<Rightarrow> Inr None
      | Some b \<Rightarrow> if b = a then Inr (Some (after_read rd x))
                  else case v_obj s b of None \<Rightarrow> Inl Undefined | Some y \<Rightarrow> Inr (Some y))"

definition store_operand :: "nat option \<Rightarrow> 'f operand \<Rightarrow> 'f dataset \<Rightarrow> 'f dataset" where
  "store_operand q y s = (case q of None \<Rightarrow> s | Some b \<Rightarrow> s\<lparr>v_obj := (v_obj s)(b \<mapsto> y)\<rparr>)"

definition compare :: "'f fpu \<Rightarrow> (string \<Rightarrow> string \<Rightarrow> int res) \<Rightarrow> 'f reader \<Rightarrow> rel_op \<Rightarrow> nat option \<Rightarrow> nat option \<Rightarrow> ('f dataset, bool) action" where
  "compare fp rx rd op p q s =
     (case p of None \<Rightarrow> (Inl Undefined, s)
      | Some a \<Rightarrow>
          (case v_obj s a of None \<Rightarrow> (Inl Undefined, s)
           | Some x \<Rightarrow>
               (case bindE (second_operand rd s a x q) (\<lambda>y. ops fp rx rd x y op) of
                  Inl e \<Rightarrow> (Inl e, s)
                | Inr (r, x', y') \<Rightarrow> (Inr r, store_operand q y' (store_operand (Some a) x' s)))))"

section \<open>Clauses\<close>

record 'f clause =
  c_op :: "rel_op option"
  c_bool :: "'f bool_func option"
  c_btp :: "'f btp_func option"
  c_argc :: nat
  c_arg1 :: "'f rvalue option"
  c_args :: "'f rvalue list option"

definition clause_OK :: "'f clause \<Rightarrow> bool" where
  "clause_OK c =
     (let relational = (c_op c \<noteq> None \<and> c_bool c = None \<and> c_btp c = None);
          boolean = (c_op c = None \<and> c_bool c \<noteq> None \<and> c_btp c = None);
          basetype = (c_op c = None \<and> c_bool c = None \<and> c_btp c \<noteq> None) in
      if relational then c_arg1 c \<noteq> None \<and> c_args c \<noteq> None
      else if boolean \<or> basetype then True else False)"

definition args_size :: "'f rvalue list option \<Rightarrow> nat" where
  "args_size args = (case args of None \<Rightarrow> 0 | Some rs \<Rightarrow> length rs)"

definition checked_clause :: "'f clause \<Rightarrow> 'f clause res" where
  "checked_clause c = (if clause_OK c then Inr c else Inl Assert_Failed)"

definition relational_clause :: "rel_op option \<Rightarrow> 'f rvalue option \<Rightarrow> 'f rvalue list option \<Rightarrow> 'f clause res" where
  "relational_clause oper a1 rv =
     checked_clause \<lparr>c_op = oper, c_bool = None, c_btp = None, c_argc = 0, c_arg1 = a1, c_args = rv\<rparr>"

definition bool_clause :: "'f bool_func option \<Rightarrow> 'f rvalue list option \<Rightarrow> 'f clause res" where
  "bool_clause func rv =
     checked_clause \<lparr>c_op = None, c_bool = func, c_btp = None, c_argc = args_size rv, c_arg1 = None, c_args = rv\<rparr>"

definition btp_clause :: "'f btp_func option \<Rightarrow> 'f rvalue list option \<Rightarrow> 'f clause res" where
  "btp_clause func rv =
     checked_clause \<lparr>c_op = None, c_bool = None, c_btp = func, c_argc = args_size rv, c_arg1 = None, c_args = rv\<rparr>"

definition boolean_clause :: "'f clause \<Rightarrow> bool res" where
  "boolean_clause c = (if clause_OK c then Inr (c_op c \<noteq> None \<or> c_bool c \<noteq> None) else Inl Assert_Failed)"

definition value_clause :: "'f clause \<Rightarrow> bool res" where
  "value_clause c = (if clause_OK c then Inr (c_btp c \<noteq> None) else Inl Assert_Failed)"

text \<open>The right hand sides are tried until one comparison is true.\<close>

fun any_true :: "(nat option \<Rightarrow> ('f dataset, bool) action) \<Rightarrow> 'f rvalue list \<Rightarrow> ('f dataset, bool) action" where
  "any_true cmp [] = returnS False"
| "any_true cmp (i # is) = bindS (bvalue i) (\<lambda>q. bindS (cmp q) (\<lambda>r. if r then returnS True else any_true cmp is))"

definition clause_bool :: "'f fpu \<Rightarrow> (string \<Rightarrow> string \<Rightarrow> int res) \<Rightarrow> 'f reader \<Rightarrow> 'f clause \<Rightarrow> ('f dataset, bool) action" where
  "clause_bool fp rx rd c =
     (if \<not> clause_OK c then throwS Assert_Failed
      else case c_op c of
        Some op \<Rightarrow> (case (c_arg1 c, c_args c) of
            (Some a1, Some rs) \<Rightarrow> bindS (bvalue a1) (\<lambda>p. any_true (compare fp rx rd op p) rs)
          | _ \<Rightarrow> throwS Undefined)
      | None \<Rightarrow> (case c_bool c of
            Some f \<Rightarrow> bindS (build_btp_args (c_args c)) f
          | None \<Rightarrow> throwS Assert_Failed))"

text \<open>The variable a function returned is marked to be sent, and as read.\<close>

definition mark_result :: "nat \<Rightarrow> ('f dataset, unit) action" where
  "mark_result v s = (Inr (), s\<lparr>v_send := (v_send s)(v := True),
     v_obj := (v_obj s)(v := map_option (op_read_update (\<lambda>_. True)) (v_obj s v))\<rparr>)"

definition clause_result :: "'f clause \<Rightarrow> ('f dataset, nat option) action" where
  "clause_result c =
     (if \<not> clause_OK c then throwS Assert_Failed
      else case c_btp c of None \<Rightarrow> throwS Assert_Failed
      | Some f \<Rightarrow> bindS (build_btp_args (c_args c)) (\<lambda>argv. bindS (f argv) (\<lambda>v.
          case v of None \<Rightarrow> returnS None | Some p \<Rightarrow> bindS (mark_result p) (\<lambda>_. returnS (Some p)))))"

section \<open>Server functions\<close>

text \<open>A server function has one of three pointers; projection functions work on the evaluator.\<close>

record ('f, 'p) sfunc =
  sf_name :: string
  sf_bool :: "'f bool_func option"
  sf_btp :: "'f btp_func option"
  sf_proj :: "'p option"

definition set_bool_function :: "'f bool_func option \<Rightarrow> ('f, 'p) sfunc \<Rightarrow> ('f, 'p) sfunc" where
  "set_bool_function f sf = sf\<lparr>sf_bool := f, sf_btp := None, sf_proj := None\<rparr>"
definition set_btp_function :: "'f btp_func option \<Rightarrow> ('f, 'p) sfunc \<Rightarrow> ('f, 'p) sfunc" where
  "set_btp_function f sf = sf\<lparr>sf_bool := None, sf_btp := f, sf_proj := None\<rparr>"
definition set_proj_function :: "'p option \<Rightarrow> ('f, 'p) sfunc \<Rightarrow> ('f, 'p) sfunc" where
  "set_proj_function f sf = sf\<lparr>sf_bool := None, sf_btp := None, sf_proj := f\<rparr>"

text \<open>A multimap keeps the entries of one key in the order of their insertion.\<close>

type_synonym ('f, 'p) sflist = "(string \<times> ('f, 'p) sfunc) list"

definition add_function :: "('f, 'p) sfunc \<Rightarrow> ('f, 'p) sflist \<Rightarrow> ('f, 'p) sflist" where
  "add_function sf fs = fs @ [(sf_name sf, sf)]"

fun first_function :: "(('f, 'p) sfunc \<Rightarrow> 'g option) \<Rightarrow> string \<Rightarrow> ('f, 'p) sflist \<Rightarrow> 'g option" where
  "first_function get name [] = None"
| "first_function get name ((k, sf) # fs) =
     (if name = k \<and> get sf \<noteq> None then get sf else first_function get name fs)"

definition find_bool_function :: "string \<Rightarrow> ('f, 'p) sflist \<Rightarrow> 'f bool_func option" where "find_bool_function = first_function sf_bool"
definition find_btp_function :: "string \<Rightarrow> ('f, 'p) sflist \<Rightarrow> 'f btp_func option" where "find_btp_function = first_function sf_btp"
definition find_proj_function :: "string \<Rightarrow> ('f, 'p) sflist \<Rightarrow> 'p option" where "find_proj_function = first_function sf_proj"

section \<open>The evaluator\<close>

record ('f, 'p) evaluator =
  ce_expr :: "'f clause list"
  ce_constants :: "nat list"
  ce_functions :: "('f, 'p) sflist"

definition append_clause :: "'f clause res \<Rightarrow> (('f, 'p) evaluator, unit) action" where
  "append_clause c ce = (case c of Inl e \<Rightarrow> (Inl e, ce) | Inr cl \<Rightarrow> (Inr (), ce\<lparr>ce_expr := ce_expr ce @ [cl]\<rparr>))"

definition append_relational :: "rel_op option \<Rightarrow> 'f rvalue option \<Rightarrow> 'f rvalue list option \<Rightarrow> (('f, 'p) evaluator, unit) action" where
  "append_relational op arg1 arg2 = append_clause (relational_clause op arg1 arg2)"
definition append_bool_function :: "'f bool_func option \<Rightarrow> 'f rvalue list option \<Rightarrow> (('f, 'p) evaluator, unit) action" where
  "append_bool_function func args = append_clause (bool_clause func args)"
definition append_btp_function :: "'f btp_func option \<Rightarrow> 'f rvalue list option \<Rightarrow> (('f, 'p) evaluator, unit) action" where
  "append_btp_function func args = append_clause (btp_clause func args)"

definition append_constant :: "nat \<Rightarrow> (('f, 'p) evaluator, unit) action" where
  "append_constant btp ce = (Inr (), ce\<lparr>ce_constants := ce_constants ce @ [btp]\<rparr>)"

definition clause_value :: "'f fpu \<Rightarrow> (string \<Rightarrow> string \<Rightarrow> int res) \<Rightarrow> 'f reader \<Rightarrow> ('f, 'p) evaluator \<Rightarrow> nat \<Rightarrow> ('f dataset, bool) action" where
  "clause_value fp rx rd ce i =
     (if ce_expr ce = [] then throwS (InternalErr ''There are no CE clauses for *this* DDS object.'')
      else if i < length (ce_expr ce) then clause_bool fp rx rd (ce_expr ce ! i) else throwS Undefined)"

definition functional_expression :: "('f, 'p) evaluator \<Rightarrow> bool res" where
  "functional_expression ce = (if ce_expr ce = [] then Inr False else value_clause (hd (ce_expr ce)))"

definition eval_function :: "('f, 'p) evaluator \<Rightarrow> ('f dataset, nat option) action" where
  "eval_function ce =
     (if length (ce_expr ce) \<noteq> 1 then throwS (InternalErr ''The length of the list of CE clauses is not 1.'')
      else clause_result (hd (ce_expr ce)))"

fun all_values :: "'f clause list \<Rightarrow> bool res" where
  "all_values [] = Inr True"
| "all_values (c # cs) = bindE (value_clause c) (\<lambda>b. if \<not> b then Inr False else all_values cs)"

definition function_clauses :: "('f, 'p) evaluator \<Rightarrow> bool res" where
  "function_clauses ce = (if ce_expr ce = [] then Inr False else all_values (ce_expr ce))"

text \<open>The variables of the new \<open>DDS\<close>, in the order of the clauses.\<close>

fun results :: "'f clause list \<Rightarrow> nat list \<Rightarrow> ('f dataset, nat list) action" where
  "results [] vs = returnS vs"
| "results (c # cs) vs = bindS (clause_result c) (\<lambda>v.
     case v of Some p \<Rightarrow> results cs (vs @ [p])
     | None \<Rightarrow> throwS (Error unknown_error ''A function was called but failed to return a value.''))"

definition eval_function_clauses :: "('f, 'p) evaluator \<Rightarrow> ('f dataset, string \<times> nat list) action" where
  "eval_function_clauses ce s =
     (if ce_expr ce = [] then (Inl (InternalErr ''The constraint expression is empty.''), s)
      else bindS (results (ce_expr ce) []) (\<lambda>vs. returnS (''function_result_'' @ v_name s, vs)) s)"

definition eval_function_clauses_data :: "string \<Rightarrow> string \<Rightarrow> ('f, 'p) evaluator \<Rightarrow> ('f dataset, string \<times> string \<times> string \<times> nat list) action" where
  "eval_function_clauses_data version protocol ce s =
     (if ce_expr ce = [] then (Inl (InternalErr ''The constraint expression is empty.''), s)
      else bindS (results (ce_expr ce) []) (\<lambda>vs. returnS (''function_result_'' @ v_name s, version, protocol, vs)) s)"

text \<open>All clauses are looked at until one is not boolean.\<close>

fun all_boolean :: "'f clause list \<Rightarrow> bool res" where
  "all_boolean [] = Inr True"
| "all_boolean (c # cs) = bindE (boolean_clause c) (\<lambda>b. if b then all_boolean cs else Inr False)"

definition boolean_expression :: "('f, 'p) evaluator \<Rightarrow> bool res" where
  "boolean_expression ce = (if ce_expr ce = [] then Inr False else all_boolean (ce_expr ce))"

definition of_res :: "'a res \<Rightarrow> ('s, 'a) action" where "of_res r s = (r, s)"

fun selection_loop :: "('f clause \<Rightarrow> ('f dataset, bool) action) \<Rightarrow> 'f clause list \<Rightarrow> ('f dataset, bool) action" where
  "selection_loop val [] = returnS True"
| "selection_loop val (c # cs) = bindS (of_res (boolean_clause c)) (\<lambda>b.
     if \<not> b then throwS (InternalErr ''A selection expression must contain only boolean clauses.'')
     else bindS (val c) (\<lambda>r. if r then selection_loop val cs else returnS False))"

definition eval_selection :: "'f fpu \<Rightarrow> (string \<Rightarrow> string \<Rightarrow> int res) \<Rightarrow> 'f reader \<Rightarrow> ('f, 'p) evaluator \<Rightarrow> ('f dataset, bool) action" where
  "eval_selection fp rx rd ce =
     (if ce_expr ce = [] then returnS True else selection_loop (clause_bool fp rx rd) (ce_expr ce))"

section \<open>What a selection means\<close>

text \<open>A variable that holds its value, an integer.\<close>

definition holds_int :: "'f dataset \<Rightarrow> nat \<Rightarrow> bool \<times> int \<Rightarrow> bool" where
  "holds_int s p n = (case v_obj s p of None \<Rightarrow> False | Some x \<Rightarrow> op_read x \<and> int_value (op_val x) = Some n)"

fun is_comparison :: "rel_op \<Rightarrow> bool" where
  "is_comparison SCAN_REGEXP = False"
| "is_comparison (SCAN_OTHER n) = False"
| "is_comparison op = True"

definition compares :: "rel_op \<Rightarrow> bool \<times> int \<Rightarrow> bool \<times> int \<Rightarrow> bool" where
  "compares op m n = (int_compare op m n = Inr True)"

lemma int_compare_compares: "is_comparison op \<Longrightarrow> int_compare op m n = Inr (compares op m n)"
  by (cases op) (auto simp: compares_def int_compare_def)

lemma compare_ints:
  assumes "holds_int s p m" "holds_int s q n" "is_comparison op"
  shows "compare fp rx rd op (Some p) (Some q) s = (Inr (compares op m n), s)"
proof -
  obtain x where x: "v_obj s p = Some x" "op_read x" "int_value (op_val x) = Some m"
    using assms(1) by (auto simp: holds_int_def split: option.splits)
  obtain y where y: "v_obj s q = Some y" "op_read y" "int_value (op_val y) = Some n"
    using assms(2) by (auto simp: holds_int_def split: option.splits)
  have o: "ops fp rx rd x (Some y) op = Inr (compares op m n, x, y)"
    unfolding ops_cmp_values [OF x(2) y(2)] cmp_values_int [OF x(3) y(3)] int_compare_compares [OF assms(3)] by simp
  have "second_operand rd s p x (Some q) = Inr (Some y)"
    using x y by (auto simp: second_operand_def after_read_def fetch_def)
  moreover have "s\<lparr>v_obj := (v_obj s)(p \<mapsto> x, q \<mapsto> y)\<rparr> = s"
  proof -
    have "(v_obj s)(p \<mapsto> x, q \<mapsto> y) = v_obj s" using x(1) y(1) by (auto simp: fun_eq_iff)
    then show ?thesis by simp
  qed
  ultimately show ?thesis using x(1) o by (simp add: compare_def store_operand_def)
qed

lemma any_true_ints:
  assumes "holds_int s p (val p)" "\<forall>q \<in> set qs. holds_int s q (val q)" "is_comparison op"
  shows "any_true (compare fp rx rd op (Some p)) (map Value qs) s = (Inr (\<exists>q \<in> set qs. compares op (val p) (val q)), s)"
  using assms(2)
proof (induction qs)
  case (Cons q qs)
  with compare_ints [OF assms(1) _ assms(3), of q "val q"] show ?case by simp
qed simp

text \<open>A clause with an operator, a variable and the variables (or constants) it is compared with.\<close>

definition clause_of :: "rel_op \<times> nat \<times> nat list \<Rightarrow> 'f clause" where
  "clause_of k = (case k of (op, p, qs) \<Rightarrow>
     \<lparr>c_op = Some op, c_bool = None, c_btp = None, c_argc = 0, c_arg1 = Some (Value p), c_args = Some (map Value qs)\<rparr>)"

lemma clause_of_built: "relational_clause (Some op) (Some (Value p)) (Some (map Value qs)) = Inr (clause_of (op, p, qs))"
  by (simp add: relational_clause_def checked_clause_def clause_OK_def clause_of_def)

definition clause_ints :: "'f dataset \<Rightarrow> (nat \<Rightarrow> bool \<times> int) \<Rightarrow> rel_op \<times> nat \<times> nat list \<Rightarrow> bool" where
  "clause_ints s val k = (case k of (op, p, qs) \<Rightarrow>
     is_comparison op \<and> holds_int s p (val p) \<and> (\<forall>q \<in> set qs. holds_int s q (val q)))"

lemma clause_of_value:
  assumes "clause_ints s val (op, p, qs)"
  shows "clause_bool fp rx rd (clause_of (op, p, qs)) s = (Inr (\<exists>q \<in> set qs. compares op (val p) (val q)), s)"
  using assms any_true_ints [of s p val qs op fp rx rd]
  by (simp add: clause_bool_def clause_of_def clause_OK_def clause_ints_def)

lemma clause_of_boolean: "boolean_clause (clause_of k) = Inr True"
  by (cases k) (simp add: boolean_clause_def clause_of_def clause_OK_def)

lemma selection_loop_ints:
  "\<forall>k \<in> set ks. clause_ints s val k \<Longrightarrow>
   selection_loop (clause_bool fp rx rd) (map clause_of ks) s =
     (Inr (\<forall>(op, p, qs) \<in> set ks. \<exists>q \<in> set qs. compares op (val p) (val q)), s)"
proof (induction ks)
  case (Cons k ks)
  obtain op p qs where k: "k = (op, p, qs)" by (cases k)
  with Cons clause_of_value [of s val op p qs fp rx rd] show ?case
    by (simp add: of_res_def clause_of_boolean)
qed simp

text \<open>
  C6: a selection of clauses over integer variables that hold their values is true exactly when every
  clause has a right hand side its variable compares with; nothing in the dataset changes.
\<close>
theorem selection_is_conjunction:
  assumes "ce_expr ce = map clause_of ks" "\<forall>k \<in> set ks. clause_ints s val k"
  shows "eval_selection fp rx rd ce s = (Inr (\<forall>(op, p, qs) \<in> set ks. \<exists>q \<in> set qs. compares op (val p) (val q)), s)"
  using selection_loop_ints [OF assms(2)] assms(1) by (simp add: eval_selection_def)

text \<open>Variable 0 is the signed 7; the constants 1 and 2 are 5 and the unsigned 7.\<close>

definition three_vars :: "int dataset" where
  "three_vars = \<lparr>v_obj = (\<lambda>_. None)(0 := Some \<lparr>op_val = V_int32 7, op_read = True\<rparr>, 1 := Some \<lparr>op_val = V_int16 5, op_read = True\<rparr>,
     2 := Some \<lparr>op_val = V_uint32 7, op_read = True\<rparr>), v_send = (\<lambda>_. False), v_name = ''d''\<rparr>"

theorem selection_is_conjunction_witness:
  "eval_selection int_fpu (\<lambda>p s. Inr 0) (\<lambda>x. Inr (True, x))
     \<lparr>ce_expr = [clause_of (SCAN_GREATER, 0, [1]), clause_of (SCAN_EQUAL, 0, [1, 2])], ce_constants = [1, 2], ce_functions = ([] :: (int, unit) sflist)\<rparr> three_vars
   = (Inr True, three_vars)"
proof -
  let ?ks = "[(SCAN_GREATER, 0, [1]), (SCAN_EQUAL, 0, [1, 2])]"
  let ?val = "(\<lambda>p. if p = 0 then (True, 7) else if p = 1 then (True, 5) else (False, 7)) :: nat \<Rightarrow> bool \<times> int"
  let ?ce = "\<lparr>ce_expr = [clause_of (SCAN_GREATER, 0, [1]), clause_of (SCAN_EQUAL, 0, [1, 2])], ce_constants = [1, 2], ce_functions = ([] :: (int, unit) sflist)\<rparr>"
  have k: "\<forall>k \<in> set ?ks. clause_ints three_vars ?val k" by (simp add: clause_ints_def holds_int_def three_vars_def)
  have e: "ce_expr ?ce = map clause_of ?ks" by simp
  show ?thesis unfolding selection_is_conjunction [OF e k]
    by (simp add: compares_def int_compare_def floor_zero_def)
qed

text \<open>A call without arguments inside of a clause: the list of its arguments is null.\<close>

lemma nested_call_without_arguments: "bvalue (Call f None) s = (Inl Undefined, s)"
proof -
  have "size_ok 8 1" by code_simp
  then show ?thesis by (simp add: run_args_def)
qed

end
