(* ===== verification/Arrays.thy ===== *)
theory Arrays
  imports Escaping Dap_Util
begin

text \<open>
  The shape of an \<open>Array\<close> (\<open>Array.cc\<close>): its dimensions with the current constraint on each,
  the operations that add dimensions and set or reset constraints, the length kept in the
  \<open>Vector\<close>, the declaration and the printing of the values.  The integers are C++ \<open>int\<close>s:
  products are cut to 32 bits, and division truncates.
\<close>

section \<open>State\<close>

record dimension =
  d_size :: int
  d_name :: string
  d_start :: int
  d_stop :: int
  d_stride :: int
  d_c_size :: int

record array =
  shape :: "dimension list"
  a_length :: int
  a_send :: bool

section \<open>Operations\<close>

definition update_length :: "array \<Rightarrow> array" where
  "update_length a = a\<lparr>a_length :=
     foldl (\<lambda>len d. s32 (len * (if d_c_size d > 0 then d_c_size d else 1))) 1 (shape a)\<rparr>"

definition new_dim :: "int \<Rightarrow> string \<Rightarrow> dimension" where
  "new_dim sz name = \<lparr>d_size = sz, d_name = www2id_dflt name, d_start = 0, d_stop = s32 (sz - 1),
     d_stride = 1, d_c_size = sz\<rparr>"

definition append_dim :: "array \<Rightarrow> int \<Rightarrow> string \<Rightarrow> array" where
  "append_dim a sz name = update_length (a\<lparr>shape := shape a @ [new_dim sz name]\<rparr>)"

definition prepend_dim :: "array \<Rightarrow> int \<Rightarrow> string \<Rightarrow> array" where
  "prepend_dim a sz name = update_length (a\<lparr>shape := new_dim sz name # shape a\<rparr>)"

definition clear_all_dims :: "array \<Rightarrow> array" where
  "clear_all_dims a = a\<lparr>shape := []\<rparr>"

definition reset_dim :: "dimension \<Rightarrow> dimension" where
  "reset_dim d = d\<lparr>d_start := 0, d_stop := s32 (d_size d - 1), d_stride := 1, d_c_size := d_size d\<rparr>"

text \<open>The length is recomputed after each dimension; without dimensions it stays at -1.\<close>

fun reset_loop :: "array \<Rightarrow> nat \<Rightarrow> nat \<Rightarrow> array" where
  "reset_loop a i 0 = a"
| "reset_loop a i (Suc n) =
     reset_loop (update_length (a\<lparr>shape := (shape a)[i := reset_dim (shape a ! i)]\<rparr>)) (Suc i) n"

definition reset_constraint :: "array \<Rightarrow> array" where
  "reset_constraint a = reset_loop (a\<lparr>a_length := - 1\<rparr>) 0 (length (shape a))"

definition clear_constraint :: "array \<Rightarrow> array" where
  "clear_constraint a = reset_constraint a"

definition array_sss :: string where
  "array_sss = ''Invalid constraint parameters: At least one of the start, stride or stop '' @ [CHR 0x0A]
     @ ''specified do not match the array variable.''"

text \<open>\<open>i\<close> is the position of the iterator; dereferencing \<open>end()\<close> is undefined.\<close>

definition add_constraint :: "array \<Rightarrow> nat \<Rightarrow> int \<Rightarrow> int \<Rightarrow> int \<Rightarrow> array res" where
  "add_constraint a i start stride stop0 =
     (if i \<ge> length (shape a) then Inl Undefined
      else let d = shape a ! i;
               stop = (if stop0 = - 1 then s32 (d_size d - 1) else stop0)
        in if start \<ge> d_size d \<or> stop \<ge> d_size d \<or> stride > d_size d \<or> stride \<le> 0
           then Inl (Error malformed_expr array_sss)
           else if s32 (c_div (s32 (stop - start)) stride + 1) > d_size d
           then Inl (Error malformed_expr array_sss)
           else Inr (update_length (a\<lparr>shape := (shape a)[i := d\<lparr>d_start := start, d_stop := stop,
                  d_stride := stride, d_c_size := s32 (c_div (s32 (stop - start)) stride + 1)\<rparr>]\<rparr>)))"

definition dimensions :: "array \<Rightarrow> nat" where
  "dimensions a = length (shape a)"

definition at_dim :: "array \<Rightarrow> nat \<Rightarrow> (dimension \<Rightarrow> int) \<Rightarrow> int res" where
  "at_dim a i f = (if shape a = [] then Inr 0
     else if i < length (shape a) then Inr (f (shape a ! i)) else Inl Undefined)"

definition dimension_size :: "array \<Rightarrow> nat \<Rightarrow> bool \<Rightarrow> int res" where
  "dimension_size a i constrained = at_dim a i (if constrained then d_c_size else d_size)"

definition dimension_start :: "array \<Rightarrow> nat \<Rightarrow> int res" where
  "dimension_start a i = at_dim a i d_start"

definition dimension_stop :: "array \<Rightarrow> nat \<Rightarrow> int res" where
  "dimension_stop a i = at_dim a i d_stop"

definition dimension_stride :: "array \<Rightarrow> nat \<Rightarrow> int res" where
  "dimension_stride a i = at_dim a i d_stride"

definition dimension_name :: "array \<Rightarrow> nat \<Rightarrow> string res" where
  "dimension_name a i =
     (if shape a = [] then Inl (InternalErr ''*This* array has no dimensions.'')
      else if i < length (shape a) then Inr (d_name (shape a ! i)) else Inl Undefined)"

text \<open>\<open>w\<close> is the width of the template variable; the result is an \<open>unsigned int\<close>.\<close>

definition array_width :: "array \<Rightarrow> nat \<Rightarrow> bool \<Rightarrow> u32" where
  "array_width a w constrained =
     (if constrained then word_of_int (a_length a) * of_nat w
      else word_of_int (foldl (\<lambda>len d. s32 (len * d_size d)) 1 (shape a)) * of_nat w)"

text \<open>
  \<open>add_var\<close> with an array as the template appends that array's dimensions to this one (with
  their unconstrained sizes); the new template is then that array's own template.
\<close>

definition add_array_dims :: "array \<Rightarrow> array \<Rightarrow> array" where
  "add_array_dims a v = foldl (\<lambda>b d. append_dim b (d_size d) (d_name d)) a (shape v)"

text \<open>The declaration; \<open>decl\<close> is what the template variable prints.\<close>

definition print_int :: "int \<Rightarrow> string" where
  "print_int v = (case long_to_string v 10 of Inr s \<Rightarrow> s | Inl _ \<Rightarrow> [])"

definition dim_decl :: "bool \<Rightarrow> dimension \<Rightarrow> string" where
  "dim_decl constrained d = ''['' @ (if d_name d \<noteq> '''' then id2www (d_name d) id_allowable @ '' = '' else '''')
     @ print_int (if constrained then d_c_size d else d_size d) @ '']''"

definition array_print_decl :: "array \<Rightarrow> string \<Rightarrow> bool \<Rightarrow> bool \<Rightarrow> string" where
  "array_print_decl a decl print_semi constrained =
     (if constrained \<and> \<not> a_send a then []
      else decl @ concat (map (dim_decl constrained) (shape a)) @ (if print_semi then '';'' @ [CHR 0x0A] else []))"

text \<open>
  The values; \<open>pv i\<close> is what printing element \<open>i\<close> gives.  The loops run to \<open>shape[0] - 1\<close>, an
  \<open>unsigned int\<close>: for a size of zero that is the largest one.  An array without dimensions
  reads its shape out of bounds.
\<close>

definition pred_u32 :: "u32 \<Rightarrow> nat" where "pred_u32 n = unat (n - 1)"

fun print_row :: "(u32 \<Rightarrow> string res) \<Rightarrow> nat \<Rightarrow> u32 \<Rightarrow> (string \<times> u32) res" where
  "print_row pv 0 i = bindE (pv i) (\<lambda>s. Inr (s, i + 1))"
| "print_row pv (Suc n) i = bindE (pv i) (\<lambda>s. bindE (print_row pv n (i + 1)) (\<lambda>(t, j). Inr (s @ '', '' @ t, j)))"

fun print_rows :: "(u32 \<Rightarrow> (string \<times> u32) res) \<Rightarrow> nat \<Rightarrow> u32 \<Rightarrow> (string \<times> u32) res" where
  "print_rows sub 0 i = sub i"
| "print_rows sub (Suc n) i =
     bindE (sub i) (\<lambda>(s, j). bindE (print_rows sub n j) (\<lambda>(t, k). Inr (s @ '','' @ t, k)))"

fun print_array :: "(u32 \<Rightarrow> string res) \<Rightarrow> u32 \<Rightarrow> u32 list \<Rightarrow> (string \<times> u32) res" where
  "print_array pv index [] = Inl Undefined"
| "print_array pv index [n] =
     bindE (print_row pv (pred_u32 n) index) (\<lambda>(s, i). Inr (''{'' @ s @ ''}'', i))"
| "print_array pv index (n # m # ns) =
     bindE (print_rows (\<lambda>i. print_array pv i (m # ns)) (pred_u32 n) index) (\<lambda>(s, i). Inr (''{'' @ s @ ''}'', i))"

definition array_print_val :: "(u32 \<Rightarrow> string res) \<Rightarrow> array \<Rightarrow> string \<Rightarrow> bool \<Rightarrow> string res" where
  "array_print_val pv a decl print_decl_p =
     bindE (print_array pv 0 (map (\<lambda>d. word_of_int (d_c_size d)) (shape a)))
       (\<lambda>(s, i). Inr (if print_decl_p
          then array_print_decl a decl False False @ '' = '' @ s @ '';'' @ [CHR 0x0A] else s))"

text \<open>\<open>sem\<close> is the answer of \<open>BaseType::check_semantics\<close>, which may set the message too.\<close>

definition array_check_semantics :: "array \<Rightarrow> bool \<times> string \<Rightarrow> bool \<times> string" where
  "array_check_semantics a sem =
     (if fst sem \<and> shape a \<noteq> [] then (True, snd sem) else (False, ''An array variable must have dimensions''))"


section \<open>The invariant of the shape\<close>

text \<open>The indices a constrained dimension selects.\<close>

definition selected :: "dimension \<Rightarrow> int set" where
  "selected d = {i. d_start d \<le> i \<and> i \<le> d_stop d \<and> d_stride d dvd (i - d_start d)}"

definition wf_dim :: "dimension \<Rightarrow> bool" where
  "wf_dim d \<longleftrightarrow> 0 < d_size d \<and> d_size d \<le> int_max \<and> 0 \<le> d_start d \<and> d_start d \<le> d_stop d
     \<and> d_stop d < d_size d \<and> 1 \<le> d_stride d \<and> d_stride d \<le> d_size d
     \<and> d_c_size d = int (card (selected d))"

definition wf_array :: "array \<Rightarrow> bool" where
  "wf_array a \<longleftrightarrow> (\<forall>d\<in>set (shape a). wf_dim d)
     \<and> (shape a \<noteq> [] \<longrightarrow> a_length a = s32 (prod_list (map d_c_size (shape a))))"

lemma card_selected:
  assumes "d_start d \<le> d_stop d" and "1 \<le> d_stride d"
  shows "int (card (selected d)) = (d_stop d - d_start d) div d_stride d + 1"
proof -
  let ?n = "(d_stop d - d_start d) div d_stride d"
  let ?f = "\<lambda>k. d_start d + k * d_stride d"
  have "selected d = ?f ` {0..?n}"
  proof (intro set_eqI iffI)
    fix i assume "i \<in> selected d"
    then obtain k where k: "i - d_start d = d_stride d * k" "d_start d \<le> i" "i \<le> d_stop d"
      by (auto simp: selected_def)
    have "0 \<le> k" using k(1,2) assms(2) zero_le_mult_iff [of "d_stride d" k] by simp
    moreover have "k \<le> ?n"
    proof -
      have "(d_stride d * k) div d_stride d \<le> ?n"
        using k assms(2) by (intro zdiv_mono1) auto
      then show ?thesis using assms(2) by simp
    qed
    ultimately show "i \<in> ?f ` {0..?n}" using k(1) by (intro image_eqI [of _ _ k]) (auto simp: mult.commute)
  next
    fix i assume "i \<in> ?f ` {0..?n}"
    then obtain k where "i = ?f k" "k \<in> {0..?n}" by blast
    then have k: "i = ?f k" "0 \<le> k" "k \<le> ?n" by simp_all
    have "k * d_stride d \<le> ?n * d_stride d" using k(3) assms(2) by (intro mult_right_mono) auto
    also have "\<dots> \<le> d_stop d - d_start d"
      using assms by (metis div_mult_mod_eq le_add_same_cancel1 pos_mod_sign order_less_le_trans zero_less_one)
    finally show "i \<in> selected d" using k assms(2) by (auto simp: selected_def)
  qed
  moreover have "inj_on ?f {0..?n}" using assms(2) by (auto simp: inj_on_def)
  ultimately have "card (selected d) = card {0..?n}" by (simp add: card_image)
  moreover have "0 \<le> ?n" using assms by (simp add: pos_imp_zdiv_nonneg_iff)
  ultimately show ?thesis by simp
qed

lemma wf_dim_c_size: "wf_dim d \<Longrightarrow> 0 < d_c_size d \<and> d_c_size d \<le> d_size d"
proof -
  assume w: "wf_dim d"
  then have c: "d_c_size d = (d_stop d - d_start d) div d_stride d + 1"
    by (simp add: wf_dim_def card_selected)
  have "0 \<le> (d_stop d - d_start d) div d_stride d"
    using w by (simp add: wf_dim_def pos_imp_zdiv_nonneg_iff)
  moreover have "(d_stop d - d_start d) div d_stride d \<le> d_stop d - d_start d"
    using w zdiv_mono2 [of "d_stop d - d_start d" 1 "d_stride d"] by (simp add: wf_dim_def)
  ultimately show ?thesis using w c by (simp add: wf_dim_def)
qed

lemma foldl_length:
  assumes "\<forall>d\<in>set ds. 0 < d_c_size d"
  shows "foldl (\<lambda>len d. s32 (len * (if d_c_size d > 0 then d_c_size d else 1))) (s32 l) ds
    = s32 (l * prod_list (map d_c_size ds))"
  using assms by (induction ds arbitrary: l) (auto simp: s32_mult mult.assoc)

lemma wf_update_length:
  "\<forall>d\<in>set (shape a). wf_dim d \<Longrightarrow> wf_array (update_length a)"
  using foldl_length [of "shape a" 1] wf_dim_c_size
  by (auto simp: wf_array_def update_length_def s32_id)

lemma wf_full_dim:
  assumes "0 < sz" "sz \<le> int_max" "d_size d = sz" "d_start d = 0" "d_stop d = s32 (sz - 1)" "d_stride d = 1" "d_c_size d = sz"
  shows "wf_dim d"
  using assms card_selected [of d] by (simp add: wf_dim_def s32_id)

lemma wf_new_dim: "0 < sz \<Longrightarrow> sz \<le> int_max \<Longrightarrow> wf_dim (new_dim sz name)"
  by (rule wf_full_dim [of sz]) (simp_all add: new_dim_def)

lemma wf_reset_dim: "wf_dim d \<Longrightarrow> wf_dim (reset_dim d)"
  by (rule wf_full_dim [of "d_size d"]) (simp_all add: reset_dim_def wf_dim_def)

lemma update_length_shape [simp]: "shape (update_length a) = shape a"
  by (simp add: update_length_def)

lemma update_length_idem [simp]: "update_length (a\<lparr>a_length := n\<rparr>) = update_length a"
  by (simp add: update_length_def)


text \<open>The loop of \<open>reset_constraint\<close> resets every dimension.\<close>

lemma reset_loop_shape:
  "i + n = length (shape a) \<Longrightarrow> shape (reset_loop a i n) = take i (shape a) @ map reset_dim (drop i (shape a))"
proof (induction a i n rule: reset_loop.induct)
  case (2 a i n)
  then have "i < length (shape a)" by simp
  then show ?case using 2 by (simp add: take_Suc_conv_app_nth Cons_nth_drop_Suc [symmetric] upd_conv_take_nth_drop)
qed simp

lemma reset_loop_length:
  "n > 0 \<Longrightarrow> \<exists>b. reset_loop a i n = update_length b"
proof (induction a i n rule: reset_loop.induct)
  case (2 a i n)
  then show ?case by (cases n) auto
qed simp

text \<open>An accepted constraint.\<close>

definition request_stop :: "array \<Rightarrow> nat \<Rightarrow> int \<Rightarrow> int" where
  "request_stop a i stop = (if stop = - 1 then d_size (shape a ! i) - 1 else stop)"

lemma add_constraint_valid:
  assumes "wf_array a" and "i < length (shape a)" and "0 \<le> start" and "1 \<le> stride" and "stride \<le> d_size (shape a ! i)"
    and "start \<le> request_stop a i stop" and "request_stop a i stop < d_size (shape a ! i)"
  shows "\<exists>a' d'. add_constraint a i start stride stop = Inr a' \<and> wf_array a'
    \<and> shape a' = (shape a)[i := d'] \<and> a_send a' = a_send a \<and> wf_dim d'
    \<and> d' = (shape a ! i)\<lparr>d_start := start, d_stop := request_stop a i stop, d_stride := stride,
        d_c_size := int (card (selected d'))\<rparr>"
proof -
  let ?d = "shape a ! i" and ?stop = "request_stop a i stop"
  let ?n = "(?stop - start) div stride + 1"
  let ?d' = "?d\<lparr>d_start := start, d_stop := ?stop, d_stride := stride, d_c_size := ?n\<rparr>"
  have d: "wf_dim ?d" using assms(1,2) by (simp add: wf_array_def)
  then have size: "0 < d_size ?d" "d_size ?d \<le> int_max" by (simp_all add: wf_dim_def)
  have n: "0 \<le> (?stop - start) div stride" "(?stop - start) div stride \<le> ?stop - start"
    using assms zdiv_mono2 [of "?stop - start" 1 stride] by (simp_all add: pos_imp_zdiv_nonneg_iff)
  then have c: "s32 (c_div (s32 (?stop - start)) stride + 1) = ?n"
    using assms size by (simp add: s32_id c_div_nonneg)
  have stop: "(if stop = - 1 then s32 (d_size ?d - 1) else stop) = ?stop"
    using size by (simp add: request_stop_def s32_id)
  have card: "?n = int (card (selected ?d'))" using card_selected [of ?d'] assms by simp
  have "wf_dim ?d'" using assms d card by (simp add: wf_dim_def)
  moreover from this have "\<forall>x\<in>set ((shape a)[i := ?d']). wf_dim x"
    using assms(1) set_update_subset_insert [of "shape a" i ?d'] by (auto simp: wf_array_def)
  then have "wf_array (update_length (a\<lparr>shape := (shape a)[i := ?d']\<rparr>))" by (intro wf_update_length) simp
  moreover have "add_constraint a i start stride stop = Inr (update_length (a\<lparr>shape := (shape a)[i := ?d']\<rparr>))"
    using assms n by (simp add: add_constraint_def Let_def stop c)
  ultimately show ?thesis using card
    by (intro exI [of _ "update_length (a\<lparr>shape := (shape a)[i := ?d']\<rparr>)"] exI [of _ ?d']) (simp add: update_length_def)
qed

lemma add_constraint_accepts:
  "add_constraint a i start stride stop = Inr a' \<Longrightarrow> wf_array a \<Longrightarrow>
   i < length (shape a) \<and> start < d_size (shape a ! i) \<and> request_stop a i stop < d_size (shape a ! i)
     \<and> 1 \<le> stride \<and> stride \<le> d_size (shape a ! i)"
proof -
  assume a: "add_constraint a i start stride stop = Inr a'" "wf_array a"
  then have i: "i < length (shape a)" by (auto simp: add_constraint_def split: if_splits)
  with a(2) have "wf_dim (shape a ! i)" by (simp add: wf_array_def)
  then have "s32 (d_size (shape a ! i) - 1) = d_size (shape a ! i) - 1"
    by (intro s32_id) (simp_all add: wf_dim_def)
  with a i show ?thesis by (auto simp: add_constraint_def request_stop_def Let_def split: if_splits)
qed

section \<open>Reachable shapes\<close>

text \<open>
  The arrays the operations build from a new one, whose length is -1.  Sizes and the arguments of
  constraints are any integers; a size is an \<open>int\<close> whose predecessor is one too.
\<close>

inductive reachable :: "array \<Rightarrow> bool" where
  r_new: "reachable \<lparr>shape = [], a_length = -1, a_send = s\<rparr>"
| r_append: "reachable a \<Longrightarrow> int_min < sz \<Longrightarrow> sz \<le> int_max \<Longrightarrow> reachable (append_dim a sz name)"
| r_prepend: "reachable a \<Longrightarrow> int_min < sz \<Longrightarrow> sz \<le> int_max \<Longrightarrow> reachable (prepend_dim a sz name)"
| r_clear: "reachable a \<Longrightarrow> reachable (clear_all_dims a)"
| r_reset: "reachable a \<Longrightarrow> reachable (reset_constraint a)"
| r_constrain: "reachable a \<Longrightarrow> add_constraint a i start stride stop = Inr a' \<Longrightarrow> reachable a'"
| r_add_array: "reachable a \<Longrightarrow> reachable v \<Longrightarrow> reachable (add_array_dims a v)"

text \<open>
  What holds of every dimension; of one whose selection is in order, that is not reversed and not
  negative, more holds.
\<close>

definition dim_recorded :: "dimension \<Rightarrow> bool" where
  "dim_recorded d \<longleftrightarrow> int_min < d_size d \<and> d_size d \<le> int_max \<and> d_stop d < d_size d \<and> 1 \<le> d_stride d \<and> d_c_size d \<le> d_size d \<and>
     (0 \<le> d_start d \<and> d_start d \<le> d_stop d \<longrightarrow> d_stride d \<le> d_size d \<and> d_c_size d = int (card (selected d)))"

definition counted_length :: "dimension list \<Rightarrow> int" where
  "counted_length ds = s32 (prod_list (map (\<lambda>d. max 1 (d_c_size d)) ds))"

definition array_recorded :: "array \<Rightarrow> bool" where
  "array_recorded a \<longleftrightarrow> (\<forall>d\<in>set (shape a). dim_recorded d) \<and> (shape a \<noteq> [] \<longrightarrow> a_length a = counted_length (shape a))"

lemma foldl_counted:
  "foldl (\<lambda>len d. s32 (len * (if d_c_size d > 0 then d_c_size d else 1))) (s32 l) ds = s32 (l * prod_list (map (\<lambda>d. max 1 (d_c_size d)) ds))"
proof (induction ds arbitrary: l)
  case (Cons d ds)
  have "(if d_c_size d > 0 then d_c_size d else 1) = max 1 (d_c_size d)" by simp
  then show ?case using Cons [of "l * max 1 (d_c_size d)"] by (simp only: foldl_Cons s32_mult list.map prod_list.Cons mult.assoc)
qed simp

lemma update_length_counted: "a_length (update_length a) = counted_length (shape a)"
  using foldl_counted [of 1 "shape a"] by (simp add: update_length_def counted_length_def s32_id)

lemma recorded_update: "\<forall>d\<in>set (shape a). dim_recorded d \<Longrightarrow> array_recorded (update_length a)"
  by (simp add: array_recorded_def update_length_counted)

lemma recorded_full_dim:
  assumes "int_min < sz" "sz \<le> int_max" "d_size d = sz" "d_start d = 0" "d_stop d = s32 (sz - 1)" "d_stride d = 1" "d_c_size d = sz"
  shows "dim_recorded d"
proof -
  have "s32 (sz - 1) = sz - 1" using assms(1,2) by (intro s32_id) simp_all
  then show ?thesis using assms card_selected [of d] by (auto simp: dim_recorded_def)
qed

lemma recorded_new_dim: "int_min < sz \<Longrightarrow> sz \<le> int_max \<Longrightarrow> dim_recorded (new_dim sz name)"
  by (rule recorded_full_dim [of sz]) (simp_all add: new_dim_def)

lemma recorded_reset_dim: "dim_recorded d \<Longrightarrow> dim_recorded (reset_dim d)"
  by (rule recorded_full_dim [of "d_size d"]) (simp_all add: reset_dim_def dim_recorded_def)

lemma recorded_reset: "array_recorded a \<Longrightarrow> array_recorded (reset_constraint a)"
proof (cases "shape a = []")
  case False
  assume "array_recorded a"
  then have dims: "\<forall>d\<in>set (shape (reset_constraint a)). dim_recorded d"
    using reset_loop_shape [of 0 "length (shape a)" "a\<lparr>a_length := - 1\<rparr>"] recorded_reset_dim
    by (auto simp: reset_constraint_def array_recorded_def)
  from False obtain b where b: "reset_constraint a = update_length b"
    using reset_loop_length unfolding reset_constraint_def by blast
  with dims show ?thesis using recorded_update [of b] by simp
qed (simp add: reset_constraint_def array_recorded_def)

lemma recorded_append: "array_recorded a \<Longrightarrow> int_min < sz \<Longrightarrow> sz \<le> int_max \<Longrightarrow> array_recorded (append_dim a sz name)"
  unfolding append_dim_def by (rule recorded_update) (auto simp: array_recorded_def recorded_new_dim)

lemma recorded_add_array:
  "array_recorded a \<Longrightarrow> \<forall>d\<in>set ds. dim_recorded d \<Longrightarrow> array_recorded (foldl (\<lambda>b d. append_dim b (d_size d) (d_name d)) a ds)"
  by (induction ds arbitrary: a) (auto simp: dim_recorded_def intro!: recorded_append)

text \<open>A constraint that is accepted, reversed or not.\<close>

lemma recorded_constraint:
  assumes "array_recorded a" "add_constraint a i start stride stop0 = Inr a'"
  shows "array_recorded a'"
proof -
  have i: "i < length (shape a)" using assms(2) by (auto simp: add_constraint_def split: if_splits)
  define d where "d = shape a ! i"
  define stop where "stop = (if stop0 = - 1 then s32 (d_size d - 1) else stop0)"
  let ?n = "s32 (c_div (s32 (stop - start)) stride + 1)"
  let ?d = "d\<lparr>d_start := start, d_stop := stop, d_stride := stride, d_c_size := ?n\<rparr>"
  have d: "dim_recorded d" using assms(1) i by (simp add: d_def array_recorded_def)
  have ok: "start < d_size d" "stop < d_size d" "stride \<le> d_size d" "0 < stride" "?n \<le> d_size d"
    "a' = update_length (a\<lparr>shape := (shape a)[i := ?d]\<rparr>)"
    using assms(2) i by (auto simp: add_constraint_def Let_def d_def stop_def split: if_splits)
  have "?n = int (card (selected ?d))" if o: "0 \<le> start" "start \<le> stop"
  proof -
    have b: "0 \<le> stop - start" "stop - start \<le> int_max" "0 \<le> (stop - start) div stride" "(stop - start) div stride \<le> stop - start"
      using o ok d zdiv_mono2 [of "stop - start" 1 stride] by (simp_all add: dim_recorded_def pos_imp_zdiv_nonneg_iff)
    then have "stop - start < int_max" using o ok d by (simp add: dim_recorded_def)
    then have "?n = (stop - start) div stride + 1" using b ok(4) by (simp add: s32_id c_div_nonneg)
    then show ?thesis using card_selected [of ?d] o ok(4) by simp
  qed
  then have "dim_recorded ?d" using d ok(1-5) by (simp add: dim_recorded_def)
  then have "\<forall>x\<in>set ((shape a)[i := ?d]). dim_recorded x"
    using assms(1) set_update_subset_insert [of "shape a" i ?d] by (auto simp: array_recorded_def)
  then show ?thesis unfolding ok(6) by (intro recorded_update) simp
qed

lemma reachable_recorded: "reachable a \<Longrightarrow> array_recorded a"
proof (induction rule: reachable.induct)
  case (r_prepend a sz name)
  then show ?case unfolding prepend_dim_def
    by (intro recorded_update) (auto simp: array_recorded_def recorded_new_dim)
next
  case (r_add_array a v)
  then show ?case unfolding add_array_dims_def by (intro recorded_add_array) (simp_all add: array_recorded_def)
next
  case (r_constrain a i start stride stop a')
  then show ?case by (intro recorded_constraint [of a i start stride stop a'])
qed (auto simp: recorded_append recorded_reset, simp_all add: array_recorded_def clear_all_dims_def)


section \<open>Printed values\<close>

text \<open>What printing an array should give: the values in row-major order, nested by dimension.\<close>

fun sep_join :: "string \<Rightarrow> string list \<Rightarrow> string" where
  "sep_join sep [] = []"
| "sep_join sep [x] = x"
| "sep_join sep (x # y # xs) = x @ sep @ sep_join sep (y # xs)"

fun nested :: "(u32 \<Rightarrow> string) \<Rightarrow> u32 list \<Rightarrow> u32 \<Rightarrow> string" where
  "nested f [] k = []"
| "nested f [n] k = ''{'' @ sep_join '', '' (map (\<lambda>j. f (k + of_nat j)) [0..<unat n]) @ ''}''"
| "nested f (n # m # ns) k =
     ''{'' @ sep_join '','' (map (\<lambda>j. nested f (m # ns) (k + of_nat j * prod_list (m # ns))) [0..<unat n]) @ ''}''"

lemma sep_join_Cons: "xs \<noteq> [] \<Longrightarrow> sep_join sep (x # xs) = x @ sep @ sep_join sep xs"
  by (cases xs) auto

lemma map_upt_shift: "map g [0..<Suc n] = g 0 # map (\<lambda>j. g (Suc j)) [0..<n]"
  by (simp add: upt_conv_Cons map_Suc_upt [symmetric] del: upt_Suc)

lemma print_row_values:
  "print_row (\<lambda>i. Inr (f i)) n k
    = Inr (sep_join '', '' (map (\<lambda>j. f (k + of_nat j)) [0..<Suc n]), k + of_nat (Suc n))"
proof (induction n arbitrary: k)
  case (Suc n)
  show ?case
    unfolding map_upt_shift [of _ "Suc n"]
    by (simp add: Suc.IH sep_join_Cons add.assoc del: upt_Suc)
qed simp

lemma print_rows_values:
  "print_rows (\<lambda>i. Inr (g i, i + p)) n k
    = Inr (sep_join '','' (map (\<lambda>j. g (k + of_nat j * p)) [0..<Suc n]), k + of_nat (Suc n) * p)"
proof (induction n arbitrary: k)
  case (Suc n)
  show ?case
    unfolding map_upt_shift [of _ "Suc n"]
    by (simp add: Suc.IH sep_join_Cons algebra_simps del: upt_Suc)
qed simp

lemma pred_u32: "n \<noteq> 0 \<Longrightarrow> Suc (pred_u32 n) = unat n"
  by (simp add: pred_u32_def unat_minus_one unat_gt_0)

lemma print_array_values:
  "ns \<noteq> [] \<Longrightarrow> 0 \<notin> set ns \<Longrightarrow>
   print_array (\<lambda>i. Inr (f i)) k ns = Inr (nested f ns k, k + prod_list ns)"
proof (induction "\<lambda>i. Inr (f i) :: string res" k ns rule: print_array.induct)
  case (2 k n)
  then have n: "Suc (pred_u32 n) = unat n" using pred_u32 [of n] by simp
  show ?case
    unfolding print_array.simps(2) print_row_values n by simp
next
  case (3 k n m ns)
  then have n: "Suc (pred_u32 n) = unat n" using pred_u32 [of n] by simp
  have sub: "(\<lambda>i. print_array (\<lambda>i. Inr (f i)) i (m # ns)) = (\<lambda>i. Inr (nested f (m # ns) i, i + prod_list (m # ns)))"
    using 3 by auto
  show ?case
    unfolding print_array.simps(3) sub print_rows_values n by simp
qed simp

section \<open>Properties\<close>


text \<open>A reversed constraint on one dimension of two.\<close>

definition constrained_array :: array where
  "constrained_array = append_dim (append_dim \<lparr>shape = [], a_length = -1, a_send = True\<rparr> 5 ''x'') 10 ''y''"


text \<open>
  C28: \<open>add_constraint\<close> accepts every constraint within the dimension and records it: start,
  stop (the last index for -1) and stride, and as the constrained size the number of indices
  that are selected; name, size and the other dimensions stay.
\<close>

theorem add_constraint_selects:
  assumes "wf_array a" and "i < length (shape a)" and "0 \<le> start" and "1 \<le> stride" and "stride \<le> d_size (shape a ! i)"
    and "start \<le> request_stop a i stop" and "request_stop a i stop < d_size (shape a ! i)"
  shows "\<exists>a' d'. add_constraint a i start stride stop = Inr a'
    \<and> shape a' = (shape a)[i := d'] \<and> a_send a' = a_send a
    \<and> d' = (shape a ! i)\<lparr>d_start := start, d_stop := request_stop a i stop, d_stride := stride,
        d_c_size := int (card (selected d'))\<rparr>"
  using add_constraint_valid [OF assms] by blast

definition ten_dim :: dimension where
  "ten_dim = \<lparr>d_size = 10, d_name = ''x'', d_start = 0, d_stop = 9, d_stride = 1, d_c_size = 10\<rparr>"

definition ten_array :: array where
  "ten_array = \<lparr>shape = [ten_dim], a_length = 10, a_send = True\<rparr>"

lemma wf_ten_array: "wf_array ten_array"
  using wf_full_dim [of 10 ten_dim] by (simp add: wf_array_def ten_array_def ten_dim_def s32_id)

theorem add_constraint_selects_witness:
  "\<exists>a' d'. add_constraint ten_array 0 2 3 (- 1) = Inr a'
    \<and> shape a' = (shape ten_array)[0 := d'] \<and> a_send a' = a_send ten_array
    \<and> d' = (shape ten_array ! 0)\<lparr>d_start := 2, d_stop := request_stop ten_array 0 (- 1), d_stride := 3,
        d_c_size := int (card (selected d'))\<rparr>"
  by (rule add_constraint_selects [OF wf_ten_array])
     (simp_all add: ten_array_def ten_dim_def request_stop_def)

text \<open>
  A constraint whose start is after its stop, or negative, is accepted as well; the
  constrained size is then not the number of selected indices.
\<close>

lemma add_constraint_accepts_reversed:
  "add_constraint ten_array 0 5 1 2 = Inr (ten_array\<lparr>shape := [ten_dim\<lparr>d_start := 5, d_stop := 2, d_c_size := - 2\<rparr>],
     a_length := 1\<rparr>)"
  "is_ok (add_constraint ten_array 0 (- 3) 1 2)"
  by (simp_all add: add_constraint_def ten_array_def ten_dim_def update_length_def s32_id c_div_def Let_def)

text \<open>
  resetting the constraint selects everything again, whatever constraints were accepted
  before: the shape is that of a new array with the same dimensions.
\<close>

lemma reset_constraint_selects_all:
  assumes "wf_array a"
  shows "shape (reset_constraint a) = map reset_dim (shape a)
    \<and> list_all (\<lambda>d. selected d = {0..<d_size d} \<and> d_c_size d = d_size d) (shape (reset_constraint a))"
proof -
  have s: "shape (reset_constraint a) = map reset_dim (shape a)"
    using reset_loop_shape [of 0 "length (shape a)" "a\<lparr>a_length := - 1\<rparr>"] by (simp add: reset_constraint_def)
  have "selected (reset_dim d) = {0..<d_size d}" if "wf_dim d" for d
    using that s32_id [of "d_size d - 1"] by (auto simp: selected_def reset_dim_def wf_dim_def)
  then show ?thesis using s assms by (auto simp: wf_array_def reset_dim_def list_all_iff)
qed

lemma reset_constraint_selects_all_witness:
  "shape (reset_constraint ten_array) = map reset_dim (shape ten_array)
    \<and> list_all (\<lambda>d. selected d = {0..<d_size d} \<and> d_c_size d = d_size d) (shape (reset_constraint ten_array))"
  by (rule reset_constraint_selects_all [OF wf_ten_array])

text \<open>
  C40: printing the values of an array with sizes that are not zero gives them in row-major order,
  nested in braces by dimension, and consumes exactly as many elements as the shape has.
\<close>

theorem print_array_row_major:
  assumes "\<forall>i. pv i = Inr (f i)" and "ns \<noteq> []" and "0 \<notin> set ns"
  shows "print_array pv k ns = Inr (nested f ns k, k + prod_list ns)"
proof -
  have "pv = (\<lambda>i. Inr (f i))" using assms(1) by auto
  then show ?thesis using print_array_values [OF assms(2,3)] by simp
qed

theorem print_array_row_major_witness:
  "print_array (\<lambda>i. Inr ''v'') 0 [2, 3] = Inr (nested (\<lambda>i. ''v'') [2, 3] 0, 0 + prod_list [2, 3])"
  by (rule print_array_row_major) simp_all

end
