(* ===== verification/Variables.thy ===== *)
theory Variables
  imports Arrays
begin

text \<open>
  The tree of variables: \<open>BaseType\<close> and its subclasses \<open>Vector\<close>/\<open>Array\<close>, \<open>Constructor\<close>,
  \<open>Structure\<close>, \<open>Sequence\<close> and \<open>Grid\<close>, without the data they hold.  A pointer to a variable
  inside a tree is the path to it: the positions of the children that lead from the root of
  the tree to the variable.  The stack of pointers the searches fill is the list of paths in
  the order of the pushes.
\<close>

section \<open>State\<close>

record vinfo =
  v_name :: string
  v_read :: bool
  v_send :: bool
  v_insel :: bool
  v_synth :: bool

record seqinfo =
  q_leaf :: bool
  q_top :: bool

text \<open>
  A scalar has one of the simple types.  An array has its shape and a template.  The grid is
  one whose array part has been set.
\<close>

datatype var =
    Scalar dap_type vinfo
  | Arr vinfo array var
  | Struct vinfo "var list"
  | Seq vinfo seqinfo "var list"
  | Grid vinfo var "var list"

primrec info :: "var \<Rightarrow> vinfo" where
  "info (Scalar t i) = i" | "info (Arr i a t) = i" | "info (Struct i vs) = i"
| "info (Seq i q vs) = i" | "info (Grid i a ms) = i"

primrec map_info :: "(vinfo \<Rightarrow> vinfo) \<Rightarrow> var \<Rightarrow> var" where
  "map_info f (Scalar t i) = Scalar t (f i)" | "map_info f (Arr i a t) = Arr (f i) a t"
| "map_info f (Struct i vs) = Struct (f i) vs" | "map_info f (Seq i q vs) = Seq (f i) q vs"
| "map_info f (Grid i a ms) = Grid (f i) a ms"

primrec vtype :: "var \<Rightarrow> dap_type" where
  "vtype (Scalar t i) = t" | "vtype (Arr i a t) = dods_array_c" | "vtype (Struct i vs) = dods_structure_c"
| "vtype (Seq i q vs) = dods_sequence_c" | "vtype (Grid i a ms) = dods_grid_c"

abbreviation name_of :: "var \<Rightarrow> string" where "name_of v \<equiv> v_name (info v)"
abbreviation send_p :: "var \<Rightarrow> bool" where "send_p v \<equiv> v_send (info v)"
abbreviation read_p :: "var \<Rightarrow> bool" where "read_p v \<equiv> v_read (info v)"

primrec children :: "var \<Rightarrow> var list" where
  "children (Scalar t i) = []" | "children (Arr i a t) = [t]" | "children (Struct i vs) = vs"
| "children (Seq i q vs) = vs" | "children (Grid i a ms) = a # ms"

type_synonym path = "nat list"

primrec node_at :: "var \<Rightarrow> path \<Rightarrow> var option" where
  "node_at v [] = Some v"
| "node_at v (k # p) = (if k < length (children v) then node_at (children v ! k) p else None)" for v

text \<open>Writing through a pointer.\<close>

definition with_child :: "nat \<Rightarrow> (var \<Rightarrow> var) \<Rightarrow> var \<Rightarrow> var" where
  "with_child k f v =
     (case v of
        Scalar t i \<Rightarrow> v
      | Arr i a t \<Rightarrow> if k = 0 then Arr i a (f t) else v
      | Struct i vs \<Rightarrow> if k < length vs then Struct i (vs[k := f (vs ! k)]) else v
      | Seq i q vs \<Rightarrow> if k < length vs then Seq i q (vs[k := f (vs ! k)]) else v
      | Grid i a ms \<Rightarrow> if k = 0 then Grid i (f a) ms
          else if k - 1 < length ms then Grid i a (ms[k - 1 := f (ms ! (k - 1))]) else v)"

primrec update_at :: "path \<Rightarrow> (var \<Rightarrow> var) \<Rightarrow> var \<Rightarrow> var" where
  "update_at [] f v = f v"
| "update_at (k # p) f v = with_child k (update_at p f) v"

section \<open>Flags\<close>

text \<open>\<open>BaseType::set_send_p\<close> and \<open>BaseType::set_read_p\<close>, on one variable.\<close>

definition base_set_send_p :: "bool \<Rightarrow> var \<Rightarrow> var" where
  "base_set_send_p s v = map_info (\<lambda>i. i\<lparr>v_send := s\<rparr>) v"

definition base_set_read_p :: "bool \<Rightarrow> var \<Rightarrow> var" where
  "base_set_read_p s v = map_info (\<lambda>i. if v_synth i then i else i\<lparr>v_read := s\<rparr>) v"

definition base_set_in_selection :: "bool \<Rightarrow> var \<Rightarrow> var" where
  "base_set_in_selection s v = map_info (\<lambda>i. i\<lparr>v_insel := s\<rparr>) v"

text \<open>
  The members \<open>Vector\<close> and \<open>Grid\<close> override; \<open>f\<close> is the virtual call on the parts.
\<close>

definition vector_set_send_p :: "(var \<Rightarrow> var) \<Rightarrow> bool \<Rightarrow> vinfo \<Rightarrow> array \<Rightarrow> var \<Rightarrow> var" where
  "vector_set_send_p f s i a t = base_set_send_p s (Arr i a (f t))"

definition vector_set_read_p :: "(var \<Rightarrow> var) \<Rightarrow> bool \<Rightarrow> vinfo \<Rightarrow> array \<Rightarrow> var \<Rightarrow> var" where
  "vector_set_read_p f s i a t = base_set_read_p s (Arr i a (f t))"

definition grid_set_send_p :: "(var \<Rightarrow> var) \<Rightarrow> bool \<Rightarrow> vinfo \<Rightarrow> var \<Rightarrow> var list \<Rightarrow> var" where
  "grid_set_send_p f s i a ms = base_set_send_p s (Grid i (f a) (map f ms))"

definition grid_set_read_p :: "(var \<Rightarrow> var) \<Rightarrow> bool \<Rightarrow> vinfo \<Rightarrow> var \<Rightarrow> var list \<Rightarrow> var" where
  "grid_set_read_p f s i a ms = base_set_read_p s (Grid i (f a) (map f ms))"

definition grid_set_in_selection :: "(var \<Rightarrow> var) \<Rightarrow> bool \<Rightarrow> vinfo \<Rightarrow> var \<Rightarrow> var list \<Rightarrow> var" where
  "grid_set_in_selection f s i a ms = base_set_in_selection s (Grid i (f a) (map f ms))"

lemmas part_members = vector_set_send_p_def vector_set_read_p_def grid_set_send_p_def grid_set_read_p_def
  grid_set_in_selection_def

lemma vector_members_cong [fundef_cong]:
  "f t = g t \<Longrightarrow> vector_set_send_p f s i a t = vector_set_send_p g s i a t"
  "f t = g t \<Longrightarrow> vector_set_read_p f s i a t = vector_set_read_p g s i a t"
  by (simp_all add: part_members)

lemma grid_members_cong [fundef_cong]:
  "(\<And>v. v \<in> set (a # ms) \<Longrightarrow> f v = g v) \<Longrightarrow> grid_set_send_p f s i a ms = grid_set_send_p g s i a ms"
  "(\<And>v. v \<in> set (a # ms) \<Longrightarrow> f v = g v) \<Longrightarrow> grid_set_read_p f s i a ms = grid_set_read_p g s i a ms"
  "(\<And>v. v \<in> set (a # ms) \<Longrightarrow> f v = g v) \<Longrightarrow>
   grid_set_in_selection f s i a ms = grid_set_in_selection g s i a ms"
  by (simp_all add: part_members cong: map_cong)

text \<open>The virtual members.\<close>

fun set_send_p :: "bool \<Rightarrow> var \<Rightarrow> var" where
  "set_send_p s (Scalar t i) = base_set_send_p s (Scalar t i)"
| "set_send_p s (Arr i a t) = vector_set_send_p (set_send_p s) s i a t"
| "set_send_p s (Struct i vs) = base_set_send_p s (Struct i (map (set_send_p s) vs))"
| "set_send_p s (Seq i q vs) = base_set_send_p s (Seq i q (map (set_send_p s) vs))"
| "set_send_p s (Grid i a ms) = grid_set_send_p (set_send_p s) s i a ms"

fun set_read_p :: "bool \<Rightarrow> var \<Rightarrow> var" where
  "set_read_p s (Scalar t i) = base_set_read_p s (Scalar t i)"
| "set_read_p s (Arr i a t) = vector_set_read_p (set_read_p s) s i a t"
| "set_read_p s (Struct i vs) = base_set_read_p s (Struct i (map (set_read_p s) vs))"
| "set_read_p s (Seq i q vs) = base_set_read_p s (Seq i q (map (set_read_p s) vs))"
| "set_read_p s (Grid i a ms) = grid_set_read_p (set_read_p s) s i a ms"

text \<open>\<open>Vector\<close> does not override this one: the template keeps its flag.\<close>

fun set_in_selection :: "bool \<Rightarrow> var \<Rightarrow> var" where
  "set_in_selection s (Scalar t i) = base_set_in_selection s (Scalar t i)"
| "set_in_selection s (Arr i a t) = base_set_in_selection s (Arr i a t)"
| "set_in_selection s (Struct i vs) = base_set_in_selection s (Struct i (map (set_in_selection s) vs))"
| "set_in_selection s (Seq i q vs) = base_set_in_selection s (Seq i q (map (set_in_selection s) vs))"
| "set_in_selection s (Grid i a ms) = grid_set_in_selection (set_in_selection s) s i a ms"

section \<open>Counting and sizes\<close>

text \<open>
  \<open>element_count\<close>.  For the leaves of an array the code asks the first element that holds
  data, which does not exist for an array of constructors without data.  The loop over the
  maps of a grid adds each count to the iterator instead of to the sum: it skips maps and can
  run past the end.
\<close>

fun map_walk :: "nat list \<Rightarrow> unit res" where
  "map_walk [] = Inr ()"
| "map_walk (c # cs) = (if c \<le> length cs then map_walk (drop c cs) else Inl Undefined)"

fun sum_res :: "nat res list \<Rightarrow> nat res" where
  "sum_res [] = Inr 0"
| "sum_res (r # rs) = bindE r (\<lambda>n. bindE (sum_res rs) (\<lambda>m. Inr (n + m)))"

fun seq_res :: "'a res list \<Rightarrow> 'a list res" where
  "seq_res [] = Inr []"
| "seq_res (r # rs) = bindE r (\<lambda>x. bindE (seq_res rs) (\<lambda>xs. Inr (x # xs)))"

text \<open>The counts of an array and of a grid; \<open>f\<close> is the call on the parts.\<close>

definition vector_element_count :: "(var \<Rightarrow> nat res) \<Rightarrow> bool \<Rightarrow> var \<Rightarrow> nat res" where
  "vector_element_count f leaves t =
     (if \<not> leaves then Inr 1
      else if is_constructor_type (vtype t) \<or> vtype t = dods_array_c then Inl Undefined
      else if vtype t \<in> {dods_byte_c, dods_int16_c, dods_uint16_c, dods_int32_c, dods_uint32_c, dods_float32_c,
                dods_float64_c, dods_str_c, dods_url_c} then f t
      else Inl (Error unknown_error ''Vector::var: Unrecognized type''))"

definition grid_element_count :: "(var \<Rightarrow> nat res) \<Rightarrow> bool \<Rightarrow> var \<Rightarrow> var list \<Rightarrow> nat res" where
  "grid_element_count f leaves a ms =
     (if \<not> leaves then Inr (length ms + 1)
      else bindE (seq_res (map f ms)) (\<lambda>cs. bindE (map_walk cs)
        (\<lambda>_. if vtype a = dods_array_c then f a else Inl (InternalErr ''bad Cast''))))"

lemma counts_cong [fundef_cong]:
  "f t = g t \<Longrightarrow> vector_element_count f l t = vector_element_count g l t"
  "(\<And>v. v \<in> set (a # ms) \<Longrightarrow> f v = g v) \<Longrightarrow> grid_element_count f l a ms = grid_element_count g l a ms"
proof -
  show "f t = g t \<Longrightarrow> vector_element_count f l t = vector_element_count g l t"
    by (simp add: vector_element_count_def)
  assume *: "\<And>v. v \<in> set (a # ms) \<Longrightarrow> f v = g v"
  then have "map f ms = map g ms" "f a = g a" by auto
  then show "grid_element_count f l a ms = grid_element_count g l a ms"
    by (simp only: grid_element_count_def)
qed

fun element_count :: "bool \<Rightarrow> var \<Rightarrow> nat res" where
  "element_count leaves (Scalar t i) = Inr 1"
| "element_count leaves (Arr i a t) = vector_element_count (element_count leaves) leaves t"
| "element_count leaves (Struct i vs) =
     (if \<not> leaves then Inr (length vs) else sum_res (map (element_count leaves) vs))"
| "element_count leaves (Seq i q vs) =
     (if \<not> leaves then Inr (length vs) else sum_res (map (element_count leaves) vs))"
| "element_count leaves (Grid i a ms) = grid_element_count (element_count leaves) leaves a ms"

text \<open>\<open>width\<close> in bytes; \<open>ss\<close> is the size of a \<open>std::string\<close>.\<close>

definition scalar_width :: "nat \<Rightarrow> dap_type \<Rightarrow> u32 res" where
  "scalar_width ss t =
     (if t \<in> {dods_byte_c, dods_uint8_c, dods_int8_c} then Inr 1
      else if t \<in> {dods_int16_c, dods_uint16_c} then Inr 2
      else if t \<in> {dods_int32_c, dods_uint32_c, dods_float32_c} then Inr 4
      else if t \<in> {dods_int64_c, dods_uint64_c, dods_float64_c} then Inr 8
      else if t \<in> {dods_str_c, dods_url_c, dods_url4_c} then Inr (of_nat ss)
      else Inl (InternalErr ''not implemented''))"

fun add_widths :: "u32 \<Rightarrow> u32 res list \<Rightarrow> u32 res" where
  "add_widths sz [] = Inr sz"
| "add_widths sz (r # rs) = bindE r (\<lambda>w. add_widths (sz + w) rs)"

definition grid_width :: "(var \<Rightarrow> u32 res) \<Rightarrow> bool \<Rightarrow> var \<Rightarrow> var list \<Rightarrow> u32 res" where
  "grid_width f c a ms =
     add_widths 0 ((if c \<and> \<not> send_p a then Inr 0 else f a) # map (\<lambda>v. if c \<and> \<not> send_p v then Inr 0 else f v) ms)"

lemma grid_width_cong [fundef_cong]:
  "(\<And>v. v \<in> set (a # ms) \<Longrightarrow> f v = g v) \<Longrightarrow> grid_width f c a ms = grid_width g c a ms"
proof -
  assume *: "\<And>v. v \<in> set (a # ms) \<Longrightarrow> f v = g v"
  then have "map (\<lambda>v. if c \<and> \<not> send_p v then Inr 0 else f v) ms = map (\<lambda>v. if c \<and> \<not> send_p v then Inr 0 else g v) ms"
    "f a = g a" by auto
  then show ?thesis by (simp only: grid_width_def)
qed

fun width :: "nat \<Rightarrow> bool \<Rightarrow> var \<Rightarrow> u32 res" where
  "width ss c (Scalar t i) = scalar_width ss t"
| "width ss c (Arr i a t) = bindE (width ss c t) (\<lambda>w. Inr (array_width a (unat w) c))"
| "width ss c (Struct i vs) =
     add_widths 0 (map (\<lambda>v. if c \<and> \<not> send_p v then Inr 0 else width ss c v) vs)"
| "width ss c (Seq i q vs) =
     add_widths 0 (map (\<lambda>v. if c \<and> \<not> send_p v then Inr 0 else width ss c v) vs)"
| "width ss c (Grid i a ms) = grid_width (width ss c) c a ms"


section \<open>Searching for a variable\<close>

text \<open>The shape of a name is decoded at every level; decoding never makes a name longer.\<close>

lemma length_www2id_loop: "length (www2id_loop e x s i) \<le> length s"
proof (induction e x s i rule: www2id_loop.induct)
  case (1 e x s i)
  show ?case
  proof (cases "find_first_of e s i")
    case (Some k)
    then have k: "k < length s" by (auto simp: find_first_of_def dest: find_from_Some)
    have "length (str_replace s k 3 (unhexstring (substr s (k + 1) 2))) \<le> length s"
      using k length_one_char [of "istream_int 16 (substr s (k + 1) 2)"]
      by (simp add: str_replace_def unhexstring_def)
    with 1 Some show ?thesis
      by (auto simp: www2id_loop.simps [of e x s i] intro: order_trans)
  qed (simp add: www2id_loop.simps [of e x s i])
qed

lemma length_www2id: "length (www2id_dflt s) \<le> length s"
  by (simp add: www2id_dflt_def www2id_def length_www2id_loop)

type_synonym found = "path option \<times> path list"

text \<open>The result of a search in child \<open>k\<close>, seen from the parent.\<close>

definition below :: "path \<Rightarrow> found \<Rightarrow> found" where
  "below p r = (map_option ((@) p) (fst r), map ((@) p) (snd r))"

text \<open>
  The loop of \<open>m_leaf_match\<close> over the children from position \<open>k\<close>; \<open>search\<close> is the call of
  \<open>var(name, false, s)\<close> on a child that is a constructor, \<open>this\<close> the pushes of the parent.
\<close>

fun leaf_loop :: "(var \<Rightarrow> found) \<Rightarrow> path list \<Rightarrow> string \<Rightarrow> nat \<Rightarrow> var list \<Rightarrow> found" where
  "leaf_loop search this n k [] = (None, [])"
| "leaf_loop search this n k (v # vs) =
     (if name_of v = n then (Some [k], this)
      else if is_constructor_type (vtype v) then
        (case below [k] (search v) of
           (Some p, st) \<Rightarrow> (Some p, st @ this)
         | (None, st) \<Rightarrow> let r = leaf_loop search this n (Suc k) vs in (fst r, st @ snd r))
      else leaf_loop search this n (Suc k) vs)"

definition child_named :: "string \<Rightarrow> var list \<Rightarrow> nat option" where
  "child_named n vs = (if \<exists>v\<in>set vs. name_of v = n
     then Some (length (takeWhile (\<lambda>v. name_of v \<noteq> n) vs)) else None)"

lemma leaf_loop_ext:
  "(\<And>v. v \<in> set vs \<Longrightarrow> f v = g v) \<Longrightarrow> leaf_loop f this n k vs = leaf_loop g this n k vs"
  by (induction vs arbitrary: k) (auto split: prod.splits option.splits)

lemma leaf_loop_cong [fundef_cong]:
  "ws = vs \<Longrightarrow> this = this' \<Longrightarrow> n = n' \<Longrightarrow> k = k' \<Longrightarrow>
   (\<And>v. v \<in> set vs \<Longrightarrow> f v = g v) \<Longrightarrow> leaf_loop f this n k ws = leaf_loop g this' n' k' vs"
  using leaf_loop_ext [of vs f g] by simp

text \<open>The name split at the first dot.\<close>

definition split_dot :: "string \<Rightarrow> (string \<times> string) option" where
  "split_dot n = (case find_first_of ''.'' n 0 of
     None \<Rightarrow> None | Some d \<Rightarrow> Some (take d n, drop (Suc d) n))"

lemma split_dot_length: "split_dot n = Some (a, f) \<Longrightarrow> length a < length n \<and> length f < length n"
  by (auto simp: split_dot_def find_first_of_def split: option.splits dest!: find_from_Some)

text \<open>A call uses a shorter name, or one that is not longer in a smaller variable.\<close>

definition call_rank :: "((nat \<times> nat \<times> nat) \<times> nat \<times> nat \<times> nat) set" where
  "call_rank = less_than <*lex*> less_than <*lex*> less_than"

lemma rank_name: "l' < l \<Longrightarrow> ((l', s', e'), l, s, e) \<in> call_rank"
  and rank_size: "l' \<le> l \<Longrightarrow> s' < s \<Longrightarrow> ((l', s', e'), l, s, e) \<in> call_rank"
  and rank_last: "l' \<le> l \<Longrightarrow> e' < e \<Longrightarrow> ((l', s, e'), l, s, e) \<in> call_rank"
  by (auto simp: call_rank_def)

text \<open>
  The members of \<open>Vector\<close> and \<open>Grid\<close>, the name being decoded: an array of constructors passes the
  search to its template (\<open>search\<close>) and is pushed after it; a grid looks at its parts only.
\<close>

definition vector_var :: "(var \<Rightarrow> found) \<Rightarrow> var \<Rightarrow> string \<Rightarrow> found" where
  "vector_var search t n =
     (if is_constructor_type (vtype t) then
        if n = '''' \<or> name_of t = n then (Some [0], [[]])
        else let r = below [0] (search t) in (fst r, snd r @ (if fst r \<noteq> None then [[]] else []))
      else (Some [0], []))"

lemma vector_var_cong [fundef_cong]: "f t = g t \<Longrightarrow> vector_var f t n = vector_var g t n"
  by (simp add: vector_var_def)

definition grid_var :: "var \<Rightarrow> var list \<Rightarrow> string \<Rightarrow> found" where
  "grid_var a ms n = (case child_named n (a # ms) of Some k \<Rightarrow> (Some [k], [[]]) | None \<Rightarrow> (None, []))"

text \<open>
  \<open>var(name, exact, s)\<close> of the classes.  On a constructor the exact search looks at the
  children first; a qualified name is split at its first dot, and only the node itself is
  pushed before the search goes on in the aggregate, even if it then fails.
\<close>

function find_var :: "bool \<Rightarrow> var \<Rightarrow> string \<Rightarrow> found" and exact_match :: "var \<Rightarrow> string \<Rightarrow> found" where
  "find_var ex v name =
     (let n = www2id_dflt name in
      case v of
        Scalar t i \<Rightarrow> (None, [])
      | Arr i a t \<Rightarrow> vector_var (\<lambda>w. find_var ex w n) t n
      | Struct i vs \<Rightarrow> if ex then exact_match v n else leaf_loop (\<lambda>w. find_var False w n) [[]] n 0 vs
      | Seq i q vs \<Rightarrow> if ex then exact_match v n else leaf_loop (\<lambda>w. find_var False w n) [[]] n 0 vs
      | Grid i a ms \<Rightarrow> grid_var a ms n)"
| "exact_match v n =
     (case child_named n (children v) of
        Some k \<Rightarrow> (Some [k], [[]])
      | None \<Rightarrow>
          (case split_dot n of
             None \<Rightarrow> (None, [])
           | Some (aggregate, field) \<Rightarrow>
               (case fst (find_var True v aggregate) of
                  None \<Rightarrow> (None, [])
                | Some p \<Rightarrow>
                    (case node_at v p of
                       None \<Rightarrow> (None, [])
                     | Some w \<Rightarrow> let r = below p (find_var True w field) in (fst r, [] # snd r)))))"
  by pat_completeness auto
termination
proof (relation "inv_image call_rank
    (case_sum (\<lambda>(ex, v, n). (length n, size v, 1)) (\<lambda>(v, n). (length n, size v, 0)))", goal_cases)
  case 1
  show ?case by (simp add: call_rank_def wf_inv_image wf_lex_prod)
next
  case (2 ex v name)
  then show ?case by (auto intro!: rank_size length_www2id)
next
  case (3 ex v name)
  then show ?case by (auto intro!: rank_last length_www2id)
next
  case (4 ex v name)
  then show ?case by (auto intro!: rank_size length_www2id size_list_estimation simp: less_Suc_eq_le size_list_estimation')
next
  case (5 ex v name)
  then show ?case by (auto intro!: rank_last length_www2id)
next
  case (6 ex v name)
  then show ?case by (auto intro!: rank_size length_www2id simp: less_Suc_eq_le size_list_estimation')
qed (auto intro!: rank_name dest!: split_dot_length)


declare find_var.simps [simp del] exact_match.simps [simp del]

section \<open>Members of a constructor\<close>

text \<open>\<open>add_var\<close> appends a copy; \<open>None\<close> is the null pointer.  \<open>del_var\<close> removes the first.\<close>

definition constructor_add_var :: "var list \<Rightarrow> var option \<Rightarrow> var list res" where
  "constructor_add_var vs bt =
     (case bt of None \<Rightarrow> Inl (InternalErr ''The BaseType parameter cannot be null.'') | Some v \<Rightarrow> Inr (vs @ [v]))"

fun constructor_del_var :: "string \<Rightarrow> var list \<Rightarrow> var list" where
  "constructor_del_var n [] = []"
| "constructor_del_var n (v # vs) = (if name_of v = n then vs else v # constructor_del_var n vs)"

text \<open>
  \<open>Constructor::read\<close>; \<open>rd\<close> is the \<open>read\<close> of the other classes, which data handlers provide.
  The calls are made in order; the flags are then set on the whole variable.
\<close>

fun map_res :: "('a \<Rightarrow> 'b res) \<Rightarrow> 'a list \<Rightarrow> 'b list res" where
  "map_res f [] = Inr []"
| "map_res f (x # xs) = bindE (f x) (\<lambda>y. bindE (map_res f xs) (\<lambda>ys. Inr (y # ys)))"

lemma map_res_cong [fundef_cong]:
  "xs = ys \<Longrightarrow> (\<And>x. x \<in> set ys \<Longrightarrow> f x = g x) \<Longrightarrow> map_res f xs = map_res g ys"
  by (induction ys arbitrary: xs) auto

fun read_var :: "(var \<Rightarrow> var res) \<Rightarrow> var \<Rightarrow> var res" where
  "read_var rd (Struct i vs) =
     (if v_read i then Inr (Struct i vs)
      else bindE (map_res (read_var rd) vs) (\<lambda>ws. Inr (set_read_p True (Struct i ws))))"
| "read_var rd (Grid i a ms) =
     (if v_read i then Inr (Grid i a ms)
      else bindE (read_var rd a) (\<lambda>a'. bindE (map_res (read_var rd) ms)
        (\<lambda>ms'. Inr (set_read_p True (Grid i a' ms')))))"
| "read_var rd v = rd v"

section \<open>Grids\<close>

definition components :: "bool \<Rightarrow> var \<Rightarrow> var list \<Rightarrow> nat" where
  "components constrained a ms =
     (if constrained then (if send_p a then 1 else 0) + length (filter (\<lambda>m. send_p m) ms) else 1 + length ms)"

definition first_dim :: "array \<Rightarrow> (dimension \<Rightarrow> int) \<Rightarrow> int" where
  "first_dim s f = (case shape s of [] \<Rightarrow> 0 | d # _ \<Rightarrow> f d)"

fun pyg_loop :: "dimension list \<Rightarrow> var list \<Rightarrow> bool res" where
  "pyg_loop (d # ds) (Arr i s t # ms) =
     (if d_c_size d \<noteq> 0 \<and> v_send i \<and> first_dim s d_start = d_start d \<and> first_dim s d_stop = d_stop d
         \<and> first_dim s d_stride = d_stride d
      then pyg_loop ds ms else Inr False)"
| "pyg_loop [] ms = Inr True"
| "pyg_loop ds [] = Inr True"
| "pyg_loop (d # ds) (m # ms) = Inl Bad_Cast"

text \<open>The array part is cast without a check.\<close>

definition projection_yields_grid :: "var \<Rightarrow> var list \<Rightarrow> bool res" where
  "projection_yields_grid a ms =
     (case a of
        Arr i s t \<Rightarrow>
          if \<not> v_send i then Inr False
          else if components True a ms = 1 then Inr False
          else pyg_loop (shape s) ms
      | _ \<Rightarrow> Inl Undefined)"

definition clear_array :: "var \<Rightarrow> var res" where
  "clear_array v = (case v of Arr i s t \<Rightarrow> Inr (Arr i (clear_constraint s) t) | _ \<Rightarrow> Inl Bad_Cast)"

definition grid_clear_constraint :: "var \<Rightarrow> var list \<Rightarrow> (var \<times> var list) res" where
  "grid_clear_constraint a ms =
     bindE (clear_array a) (\<lambda>a'. bindE (map_res clear_array ms) (\<lambda>ms'. Inr (a', ms')))"

section \<open>Declarations\<close>

definition newline :: char where "newline = CHR 0x0A"

definition indent4 :: string where "indent4 = ''    ''"

definition send_info :: "bool \<Rightarrow> vinfo \<Rightarrow> string" where
  "send_info constraint_info i =
     (if constraint_info then if v_send i then '': Send True'' else '': Send False'' else [])"

definition semi :: "bool \<Rightarrow> string" where
  "semi print_semi = (if print_semi then '';'' @ [newline] else [])"

text \<open>The text of a grid, given whether its projection is one and the text of its parts.\<close>

definition grid_decl :: "string \<Rightarrow> bool \<Rightarrow> bool \<Rightarrow> vinfo \<Rightarrow> bool \<Rightarrow> string \<Rightarrow> string list \<Rightarrow> string" where
  "grid_decl space print_semi ci i grid da dms =
     (if grid
      then space @ ''Grid {'' @ [newline] @ space @ ''  Array:'' @ [newline] @ da
           @ space @ ''  Maps:'' @ [newline] @ concat dms
      else space @ ''Structure {'' @ [newline] @ da @ concat dms)
     @ space @ ''} '' @ id2www (v_name i) id_allowable @ send_info ci i @ semi print_semi"

fun print_decl :: "string \<Rightarrow> bool \<Rightarrow> bool \<Rightarrow> bool \<Rightarrow> var \<Rightarrow> string res" where
  "print_decl space print_semi ci constrained (Scalar t i) =
     (if constrained \<and> \<not> v_send i then Inr []
      else Inr (space @ type_name t @ '' '' @ id2www (v_name i) id_allowable @ send_info ci i @ semi print_semi))"
| "print_decl space print_semi ci constrained (Arr i s t) =
     (if constrained \<and> \<not> v_send i then Inr []
      else bindE (print_decl space False ci constrained t)
        (\<lambda>d. Inr (array_print_decl (s\<lparr>a_send := v_send i\<rparr>) d print_semi constrained)))"
| "print_decl space print_semi ci constrained (Struct i vs) =
     (if constrained \<and> \<not> v_send i then Inr []
      else bindE (map_res (print_decl (space @ indent4) True ci constrained) vs)
        (\<lambda>ds. Inr (space @ ''Structure {'' @ [newline] @ concat ds @ space @ ''} '' @ id2www (v_name i) id_allowable
           @ send_info ci i @ semi print_semi)))"
| "print_decl space print_semi ci constrained (Seq i q vs) =
     (if constrained \<and> \<not> v_send i then Inr []
      else bindE (map_res (print_decl (space @ indent4) True ci constrained) vs)
        (\<lambda>ds. Inr (space @ ''Sequence {'' @ [newline] @ concat ds @ space @ ''} '' @ id2www (v_name i) id_allowable
           @ send_info ci i @ semi print_semi)))"
| "print_decl space print_semi ci constrained (Grid i a ms) =
     (if constrained \<and> \<not> v_send i then Inr []
      else bindE (if constrained then projection_yields_grid a ms else Inr True) (\<lambda>grid.
        bindE (print_decl (space @ indent4) True ci constrained a) (\<lambda>da.
        bindE (map_res (print_decl (space @ indent4) True ci constrained) ms) (\<lambda>dms.
          Inr (grid_decl space print_semi ci i grid da dms)))))"

section \<open>Linear structures and leaf sequences\<close>

fun linear_seq :: "(var \<Rightarrow> bool) \<Rightarrow> bool \<Rightarrow> var list \<Rightarrow> bool" where
  "linear_seq lin seq_found [] = True"
| "linear_seq lin seq_found (v # vs) =
     (if vtype v = dods_sequence_c then
        if seq_found then False else lin v \<and> linear_seq lin True vs
      else if vtype v = dods_structure_c then lin v \<and> linear_seq lin seq_found vs
      else is_simple_type (vtype v) \<and> linear_seq lin seq_found vs)"

lemma linear_seq_cong [fundef_cong]:
  "f = f' \<Longrightarrow> vs = ws \<Longrightarrow> (\<And>v. v \<in> set ws \<Longrightarrow> lin v = lin' v) \<Longrightarrow> linear_seq lin f vs = linear_seq lin' f' ws"
  by (induction ws arbitrary: vs f f') auto

text \<open>Only structures and sequences override \<open>is_linear\<close>, which is otherwise false.\<close>

fun is_linear :: "var \<Rightarrow> bool" where
  "is_linear (Struct i vs) =
     list_all (\<lambda>v. if vtype v = dods_structure_c then is_linear v else is_simple_type (vtype v)) vs"
| "is_linear (Seq i q vs) = linear_seq is_linear False vs"
| "is_linear v = False"

definition one_nested_sequence :: exn where
  "one_nested_sequence = Error unknown_error (''This implementation does not support more than one nested ''
     @ ''sequence at a level. Contact the server administrator.'')"

text \<open>\<open>f\<close> is the recursive call on a child; the level is not restored after a sequence.\<close>

fun struct_leaf_loop :: "(int \<Rightarrow> var \<Rightarrow> var res) \<Rightarrow> int \<Rightarrow> var list \<Rightarrow> var list res" where
  "struct_leaf_loop f level [] = Inr []"
| "struct_leaf_loop f level (v # vs) =
     (if vtype v = dods_sequence_c then
        bindE (f (level + 1) v) (\<lambda>v'. bindE (struct_leaf_loop f (level + 1) vs) (\<lambda>vs'. Inr (v' # vs')))
      else if vtype v = dods_structure_c then
        bindE (f level v) (\<lambda>v'. bindE (struct_leaf_loop f level vs) (\<lambda>vs'. Inr (v' # vs')))
      else bindE (struct_leaf_loop f level vs) (\<lambda>vs'. Inr (v # vs')))"

fun seq_leaf_loop :: "(int \<Rightarrow> var \<Rightarrow> var res) \<Rightarrow> int \<Rightarrow> bool \<Rightarrow> var list \<Rightarrow> (var list \<times> bool) res" where
  "seq_leaf_loop f lvl has_child [] = Inr ([], has_child)"
| "seq_leaf_loop f lvl has_child (v # vs) =
     (if vtype v = dods_sequence_c \<and> send_p v then
        if has_child then Inl one_nested_sequence
        else bindE (f (lvl + 1) v) (\<lambda>v'. bindE (seq_leaf_loop f (lvl + 1) True vs) (\<lambda>(vs', h). Inr (v' # vs', h)))
      else if vtype v = dods_structure_c then
        bindE (f lvl v) (\<lambda>v'. bindE (seq_leaf_loop f lvl has_child vs) (\<lambda>(vs', h). Inr (v' # vs', h)))
      else bindE (seq_leaf_loop f lvl has_child vs) (\<lambda>(vs', h). Inr (v # vs', h)))"

lemma struct_leaf_loop_cong [fundef_cong]:
  "l = l' \<Longrightarrow> vs = ws \<Longrightarrow> (\<And>k v. v \<in> set ws \<Longrightarrow> f k v = g k v) \<Longrightarrow> struct_leaf_loop f l vs = struct_leaf_loop g l' ws"
  by (induction ws arbitrary: vs l l') auto

lemma seq_leaf_loop_cong [fundef_cong]:
  "l = l' \<Longrightarrow> h = h' \<Longrightarrow> vs = ws \<Longrightarrow> (\<And>k v. v \<in> set ws \<Longrightarrow> f k v = g k v) \<Longrightarrow>
   seq_leaf_loop f l h vs = seq_leaf_loop g l' h' ws"
  by (induction ws arbitrary: vs l l' h h') auto

fun set_leaf_sequence :: "int \<Rightarrow> var \<Rightarrow> var res" where
  "set_leaf_sequence lvl (Struct i vs) =
     bindE (struct_leaf_loop set_leaf_sequence lvl vs) (\<lambda>vs'. Inr (Struct i vs'))"
| "set_leaf_sequence lvl (Seq i q vs) =
     bindE (seq_leaf_loop set_leaf_sequence lvl False vs)
       (\<lambda>(vs', has_child). Inr (Seq i \<lparr>q_leaf = \<not> has_child, q_top = (q_top q \<or> lvl = 1)\<rparr> vs'))"
| "set_leaf_sequence lvl v = Inr v"


section \<open>Semantic checks\<close>

text \<open>\<open>None\<close> for a variable that passes, otherwise the message.\<close>

definition base_check :: "var \<Rightarrow> string option" where
  "base_check v = (if vtype v \<noteq> dods_null_c \<and> name_of v \<noteq> [] then None
     else Some (''Every variable must have both a name and a type'' @ [newline]))"

fun first_error :: "string option list \<Rightarrow> string option" where
  "first_error [] = None"
| "first_error (Some m # rs) = Some m"
| "first_error (None # rs) = first_error rs"

definition quoted :: "string \<Rightarrow> string" where
  "quoted s = ''`'' @ s @ [CHR 0x27]"

definition simple_elements :: "string \<Rightarrow> string" where
  "simple_elements n = ''The field variable '' @ quoted n
     @ '' must be an array of simple type elements (e.g., int32, String)'' @ [newline]"

text \<open>The checks on one map against the dimension it belongs to.\<close>

definition map_check :: "string \<Rightarrow> string \<Rightarrow> dimension \<Rightarrow> var \<Rightarrow> string option" where
  "map_check gname aname d m =
     (if aname = name_of m then
        Some (''Grid map variable '' @ quoted (name_of m) @ '' conflicts with the grid array name in grid ''
          @ quoted gname @ [newline])
      else case m of
        Arr i s t \<Rightarrow>
          if \<not> is_simple_type (vtype t) then Some (simple_elements gname)
          else if dimensions s \<noteq> 1 then
            Some (''Grid map variable  '' @ quoted (v_name i) @ '' must be only one dimension'' @ [newline])
          else if first_dim s d_size \<noteq> d_size d then
            Some (''Grid map variable  '' @ quoted (v_name i) @ ''s'' @ [CHR 0x27]
              @ '' size does not match the size of array variable '' @ [CHR 0x27] @ aname @ [CHR 0x27] @ ''s''
              @ [CHR 0x27] @ '' cooresponding dimension'' @ [newline])
          else None
      | _ \<Rightarrow> Some (''Grid map variable  '' @ quoted (name_of m) @ '' is not an array'' @ [newline]))"

fun map_checks :: "string \<Rightarrow> string \<Rightarrow> dimension list \<Rightarrow> var list \<Rightarrow> string option" where
  "map_checks gname aname (d # ds) (m # ms) =
     (case map_check gname aname d m of Some e \<Rightarrow> Some e | None \<Rightarrow> map_checks gname aname ds ms)"
| "map_checks gname aname _ _ = None"

definition grid_check :: "vinfo \<Rightarrow> var \<Rightarrow> var list \<Rightarrow> string option" where
  "grid_check i a ms =
     (case a of
        Arr ai s t \<Rightarrow>
          if \<not> is_simple_type (vtype t) then Some (simple_elements (v_name i))
          else if length ms \<noteq> dimensions s then
            Some (''The number of map variables for grid '' @ quoted (v_name i)
              @ '' does not match the number of dimensions of '' @ quoted (v_name ai) @ [newline])
          else map_checks (v_name i) (v_name ai) (shape s) ms
      | _ \<Rightarrow> Some (''Grid '' @ quoted (v_name i) @ ''s'' @ [CHR 0x27] @ '' member '' @ quoted (name_of a)
               @ '' must be an array'' @ [newline]))"

fun check_semantics :: "bool \<Rightarrow> var \<Rightarrow> string option" where
  "check_semantics all (Scalar t i) = base_check (Scalar t i)"
| "check_semantics all (Arr i s t) =
     (if base_check (Arr i s t) = None \<and> shape s \<noteq> [] then None
      else Some ''An array variable must have dimensions'')"
| "check_semantics all (Struct i vs) =
     first_error (base_check (Struct i vs) # unique_names (map (\<lambda>v. name_of v) vs) (v_name i) ''Structure''
       # (if all then map (check_semantics True) vs else []))"
| "check_semantics all (Seq i q vs) =
     first_error (base_check (Seq i q vs) # unique_names (map (\<lambda>v. name_of v) vs) (v_name i) ''Sequence''
       # (if all then map (check_semantics True) vs else []))"
| "check_semantics all (Grid i a ms) =
     first_error (base_check (Grid i a ms) # grid_check i a ms
       # (if all then check_semantics True a # map (check_semantics True) ms else []))"

section \<open>Paths\<close>

lemma children_with_child [simp]:
  "k < length (children v) \<Longrightarrow> children (with_child k f v) = (children v)[k := f (children v ! k)]"
  by (cases v) (auto simp: with_child_def nth_Cons' list_update.simps split: nat.splits)

lemma with_child_out: "\<not> k < length (children v) \<Longrightarrow> with_child k f v = v"
  by (cases v) (auto simp: with_child_def)

lemma length_children_with_child [simp]: "length (children (with_child k f v)) = length (children v)"
  by (cases v) (auto simp: with_child_def)

lemma info_with_child [simp]: "info (with_child k f v) = info v"
  by (cases v) (auto simp: with_child_def)

lemma vtype_with_child [simp]: "vtype (with_child k f v) = vtype v"
  by (cases v) (auto simp: with_child_def)

lemma children_map_info [simp]: "children (map_info f v) = children v"
  by (cases v) auto

lemma info_map_info [simp]: "info (map_info f v) = f (info v)"
  by (cases v) auto

lemma vtype_map_info [simp]: "vtype (map_info f v) = vtype v"
  by (cases v) auto

lemma node_at_append: "node_at v (p @ q) = (case node_at v p of None \<Rightarrow> None | Some w \<Rightarrow> node_at w q)"
  by (induction p arbitrary: v) auto

lemma node_at_update_same: "node_at v p = Some w \<Longrightarrow> node_at (update_at p f v) p = Some (f w)"
  by (induction p arbitrary: v) (auto split: if_splits)

lemma node_at_update_below:
  "node_at v p = Some w \<Longrightarrow> node_at (update_at p f v) (p @ q) = node_at (f w) q"
  by (simp add: node_at_append node_at_update_same)

lemma node_at_update_not_below:
  "\<not> (\<exists>r. q = p @ r) \<Longrightarrow> map_option info (node_at (update_at p f v) q) = map_option info (node_at v q)"
proof (induction p arbitrary: v q)
  case (Cons k p)
  then show ?case
    by (cases q; cases "k < length (children v)") (auto simp: nth_list_update with_child_out)
qed simp


section \<open>What the searches find\<close>

lemma www2id_no_percent: "CHR ''%'' \<notin> set n \<Longrightarrow> www2id_dflt n = n"
proof -
  assume "CHR ''%'' \<notin> set n"
  then have "find_first_of ''%'' n 0 = None"
    unfolding find_first_of_def find_from_None by (auto dest: in_set_dropD)
  then show ?thesis by (simp add: www2id_dflt_def www2id_def www2id_loop.simps)
qed

lemma split_dot_parts: "split_dot n = Some (a, f) \<Longrightarrow> n = a @ ''.'' @ f \<and> CHR ''.'' \<notin> set a"
proof -
  assume "split_dot n = Some (a, f)"
  then obtain d where d: "find_idx (\<lambda>c. c \<in> set ''.'') n = Some d" "a = take d n" "f = drop (Suc d) n"
    by (auto simp: split_dot_def find_first_of_def find_from_def split: option.splits)
  from find_idx_Some [OF d(1)] have n: "d < length n" "n ! d = CHR ''.''" "\<forall>j<d. n ! j \<noteq> CHR ''.''" by auto
  then have "n = take d n @ CHR ''.'' # drop (Suc d) n" by (metis id_take_nth_drop)
  moreover have "CHR ''.'' \<notin> set (take d n)" using n by (auto simp: in_set_conv_nth)
  ultimately show ?thesis using d n by simp
qed

lemma child_named_Some:
  "child_named n vs = Some k \<Longrightarrow> k < length vs \<and> name_of (vs ! k) = n \<and> (\<forall>j<k. name_of (vs ! j) \<noteq> n)"
proof -
  assume "child_named n vs = Some k"
  then have ex: "\<exists>v\<in>set vs. name_of v = n" and k: "k = length (takeWhile (\<lambda>v. name_of v \<noteq> n) vs)"
    by (auto simp: child_named_def split: if_splits)
  have "k < length vs"
    using ex k takeWhile_all_length [of "\<lambda>v. name_of v \<noteq> n" vs]
      length_takeWhile_le [of "\<lambda>v. name_of v \<noteq> n" vs] by (auto simp: list_all_iff le_less)
  moreover from this have "name_of (vs ! k) = n" using k nth_length_takeWhile [of "\<lambda>v. name_of v \<noteq> n" vs] by simp
  moreover have "name_of (vs ! j) \<noteq> n" if "j < k" for j
    using that k set_takeWhileD [of "vs ! j" "\<lambda>v. name_of v \<noteq> n" vs]
      takeWhile_nth [of j "\<lambda>v. name_of v \<noteq> n" vs] nth_mem [of j "takeWhile (\<lambda>v. name_of v \<noteq> n) vs"] by simp
  ultimately show ?thesis by blast
qed

lemma child_named_None: "child_named n vs = None \<longleftrightarrow> (\<forall>v\<in>set vs. name_of v \<noteq> n)"
  by (auto simp: child_named_def)

text \<open>
  The strict prefixes of a path are the ancestors of the variable it leads to.  A search
  covers the path it returns if it pushes every ancestor, except an array whose template is not
  a constructor: the search returns the template of such an array without a push.
\<close>

definition simple_array :: "var \<Rightarrow> bool" where
  "simple_array v = (case v of Arr i s t \<Rightarrow> \<not> is_constructor_type (vtype t) | _ \<Rightarrow> False)"

definition covers :: "var \<Rightarrow> path \<Rightarrow> path list \<Rightarrow> bool" where
  "covers v p st = (\<forall>q r. p = q @ r \<and> r \<noteq> [] \<longrightarrow>
     q \<in> set st \<or> (\<exists>w. node_at v q = Some w \<and> simple_array w))"

text \<open>What a search returns is a variable of the tree, and every push is an ancestor-or-self of a variable.\<close>

definition good_found :: "var \<Rightarrow> found \<Rightarrow> bool" where
  "good_found v r = (\<forall>p st. r = (Some p, st) \<longrightarrow> p \<noteq> [] \<and> node_at v p \<noteq> None \<and> covers v p st)"

lemma covers_child:
  assumes "covers (children v ! k) p st" and "k < length (children v)" and "[] \<in> set st' \<or> simple_array v"
    and "map ((#) k) st = st2" and "set st2 \<subseteq> set st'"
  shows "covers v (k # p) st'"
  unfolding covers_def
proof (intro allI impI)
  fix q r assume a: "k # p = q @ r \<and> r \<noteq> []"
  show "q \<in> set st' \<or> (\<exists>w. node_at v q = Some w \<and> simple_array w)"
  proof (cases q)
    case Nil
    with assms(3) show ?thesis by auto
  next
    case (Cons x q')
    with a have x: "x = k" "p = q' @ r" by auto
    with assms(1) a have "q' \<in> set st \<or> (\<exists>w. node_at (children v ! k) q' = Some w \<and> simple_array w)"
      by (auto simp: covers_def)
    then show ?thesis using assms(2,4,5) Cons x by auto
  qed
qed

lemma covers_root: "k < length (children v) \<Longrightarrow> [] \<in> set st \<or> simple_array v \<Longrightarrow> covers v [k] st"
  by (rule covers_child [where p = "[]" and st = "[]" and ?st2.0 = "[]"]) (auto simp: covers_def)

lemma below_fst [simp]: "fst (below p r) = map_option ((@) p) (fst r)"
  and below_snd [simp]: "snd (below p r) = map ((@) p) (snd r)"
  by (simp_all add: below_def)


lemma append_singleton [simp]: "(@) [k] = (#) k"
  by auto

definition is_record :: "var \<Rightarrow> bool" where
  "is_record v = (case v of Struct i vs \<Rightarrow> True | Seq i q vs \<Rightarrow> True | _ \<Rightarrow> False)"

lemma is_record_simps [simp]:
  "is_record (Struct i vs)" "is_record (Seq i q vs)" "\<not> is_record (Scalar t i)" "\<not> is_record (Arr i a w)"
  "\<not> is_record (Grid i w ms)"
  by (simp_all add: is_record_def)

lemma good_none [simp]: "good_found v (None, st)"
  by (simp add: good_found_def)

lemma good_root:
  "k < length (children v) \<Longrightarrow> [] \<in> set st \<or> simple_array v \<Longrightarrow> good_found v (Some [k], st)"
  by (auto simp: good_found_def covers_root)

lemma good_below:
  assumes "good_found (children v ! k) r" and "k < length (children v)"
    and "fst r \<noteq> None \<Longrightarrow> [] \<in> set extra" and "set (map ((#) k) (snd r)) \<subseteq> set st" and "set extra \<subseteq> set st"
  shows "good_found v (map_option ((#) k) (fst r), st)"
proof (cases "fst r")
  case (Some p)
  then have "r = (Some p, snd r)" by (cases r) auto
  with assms(1) have g: "p \<noteq> []" "node_at (children v ! k) p \<noteq> None" "covers (children v ! k) p (snd r)"
    unfolding good_found_def by auto
  have "covers v (k # p) st"
    by (rule covers_child [OF g(3) assms(2) _ refl assms(4)]) (use assms(3,5) Some in auto)
  with g assms(2) Some show ?thesis by (auto simp: good_found_def)
qed simp

lemma good_more: "good_found v r \<Longrightarrow> good_found v (fst r, st @ snd r)"
  by (cases r) (auto simp: good_found_def covers_def)

lemma good_leaf_loop:
  assumes "\<And>w. w \<in> set (children v) \<Longrightarrow> good_found w (search w)"
    and "children v = pre @ vs" and "k = length pre" and "[] \<in> set this"
  shows "good_found v (leaf_loop search this n k vs)"
  using assms(2,3)
proof (induction vs arbitrary: k pre)
  case (Cons w vs)
  have k: "k < length (children v)" "children v ! k = w" using Cons.prems by auto
  have IH: "good_found v (leaf_loop search this n (Suc k) vs)"
    using Cons.IH [of "pre @ [w]"] Cons.prems by simp
  show ?case
  proof (cases "name_of w = n")
    case True
    then show ?thesis using k assms(4) by (auto intro: good_root)
  next
    case False
    show ?thesis
    proof (cases "is_constructor_type (vtype w)")
      case True
      obtain r st where r: "search w = (r, st)" by (cases "search w")
      have g: "good_found (children v ! k) (r, st)" using assms(1) [of w] k r by (metis nth_mem)
      show ?thesis
      proof (cases r)
        case None
        with False True r good_more [OF IH] show ?thesis by (simp add: below_def Let_def)
      next
        case (Some p)
        have "good_found v (Some (k # p), map ((#) k) st @ this)"
          using good_below [OF g k(1), of this "map ((#) k) st @ this"] assms(4) Some by simp
        then show ?thesis using False True r Some by (simp add: below_def)
      qed
    qed (use False IH in simp)
  qed
qed simp

text \<open>An aggregate is a child: its name has no dot.\<close>

lemma exact_match_no_dot:
  "CHR ''.'' \<notin> set n \<Longrightarrow> exact_match v n
     = (case child_named n (children v) of Some k \<Rightarrow> (Some [k], [[]]) | None \<Rightarrow> (None, []))"
proof -
  assume "CHR ''.'' \<notin> set n"
  then have "split_dot n = None" using split_dot_parts [of n] by (cases "split_dot n") auto
  then show ?thesis by (simp add: exact_match.simps [of v n] split: option.splits)
qed

lemma find_var_aggregate:
  assumes "is_record v" and "CHR ''.'' \<notin> set a" "CHR ''%'' \<notin> set a"
    and "fst (find_var True v a) = Some p"
  shows "\<exists>k. p = [k] \<and> k < length (children v)"
proof -
  have e: "find_var True v a = exact_match v a"
    using assms(1) www2id_no_percent [OF assms(3)] by (cases v) (simp_all add: find_var.simps [of True] Let_def)
  show ?thesis using assms(4) exact_match_no_dot [OF assms(2)] e
    by (auto split: option.splits dest: child_named_Some)
qed

lemma find_var_good:
  "CHR ''%'' \<notin> set n \<Longrightarrow> good_found v (find_var ex v n)"
  "CHR ''%'' \<notin> set m \<Longrightarrow> is_record v2 \<Longrightarrow> good_found v2 (exact_match v2 m)"
proof (induction ex v n and v2 m rule: find_var_exact_match.induct)
  case (1 ex v name)
  have n: "www2id_dflt name = name" using 1(6) by (rule www2id_no_percent)
  show ?case
  proof (cases v)
    case (Arr i a t)
    show ?thesis
    proof (cases "is_constructor_type (vtype t) \<and> name \<noteq> [] \<and> name_of t \<noteq> name")
      case True
      let ?r = "find_var ex t name"
      have g: "good_found t ?r" using 1(1) [OF _ Arr] True n 1(6) by simp
      have "good_found v (map_option ((#) 0) (fst ?r),
          map ((#) 0) (snd ?r) @ (if fst ?r \<noteq> None then [[]] else []))"
        by (rule good_below [where extra = "if fst ?r \<noteq> None then [[]] else []"]) (use g Arr in auto)
      then show ?thesis using Arr True n by (simp add: find_var.simps [of ex "Arr i a t"] vector_var_def Let_def)
    next
      case False
      then show ?thesis using Arr n
        by (auto simp: find_var.simps [of ex "Arr i a t"] vector_var_def Let_def simple_array_def intro!: good_root)
    qed
  next
    case (Struct i vs)
    then show ?thesis using 1(2,3) [OF _ Struct] n 1(6)
      by (auto simp: find_var.simps [of ex "Struct i vs"] Let_def intro!: good_leaf_loop [where pre = "[]"])
  next
    case (Seq i q vs)
    then show ?thesis using 1(4,5) [OF _ Seq] n 1(6)
      by (auto simp: find_var.simps [of ex "Seq i q vs"] Let_def intro!: good_leaf_loop [where pre = "[]"])
  next
    case (Grid i a ms)
    then show ?thesis using n
      by (auto simp: find_var.simps [of ex "Grid i a ms"] grid_var_def Let_def split: option.splits
          intro!: good_root dest!: child_named_Some)
  next
    case (Scalar t i)
    then show ?thesis by (simp add: find_var.simps [of ex "Scalar t i"] Let_def)
  qed
next
  case (2 v n)
  show ?case
  proof (cases "child_named n (children v)")
    case (Some k)
    then show ?thesis by (auto simp: exact_match.simps [of v n] intro!: good_root dest: child_named_Some)
  next
    case None
    show ?thesis
    proof (cases "split_dot n")
      case (Some af)
      obtain a f where af: "split_dot n = Some (a, f)" using Some by (cases af) auto
      have plain: "CHR ''%'' \<notin> set a" "CHR ''%'' \<notin> set f" "CHR ''.'' \<notin> set a"
        using split_dot_parts [OF af] 2(3) by auto
      show ?thesis
      proof (cases "fst (find_var True v a)")
        case (Some p)
        have "\<exists>k. p = [k] \<and> k < length (children v)"
          using find_var_aggregate [OF 2(4) plain(3,1) Some] .
        then obtain k where k: "p = [k]" "k < length (children v)" by blast
        let ?r = "find_var True (children v ! k) f"
        have g: "good_found (children v ! k) ?r"
          using 2(2) [OF None af refl Some] k plain by simp
        have "good_found v (map_option ((#) k) (fst ?r), [] # map ((#) k) (snd ?r))"
          by (rule good_below [OF g k(2), where extra = "[[]]"]) auto
        then show ?thesis using None af Some k by (simp add: exact_match.simps [of v n] Let_def)
      qed (simp add: exact_match.simps [of v n] None af)
    qed (simp add: exact_match.simps [of v n] None)
  qed
qed


section \<open>Leaf sequences\<close>

text \<open>
  The sequences the tagging visits: from a sequence it enters the sequences among the fields
  that are sent and all structures, from a structure all sequences and structures.
\<close>

definition sent_seq :: "var \<Rightarrow> bool" where
  "sent_seq w = (vtype w = dods_sequence_c \<and> send_p w)"

fun single_chain :: "var \<Rightarrow> bool" where
  "single_chain (Seq i q vs) =
     (length (filter sent_seq vs) \<le> 1
      \<and> list_all (\<lambda>w. (sent_seq w \<or> vtype w = dods_structure_c) \<longrightarrow> single_chain w) vs)"
| "single_chain (Struct i vs) =
     list_all (\<lambda>w. (vtype w = dods_sequence_c \<or> vtype w = dods_structure_c) \<longrightarrow> single_chain w) vs"
| "single_chain v = True"

fun leaf_tagged :: "var \<Rightarrow> bool" where
  "leaf_tagged (Seq i q vs) =
     (q_leaf q = (filter sent_seq vs = [])
      \<and> list_all (\<lambda>w. (sent_seq w \<or> vtype w = dods_structure_c) \<longrightarrow> leaf_tagged w) vs)"
| "leaf_tagged (Struct i vs) =
     list_all (\<lambda>w. (vtype w = dods_sequence_c \<or> vtype w = dods_structure_c) \<longrightarrow> leaf_tagged w) vs"
| "leaf_tagged v = True"

definition tags :: "var \<Rightarrow> var res \<Rightarrow> bool" where
  "tags v r = (case r of
     Inr v' \<Rightarrow> single_chain v \<and> leaf_tagged v' \<and> info v' = info v \<and> vtype v' = vtype v
   | Inl e \<Rightarrow> \<not> single_chain v \<and> e = one_nested_sequence)"

lemma tags_Inr: "tags v (Inr v') \<longleftrightarrow> single_chain v \<and> leaf_tagged v' \<and> info v' = info v \<and> vtype v' = vtype v"
  and tags_Inl: "tags v (Inl e) \<longleftrightarrow> \<not> single_chain v \<and> e = one_nested_sequence"
  by (simp_all add: tags_def)

lemma sent_seq_cong: "info v' = info v \<Longrightarrow> vtype v' = vtype v \<Longrightarrow> sent_seq v' = sent_seq v"
  by (simp add: sent_seq_def)

lemma struct_leaf_loop_tags:
  assumes "\<And>k w. w \<in> set vs \<Longrightarrow> tags w (f k w)"
  shows "tags (Struct i vs) (bindE (struct_leaf_loop f l vs) (\<lambda>vs'. Inr (Struct i vs')))"
  using assms
proof (induction vs arbitrary: l)
  case (Cons v vs)
  have IH: "tags (Struct i vs) (bindE (struct_leaf_loop f k vs) (\<lambda>vs'. Inr (Struct i vs')))" for k
    using Cons by simp
  have v: "tags v (f k v)" for k using Cons.prems by simp
  consider k where "vtype v = dods_sequence_c \<or> vtype v = dods_structure_c"
      "struct_leaf_loop f l (v # vs) = bindE (f k v) (\<lambda>v'. bindE (struct_leaf_loop f k vs) (\<lambda>vs'. Inr (v' # vs')))"
    | "\<not> (vtype v = dods_sequence_c \<or> vtype v = dods_structure_c)" by fastforce
  then show ?case
  proof cases
    case (1 k)
    then show ?thesis using IH [of k] v [of k]
      by (cases "f k v"; cases "struct_leaf_loop f k vs") (auto simp: tags_Inr tags_Inl)
  next
    case 2
    then show ?thesis using IH [of l] by (cases "struct_leaf_loop f l vs") (auto simp: tags_Inr tags_Inl)
  qed
qed (simp add: tags_Inr)

definition seq_result :: "bool \<Rightarrow> var list \<Rightarrow> (var list \<times> bool) res \<Rightarrow> bool" where
  "seq_result h vs r = (let ok = (length (filter sent_seq vs) + (if h then 1 else 0) \<le> 1
       \<and> list_all (\<lambda>w. (sent_seq w \<or> vtype w = dods_structure_c) \<longrightarrow> single_chain w) vs) in
     case r of
       Inr (vs', h') \<Rightarrow> ok \<and> h' = (h \<or> filter sent_seq vs \<noteq> []) \<and> (filter sent_seq vs' = [] \<longleftrightarrow> filter sent_seq vs = [])
         \<and> list_all (\<lambda>w. (sent_seq w \<or> vtype w = dods_structure_c) \<longrightarrow> leaf_tagged w) vs'
     | Inl e \<Rightarrow> \<not> ok \<and> e = one_nested_sequence)"

lemma seq_leaf_loop_result:
  assumes "\<And>k w. w \<in> set vs \<Longrightarrow> tags w (f k w)"
  shows "seq_result h vs (seq_leaf_loop f l h vs)"
  using assms
proof (induction vs arbitrary: l h)
  case (Cons v vs)
  have IH: "seq_result g vs (seq_leaf_loop f k g vs)" for k g using Cons by simp
  have v: "tags v (f k v)" for k using Cons.prems by simp
  consider "sent_seq v" | "\<not> sent_seq v" "vtype v = dods_structure_c" | "\<not> sent_seq v" "vtype v \<noteq> dods_structure_c"
    by blast
  then show ?case
  proof cases
    case 1
    then show ?thesis using IH [of True "l + 1"] v [of "l + 1"]
      by (cases "f (l + 1) v"; cases "seq_leaf_loop f (l + 1) True vs"; cases h)
         (auto simp: seq_result_def tags_Inr tags_Inl sent_seq_def sent_seq_cong Let_def split: prod.splits)
  next
    case 2
    then show ?thesis using IH [of h l] v [of l]
      by (cases "f l v"; cases "seq_leaf_loop f l h vs")
         (auto simp: seq_result_def tags_Inr tags_Inl sent_seq_def Let_def split: prod.splits)
  next
    case 3
    then show ?thesis using IH [of h l]
      by (cases "seq_leaf_loop f l h vs") (auto simp: seq_result_def sent_seq_def Let_def split: prod.splits)
  qed
qed (simp add: seq_result_def)

lemma set_leaf_sequence_tags: "tags v (set_leaf_sequence lvl v)"
proof (induction lvl v rule: set_leaf_sequence.induct)
  case (1 lvl i vs)
  then show ?case using struct_leaf_loop_tags [of vs set_leaf_sequence i lvl] by simp
next
  case (2 lvl i q vs)
  then have "seq_result False vs (seq_leaf_loop set_leaf_sequence lvl False vs)"
    by (intro seq_leaf_loop_result) auto
  then show ?case
    by (cases "seq_leaf_loop set_leaf_sequence lvl False vs")
       (auto simp: seq_result_def tags_Inr tags_Inl Let_def split: prod.splits)
qed (simp_all add: tags_Inr)


section \<open>Grid semantics\<close>

definition map_matches :: "string \<Rightarrow> dimension \<Rightarrow> var \<Rightarrow> bool" where
  "map_matches aname d m = (case m of
     Arr i s t \<Rightarrow> v_name i \<noteq> aname \<and> is_simple_type (vtype t) \<and> (\<exists>e. shape s = [e] \<and> d_size e = d_size d)
   | _ \<Rightarrow> False)"

lemma map_check_None: "map_check gname aname d m = None \<longleftrightarrow> map_matches aname d m"
  by (cases m) (auto simp: map_check_def map_matches_def dimensions_def first_dim_def length_Suc_conv
      split: list.splits)

lemma map_checks_None:
  "length ms = length ds \<Longrightarrow> map_checks gname aname ds ms = None \<longleftrightarrow> list_all2 (map_matches aname) ds ms"
proof (induction ds arbitrary: ms)
  case (Cons d ds)
  then obtain m ms' where "ms = m # ms'" by (cases ms) auto
  with Cons map_check_None [of gname aname d m] show ?case by (auto split: option.splits)
qed simp

section \<open>Properties\<close>

text \<open>
  C31: tagging the leaf sequences of a structure or sequence fails exactly when some sequence it
  enters has more than one sequence to be sent among its fields; otherwise, in every sequence it
  enters, the leaf flag is set exactly when no field of it is a sequence to be sent, and no
  other property of the variable itself changes.
\<close>

theorem set_leaf_sequence_tags_leaves:
  "case set_leaf_sequence lvl v of
     Inr v' \<Rightarrow> single_chain v \<and> leaf_tagged v' \<and> info v' = info v \<and> vtype v' = vtype v
   | Inl e \<Rightarrow> \<not> single_chain v \<and> e = one_nested_sequence"
  using set_leaf_sequence_tags [of v lvl] by (simp add: tags_def)

text \<open>
  C38: a grid passes its own check exactly when its array part is an array of simple elements
  with one map per dimension, each map a one-dimensional array of simple elements of the
  dimension's size whose name differs from the array's.
\<close>

theorem grid_check_accepts:
  "grid_check i a ms = None \<longleftrightarrow>
     (\<exists>ai s t. a = Arr ai s t \<and> is_simple_type (vtype t) \<and> list_all2 (map_matches (v_name ai)) (shape s) ms)"
proof (cases a)
  case (Arr ai s t)
  have "list_all2 (map_matches (v_name ai)) (shape s) ms \<Longrightarrow> length ms = length (shape s)"
    by (simp add: list_all2_lengthD)
  with Arr map_checks_None [of ms "shape s" "v_name i" "v_name ai"] show ?thesis
    by (auto simp: grid_check_def dimensions_def)
qed (simp_all add: grid_check_def)

text \<open>
  The count of the leaves of a grid: the loop over the maps leaves its range as soon as there
  is one map (or any odd number of maps of simple elements).
\<close>

lemma grid_element_count_one_map:
  "element_count True (Grid i (Arr ai s (Scalar dods_int32_c ti)) [Arr mi ms (Scalar dods_int32_c tj)]) = Inl Undefined"
  by (simp add: is_constructor_type_def grid_element_count_def vector_element_count_def)

end
