(* ===== verification/Dataset.thy ===== *)
theory Dataset
  imports Variables
begin

text \<open>
  The dataset descriptor (\<open>DDS.cc\<close>): the list of top-level variables, the current container,
  adding, removing and looking up variables, marking the variables of a projection with
  everything above them, sizes, semantic checks and the printed form.  The variables of the
  dataset are the children of a root that is not a variable of the program: a path in the
  dataset starts with the position of a top-level variable.
\<close>

section \<open>State\<close>

record dds =
  ds_name :: string
  ds_vars :: "var list"
  ds_container :: "path option"
  ds_container_name :: string
  ds_major :: int
  ds_minor :: int
  ds_version :: string

definition root :: "var list \<Rightarrow> var" where
  "root vs = Struct \<lparr>v_name = '''', v_read = False, v_send = False, v_insel = False, v_synth = False\<rparr> vs"

definition with_root :: "(var \<Rightarrow> var) \<Rightarrow> var list \<Rightarrow> var list" where
  "with_root f vs = children (f (root vs))"

section \<open>Looking up variables\<close>

definition dds_leaf_match :: "var list \<Rightarrow> string \<Rightarrow> found" where
  "dds_leaf_match vs n = leaf_loop (\<lambda>w. find_var False w n) [] n 0 vs"

text \<open>
  \<open>DDS::var\<close> and \<open>DDS::exact_match\<close> without a container.  The aggregate of a qualified name is
  looked up with the stack, so its pushes stay there even if the exact search fails and the
  leaf search is tried next.
\<close>

function dds_search :: "var list \<Rightarrow> string \<Rightarrow> found" and dds_exact_match :: "var list \<Rightarrow> string \<Rightarrow> found" where
  "dds_search vs name =
     (let n = www2id_dflt name; r = dds_exact_match vs n in
      if fst r \<noteq> None then r
      else let l = dds_leaf_match vs n in (fst l, snd r @ snd l))"
| "dds_exact_match vs n =
     (case child_named n vs of
        Some k \<Rightarrow> (Some [k], [])
      | None \<Rightarrow>
          (case split_dot n of
             None \<Rightarrow> (None, [])
           | Some (aggregate, field) \<Rightarrow>
               (let r = dds_search vs aggregate in
                case fst r of
                  None \<Rightarrow> (None, snd r)
                | Some p \<Rightarrow>
                    (case node_at (root vs) p of
                       None \<Rightarrow> (None, snd r)
                     | Some w \<Rightarrow> let f = below p (find_var True w field) in (fst f, snd r @ snd f)))))"
  by pat_completeness auto
termination
proof (relation "inv_image (less_than <*lex*> less_than)
    (case_sum (\<lambda>(vs, n). (length n, 1)) (\<lambda>(vs, n). (length n, 0 :: nat)))", goal_cases)
  case (2 vs name)
  then show ?case using length_www2id [of name] by (auto simp: le_less)
qed (auto dest!: split_dot_length)

declare dds_search.simps [simp del] dds_exact_match.simps [simp del]

definition dds_var :: "dds \<Rightarrow> string \<Rightarrow> found" where
  "dds_var d name =
     (case ds_container d of
        Some cp \<Rightarrow>
          (case node_at (root (ds_vars d)) cp of
             None \<Rightarrow> (None, [])
           | Some c \<Rightarrow> below cp (find_var False c (www2id_dflt name)))
      | None \<Rightarrow> dds_search (ds_vars d) name)"

section \<open>Containers, adding and removing\<close>

text \<open>A copy is added to the container, a structure, or at the end of the top-level variables.\<close>

definition append_child :: "var \<Rightarrow> var \<Rightarrow> var" where
  "append_child b v = (case v of Struct i vs \<Rightarrow> Struct i (vs @ [b]) | _ \<Rightarrow> v)"

definition dds_add_var :: "dds \<Rightarrow> var option \<Rightarrow> dds res" where
  "dds_add_var d bt =
     (case bt of
        None \<Rightarrow> Inl (InternalErr ''Trying to add a BaseType object with a NULL pointer.'')
      | Some b \<Rightarrow>
          (case ds_container d of
             Some cp \<Rightarrow> Inr (d\<lparr>ds_vars := with_root (update_at cp (append_child b)) (ds_vars d)\<rparr>)
           | None \<Rightarrow> Inr (d\<lparr>ds_vars := ds_vars d @ [b]\<rparr>)))"

definition del_child :: "string \<Rightarrow> var \<Rightarrow> var" where
  "del_child n v = (case v of Struct i vs \<Rightarrow> Struct i (constructor_del_var n vs) | _ \<Rightarrow> v)"

definition dds_del_var :: "dds \<Rightarrow> string \<Rightarrow> dds" where
  "dds_del_var d n =
     (case ds_container d of
        Some cp \<Rightarrow> d\<lparr>ds_vars := with_root (update_at cp (del_child n)) (ds_vars d)\<rparr>
      | None \<Rightarrow> d\<lparr>ds_vars := constructor_del_var n (ds_vars d)\<rparr>)"

definition structure_at :: "var list \<Rightarrow> path option \<Rightarrow> path option" where
  "structure_at vs p =
     (case p of None \<Rightarrow> None
      | Some q \<Rightarrow> (case node_at (root vs) q of Some (Struct i ws) \<Rightarrow> Some q | _ \<Rightarrow> None))"

text \<open>A structure that is created gets the name as it is given.\<close>

definition new_structure :: "string \<Rightarrow> var" where
  "new_structure n = Struct \<lparr>v_name = n, v_read = False, v_send = False, v_insel = False, v_synth = False\<rparr> []"

definition set_container_name :: "dds \<Rightarrow> string \<Rightarrow> dds" where
  "set_container_name d cn =
     (let d0 = d\<lparr>ds_container := None\<rparr>;
          d1 = (if cn = '''' then d0
            else case structure_at (ds_vars d0) (fst (dds_var d0 cn)) of
                Some p \<Rightarrow> d0\<lparr>ds_container := Some p\<rparr>
              | None \<Rightarrow>
                  let d2 = d0\<lparr>ds_vars := ds_vars d0 @ [new_structure cn]\<rparr>
                  in d2\<lparr>ds_container := structure_at (ds_vars d2) (fst (dds_var d2 cn))\<rparr>)
      in d1\<lparr>ds_container_name := cn\<rparr>)"

section \<open>Projections\<close>

text \<open>
  \<open>mark\<close>: the virtual \<open>set_send_p\<close> on the variable, then \<open>BaseType::set_send_p\<close> on every
  pointer of the stack, from its top.
\<close>

definition mark_stack :: "bool \<Rightarrow> path list \<Rightarrow> var \<Rightarrow> var" where
  "mark_stack s st v = foldl (\<lambda>w q. update_at q (base_set_send_p s) w) v (rev st)"

definition mark :: "dds \<Rightarrow> string \<Rightarrow> bool \<Rightarrow> bool \<times> dds" where
  "mark d n state =
     (case dds_var d n of
        (None, st) \<Rightarrow> (False, d)
      | (Some p, st) \<Rightarrow>
          (True, d\<lparr>ds_vars := with_root (\<lambda>r. mark_stack state st (update_at p (set_send_p state) r)) (ds_vars d)\<rparr>))"

definition mark_all :: "dds \<Rightarrow> bool \<Rightarrow> dds" where
  "mark_all d state = d\<lparr>ds_vars := map (set_send_p state) (ds_vars d)\<rparr>"

definition get_request_size :: "nat \<Rightarrow> dds \<Rightarrow> bool \<Rightarrow> u32 res" where
  "get_request_size ss d constrained =
     add_widths 0 (map (\<lambda>v. if constrained \<and> \<not> send_p v then Inr 0 else width ss constrained v) (ds_vars d))"

section \<open>Checks, versions and printing\<close>

definition tag_nested_sequences :: "dds \<Rightarrow> dds res" where
  "tag_nested_sequences d =
     bindE (map_res (\<lambda>v. if vtype v = dods_sequence_c \<or> vtype v = dods_structure_c then set_leaf_sequence 1 v else Inr v)
              (ds_vars d))
       (\<lambda>vs. Inr (d\<lparr>ds_vars := vs\<rparr>))"

definition dds_check_semantics :: "dds \<Rightarrow> bool \<Rightarrow> bool" where
  "dds_check_semantics d all =
     (ds_name d \<noteq> '''' \<and> unique_names (map (\<lambda>v. name_of v) (ds_vars d)) (ds_name d) ''Dataset'' = None
      \<and> (all \<longrightarrow> list_all (\<lambda>v. check_semantics True v = None) (ds_vars d)))"

definition set_dap_major :: "dds \<Rightarrow> int \<Rightarrow> dds" where
  "set_dap_major d p =
     (let d' = d\<lparr>ds_major := p\<rparr> in
      if ds_minor d' \<ge> 0 then d'\<lparr>ds_version := print_int (ds_major d') @ ''.'' @ print_int (ds_minor d')\<rparr> else d')"

definition set_dap_minor :: "dds \<Rightarrow> int \<Rightarrow> dds" where
  "set_dap_minor d p =
     (let d' = d\<lparr>ds_minor := p\<rparr> in
      if ds_major d' \<ge> 0 then d'\<lparr>ds_version := print_int (ds_major d') @ ''.'' @ print_int (ds_minor d')\<rparr> else d')"

definition dds_print_with :: "bool \<Rightarrow> dds \<Rightarrow> string res" where
  "dds_print_with constrained d =
     bindE (map_res (print_decl indent4 True False constrained) (ds_vars d))
       (\<lambda>ds. Inr (''Dataset {'' @ [newline] @ concat ds @ ''} '' @ id2www (ds_name d) id_allowable @ '';'' @ [newline]))"

definition dds_print :: "dds \<Rightarrow> string res" where
  "dds_print d = dds_print_with False d"

definition dds_print_constrained :: "dds \<Rightarrow> string res" where
  "dds_print_constrained d = dds_print_with True d"


section \<open>What marking changes\<close>

lemma info_update_base:
  assumes "\<And>w. children (f w) = children w"
  shows "map_option info (node_at (update_at q f v) r)
    = (if r = q then map_option (\<lambda>w. info (f w)) (node_at v r) else map_option info (node_at v r))"
proof (induction q arbitrary: v r)
  case Nil
  show ?case by (cases r) (auto simp: assms)
next
  case (Cons k q)
  show ?case
  proof (cases r)
    case (Cons j p)
    show ?thesis
    proof (cases "k < length (children v)")
      case True
      then show ?thesis using Cons Cons.IH [of "children v ! k" p] by (auto simp: nth_list_update)
    next
      case False
      then show ?thesis using Cons by (auto simp: with_child_out)
    qed
  qed simp
qed

lemma children_set_send_p: "children (set_send_p s v) = map (set_send_p s) (children v)"
  by (cases v) (auto simp: base_set_send_p_def part_members)

lemma send_p_set_send_p [simp]: "send_p (set_send_p s v) = s"
  by (cases v) (auto simp: base_set_send_p_def part_members)

lemma node_at_set_send_p: "node_at (set_send_p s v) r = map_option (set_send_p s) (node_at v r)"
  by (induction r arbitrary: v) (auto simp: children_set_send_p)

definition sends :: "bool \<Rightarrow> var \<Rightarrow> path \<Rightarrow> bool" where
  "sends s v p = (map_option (\<lambda>w. send_p w) (node_at v p) = Some s)"

lemma sends_info: "sends s v p \<longleftrightarrow> map_option v_send (map_option info (node_at v p)) = Some s"
  by (simp add: sends_def option.map_comp comp_def)

lemma sends_base_update:
  "sends s (update_at q (base_set_send_p s) v) p \<longleftrightarrow> sends s v p \<or> p = q \<and> node_at v q \<noteq> None"
proof -
  have "children (base_set_send_p s w) = children w" for w by (simp add: base_set_send_p_def part_members)
  note i = info_update_base [OF this, of q v p]
  show ?thesis
    unfolding sends_info i by (cases "node_at v p") (auto simp: base_set_send_p_def part_members)
qed

lemma node_at_base_update:
  "node_at (update_at q (base_set_send_p s) v) p \<noteq> None \<longleftrightarrow> node_at v p \<noteq> None"
proof -
  have "children (base_set_send_p s w) = children w" for w by (simp add: base_set_send_p_def part_members)
  from info_update_base [OF this, of q v p]
  have "map_option info (node_at (update_at q (base_set_send_p s) v) p) \<noteq> None \<longleftrightarrow> node_at v p \<noteq> None"
    by (simp split: if_splits)
  then show ?thesis by simp
qed

lemma sends_mark_stack:
  "sends s (mark_stack s st v) p \<longleftrightarrow> sends s v p \<or> p \<in> set st \<and> node_at v p \<noteq> None"
proof -
  have "sends s (foldl (\<lambda>w q. update_at q (base_set_send_p s) w) v qs) p
      \<longleftrightarrow> sends s v p \<or> p \<in> set qs \<and> node_at v p \<noteq> None" for qs
    by (induction qs arbitrary: v) (auto simp: sends_base_update node_at_base_update [unfolded not_None_eq])
  then show ?thesis by (simp add: mark_stack_def)
qed

lemma sends_set_subtree:
  assumes "node_at v p = Some w"
  shows "node_at w r \<noteq> None \<Longrightarrow> sends s (update_at p (set_send_p s) v) (p @ r)"
  using node_at_update_below [OF assms, of "set_send_p s" r]
  by (auto simp: sends_def node_at_set_send_p)

lemma node_at_ancestor: "node_at v (q @ r) \<noteq> None \<Longrightarrow> node_at v q \<noteq> None"
  by (simp add: node_at_append split: option.splits)

lemma root_with_root: "root (with_root f vs) = (case f (root vs) of v \<Rightarrow> root (children v))"
  by (simp add: with_root_def)

lemma node_at_root_children: "p \<noteq> [] \<Longrightarrow> node_at (root (children v)) p = node_at v p"
  by (cases p) (auto simp: root_def)

section \<open>What the dataset's searches return\<close>

text \<open>As \<open>good_found\<close>, but the root is not pushed.\<close>

definition dds_covers :: "var list \<Rightarrow> path \<Rightarrow> path list \<Rightarrow> bool" where
  "dds_covers vs p st = (\<forall>q r. p = q @ r \<and> r \<noteq> [] \<and> q \<noteq> [] \<longrightarrow>
     q \<in> set st \<or> (\<exists>w. node_at (root vs) q = Some w \<and> simple_array w))"

definition dds_good :: "var list \<Rightarrow> found \<Rightarrow> bool" where
  "dds_good vs r = (\<forall>p. fst r = Some p \<longrightarrow> p \<noteq> [] \<and> node_at (root vs) p \<noteq> None \<and> dds_covers vs p (snd r))"

lemma dds_good_none [simp]: "fst r = None \<Longrightarrow> dds_good vs r"
  by (simp add: dds_good_def)

lemma dds_good_top: "k < length vs \<Longrightarrow> dds_good vs (Some [k], st)"
  by (auto simp: dds_good_def dds_covers_def root_def Cons_eq_append_conv)

lemma dds_good_more: "dds_good vs r \<Longrightarrow> set (snd r) \<subseteq> set st \<Longrightarrow> dds_good vs (fst r, st)"
  by (auto simp: dds_good_def dds_covers_def)

lemma dds_good_below:
  assumes "node_at (root vs) p = Some w" and "p \<noteq> []" and "dds_covers vs p st" and "good_found w r"
    and "set st \<subseteq> set st'" and "set (map ((@) p) (snd r)) \<subseteq> set st'"
  shows "dds_good vs (map_option ((@) p) (fst r), st')"
proof (cases "fst r")
  case (Some p')
  with assms(4) have g: "node_at w p' \<noteq> None" "covers w p' (snd r)"
    by (cases r; auto simp: good_found_def)+
  have "dds_covers vs (p @ p') st'"
    unfolding dds_covers_def
  proof (intro allI impI)
    fix q r' assume q: "p @ p' = q @ r' \<and> r' \<noteq> [] \<and> q \<noteq> []"
    then obtain us where "p @ us = q \<and> p' = us @ r' \<or> p = q @ us \<and> us @ p' = r'"
      unfolding append_eq_append_conv2 by blast
    then consider us where "p = q @ us" "us \<noteq> []" | us where "q = p @ us" "p' = us @ r'"
      by (cases "us = []") auto
    then show "q \<in> set st' \<or> (\<exists>w. node_at (root vs) q = Some w \<and> simple_array w)"
    proof cases
      case (1 us)
      then show ?thesis using assms(3,5) q by (auto simp: dds_covers_def)
    next
      case (2 us)
      then have "us \<in> set (snd r) \<or> (\<exists>x. node_at w us = Some x \<and> simple_array x)"
        using g(2) q by (auto simp: covers_def)
      then show ?thesis using 2 assms(1,6) by (auto simp: node_at_append)
    qed
  qed
  then show ?thesis using Some g assms(1,2) by (auto simp: dds_good_def node_at_append)
qed simp


lemma dds_good_child:
  assumes "k < length vs" and "good_found (vs ! k) r" and "set (map ((#) k) (snd r)) \<subseteq> set st"
  shows "dds_good vs (map_option ((#) k) (fst r), st)"
proof (cases "fst r")
  case (Some p)
  with assms(2) have g: "node_at (vs ! k) p \<noteq> None" "covers (vs ! k) p (snd r)"
    by (cases r; auto simp: good_found_def)+
  have "dds_covers vs (k # p) st"
    unfolding dds_covers_def
  proof (intro allI impI)
    fix q s assume q: "k # p = q @ s \<and> s \<noteq> [] \<and> q \<noteq> []"
    then obtain q' where q': "q = k # q'" "p = q' @ s" by (cases q) auto
    with g(2) q have "q' \<in> set (snd r) \<or> (\<exists>w. node_at (vs ! k) q' = Some w \<and> simple_array w)"
      by (auto simp: covers_def)
    then show "q \<in> set st \<or> (\<exists>w. node_at (root vs) q = Some w \<and> simple_array w)"
      using q' assms(1,3) by (auto simp: root_def)
  qed
  then show ?thesis using Some g assms(1) by (auto simp: dds_good_def root_def)
qed simp

lemma dds_good_leaf_loop:
  assumes "\<And>w. w \<in> set vs \<Longrightarrow> good_found w (search w)" and "vs = pre @ ws" and "k = length pre"
  shows "dds_good vs (leaf_loop search [] n k ws)"
  using assms(2,3)
proof (induction ws arbitrary: k pre)
  case (Cons w ws)
  have k: "k < length vs" "vs ! k = w" using Cons.prems by auto
  have IH: "dds_good vs (leaf_loop search [] n (Suc k) ws)"
    using Cons.IH [of "pre @ [w]"] Cons.prems by simp
  obtain r st where r: "search w = (r, st)" by (cases "search w")
  have g: "good_found (vs ! k) (r, st)" using assms(1) [of w] k r by (metis nth_mem)
  show ?case
  proof (cases "name_of w = n")
    case False
    show ?thesis
    proof (cases "is_constructor_type (vtype w)")
      case True
      show ?thesis
      proof (cases r)
        case None
        have "dds_good vs (fst (leaf_loop search [] n (Suc k) ws), map ((#) k) st @ snd (leaf_loop search [] n (Suc k) ws))"
          by (rule dds_good_more [OF IH]) simp
        with None False True r show ?thesis by (simp add: below_def Let_def)
      next
        case (Some p)
        have "dds_good vs (map_option ((#) k) (fst (r, st)), map ((#) k) st)"
          by (rule dds_good_child [OF k(1) g]) simp
        then show ?thesis using False True r Some by (simp add: below_def)
      qed
    qed (use False IH in simp)
  qed (use k in \<open>auto intro: dds_good_top\<close>)
qed simp

lemma dds_search_good:
  "CHR ''%'' \<notin> set n \<Longrightarrow> dds_good vs (dds_search vs n)"
  "CHR ''%'' \<notin> set m \<Longrightarrow> dds_good vs2 (dds_exact_match vs2 m)"
proof (induction vs n and vs2 m rule: dds_search_dds_exact_match.induct)
  case (1 vs name)
  have n: "www2id_dflt name = name" using 1(2) by (rule www2id_no_percent)
  have e: "dds_good vs (dds_exact_match vs name)" using 1 n by simp
  have "dds_good vs (dds_leaf_match vs name)"
    unfolding dds_leaf_match_def
    by (rule dds_good_leaf_loop [where pre = "[]"]) (use find_var_good(1) [OF 1(2)] in auto)
  then have "dds_good vs (fst (dds_leaf_match vs name), snd (dds_exact_match vs name) @ snd (dds_leaf_match vs name))"
    by (rule dds_good_more) simp
  with e show ?case by (simp add: dds_search.simps [of vs name] n Let_def)
next
  case (2 vs n)
  show ?case
  proof (cases "child_named n vs")
    case (Some k)
    then show ?thesis by (auto simp: dds_exact_match.simps [of vs n] intro: dds_good_top dest: child_named_Some)
  next
    case None
    show ?thesis
    proof (cases "split_dot n")
      case (Some af)
      obtain a f where af: "split_dot n = Some (a, f)" using Some by (cases af) auto
      have plain: "CHR ''%'' \<notin> set a" "CHR ''%'' \<notin> set f" using split_dot_parts [OF af] 2(2) by auto
      have g: "dds_good vs (dds_search vs a)" using 2(1) [OF None af refl plain(1)] .
      show ?thesis
      proof (cases "fst (dds_search vs a)")
        case (Some p)
        with g have p: "p \<noteq> []" "dds_covers vs p (snd (dds_search vs a))" "node_at (root vs) p \<noteq> None"
          by (auto simp: dds_good_def)
        then obtain w where w: "node_at (root vs) p = Some w" by auto
        let ?f = "find_var True w f"
        have "good_found w ?f" by (rule find_var_good(1) [OF plain(2)])
        then have "dds_good vs (map_option ((@) p) (fst ?f), snd (dds_search vs a) @ map ((@) p) (snd ?f))"
          by (rule dds_good_below [OF w p(1,2)]) auto
        then show ?thesis by (simp add: dds_exact_match.simps [of vs n] None af Some w Let_def)
      qed (simp add: dds_exact_match.simps [of vs n] None af Let_def)
    qed (simp add: dds_exact_match.simps [of vs n] None)
  qed
qed


text \<open>After a successful \<open>mark\<close> without a container.\<close>

lemma mark_sends:
  assumes "ds_container d = None" and "CHR ''%'' \<notin> set n" and "mark d n s = (True, d')"
  obtains p where "fst (dds_var d n) = Some p" and "p \<noteq> []" and "node_at (root (ds_vars d)) p \<noteq> None"
    and "\<And>r. node_at (root (ds_vars d)) (p @ r) \<noteq> None \<Longrightarrow> sends s (root (ds_vars d')) (p @ r)"
    and "\<And>q r. p = q @ r \<Longrightarrow> r \<noteq> [] \<Longrightarrow> q \<noteq> [] \<Longrightarrow> sends s (root (ds_vars d')) q
      \<or> (\<exists>w. node_at (root (ds_vars d)) q = Some w \<and> simple_array w)"
proof -
  let ?vs = "ds_vars d"
  have v: "dds_var d n = dds_search ?vs n" using assms(1) by (simp add: dds_var_def)
  from assms(3) obtain p st where p: "dds_search ?vs n = (Some p, st)"
    and d': "ds_vars d' = with_root (\<lambda>r. mark_stack s st (update_at p (set_send_p s) r)) ?vs"
    by (auto simp: mark_def v split: prod.splits option.splits)
  have g: "p \<noteq> []" "node_at (root ?vs) p \<noteq> None" "dds_covers ?vs p st"
    using dds_search_good(1) [OF assms(2), of ?vs] p by (auto simp: dds_good_def)
  let ?u = "update_at p (set_send_p s) (root ?vs)"
  have final: "sends s (root (ds_vars d')) q \<longleftrightarrow> sends s ?u q \<or> q \<in> set st \<and> node_at ?u q \<noteq> None" if "q \<noteq> []" for q
  proof -
    have "sends s (root (ds_vars d')) q \<longleftrightarrow> sends s (mark_stack s st ?u) q"
      using that by (simp add: sends_def d' with_root_def node_at_root_children)
    then show ?thesis by (simp add: sends_mark_stack)
  qed
  obtain w where w: "node_at (root ?vs) p = Some w" using g(2) by auto
  show thesis
  proof (rule that)
    show "fst (dds_var d n) = Some p" by (simp add: v p)
    show "p \<noteq> []" "node_at (root ?vs) p \<noteq> None" by (fact g)+
  next
    fix r assume "node_at (root ?vs) (p @ r) \<noteq> None"
    then have "node_at w r \<noteq> None" using w by (simp add: node_at_append)
    from sends_set_subtree [OF w this] show "sends s (root (ds_vars d')) (p @ r)" using g(1) final by simp
  next
    fix q r assume q: "p = q @ r" "r \<noteq> []" "q \<noteq> []"
    with g(3) have c: "q \<in> set st \<or> (\<exists>w. node_at (root ?vs) q = Some w \<and> simple_array w)"
      by (auto simp: dds_covers_def)
    have "map_option info (node_at ?u q) = map_option info (node_at (root ?vs) q)"
      by (rule node_at_update_not_below) (use q in auto)
    moreover have "node_at (root ?vs) q \<noteq> None" using g(2) q(1) node_at_ancestor by simp
    ultimately have "node_at ?u q \<noteq> None" by auto
    with c q(3) final show "sends s (root (ds_vars d')) q \<or> (\<exists>w. node_at (root ?vs) q = Some w \<and> simple_array w)"
      by auto
  qed
qed

text \<open>The projection a request makes: the variable with all its parts, and what it is in.\<close>

definition projected :: "bool \<Rightarrow> dds \<Rightarrow> dds \<Rightarrow> path \<Rightarrow> bool" where
  "projected s d d' p \<longleftrightarrow>
     (\<forall>r. node_at (root (ds_vars d)) (p @ r) \<noteq> None \<longrightarrow> sends s (root (ds_vars d')) (p @ r))
     \<and> (\<forall>q r. p = q @ r \<longrightarrow> r \<noteq> [] \<longrightarrow> q \<noteq> [] \<longrightarrow> sends s (root (ds_vars d')) q
          \<or> (\<exists>w. node_at (root (ds_vars d)) q = Some w \<and> simple_array w))"

section \<open>Finding a variable by its own name\<close>

text \<open>
  The variables a search by a leaf name can see: it enters constructors but not arrays, and
  looks only at the members of a grid.
\<close>

fun visible :: "var \<Rightarrow> path \<Rightarrow> bool" where
  "visible v [] = False"
| "visible v [k] = (k < length (children v))"
| "visible v (k # j # p) =
     (k < length (children v) \<and> vtype v \<noteq> dods_grid_c \<and> is_constructor_type (vtype (children v ! k))
      \<and> visible (children v ! k) (j # p))"

lemma leaf_loop_Some:
  assumes "fst (leaf_loop search this n k vs) = Some p"
  shows "\<exists>j p'. p = (k + j) # p' \<and> j < length vs \<and> (p' = [] \<and> name_of (vs ! j) = n
    \<or> is_constructor_type (vtype (vs ! j)) \<and> fst (search (vs ! j)) = Some p')"
  using assms
proof (induction vs arbitrary: k)
  case (Cons v vs)
  show ?case
  proof (cases "name_of v = n")
    case True
    with Cons.prems show ?thesis by (auto intro!: exI [of _ 0])
  next
    case False
    have rest: ?thesis if "fst (leaf_loop search this n (Suc k) vs) = Some p"
    proof -
      from Cons.IH [OF that] obtain j p' where "p = (Suc k + j) # p'" "j < length vs"
        "p' = [] \<and> name_of (vs ! j) = n \<or> is_constructor_type (vtype (vs ! j)) \<and> fst (search (vs ! j)) = Some p'"
        by blast
      then show ?thesis by (intro exI [of _ "Suc j"] exI [of _ p']) auto
    qed
    obtain r st where r: "search v = (r, st)" by (cases "search v")
    show ?thesis
    proof (cases "is_constructor_type (vtype v) \<and> r \<noteq> None")
      case True
      then show ?thesis using Cons.prems False r by (auto simp: below_def intro!: exI [of _ 0])
    next
      case no: False
      then show ?thesis using Cons.prems False r
        by (intro rest) (auto simp: below_def Let_def split: if_splits)
    qed
  qed
qed simp

lemma leaf_loop_None:
  "fst (leaf_loop search this n k vs) = None \<Longrightarrow> w \<in> set vs \<Longrightarrow>
   name_of w \<noteq> n \<and> (is_constructor_type (vtype w) \<longrightarrow> fst (search w) = None)"
  by (induction vs arbitrary: k)
     (auto simp: below_def Let_def split: if_splits prod.splits option.splits)


definition named_at :: "var \<Rightarrow> string \<Rightarrow> path \<Rightarrow> bool" where
  "named_at v n p = (visible v p \<and> map_option (\<lambda>w. name_of w) (node_at v p) = Some n)"

definition decides :: "(var \<Rightarrow> found) \<Rightarrow> string \<Rightarrow> var \<Rightarrow> bool" where
  "decides search n v \<longleftrightarrow> (case fst (search v) of Some p \<Rightarrow> named_at v n p | None \<Rightarrow> \<not> (\<exists>p. named_at v n p))"

lemma named_at_Cons:
  "vtype v \<noteq> dods_grid_c \<Longrightarrow> named_at v n (k # p) \<longleftrightarrow> k < length (children v) \<and>
     (p = [] \<and> name_of (children v ! k) = n
      \<or> is_constructor_type (vtype (children v ! k)) \<and> named_at (children v ! k) n p)"
  by (cases p) (auto simp: named_at_def)

lemma leaf_loop_decides:
  assumes "\<And>w. w \<in> set (children v) \<Longrightarrow> is_constructor_type (vtype w) \<Longrightarrow> decides search n w"
    and "vtype v \<noteq> dods_grid_c"
  shows "decides (\<lambda>v. leaf_loop search this n 0 (children v)) n v"
proof (cases "fst (leaf_loop search this n 0 (children v))")
  case None
  have "\<not> named_at v n p" for p
  proof
    assume p: "named_at v n p"
    then obtain k q where "p = k # q" by (cases p) (auto simp: named_at_def)
    with p assms(2) have k: "k < length (children v)"
      "q = [] \<and> name_of (children v ! k) = n
       \<or> is_constructor_type (vtype (children v ! k)) \<and> named_at (children v ! k) n q"
      by (simp_all add: named_at_Cons)
    with leaf_loop_None [OF None, of "children v ! k"] assms(1) [of "children v ! k"] show False
      by (auto simp: decides_def)
  qed
  then show ?thesis by (simp add: decides_def None)
next
  case (Some p)
  from leaf_loop_Some [OF this] obtain j q where "p = j # q" "j < length (children v)"
    "q = [] \<and> name_of (children v ! j) = n
     \<or> is_constructor_type (vtype (children v ! j)) \<and> fst (search (children v ! j)) = Some q"
    by auto
  moreover have "named_at (children v ! j) n q"
    if "is_constructor_type (vtype (children v ! j))" "fst (search (children v ! j)) = Some q"
    using assms(1) [of "children v ! j"] that calculation(2) by (simp add: decides_def)
  ultimately have "named_at v n p" using assms(2) by (auto simp: named_at_Cons)
  then show ?thesis by (simp add: decides_def Some)
qed

lemma find_var_decides:
  assumes "CHR ''%'' \<notin> set n"
  shows "is_constructor_type (vtype v) \<Longrightarrow> decides (\<lambda>w. find_var False w n) n v"
proof (induction v)
  case (Scalar t i)
  have "\<not> named_at (Scalar t i) n p" for p
    by (cases "(Scalar t i, p)" rule: visible.cases) (auto simp: named_at_def)
  then show ?case by (simp add: decides_def find_var.simps [of False "Scalar t i"] Let_def)
next
  case (Arr i a t)
  then show ?case by (simp add: is_constructor_type_def)
next
  case (Struct i vs)
  then show ?case
    using leaf_loop_decides [of "Struct i vs" "\<lambda>w. find_var False w n" n "[[]]"]
    by (simp add: decides_def find_var.simps [of False "Struct i vs"] Let_def www2id_no_percent [OF assms])
next
  case (Seq i q vs)
  then show ?case
    using leaf_loop_decides [of "Seq i q vs" "\<lambda>w. find_var False w n" n "[[]]"]
    by (simp add: decides_def find_var.simps [of False "Seq i q vs"] Let_def www2id_no_percent [OF assms])
next
  case (Grid i a ms)
  have n: "named_at (Grid i a ms) n p \<longleftrightarrow> (\<exists>k. p = [k] \<and> k < length (a # ms) \<and> name_of ((a # ms) ! k) = n)" for p
    by (cases "(Grid i a ms, p)" rule: visible.cases) (auto simp: named_at_def)
  show ?case
  proof (cases "child_named n (a # ms)")
    case None
    then have "\<forall>k<length (a # ms). name_of ((a # ms) ! k) \<noteq> n"
      unfolding child_named_None by (metis nth_mem)
    then show ?thesis using None n
      by (simp add: decides_def find_var.simps [of False "Grid i a ms"] grid_var_def Let_def www2id_no_percent [OF assms] del: length_Cons)
  next
    case (Some k)
    with child_named_Some [OF Some] n show ?thesis
      by (simp add: decides_def find_var.simps [of False "Grid i a ms"] grid_var_def Let_def www2id_no_percent [OF assms] del: length_Cons)
  qed
qed

lemma dds_search_decides:
  assumes "CHR ''%'' \<notin> set n" and "CHR ''.'' \<notin> set n"
  shows "case fst (dds_search vs n) of Some p \<Rightarrow> named_at (root vs) n p | None \<Rightarrow> \<not> (\<exists>p. named_at (root vs) n p)"
proof -
  have c: "children (root vs) = vs" "vtype (root vs) \<noteq> dods_grid_c" by (simp_all add: root_def)
  have l: "decides (\<lambda>v. leaf_loop (\<lambda>w. find_var False w n) [] n 0 (children v)) n (root vs)"
    by (rule leaf_loop_decides [OF find_var_decides [OF assms(1)] c(2)])
  have no_dot: "split_dot n = None" using split_dot_parts [of n] assms(2) by (cases "split_dot n") auto
  show ?thesis
  proof (cases "child_named n vs")
    case (Some k)
    then have "named_at (root vs) n [k]" using child_named_Some [OF Some] c by (simp add: named_at_Cons)
    with Some show ?thesis
      by (simp add: dds_search.simps www2id_no_percent [OF assms(1)] dds_exact_match.simps [of vs n] Let_def)
  next
    case None
    then show ?thesis using l c(1)
      by (simp add: dds_search.simps www2id_no_percent [OF assms(1)] dds_exact_match.simps [of vs n] Let_def
          no_dot dds_leaf_match_def decides_def)
  qed
qed


section \<open>Properties\<close>

text \<open>
  C21: looking up a plain name (without a dot and a percent sign) in a dataset without a container
  finds a variable of that name whenever there is one that is not inside an array, at whatever
  depth, and otherwise finds nothing.
\<close>

theorem dds_var_finds_name:
  assumes "ds_container d = None" and "CHR ''%'' \<notin> set n" and "CHR ''.'' \<notin> set n"
  shows "case fst (dds_var d n) of
      Some p \<Rightarrow> named_at (root (ds_vars d)) n p
    | None \<Rightarrow> \<not> (\<exists>p. named_at (root (ds_vars d)) n p)"
  using dds_search_decides [OF assms(2,3)] assms(1) by (simp add: dds_var_def)

definition plain_info :: "string \<Rightarrow> vinfo" where
  "plain_info n = \<lparr>v_name = n, v_read = False, v_send = False, v_insel = False, v_synth = False\<rparr>"

definition sample_dds :: dds where
  "sample_dds = \<lparr>ds_name = ''d'',
     ds_vars = [Struct (plain_info ''s'') [Struct (plain_info ''t'') [Scalar dods_int32_c (plain_info ''x'')]],
                Arr (plain_info ''a'') ten_array (Scalar dods_int32_c (plain_info ''a''))],
     ds_container = None, ds_container_name = '''', ds_major = 2, ds_minor = 0, ds_version = ''2.0''\<rparr>"

theorem dds_var_finds_name_witness:
  "case fst (dds_var sample_dds ''x'') of
      Some p \<Rightarrow> named_at (root (ds_vars sample_dds)) ''x'' p
    | None \<Rightarrow> \<not> (\<exists>p. named_at (root (ds_vars sample_dds)) ''x'' p)"
  by (rule dds_var_finds_name) (simp_all add: sample_dds_def)

text \<open>
  C17: a projection is complete: when \<open>mark\<close> succeeds for a name (qualified or not, without
  percent signs, no container being set), the variable it found, everything in it, and every
  variable it is in carry the flag that was given, except for an array whose template the search
  returned.  This holds for the flag False too: the variables it is in are then unmarked as well,
  though the comment on \<open>DDS::mark\<close> says that they are left as they are.
\<close>

theorem mark_projects:
  assumes "ds_container d = None" and "CHR ''%'' \<notin> set n" and "mark d n s = (True, d')"
  shows "\<exists>p. fst (dds_var d n) = Some p \<and> p \<noteq> [] \<and> node_at (root (ds_vars d)) p \<noteq> None \<and> projected s d d' p"
proof -
  from mark_sends [OF assms] obtain p where p: "fst (dds_var d n) = Some p" "p \<noteq> []"
      "node_at (root (ds_vars d)) p \<noteq> None"
    and below: "\<And>r. node_at (root (ds_vars d)) (p @ r) \<noteq> None \<Longrightarrow> sends s (root (ds_vars d')) (p @ r)"
    and above: "\<And>q r. p = q @ r \<Longrightarrow> r \<noteq> [] \<Longrightarrow> q \<noteq> [] \<Longrightarrow> sends s (root (ds_vars d')) q
      \<or> (\<exists>w. node_at (root (ds_vars d)) q = Some w \<and> simple_array w)" by blast
  have "projected s d d' p" unfolding projected_def using below above by blast
  with p show ?thesis by blast
qed

theorem mark_projects_witness:
  "\<exists>p. fst (dds_var sample_dds ''s.t.x'') = Some p \<and> p \<noteq> [] \<and> node_at (root (ds_vars sample_dds)) p \<noteq> None
    \<and> projected True sample_dds (snd (mark sample_dds ''s.t.x'' True)) p"
proof (rule mark_projects)
  show "mark sample_dds ''s.t.x'' True = (True, snd (mark sample_dds ''s.t.x'' True))" by code_simp
qed (simp_all add: sample_dds_def)

text \<open>
  The exception: a field of an array of numbers is found (it is the array's template) and
  marking it succeeds, but the array itself is not sent.
\<close>

lemma mark_field_of_numbers:
  "fst (mark sample_dds ''a.nosuch'' True)"
  "map send_p (ds_vars (snd (mark sample_dds ''a.nosuch'' True))) = [False, False]"
  by code_simp+

text \<open>\<open>mark_all\<close> gives every variable of the dataset the flag.\<close>

lemma mark_all_marks:
  assumes "node_at (root (ds_vars (mark_all d s))) p = Some w" and "p \<noteq> []"
  shows "send_p w = s"
proof -
  from assms obtain k q where p: "p = k # q" by (cases p) auto
  with assms have "k < length (ds_vars d)" "node_at (set_send_p s (ds_vars d ! k)) q = Some w"
    by (auto simp: root_def mark_all_def split: if_splits)
  then show ?thesis by (auto simp: node_at_set_send_p)
qed

lemma mark_all_marks_witness:
  "send_p (the (node_at (root (ds_vars (mark_all sample_dds True))) [0, 0, 0])) = True"
proof (rule mark_all_marks)
  show "node_at (root (ds_vars (mark_all sample_dds True))) [0, 0, 0]
    = Some (the (node_at (root (ds_vars (mark_all sample_dds True))) [0, 0, 0]))"
    by (simp add: sample_dds_def mark_all_def root_def base_set_send_p_def part_members)
qed simp

end
