(* ===== verification/Byte_Memory.thy ===== *)
theory Byte_Memory
  imports Dap_Prelude
begin

text \<open>
  Integers as bytes: the object representation of a machine integer on a big-endian or a
  little-endian host, which is what \<open>reinterpret_cast<char*>\<close> and \<open>memcpy\<close> show, and
  \<open>byteswap.h\<close>.  Shared by the streams.
\<close>

section \<open>Memory representation\<close>

text \<open>The bytes of an unsigned number, least significant first, and their value.\<close>

primrec le_bytes :: "nat \<Rightarrow> nat \<Rightarrow> u8 list" where
  "le_bytes 0 v = []"
| "le_bytes (Suc n) v = of_nat v # le_bytes n (v div 256)"

primrec le_value :: "u8 list \<Rightarrow> nat" where
  "le_value [] = 0"
| "le_value (b # bs) = unat b + 256 * le_value bs"

text \<open>The object representation of an integer on a host that is big-endian or not.\<close>

definition native :: "bool \<Rightarrow> 'a::len word \<Rightarrow> u8 list" where
  "native big w = (let bs = le_bytes (LENGTH('a) div 8) (unat w) in if big then rev bs else bs)"

definition from_native :: "bool \<Rightarrow> u8 list \<Rightarrow> 'a::len word" where
  "from_native big bs = of_nat (le_value (if big then rev bs else bs))"

text \<open>\<open>bswap_16\<close>, \<open>bswap_32\<close> and \<open>bswap_64\<close> of \<open>byteswap.h\<close>.\<close>

definition bswap :: "'a::len word \<Rightarrow> 'a word" where
  "bswap w = of_nat (le_value (rev (le_bytes (LENGTH('a) div 8) (unat w))))"

lemma length_le_bytes [simp]: "length (le_bytes n v) = n"
  by (induction n arbitrary: v) simp_all

lemma le_value_le_bytes: "le_value (le_bytes n v) = v mod 256 ^ n"
  by (induction n arbitrary: v) (simp_all add: unat_of_nat mod_mult2_eq add.commute)

lemma le_value_less: "le_value bs < 256 ^ length bs"
proof (induction bs)
  case (Cons b bs)
  have "unat b < 256" using unsigned_less [of b] by simp
  with Cons show ?case by simp
qed simp

lemma le_bytes_le_value: "le_bytes (length bs) (le_value bs) = bs"
proof (induction bs)
  case (Cons b bs)
  have "unat b < 256" using unsigned_less [of b] by simp
  moreover have "256 * x = (0 :: u8)" for x
  proof -
    have "(256 :: u8) = 0" by simp
    then show ?thesis by (metis mult_zero_left)
  qed
  ultimately show ?case using Cons by simp
qed simp

lemma length_native [simp]: "length (native big (w :: 'a::len word)) = LENGTH('a) div 8"
  by (simp add: native_def Let_def)

section \<open>Values survive the byte order\<close>

lemma native_flip: "native (\<not> big) w = rev (native big w)"
  by (simp add: native_def Let_def)

lemma from_native_flip: "from_native (\<not> big) bs = from_native big (rev bs)"
  by (simp add: from_native_def)

text \<open>The types of the stream have whole bytes.\<close>

definition whole_bytes :: "'a::len itself \<Rightarrow> bool" where
  "whole_bytes _ \<longleftrightarrow> LENGTH('a) = 8 * (LENGTH('a) div 8)"

lemma power_256: "(256 :: nat) ^ n = 2 ^ (8 * n)"
  by (simp add: power_mult)

lemma from_native_native:
  "whole_bytes TYPE('a) \<Longrightarrow> from_native big (native big w) = (w :: 'a::len word)"
  using unsigned_less [of w]
  by (cases big) (simp_all add: from_native_def native_def Let_def le_value_le_bytes power_256 whole_bytes_def)

lemma native_from_native:
  assumes "whole_bytes TYPE('a)" "length bs = LENGTH('a) div 8"
  shows "native big (from_native big bs :: 'a::len word) = bs"
proof -
  have "unat (from_native big bs :: 'a word) = le_value (if big then rev bs else bs)"
    using le_value_less [of "if big then rev bs else bs"] assms
    by (simp add: from_native_def unat_of_nat whole_bytes_def power_256 split: if_splits)
  then show ?thesis
    using le_bytes_le_value [of "if big then rev bs else bs"] assms(2)
    by (cases big) (simp_all add: native_def Let_def)
qed

lemma bswap_native: "bswap (w :: 'a::len word) = from_native big (rev (native big w))"
  by (cases big) (simp_all add: bswap_def from_native_def native_def Let_def)

lemma bswap_from_native:
  assumes "whole_bytes TYPE('a)" "length bs = LENGTH('a) div 8"
  shows "bswap (from_native big bs :: 'a::len word) = from_native (\<not> big) bs"
  using native_from_native [OF assms] by (simp add: bswap_native [of _ big] from_native_flip)

lemma bswap_bswap: "whole_bytes TYPE('a) \<Longrightarrow> bswap (bswap w) = (w :: 'a::len word)"
proof -
  assume w: "whole_bytes TYPE('a)"
  have "bswap w = from_native True (native False w)"
    unfolding bswap_native [of w False]
    by (rule from_native_flip [of False, simplified, symmetric])
  then show ?thesis using bswap_from_native [of "native False w" True, OF w] w
    by (simp add: from_native_native)
qed

text \<open>The memory of an array of integers on a host.\<close>

definition memory :: "bool \<Rightarrow> 'a::len word list \<Rightarrow> u8 list" where
  "memory big ws = concat (map (native big) ws)"

lemma length_memory: "length (memory big (ws :: 'a::len word list)) = length ws * (LENGTH('a) div 8)"
  by (induction ws) (simp_all add: memory_def)

lemma le_bytes_add: "le_bytes (m + n) v = le_bytes m v @ le_bytes n (v div 256 ^ m)"
  by (induction m arbitrary: v) (simp_all add: div_mult2_eq)

lemma le_value_append: "le_value (as @ bs) = le_value as + 256 ^ length as * le_value bs"
  by (induction as) (simp_all add: algebra_simps)

end
