(* ===== verification/Dap4_Stream.thy ===== *)
theory Dap4_Stream
  imports Dap_Util Byte_Memory
begin

text \<open>
  The DAP4 data stream: \<open>DAP4StreamMarshaller.cc\<close>, which writes values in the byte order of
  the sender and digests them on the way, and \<open>DAP4StreamUnMarshaller.cc\<close>, which reads them
  and swaps the bytes when the sender's order is not its own.  A stream is a list of bytes; a
  member function is an action on the record of its object.  OpenSSL's digest functions and
  the XDR routines used when the host's reals are not IEEE 754 are parameters.
\<close>

section \<open>External code\<close>

text \<open>
  OpenSSL's digest: whether \<open>EVP_DigestInit_ex\<close> succeeds, whether \<open>EVP_DigestUpdate\<close> does
  after what was digested already, and the digest \<open>EVP_DigestFinal_ex\<close> computes.
\<close>

record evp =
  digest_init :: bool
  digest_update :: "u8 list \<Rightarrow> u8 list \<Rightarrow> bool"
  digest_final :: "u8 list \<Rightarrow> u8 list option"

text \<open>
  The platform: its byte order (\<open>WORDS_BIGENDIAN\<close>), whether its reals are IEEE 754
  (\<open>numeric_limits::is_iec559\<close>), and the XDR routines that encode and decode them when they
  are not.  \<open>xdr_array_enc t n bs\<close> is what \<open>xdr_array\<close> writes for the \<open>n\<close> elements of type \<open>t\<close>
  in the memory \<open>bs\<close> given a sink of the same size, if it fits.
\<close>

record platform =
  big_endian :: bool
  iec559_float :: bool
  iec559_double :: bool
  xdr_float_enc :: "u32 \<Rightarrow> u8 list option"
  xdr_double_enc :: "u64 \<Rightarrow> u8 list option"
  xdr_float_dec :: "u8 list \<Rightarrow> u32 option"
  xdr_double_dec :: "u8 list \<Rightarrow> u64 option"
  xdr_array_enc :: "dap_type \<Rightarrow> nat \<Rightarrow> u8 list \<Rightarrow> u8 list option"
  xdr_array_dec :: "dap_type \<Rightarrow> nat \<Rightarrow> u8 list \<Rightarrow> u8 list option"

section \<open>The marshaller\<close>

record d4_out =
  d_out :: "u8 list"
  d_ctx :: "u8 list"
  d_write_data :: bool
  d_checksum_ctx_valid :: bool
  d_md :: "u8 list"

definition new_marshaller :: "bool \<Rightarrow> u8 list \<Rightarrow> u8 list \<Rightarrow> d4_out" where
  "new_marshaller write_data out md =
     \<lparr>d_out = out, d_ctx = [], d_write_data = write_data, d_checksum_ctx_valid = False, d_md = md\<rparr>"

definition get_endian :: "platform \<Rightarrow> string" where
  "get_endian h = (if big_endian h then ''big'' else ''little'')"

definition c_md5_length :: nat where "c_md5_length = 16"

definition reset_checksum :: "evp \<Rightarrow> (d4_out, unit) action" where
  "reset_checksum e m =
     (if \<not> digest_init e then (Inl (Error unknown_error ''Failed to initialize checksum object.''), m)
      else (Inr (), m\<lparr>d_ctx := [], d_checksum_ctx_valid := True\<rparr>))"

definition checksum_error :: exn where
  "checksum_error = Error unknown_error ''Error computing the checksum (checksum computation).''"

text \<open>
  \<open>EVP_DigestFinal_ex\<close> writes the digest into \<open>d_md\<close> even when its length is not the
  expected one.
\<close>

definition m_compute_checksum :: "evp \<Rightarrow> (d4_out, unit) action" where
  "m_compute_checksum e m =
     (if d_checksum_ctx_valid m
      then (let m' = m\<lparr>d_checksum_ctx_valid := False\<rparr> in
            case digest_final e (d_ctx m) of
              None \<Rightarrow> (Inl checksum_error, m')
            | Some md \<Rightarrow>
                if length md \<noteq> c_md5_length
                then (Inl checksum_error, m'\<lparr>d_md := md @ drop (length md) (d_md m)\<rparr>)
                else (Inr (), m'\<lparr>d_md := md\<rparr>))
      else (Inr (), m))"

definition md_string :: "u8 list \<Rightarrow> string" where
  "md_string md = concat (map (\<lambda>b. ostream_padded 16 2 (unat b)) (take c_md5_length md))"

definition get_checksum :: "evp \<Rightarrow> (d4_out, string) action" where
  "get_checksum e m =
     (if d_checksum_ctx_valid m
      then bindS (m_compute_checksum e) (\<lambda>_ m'. (Inr (md_string (d_md m')), m')) m
      else (Inr (md_string (d_md m)), m))"

definition put_raw :: "u8 list \<Rightarrow> (d4_out, unit) action" where
  "put_raw bs m = (Inr (), m\<lparr>d_out := d_out m @ bs\<rparr>)"

definition put_checksum :: "evp \<Rightarrow> (d4_out, unit) action" where
  "put_checksum e m =
     (if d_checksum_ctx_valid m
      then bindS (m_compute_checksum e) (\<lambda>_ m'. put_raw (take c_md5_length (d_md m')) m') m
      else put_raw (take c_md5_length (d_md m)) m)"

definition checksum_update :: "evp \<Rightarrow> u8 list \<Rightarrow> (d4_out, unit) action" where
  "checksum_update e data m =
     (if \<not> d_checksum_ctx_valid m then (Inl (InternalErr ''Invalid checksum context (checksum update).''), m)
      else if \<not> digest_update e (d_ctx m) data
      then (Inl (Error unknown_error ''Error computing the checksum (checksum update).''),
            m\<lparr>d_checksum_ctx_valid := False\<rparr>)
      else (Inr (), m\<lparr>d_ctx := d_ctx m @ data\<rparr>))"

definition when_writing :: "(d4_out, unit) action \<Rightarrow> (d4_out, unit) action" where
  "when_writing act m = (if d_write_data m then act m else (Inr (), m))"

definition put_byte :: "evp \<Rightarrow> platform \<Rightarrow> u8 \<Rightarrow> (d4_out, unit) action" where
  "put_byte e h val = bindS (checksum_update e (native (big_endian h) val))
     (\<lambda>_. when_writing (put_raw (native (big_endian h) val)))"

definition put_int8 :: "evp \<Rightarrow> platform \<Rightarrow> u8 \<Rightarrow> (d4_out, unit) action" where
  "put_int8 e h val = bindS (checksum_update e (native (big_endian h) val))
     (\<lambda>_. when_writing (put_raw (native (big_endian h) val)))"

definition put_int16 :: "evp \<Rightarrow> platform \<Rightarrow> u16 \<Rightarrow> (d4_out, unit) action" where
  "put_int16 e h val = bindS (checksum_update e (native (big_endian h) val))
     (\<lambda>_. when_writing (put_raw (native (big_endian h) val)))"

definition put_int32 :: "evp \<Rightarrow> platform \<Rightarrow> u32 \<Rightarrow> (d4_out, unit) action" where
  "put_int32 e h val = bindS (checksum_update e (native (big_endian h) val))
     (\<lambda>_. when_writing (put_raw (native (big_endian h) val)))"

definition put_int64 :: "evp \<Rightarrow> platform \<Rightarrow> u64 \<Rightarrow> (d4_out, unit) action" where
  "put_int64 e h val = bindS (checksum_update e (native (big_endian h) val))
     (\<lambda>_. when_writing (put_raw (native (big_endian h) val)))"

text \<open>
  A real is its bit pattern.  When it is not IEEE 754, its XDR encoding is written instead;
  on a little-endian host the code swaps the bytes of the variable \<open>d_ieee754_buf\<close>, the
  pointer to the encoding, and then writes through it.
\<close>

definition put_float32 :: "evp \<Rightarrow> platform \<Rightarrow> u32 \<Rightarrow> (d4_out, unit) action" where
  "put_float32 e h val = bindS (checksum_update e (native (big_endian h) val))
     (\<lambda>_. when_writing
        (if iec559_float h then put_raw (native (big_endian h) val)
         else case xdr_float_enc h val of
                None \<Rightarrow> throwS (InternalErr ''Error serializing a Float32 variable'')
              | Some bs \<Rightarrow>
                  if length bs \<noteq> 4 then throwS (InternalErr ''Error serializing a Float32 variable'')
                  else if \<not> big_endian h then throwS Undefined
                  else put_raw bs))"

definition put_float64 :: "evp \<Rightarrow> platform \<Rightarrow> u64 \<Rightarrow> (d4_out, unit) action" where
  "put_float64 e h val = bindS (checksum_update e (native (big_endian h) val))
     (\<lambda>_. when_writing
        (if iec559_double h then put_raw (native (big_endian h) val)
         else case xdr_double_enc h val of
                None \<Rightarrow> throwS (InternalErr ''Error serializing a Float64 variable'')
              | Some bs \<Rightarrow>
                  if length bs \<noteq> 8 then throwS (InternalErr ''Error serializing a Float64 variable'')
                  else if \<not> big_endian h then throwS Undefined
                  else put_raw bs))"

definition put_uint16 :: "evp \<Rightarrow> platform \<Rightarrow> u16 \<Rightarrow> (d4_out, unit) action" where
  "put_uint16 e h val = bindS (checksum_update e (native (big_endian h) val))
     (\<lambda>_. when_writing (put_raw (native (big_endian h) val)))"

definition put_uint32 :: "evp \<Rightarrow> platform \<Rightarrow> u32 \<Rightarrow> (d4_out, unit) action" where
  "put_uint32 e h val = bindS (checksum_update e (native (big_endian h) val))
     (\<lambda>_. when_writing (put_raw (native (big_endian h) val)))"

definition put_uint64 :: "evp \<Rightarrow> platform \<Rightarrow> u64 \<Rightarrow> (d4_out, unit) action" where
  "put_uint64 e h val = bindS (checksum_update e (native (big_endian h) val))
     (\<lambda>_. when_writing (put_raw (native (big_endian h) val)))"

section \<open>Length prefixes and vectors\<close>

definition part0 :: "u64 \<Rightarrow> u32" where "part0 value = ucast value"
definition part1 :: "u64 \<Rightarrow> u32" where "part1 value = ucast (drop_bit 28 value)"
definition part2 :: "u64 \<Rightarrow> u32" where "part2 value = ucast (drop_bit 56 value)"

definition varint_size :: "u64 \<Rightarrow> nat" where
  "varint_size value =
     (if part2 value = 0
      then (if part1 value = 0
            then (if part0 value < push_bit 14 1
                  then (if part0 value < push_bit 7 1 then 1 else 2)
                  else (if part0 value < push_bit 21 1 then 3 else 4))
            else (if part1 value < push_bit 14 1
                  then (if part1 value < push_bit 7 1 then 5 else 6)
                  else (if part1 value < push_bit 21 1 then 7 else 8)))
      else (if part2 value < push_bit 7 1 then 9 else 10))"

definition varint_byte :: "u64 \<Rightarrow> nat \<Rightarrow> u8" where
  "varint_byte value i =
     (if i < 4 then ucast (or (drop_bit (7 * i) (part0 value)) 0x80)
      else if i < 8 then ucast (or (drop_bit (7 * (i - 4)) (part1 value)) 0x80)
      else ucast (or (drop_bit (7 * (i - 8)) (part2 value)) 0x80))"

text \<open>
  \<open>WriteVarint64ToArrayInline\<close>: the jumps to \<open>size10\<close> .. \<open>size1\<close> fill the bytes from the last
  one down; writing past the end of the target is undefined.  The result is the target and
  the number of bytes used in it.
\<close>

definition write_varint :: "u64 \<Rightarrow> u8 list \<Rightarrow> (u8 list \<times> nat) res" where
  "write_varint value target =
     (let n = varint_size value in
      if length target < n then Inl Undefined
      else Inr (map (\<lambda>i. if i = n - 1 then and (varint_byte value i) 0x7F else varint_byte value i) [0..<n]
                @ drop n target, n))"

definition put_length_prefix :: "u64 \<Rightarrow> (d4_out, unit) action" where
  "put_length_prefix val = when_writing (\<lambda>m.
     case write_varint val (replicate 9 0) of
       Inl ex \<Rightarrow> (Inl ex, m)
     | Inr (target, n) \<Rightarrow> put_raw (take n target) m)"

text \<open>\<open>put_str\<close> sees the bytes of the string, \<open>put_opaque\<close> the \<open>len\<close> bytes at \<open>val\<close>.\<close>

definition put_str :: "evp \<Rightarrow> u8 list \<Rightarrow> (d4_out, unit) action" where
  "put_str e val = bindS (checksum_update e val)
     (\<lambda>_. when_writing (bindS (put_length_prefix (of_nat (length val))) (\<lambda>_. put_raw val)))"

definition put_url :: "evp \<Rightarrow> u8 list \<Rightarrow> (d4_out, unit) action" where
  "put_url e val = put_str e val"

definition put_opaque :: "evp \<Rightarrow> u8 list \<Rightarrow> (d4_out, unit) action" where
  "put_opaque e val = bindS (checksum_update e val)
     (\<lambda>_. when_writing (bindS (put_length_prefix (of_nat (length val))) (\<lambda>_. put_raw val)))"

definition put_vector :: "evp \<Rightarrow> u8 list \<Rightarrow> (d4_out, unit) action" where
  "put_vector e val = bindS (checksum_update e val) (\<lambda>_. put_raw val)"

definition put_varying_vector :: "evp \<Rightarrow> u8 list \<Rightarrow> (d4_out, unit) action" where
  "put_varying_vector e val = put_opaque e val"

text \<open>Swapping the bytes of each element of \<open>n\<close> bytes.\<close>

fun swap_elements :: "nat \<Rightarrow> nat \<Rightarrow> u8 list \<Rightarrow> u8 list" where
  "swap_elements 0 n bs = bs"
| "swap_elements (Suc num) n bs = rev (take n bs) @ swap_elements num n (drop n bs)"

definition m_serialize_reals :: "platform \<Rightarrow> u8 list \<Rightarrow> nat \<Rightarrow> nat \<Rightarrow> dap_type \<Rightarrow> (d4_out, unit) action" where
  "m_serialize_reals h val num width t =
     (case xdr_array_enc h t num val of
        None \<Rightarrow> throwS (InternalErr ''Error serializing a Float64 array'')
      | Some bs \<Rightarrow>
          if length bs \<noteq> num * width then throwS (InternalErr ''Error serializing a Float64 array'')
          else put_raw (if big_endian h then bs else swap_elements num width bs))"

text \<open>
  \<open>val\<close> is the memory of the \<open>num\<close> elements of \<open>width\<close> bytes; \<open>num * width\<close> is an
  \<open>unsigned int\<close>.
\<close>

definition byte_count :: "u32 \<Rightarrow> nat \<Rightarrow> nat" where
  "byte_count num width = unat (num * of_nat width)"

definition put_vector_of :: "evp \<Rightarrow> platform \<Rightarrow> u8 list \<Rightarrow> u32 \<Rightarrow> nat \<Rightarrow> dap_type \<Rightarrow> (d4_out, unit) action" where
  "put_vector_of e h val num width t =
     bindS (checksum_update e (take (byte_count num width) val))
       (\<lambda>_. when_writing
         (if t = dods_float32_c \<and> \<not> iec559_float h then m_serialize_reals h val (unat num) 4 t
          else if t = dods_float64_c \<and> \<not> iec559_double h then m_serialize_reals h val (unat num) 8 t
          else put_raw (take (byte_count num width) val)))"

definition put_varying_vector_of :: "evp \<Rightarrow> platform \<Rightarrow> u8 list \<Rightarrow> u32 \<Rightarrow> nat \<Rightarrow> dap_type \<Rightarrow> (d4_out, unit) action" where
  "put_varying_vector_of e h val num width t =
     bindS (put_length_prefix (ucast num)) (\<lambda>_. put_vector_of e h val num width t)"

section \<open>The unmarshaller\<close>

record d4_in =
  d_in :: "u8 list"
  d_twiddle_bytes :: bool

definition new_unmarshaller :: "platform \<Rightarrow> bool \<Rightarrow> u8 list \<Rightarrow> d4_in" where
  "new_unmarshaller h is_stream_big_endian inp =
     \<lparr>d_in = inp,
      d_twiddle_bytes = (if (big_endian h \<and> is_stream_big_endian) \<or> (\<not> big_endian h \<and> \<not> is_stream_big_endian)
                         then False else True)\<rparr>"

text \<open>\<open>istream::read\<close> with exceptions enabled: a short read consumes what is there and throws.\<close>

definition read_raw :: "nat \<Rightarrow> (d4_in, u8 list) action" where
  "read_raw n m =
     (if length (d_in m) < n then (Inl Stream_Failure, m\<lparr>d_in := []\<rparr>)
      else (Inr (take n (d_in m)), m\<lparr>d_in := drop n (d_in m)\<rparr>))"

definition read_checksum :: "(d4_in, u8 list) action" where
  "read_checksum = read_raw c_md5_length"

definition checksum_string :: "u8 list \<Rightarrow> string" where
  "checksum_string c = concat (map (\<lambda>b. ostream_padded 16 2 (unat b)) (take c_md5_length c))"

definition get_byte :: "platform \<Rightarrow> (d4_in, u8) action" where
  "get_byte h = bindS (read_raw 1) (\<lambda>bs. returnS (from_native (big_endian h) bs))"

definition get_int8 :: "platform \<Rightarrow> (d4_in, u8) action" where
  "get_int8 h = bindS (read_raw 1) (\<lambda>bs. returnS (from_native (big_endian h) bs))"

definition get_int16 :: "platform \<Rightarrow> (d4_in, u16) action" where
  "get_int16 h = bindS (read_raw 2) (\<lambda>bs m. let val = from_native (big_endian h) bs in
     (Inr (if d_twiddle_bytes m then bswap val else val), m))"

definition get_int32 :: "platform \<Rightarrow> (d4_in, u32) action" where
  "get_int32 h = bindS (read_raw 4) (\<lambda>bs m. let val = from_native (big_endian h) bs in
     (Inr (if d_twiddle_bytes m then bswap val else val), m))"

definition get_int64 :: "platform \<Rightarrow> (d4_in, u64) action" where
  "get_int64 h = bindS (read_raw 8) (\<lambda>bs m. let val = from_native (big_endian h) bs in
     (Inr (if d_twiddle_bytes m then bswap val else val), m))"

text \<open>
  The XDR branch reads into \<open>d_buf\<close>, the memory of the XDR source.
\<close>

definition get_float32 :: "platform \<Rightarrow> (d4_in, u32) action" where
  "get_float32 h =
     (if iec559_float h
      then bindS (read_raw 4) (\<lambda>bs m. let val = from_native (big_endian h) bs in
             (Inr (if d_twiddle_bytes m then bswap val else val), m))
      else bindS (read_raw 4) (\<lambda>bs.
             case xdr_float_dec h bs of
               None \<Rightarrow> throwS (Error unknown_error ''Network I/O Error. Could not read float 64 data.'')
             | Some val \<Rightarrow> returnS val))"

text \<open>
  \<open>bswap_32\<close> of the 64-bit pattern: its argument is cut to 32 bits, its result is an
  unsigned 32-bit number.
\<close>

definition bswap_32_of_64 :: "u64 \<Rightarrow> u64" where
  "bswap_32_of_64 i = ucast (bswap (ucast i :: u32))"

definition get_float64 :: "platform \<Rightarrow> (d4_in, u64) action" where
  "get_float64 h =
     (if iec559_float h
      then bindS (read_raw 8) (\<lambda>bs m. let val = from_native (big_endian h) bs in
             (Inr (if d_twiddle_bytes m then bswap_32_of_64 val else val), m))
      else bindS (read_raw 8) (\<lambda>bs.
             case xdr_double_dec h bs of
               None \<Rightarrow> throwS (Error unknown_error ''Network I/O Error. Could not read float 64 data.'')
             | Some val \<Rightarrow> returnS val))"

definition get_uint16 :: "platform \<Rightarrow> (d4_in, u16) action" where
  "get_uint16 h = bindS (read_raw 2) (\<lambda>bs m. let val = from_native (big_endian h) bs in
     (Inr (if d_twiddle_bytes m then bswap val else val), m))"

definition get_uint32 :: "platform \<Rightarrow> (d4_in, u32) action" where
  "get_uint32 h = bindS (read_raw 4) (\<lambda>bs m. let val = from_native (big_endian h) bs in
     (Inr (if d_twiddle_bytes m then bswap val else val), m))"

definition get_uint64 :: "platform \<Rightarrow> (d4_in, u64) action" where
  "get_uint64 h = bindS (read_raw 8) (\<lambda>bs m. let val = from_native (big_endian h) bs in
     (Inr (if d_twiddle_bytes m then bswap val else val), m))"

text \<open>
  The bytes of a length prefix.  \<open>(b & 0x7f) << 7 * count\<close> is an \<open>int\<close>: it is 32 bits wide,
  its sign is extended when it is assigned to \<open>v\<close>, and shifting by 32 or more is undefined.
\<close>

fun length_prefix_loop :: "u8 list \<Rightarrow> nat \<Rightarrow> u64 \<Rightarrow> u64 res \<times> u8 list" where
  "length_prefix_loop [] count result = (Inl Stream_Failure, [])"
| "length_prefix_loop (b # inp) count result =
     (if 32 \<le> 7 * count then (Inl Undefined, inp)
      else let v = scast (push_bit (7 * count) (ucast (and b 0x7F) :: u32)) :: u64 in
           if and b 0x80 \<noteq> 0 then length_prefix_loop inp (count + 1) (result + v)
           else (Inr (result + v), inp))"

definition get_length_prefix :: "(d4_in, u64) action" where
  "get_length_prefix m = (case length_prefix_loop (d_in m) 0 0 of (r, inp) \<Rightarrow> (r, m\<lparr>d_in := inp\<rparr>))"

text \<open>
  \<open>get_str\<close>: a negative length asks for an impossible vector, except \<open>-1\<close>, for which the
  vector is empty and its first element is taken.
\<close>

definition get_str :: "(d4_in, u8 list) action" where
  "get_str = bindS get_length_prefix (\<lambda>n.
     if sint n = -1 then throwS Undefined
     else if sint n < 0 then throwS Bad_Alloc
     else read_raw (nat (sint n)))"

definition get_url :: "(d4_in, u8 list) action" where
  "get_url = get_str"

definition long_str :: "int \<Rightarrow> string" where
  "long_str n = (case long_to_string n 10 of Inl _ \<Rightarrow> '''' | Inr s \<Rightarrow> s)"

definition get_opaque :: "u32 \<Rightarrow> (d4_in, u8 list) action" where
  "get_opaque len = bindS get_length_prefix (\<lambda>rlen.
     if uint len \<noteq> sint rlen
     then throwS (Error unknown_error (''Expected opaque data of '' @ long_str (uint len) @ '' bytes, but got ''
                         @ long_str (sint rlen) @ '' instead.''))
     else read_raw (unat len))"

definition get_opaque_any :: "(d4_in, u8 list) action" where
  "get_opaque_any = bindS get_length_prefix (\<lambda>n. let len = ucast n :: u32 in read_raw (unat len))"

definition get_vector :: "u32 \<Rightarrow> (d4_in, u8 list) action" where
  "get_vector num = read_raw (unat num)"

text \<open>
  \<open>m_deserialize_reals\<close> decodes a whole vector through \<open>xdr_array\<close>; the elements are
  \<open>num\<close> of \<open>width\<close> bytes.
\<close>

definition m_deserialize_reals :: "platform \<Rightarrow> nat \<Rightarrow> nat \<Rightarrow> dap_type \<Rightarrow> (d4_in, u8 list) action" where
  "m_deserialize_reals h num width t = bindS (read_raw (num * width)) (\<lambda>bs.
     case xdr_array_dec h t num bs of
       None \<Rightarrow> throwS (InternalErr ''Error deserializing a Float64 array'')
     | Some val \<Rightarrow> returnS val)"

text \<open>
  \<open>m_twidle_vector_elements\<close> takes the elements as 16, 32 or 64 bit integers; past the
  memory it was given the access is undefined.
\<close>

definition m_twidle_vector_elements :: "u8 list \<Rightarrow> nat \<Rightarrow> nat \<Rightarrow> u8 list res" where
  "m_twidle_vector_elements vals num width =
     (if width = 2 \<or> width = 4 \<or> width = 8
      then if length vals < num * width then Inl Undefined else Inr (swap_elements num width vals)
      else Inl (InternalErr ''Unrecognized word size.''))"

definition read_elements :: "nat \<Rightarrow> nat \<Rightarrow> nat \<Rightarrow> (d4_in, u8 list) action" where
  "read_elements sz num width = bindS (read_raw sz) (\<lambda>bs m.
     if d_twiddle_bytes m then (m_twidle_vector_elements bs num width, m) else (Inr bs, m))"

definition get_vector_of :: "platform \<Rightarrow> u32 \<Rightarrow> nat \<Rightarrow> dap_type \<Rightarrow> (d4_in, u8 list) action" where
  "get_vector_of h num width t =
     (if t = dods_float32_c \<and> \<not> iec559_float h then m_deserialize_reals h (unat num) 4 t
      else if t = dods_float64_c \<and> \<not> iec559_double h then m_deserialize_reals h (unat num) 8 t
      else read_elements (byte_count num width) (unat num) width)"

definition get_varying_vector :: "(d4_in, u8 list) action" where
  "get_varying_vector = get_opaque_any"

text \<open>\<open>size\<close> is an \<open>int\<close>: a negative one asks for an impossible array.\<close>

definition get_varying_vector_of :: "platform \<Rightarrow> nat \<Rightarrow> dap_type \<Rightarrow> (d4_in, u32 \<times> u8 list) action" where
  "get_varying_vector_of h width t = bindS get_length_prefix (\<lambda>n.
     let num = ucast n :: u32; sz = sint (num * of_nat width) in
     if sz < 0 then throwS Bad_Alloc
     else bindS (if t = dods_float32_c \<and> \<not> iec559_float h then m_deserialize_reals h (unat num) 4 t
                 else if t = dods_float64_c \<and> \<not> iec559_double h then m_deserialize_reals h (unat num) 8 t
                 else read_elements (nat sz) (unat num) width) (\<lambda>bs. returnS (num, bs)))"

section \<open>The length prefix is LEB128\<close>

text \<open>Base 128, least significant digit first, the high bit set on every byte but the last.\<close>

fun leb128 :: "nat \<Rightarrow> u8 list" where
  "leb128 n = (if n < 128 then [of_nat n] else of_nat (128 + n mod 128) # leb128 (n div 128))"

declare leb128.simps [simp del]

lemma leb128_digits:
  assumes "n < 128 ^ Suc k" "k = 0 \<or> 128 ^ k \<le> n"
  shows "leb128 n = map (\<lambda>i. if i = k then of_nat (n div 128 ^ i mod 128) else of_nat (128 + n div 128 ^ i mod 128)) [0..<Suc k]"
  using assms
proof (induction k arbitrary: n)
  case (Suc k)
  have "n div 128 < 128 ^ Suc k" using Suc.prems(1) by (simp add: less_mult_imp_div_less mult.commute)
  moreover have "k = 0 \<or> 128 ^ k \<le> n div 128" using Suc.prems(2) by (simp add: less_eq_div_iff_mult_less_eq mult.commute)
  moreover have "\<not> n < 128"
  proof -
    have "(128 :: nat) \<le> 128 ^ Suc k" by simp
    with Suc.prems(2) show ?thesis by linarith
  qed
  ultimately have "leb128 n = of_nat (128 + n mod 128) #
      map (\<lambda>i. if i = k then of_nat (n div 128 div 128 ^ i mod 128)
                else of_nat (128 + n div 128 div 128 ^ i mod 128)) [0..<Suc k]"
    by (simp add: leb128.simps [of n] Suc.IH del: upt_Suc)
  then show ?case
    by (subst map_upt_Suc) (simp add: div_mult2_eq [symmetric] del: upt_Suc cong: map_cong)
qed (simp add: leb128.simps)

lemma unat_parts:
  "unat (part0 v) = unat v mod 4294967296"
  "unat (part1 v) = unat v div 268435456 mod 4294967296"
  "unat (part2 v) = unat v div 72057594037927936"
proof -
  have "unat v < 18446744073709551616" using unsigned_less [of v] by simp
  then show "unat (part2 v) = unat v div 72057594037927936"
    by (simp add: part2_def unsigned_ucast_eq take_bit_eq_mod drop_bit_eq_div unat_div less_mult_imp_div_less mod_less)
qed (simp_all add: part0_def part1_def unsigned_ucast_eq take_bit_eq_mod drop_bit_eq_div unat_div)

lemma part_zero: "(w :: u32) = 0 \<longleftrightarrow> unat w = 0"
  by (simp add: unat_eq_0)

lemma varint_size_bounds:
  "0 < varint_size v" "varint_size v \<le> 10" "unat v < 128 ^ varint_size v"
  "varint_size v = 1 \<or> 128 ^ (varint_size v - 1) \<le> unat v"
proof -
  have "unat v < 18446744073709551616" using unsigned_less [of v] by simp
  then show "unat v < 128 ^ varint_size v" "varint_size v = 1 \<or> 128 ^ (varint_size v - 1) \<le> unat v"
    by (auto simp: varint_size_def part_zero word_less_nat_alt unat_parts)
qed (auto simp: varint_size_def)

lemma bit_128:
  "bit (128 :: u8) k \<longleftrightarrow> k = 7" "bit (128 :: u32) k \<longleftrightarrow> k = 7" "bit (128 :: nat) k \<longleftrightarrow> k = 7"
  "bit (128 :: int) k \<longleftrightarrow> k = 7"
proof -
  have e: "(128 :: u8) = 2 ^ 7" "(128 :: u32) = 2 ^ 7" "(128 :: nat) = 2 ^ 7" "(128 :: int) = 2 ^ 7" by simp_all
  show "bit (128 :: u8) k \<longleftrightarrow> k = 7" unfolding e bit_exp_iff by auto
  show "bit (128 :: u32) k \<longleftrightarrow> k = 7" unfolding e bit_exp_iff by auto
  show "bit (128 :: nat) k \<longleftrightarrow> k = 7" unfolding e bit_exp_iff by auto
  show "bit (128 :: int) k \<longleftrightarrow> k = 7" unfolding e bit_exp_iff by auto
qed

lemma bit_127: "bit (127 :: u8) k \<longleftrightarrow> k < 7"
proof -
  have e: "(127 :: u8) = mask 7" by (simp add: mask_eq_exp_minus_1)
  show ?thesis unfolding e bit_mask_iff by auto
qed

lemma bit_varint_byte:
  assumes "i < 10"
  shows "bit (varint_byte v i) k \<longleftrightarrow> k < 8 \<and> (k = 7 \<or> bit v (7 * i + k))"
proof -
  have four: "\<not> i < 4 \<Longrightarrow> bit v (28 + (7 * (i - 4) + k)) = bit v (7 * i + k)"
    by (rule arg_cong [of _ _ "bit v"]) simp
  have eight: "\<not> i < 8 \<Longrightarrow> bit v (56 + (7 * (i - 8) + k)) = bit v (7 * i + k)"
    by (rule arg_cong [of _ _ "bit v"]) simp
  show ?thesis using assms four eight
    by (auto simp: varint_byte_def part0_def part1_def part2_def bit_simps bit_128)
qed

text \<open>A digit in base 128 is seven bits of the number.\<close>

lemma digit_bits: "bit (of_nat (unat v div 128 ^ i mod 128) :: u8) k \<longleftrightarrow> k < 7 \<and> bit (v :: u64) (7 * i + k)"
proof -
  have "unat v div 128 ^ i mod 128 = take_bit 7 (drop_bit (7 * i) (unat v))"
    by (simp add: take_bit_eq_mod drop_bit_eq_div power_mult)
  then show ?thesis by (auto simp: bit_simps)
qed

lemma digit_bits_high:
  "bit (of_nat (128 + unat v div 128 ^ i mod 128) :: u8) k \<longleftrightarrow> k < 8 \<and> (k = 7 \<or> bit (v :: u64) (7 * i + k))"
proof -
  have e: "unat v div 128 ^ i mod 128 = take_bit 7 (drop_bit (7 * i) (unat v))"
    by (simp add: take_bit_eq_mod drop_bit_eq_div power_mult)
  have "128 + take_bit 7 (n :: nat) = or (push_bit 7 1) (take_bit 7 n)" for n
    by (subst disjunctive_add [symmetric]) (auto simp: bit_simps bit_128 push_bit_eq_mult)
  then have "128 + unat v div 128 ^ i mod 128 = or 128 (take_bit 7 (drop_bit (7 * i) (unat v)))"
    by (simp add: e push_bit_eq_mult)
  then show ?thesis by (auto simp only: bit_simps bit_128) (auto simp: bit_simps)
qed

lemma varint_byte_digit:
  assumes "i < 10"
  shows "varint_byte v i = of_nat (128 + unat v div 128 ^ i mod 128)"
    and "and (varint_byte v i) 0x7F = of_nat (unat v div 128 ^ i mod 128)"
proof -
  show "varint_byte v i = of_nat (128 + unat v div 128 ^ i mod 128)"
    by (rule bit_word_eqI) (simp only: bit_varint_byte [OF assms] digit_bits_high)
  show "and (varint_byte v i) 0x7F = of_nat (unat v div 128 ^ i mod 128)"
    by (rule bit_word_eqI) (simp only: bit_varint_byte [OF assms] digit_bits bit_and_iff bit_127, auto)
qed

lemma write_varint_leb128:
  "write_varint v target =
     (if length target < length (leb128 (unat v)) then Inl Undefined
      else Inr (leb128 (unat v) @ drop (length (leb128 (unat v))) target, length (leb128 (unat v))))"
proof -
  obtain k where k: "varint_size v = Suc k" using varint_size_bounds(1) [of v] by (cases "varint_size v") auto
  have l: "leb128 (unat v) = map (\<lambda>i. if i = k then of_nat (unat v div 128 ^ i mod 128)
      else of_nat (128 + unat v div 128 ^ i mod 128)) [0..<Suc k]"
    using varint_size_bounds(3,4) [of v] k by (intro leb128_digits) auto
  have "map (\<lambda>i. if i = k then and (varint_byte v i) 0x7F else varint_byte v i) [0..<Suc k] = leb128 (unat v)"
    unfolding l
  proof (intro map_cong refl)
    fix i assume "i \<in> set [0..<Suc k]"
    then have i: "i < 10" using varint_size_bounds(2) [of v] k by auto
    show "(if i = k then and (varint_byte v i) 0x7F else varint_byte v i) =
        (if i = k then of_nat (unat v div 128 ^ i mod 128) else of_nat (128 + unat v div 128 ^ i mod 128))"
    proof (cases "i = k")
      case True
      show ?thesis by (simp only: if_P [OF True] varint_byte_digit(2) [OF i])
    next
      case False
      show ?thesis by (simp only: if_not_P [OF False] varint_byte_digit(1) [OF i])
    qed
  qed
  moreover have "length (leb128 (unat v)) = Suc k" by (simp add: l del: upt_Suc)
  ultimately show ?thesis by (simp add: write_varint_def k Let_def del: upt_Suc)
qed

section \<open>Reading a length prefix\<close>

text \<open>What a digit adds to the result when \<open>count\<close> digits were read before it.\<close>

definition shifted :: "nat \<Rightarrow> nat \<Rightarrow> u64" where
  "shifted d count = scast (push_bit (7 * count) (of_nat d :: u32))"

lemma low_digit:
  assumes "d < 128"
  shows "and (of_nat d :: u8) 0x7F = of_nat d" "and (of_nat d :: u8) 0x80 = 0"
    "and (of_nat (128 + d) :: u8) 0x7F = of_nat d" "and (of_nat (128 + d) :: u8) 0x80 \<noteq> 0"
    "ucast (of_nat d :: u8) = (of_nat d :: u32)"
proof -
  have d: "d = take_bit 7 d" using assms by (simp add: take_bit_nat_eq_self)
  have b: "bit d k \<Longrightarrow> k < 7" for k using d bit_take_bit_iff [of 7 d k] by metis
  have o: "128 + d = or (push_bit 7 1) d"
    by (subst disjunctive_add [symmetric]) (auto simp: bit_simps bit_128 push_bit_eq_mult dest: b)
  have h: "bit (of_nat (128 + d) :: u8) k \<longleftrightarrow> k < 8 \<and> (k = 7 \<or> bit d k)" for k
    unfolding o by (auto simp: bit_simps bit_128)
  show "and (of_nat d :: u8) 0x7F = of_nat d"
    by (rule bit_word_eqI) (simp only: bit_and_iff bit_127, auto simp: bit_simps dest: b)
  show "and (of_nat d :: u8) 0x80 = 0"
    by (rule bit_word_eqI) (simp only: bit_and_iff bit_128, auto simp: bit_simps dest: b)
  show "and (of_nat (128 + d) :: u8) 0x7F = of_nat d"
    by (rule bit_word_eqI) (simp only: bit_and_iff bit_127 h, auto simp: bit_simps dest: b)
  have "bit (and (of_nat (128 + d) :: u8) 0x80) 7" by (simp only: bit_and_iff h bit_128) simp
  then show "and (of_nat (128 + d) :: u8) 0x80 \<noteq> 0" by (metis bit_0_eq bot_apply bot_bool_def)
  show "ucast (of_nat d :: u8) = (of_nat d :: u32)"
    by (rule bit_word_eqI) (auto simp: bit_simps dest: b)
qed

lemma loop_last:
  "d < 128 \<Longrightarrow> count < 5 \<Longrightarrow> length_prefix_loop (of_nat d # inp) count r = (Inr (r + shifted d count), inp)"
  by (simp add: low_digit shifted_def Let_def)

lemma loop_more:
  "d < 128 \<Longrightarrow> count < 5 \<Longrightarrow>
     length_prefix_loop (of_nat (128 + d) # inp) count r = length_prefix_loop inp (Suc count) (r + shifted d count)"
  by (simp add: low_digit shifted_def del: of_nat_add)

lemma loop_undefined: "5 \<le> count \<Longrightarrow> fst (length_prefix_loop (b # inp) count r) = Inl Undefined"
  by simp

declare length_prefix_loop.simps(2) [simp del]

lemma shifted_split:
  assumes "count < 4"
  shows "shifted (n mod 128) count + shifted (n div 128) (Suc count) = shifted n count"
proof -
  have m: "n mod 128 = take_bit 7 n" and q: "n div 128 = drop_bit 7 n"
    by (simp_all add: take_bit_eq_mod drop_bit_eq_div)
  show ?thesis
    using assms unfolding shifted_def m q
    by (subst disjunctive_add)
      (auto simp: bit_simps min_def intro!: bit_word_eqI)
qed

lemma loop_leb128:
  "count < 5 \<Longrightarrow> n < 128 ^ (5 - count) \<Longrightarrow>
     length_prefix_loop (leb128 n @ rest) count r = (Inr (r + shifted n count), rest)"
proof (induction n arbitrary: count r rule: leb128.induct)
  case (1 n)
  show ?case
  proof (cases "n < 128")
    case False
    then have c: "count < 4" using 1(2,3) by (cases "count = 4") auto
    have "5 - count = Suc (5 - Suc count)" using c by simp
    with 1(3) have "n div 128 < 128 ^ (5 - Suc count)" by (simp add: less_mult_imp_div_less mult.commute)
    then have "length_prefix_loop (leb128 (n div 128) @ rest) (Suc count) (r + shifted (n mod 128) count) =
        (Inr (r + shifted (n mod 128) count + shifted (n div 128) (Suc count)), rest)"
      using 1(1) [OF False, of "Suc count"] c by simp
    moreover have "leb128 n = of_nat (128 + n mod 128) # leb128 (n div 128)"
      using False by (simp add: leb128.simps [of n])
    ultimately show ?thesis using c shifted_split [OF c, of n]
      by (simp add: loop_more add.assoc del: of_nat_add)
  next
    case True
    then have "leb128 n = [of_nat n]" by (simp add: leb128.simps [of n])
    with True 1(2) show ?thesis by (simp add: loop_last)
  qed
qed

lemma leb128_Cons: "\<exists>b bs. leb128 n = b # bs"
  by (subst leb128.simps) auto

lemma loop_leb128_undefined:
  "count \<le> 5 \<Longrightarrow> 128 ^ (5 - count) \<le> n \<or> count = 5 \<Longrightarrow> fst (length_prefix_loop (leb128 n @ rest) count r) = Inl Undefined"
proof (induction n arbitrary: count r rule: leb128.induct)
  case (1 n)
  show ?case
  proof (cases "count = 5")
    case True
    obtain b bs where "leb128 n = b # bs" using leb128_Cons by blast
    with True show ?thesis by (simp add: loop_undefined)
  next
    case False
    then have c: "count < 5" "5 - count = Suc (5 - Suc count)" using 1(2) by simp_all
    with 1(3) False have n: "128 ^ (5 - Suc count) \<le> n div 128" by (simp add: less_eq_div_iff_mult_less_eq mult.commute)
    moreover have "\<not> n < 128"
    proof
      assume "n < 128"
      with n show False by simp
    qed
    ultimately show ?thesis using 1(1) [of "Suc count"] c
      by (simp add: leb128.simps [of n] loop_more del: of_nat_add)
  qed
qed

lemma get_length_prefix_leb128:
  "n < 128 ^ 5 \<Longrightarrow> get_length_prefix \<lparr>d_in = leb128 n @ rest, d_twiddle_bytes = tw\<rparr> =
     (Inr (scast (of_nat n :: u32)), \<lparr>d_in = rest, d_twiddle_bytes = tw\<rparr>)"
  using loop_leb128 [of 0 n rest 0] by (simp add: get_length_prefix_def shifted_def)

section \<open>Vectors across byte orders\<close>

lemma swap_elements_memory:
  "swap_elements (length ws) (LENGTH('a) div 8) (memory big (ws :: 'a::len word list)) = memory (\<not> big) ws"
  by (induction ws) (simp_all add: memory_def native_flip [symmetric])

lemma byte_count_length:
  assumes "unat num * width < 2 ^ 32" shows "byte_count num width = unat num * width"
proof (cases "num = 0")
  case False
  then have "1 \<le> unat num" by (metis One_nat_def Suc_leI unat_gt_0)
  then have "width \<le> unat num * width" by simp
  with assms have "width < 2 ^ 32" by linarith
  then have "unat (of_nat width :: u32) = width" by (simp add: unat_of_nat take_bit_nat_eq_self)
  then show ?thesis using assms by (simp add: byte_count_def unat_word_ariths)
qed (simp add: byte_count_def)

section \<open>Sequences of values\<close>

text \<open>A call of one of the \<open>put_\<close> functions with its arguments, and the bytes it digests.\<close>

datatype d4_op =
    Op_byte u8 | Op_int8 u8 | Op_int16 u16 | Op_int32 u32 | Op_int64 u64
  | Op_float32 u32 | Op_float64 u64 | Op_uint16 u16 | Op_uint32 u32 | Op_uint64 u64
  | Op_str "u8 list" | Op_url "u8 list" | Op_opaque "u8 list"
  | Op_vector "u8 list" | Op_varying "u8 list"
  | Op_vector_of "u8 list" u32 nat dap_type | Op_varying_of "u8 list" u32 nat dap_type

primrec perform :: "evp \<Rightarrow> platform \<Rightarrow> d4_op \<Rightarrow> (d4_out, unit) action" where
  "perform e h (Op_byte v) = put_byte e h v"
| "perform e h (Op_int8 v) = put_int8 e h v"
| "perform e h (Op_int16 v) = put_int16 e h v"
| "perform e h (Op_int32 v) = put_int32 e h v"
| "perform e h (Op_int64 v) = put_int64 e h v"
| "perform e h (Op_float32 v) = put_float32 e h v"
| "perform e h (Op_float64 v) = put_float64 e h v"
| "perform e h (Op_uint16 v) = put_uint16 e h v"
| "perform e h (Op_uint32 v) = put_uint32 e h v"
| "perform e h (Op_uint64 v) = put_uint64 e h v"
| "perform e h (Op_str s) = put_str e s"
| "perform e h (Op_url s) = put_url e s"
| "perform e h (Op_opaque bs) = put_opaque e bs"
| "perform e h (Op_vector bs) = put_vector e bs"
| "perform e h (Op_varying bs) = put_varying_vector e bs"
| "perform e h (Op_vector_of bs n w t) = put_vector_of e h bs n w t"
| "perform e h (Op_varying_of bs n w t) = put_varying_vector_of e h bs n w t"

primrec payload :: "platform \<Rightarrow> d4_op \<Rightarrow> u8 list" where
  "payload h (Op_byte v) = native (big_endian h) v"
| "payload h (Op_int8 v) = native (big_endian h) v"
| "payload h (Op_int16 v) = native (big_endian h) v"
| "payload h (Op_int32 v) = native (big_endian h) v"
| "payload h (Op_int64 v) = native (big_endian h) v"
| "payload h (Op_float32 v) = native (big_endian h) v"
| "payload h (Op_float64 v) = native (big_endian h) v"
| "payload h (Op_uint16 v) = native (big_endian h) v"
| "payload h (Op_uint32 v) = native (big_endian h) v"
| "payload h (Op_uint64 v) = native (big_endian h) v"
| "payload h (Op_str s) = s"
| "payload h (Op_url s) = s"
| "payload h (Op_opaque bs) = bs"
| "payload h (Op_vector bs) = bs"
| "payload h (Op_varying bs) = bs"
| "payload h (Op_vector_of bs n w t) = take (byte_count n w) bs"
| "payload h (Op_varying_of bs n w t) = take (byte_count n w) bs"

primrec perform_all :: "evp \<Rightarrow> platform \<Rightarrow> d4_op list \<Rightarrow> (d4_out, unit) action" where
  "perform_all e h [] = returnS ()"
| "perform_all e h (p # ps) = bindS (perform e h p) (\<lambda>_. perform_all e h ps)"

text \<open>A call that digests \<open>bs\<close> and otherwise touches nothing but the output.\<close>

definition digests :: "u8 list \<Rightarrow> (d4_out, unit) action \<Rightarrow> bool" where
  "digests bs act \<longleftrightarrow> (\<forall>m m'. act m = (Inr (), m') \<and> (bs = [] \<or> d_checksum_ctx_valid m) \<longrightarrow>
     d_ctx m' = d_ctx m @ bs \<and> d_checksum_ctx_valid m' = d_checksum_ctx_valid m
     \<and> d_write_data m' = d_write_data m \<and> d_md m' = d_md m)"

lemma digestsD:
  "digests bs act \<Longrightarrow> act m = (Inr (), m') \<Longrightarrow> d_checksum_ctx_valid m \<Longrightarrow>
     d_ctx m' = d_ctx m @ bs \<and> d_checksum_ctx_valid m' \<and> d_write_data m' = d_write_data m \<and> d_md m' = d_md m"
  by (auto simp: digests_def)

lemma bindS_Inr: "bindS a f m = (Inr y, m') \<longleftrightarrow> (\<exists>x m1. a m = (Inr x, m1) \<and> f x m1 = (Inr y, m'))"
  by (auto split: prod.splits sum.splits)

named_theorems digest_rules

lemma digests_bind [digest_rules]:
  assumes "digests bs a" "\<And>x. digests [] (f x)"
  shows "digests bs (bindS a f)"
  unfolding digests_def
proof (intro allI impI, elim conjE)
  fix m m' assume r: "bindS a f m = (Inr (), m')" and v: "bs = [] \<or> d_checksum_ctx_valid m"
  from r obtain x m1 where x: "a m = (Inr x, m1)" "f x m1 = (Inr (), m')" unfolding bindS_Inr by blast
  with assms v show "d_ctx m' = d_ctx m @ bs \<and> d_checksum_ctx_valid m' = d_checksum_ctx_valid m
     \<and> d_write_data m' = d_write_data m \<and> d_md m' = d_md m"
    unfolding digests_def by fastforce
qed

lemma digests_put_raw [digest_rules]: "digests [] (put_raw bs)"
  by (auto simp: digests_def put_raw_def)

lemma digests_throw [digest_rules]: "digests bs (throwS ex)"
  by (simp add: digests_def)

lemma digests_when [digest_rules]: "digests [] a \<Longrightarrow> digests [] (when_writing a)"
  by (simp add: digests_def when_writing_def)

lemma digests_update [digest_rules]: "digests bs (checksum_update e bs)"
  by (auto simp: digests_def checksum_update_def)

lemma digests_if [digest_rules]:
  "(c \<Longrightarrow> digests bs a) \<Longrightarrow> (\<not> c \<Longrightarrow> digests bs b) \<Longrightarrow> digests bs (if c then a else b)"
  by simp

lemma digests_option [digest_rules]:
  "digests bs a \<Longrightarrow> (\<And>x. digests bs (f x)) \<Longrightarrow> digests bs (case r of None \<Rightarrow> a | Some x \<Rightarrow> f x)"
  by (cases r) auto

lemma digests_prefix [digest_rules]: "digests [] (put_length_prefix v)"
  unfolding put_length_prefix_def
  by (rule digests_when) (auto simp: digests_def put_raw_def split: sum.splits)

lemma digests_serialize_reals [digest_rules]: "digests [] (m_serialize_reals h val n w t)"
  unfolding m_serialize_reals_def by (intro digest_rules)

lemma digests_bind_prefix:
  assumes "digests bs a"
  shows "digests bs (bindS (put_length_prefix v) (\<lambda>_. a))"
  unfolding digests_def
proof (intro allI impI, elim conjE)
  fix m m' assume r: "bindS (put_length_prefix v) (\<lambda>_. a) m = (Inr (), m')" and v: "bs = [] \<or> d_checksum_ctx_valid m"
  from r obtain m1 where x: "put_length_prefix v m = (Inr (), m1)" "a m1 = (Inr (), m')" unfolding bindS_Inr by auto
  with assms v digests_prefix [of v] show "d_ctx m' = d_ctx m @ bs \<and> d_checksum_ctx_valid m' = d_checksum_ctx_valid m
     \<and> d_write_data m' = d_write_data m \<and> d_md m' = d_md m"
    unfolding digests_def by fastforce
qed

lemmas put_defs = put_byte_def put_int8_def put_int16_def put_int32_def put_int64_def put_float32_def
  put_float64_def put_uint16_def put_uint32_def put_uint64_def put_url_def put_str_def put_opaque_def
  put_vector_def put_varying_vector_def put_vector_of_def

lemma perform_digests: "digests (payload h p) (perform e h p)"
proof (cases p)
  case (Op_varying_of bs n w t)
  show ?thesis unfolding Op_varying_of perform.simps payload.simps put_varying_vector_of_def
    by (rule digests_bind_prefix, unfold put_vector_of_def, intro digest_rules)
qed (simp only: perform.simps payload.simps put_defs, intro digest_rules)+

lemma perform_all_digests:
  "perform_all e h ps m = (Inr (), m') \<Longrightarrow> d_checksum_ctx_valid m \<Longrightarrow>
     d_ctx m' = d_ctx m @ concat (map (payload h) ps) \<and> d_checksum_ctx_valid m'"
proof (induction ps arbitrary: m)
  case (Cons p ps)
  then obtain m1 where "perform e h p m = (Inr (), m1)" "perform_all e h ps m1 = (Inr (), m')"
    by (auto simp: bindS_Inr simp del: bindS.simps)
  with Cons digestsD [OF perform_digests] show ?case by fastforce
qed simp

lemma leb128_long: "9 < length (leb128 (unat (v :: u64))) \<longleftrightarrow> 2 ^ 63 \<le> unat v"
proof -
  have "length (leb128 (unat v)) = varint_size v"
  proof -
    obtain k where k: "varint_size v = Suc k" using varint_size_bounds(1) [of v] by (cases "varint_size v") auto
    then show ?thesis using varint_size_bounds(3,4) [of v]
      by (subst leb128_digits [of _ k]) auto
  qed
  moreover have "9 < varint_size v \<longleftrightarrow> 2 ^ 63 \<le> unat v"
  proof
    assume "9 < varint_size v"
    then have "varint_size v = 10" using varint_size_bounds(2) [of v] by simp
    then show "2 ^ 63 \<le> unat v" using varint_size_bounds(4) [of v] by simp
  next
    assume l: "2 ^ 63 \<le> unat v"
    have "(128 :: nat) ^ 9 \<le> unat v" using l by simp
    then have "(128 :: nat) ^ 9 < 128 ^ varint_size v" using varint_size_bounds(3) by (rule le_less_trans)
    then show "9 < varint_size v" by (rule power_less_imp_less_exp [rotated]) simp
  qed
  ultimately show ?thesis by simp
qed

lemma put_length_prefix_leb128:
  assumes "unat v < 2 ^ 63" "d_write_data m"
  shows "put_length_prefix v m = (Inr (), m\<lparr>d_out := d_out m @ leb128 (unat v)\<rparr>)"
proof -
  have "length (leb128 (unat v)) \<le> 9"
    using leb128_long [of v] assms(1) by simp
  then show ?thesis using assms(2)
    by (simp add: put_length_prefix_def when_writing_def write_varint_leb128 put_raw_def)
qed

section \<open>Properties\<close>

text \<open>
  C14: the varint writer fills its target with the LEB128 encoding of the value, and runs past
  the end of a target that is too short for it; the encoding takes more than the nine bytes
  \<open>put_length_prefix\<close> provides exactly from \<open>2^63\<close> on.
\<close>
theorem write_varint_is_leb128:
  "write_varint v target =
     (if length target < length (leb128 (unat v)) then Inl Undefined
      else Inr (leb128 (unat v) @ drop (length (leb128 (unat v))) target, length (leb128 (unat v))))
   \<and> (9 < length (leb128 (unat v)) \<longleftrightarrow> 2 ^ 63 \<le> unat v)"
  using write_varint_leb128 [of v target] leb128_long [of v] by blast

lemma sint_high:
  assumes "2 ^ 31 \<le> n" "n < 2 ^ 32"
  shows "sint (of_nat n :: u32) = int n - 2 ^ 32"
proof -
  have "int n div 2 ^ 31 = 1" using assms by simp
  moreover have "take_bit 32 (int n) = int n" using assms by (simp add: take_bit_int_eq_self)
  ultimately show ?thesis
    by (simp add: sint_uint unsigned_of_nat uint_nat unat_of_nat take_bit_nat_eq_self assms
        signed_take_bit_eq_take_bit_minus bit_iff_odd)
qed

text \<open>
  C16: a length below \<open>2^31\<close> written as a prefix is read back as it was, and what follows it
  in the stream is left for the next read.
\<close>
theorem length_prefix_read_back:
  assumes "unat v < 2 ^ 31" "d_write_data m"
  shows "\<exists>bs. put_length_prefix v m = (Inr (), m\<lparr>d_out := d_out m @ bs\<rparr>) \<and>
    (\<forall>rest tw. get_length_prefix \<lparr>d_in = bs @ rest, d_twiddle_bytes = tw\<rparr> =
       (Inr v, \<lparr>d_in = rest, d_twiddle_bytes = tw\<rparr>))"
proof (intro exI conjI allI)
  show "put_length_prefix v m = (Inr (), m\<lparr>d_out := d_out m @ leb128 (unat v)\<rparr>)"
    by (rule put_length_prefix_leb128) (use assms in simp_all)
  have "scast (of_nat (unat v) :: u32) = (of_int (int (unat v)) :: u64)"
    by (simp only: scast_eq sint_of_nat_small [OF assms(1)])
  then have "scast (of_nat (unat v) :: u32) = v" by simp
  then show "get_length_prefix \<lparr>d_in = leb128 (unat v) @ rest, d_twiddle_bytes = tw\<rparr> =
       (Inr v, \<lparr>d_in = rest, d_twiddle_bytes = tw\<rparr>)" for rest tw
    using get_length_prefix_leb128 [of "unat v" rest tw] assms(1) by simp
qed

theorem length_prefix_read_back_witness:
  "\<exists>bs. put_length_prefix 300 (new_marshaller True [] []) = (Inr (), (new_marshaller True [] [])\<lparr>d_out := [] @ bs\<rparr>)"
  using length_prefix_read_back [of 300 "new_marshaller True [] []"]
  by (auto simp: new_marshaller_def)

text \<open>
  the reader shifts in 32 bits: a length from \<open>2^31\<close> up to \<open>2^32\<close> comes back with its sign
  extended, and reading one from \<open>2^35\<close> on is undefined.
\<close>
lemma length_prefix_misread:
  "(\<forall>tw. 2 ^ 31 \<le> n \<and> n < 2 ^ 32 \<longrightarrow>
      get_length_prefix \<lparr>d_in = leb128 n, d_twiddle_bytes = tw\<rparr> =
        (Inr (of_nat (n + (2 ^ 64 - 2 ^ 32))), \<lparr>d_in = [], d_twiddle_bytes = tw\<rparr>))
   \<and> (\<forall>tw. 2 ^ 35 \<le> n \<longrightarrow> fst (get_length_prefix \<lparr>d_in = leb128 n, d_twiddle_bytes = tw\<rparr>) = Inl Undefined)"
proof (intro conjI allI impI)
  fix tw assume n: "2 ^ 31 \<le> n \<and> n < 2 ^ 32"
  have "sint (of_nat n :: u32) = int n - 2 ^ 32" using n by (intro sint_high) simp_all
  then show "get_length_prefix \<lparr>d_in = leb128 n, d_twiddle_bytes = tw\<rparr> =
      (Inr (of_nat (n + (2 ^ 64 - 2 ^ 32))), \<lparr>d_in = [], d_twiddle_bytes = tw\<rparr>)"
    using get_length_prefix_leb128 [of n "[]" tw] n by (simp add: scast_eq)
next
  fix tw assume "2 ^ 35 \<le> n"
  then show "fst (get_length_prefix \<lparr>d_in = leb128 n, d_twiddle_bytes = tw\<rparr>) = Inl Undefined"
    using loop_leb128_undefined [of 0 n "[]" 0]
    by (cases "length_prefix_loop (leb128 n) 0 0") (simp add: get_length_prefix_def)
qed

lemma length_prefix_misread_witness:
  "get_length_prefix \<lparr>d_in = leb128 (2 ^ 31), d_twiddle_bytes = True\<rparr> =
     (Inr (of_nat (2 ^ 31 + (2 ^ 64 - 2 ^ 32))), \<lparr>d_in = [], d_twiddle_bytes = True\<rparr>)
   \<and> fst (get_length_prefix \<lparr>d_in = leb128 (2 ^ 35), d_twiddle_bytes = True\<rparr>) = Inl Undefined"
  using length_prefix_misread [of "2 ^ 31"] length_prefix_misread [of "2 ^ 35"] by simp

lemma read_raw_append: "read_raw (length bs) \<lparr>d_in = bs @ rest, d_twiddle_bytes = tw\<rparr> =
    (Inr bs, \<lparr>d_in = rest, d_twiddle_bytes = tw\<rparr>)"
  by (simp add: read_raw_def)

lemma read_elements_memory:
  assumes "width = LENGTH('a) div 8" "width = 2 \<or> width = 4 \<or> width = 8"
    and "d_twiddle_bytes m = (big \<noteq> big')" "d_in m = memory big (ws :: 'a::len word list) @ rest"
  shows "read_elements (length ws * width) (length ws) width m = (Inr (memory big' ws), m\<lparr>d_in := rest\<rparr>)"
proof -
  have "read_raw (length ws * width) m = (Inr (memory big ws), m\<lparr>d_in := rest\<rparr>)"
    using assms(1,4) by (simp add: read_raw_def length_memory)
  moreover have "swap_elements (length ws) width (memory big ws) = memory (\<not> big) ws"
    using assms(1) by (simp add: swap_elements_memory)
  ultimately show ?thesis using assms
    by (cases big; cases big') (auto simp: read_elements_def m_twidle_vector_elements_def length_memory)
qed

text \<open>
  C29: an array of 16, 32 or 64 bit elements written on one host and read on another one is
  the same array in the memory of the reader, whatever the byte orders of the two.
\<close>
theorem vector_survives_byte_order:
  fixes ws :: "'a::len word list"
  assumes "width = LENGTH('a) div 8" "width = 2 \<or> width = 4 \<or> width = 8"
    and "unat num = length ws" "length ws * width < 2 ^ 32"
    and "iec559_float h" "iec559_double h" "iec559_float h'" "iec559_double h'"
    and "d_checksum_ctx_valid m" "digest_update e (d_ctx m) (memory (big_endian h) ws)" "d_write_data m"
  shows "\<exists>bs m'. put_vector_of e h (memory (big_endian h) ws) num width t m = (Inr (), m') \<and> d_out m' = d_out m @ bs \<and>
    get_vector_of h' num width t (new_unmarshaller h' (big_endian h) (bs @ rest)) =
      (Inr (memory (big_endian h') ws), new_unmarshaller h' (big_endian h) rest)"
proof -
  have n: "byte_count num width = length ws * width"
    using byte_count_length [of num width] assms(3,4) by simp
  have l: "take (length ws * width) (memory (big_endian h) ws) = memory (big_endian h) ws"
    using assms(1) by (simp add: length_memory)
  show ?thesis
  proof (intro exI conjI)
    show "put_vector_of e h (memory (big_endian h) ws) num width t m =
        (Inr (), m\<lparr>d_ctx := d_ctx m @ memory (big_endian h) ws, d_out := d_out m @ memory (big_endian h) ws\<rparr>)"
      using assms n l by (simp add: put_vector_of_def checksum_update_def when_writing_def put_raw_def)
    show "get_vector_of h' num width t (new_unmarshaller h' (big_endian h) (memory (big_endian h) ws @ rest)) =
        (Inr (memory (big_endian h') ws), new_unmarshaller h' (big_endian h) rest)"
      using assms n read_elements_memory [OF assms(1,2), of "new_unmarshaller h' (big_endian h) (memory (big_endian h) ws @ rest)"
          "big_endian h" "big_endian h'" ws rest]
      by (auto simp: get_vector_of_def new_unmarshaller_def)
  qed simp
qed

text \<open>A digest that always succeeds, and platforms with IEEE 754 reals.\<close>

definition any_evp :: evp where
  "any_evp = \<lparr>digest_init = True, digest_update = (\<lambda>_ _. True), digest_final = (\<lambda>bs. Some (replicate 16 (of_nat (length bs))))\<rparr>"

definition ieee_host :: "bool \<Rightarrow> platform" where
  "ieee_host big = \<lparr>big_endian = big, iec559_float = True, iec559_double = True,
     xdr_float_enc = (\<lambda>_. None), xdr_double_enc = (\<lambda>_. None), xdr_float_dec = (\<lambda>_. None), xdr_double_dec = (\<lambda>_. None),
     xdr_array_enc = (\<lambda>_ _ _. None), xdr_array_dec = (\<lambda>_ _ _. None)\<rparr>"

definition fresh_marshaller :: d4_out where
  "fresh_marshaller = (new_marshaller True [] [])\<lparr>d_checksum_ctx_valid := True\<rparr>"

theorem vector_survives_byte_order_witness:
  "\<exists>bs m'. put_vector_of any_evp (ieee_host False) (memory False [1, 258 :: u16]) 2 2 dods_int16_c fresh_marshaller = (Inr (), m')
    \<and> d_out m' = bs \<and>
    get_vector_of (ieee_host True) 2 2 dods_int16_c (new_unmarshaller (ieee_host True) False (bs @ [7])) =
      (Inr (memory True [1, 258 :: u16]), new_unmarshaller (ieee_host True) False [7])"
  using vector_survives_byte_order [of 2 2 "[1, 258 :: u16]" "ieee_host False" "ieee_host True" fresh_marshaller any_evp
      dods_int16_c "[7]"]
  by (simp add: ieee_host_def any_evp_def fresh_marshaller_def new_marshaller_def)

lemma bswap_32_of_bswap: "bswap_32_of_64 (bswap v) = drop_bit 32 (v :: u64)"
proof -
  define hi where "hi = (of_nat (unat v div 256 ^ 4) :: u32)"
  have "unat v < 2 ^ 64" using unsigned_less [of v] by simp
  then have hi: "unat hi = unat v div 256 ^ 4"
    by (simp add: hi_def unat_of_nat take_bit_nat_eq_self less_mult_imp_div_less)
  have "le_bytes 8 (unat v) = le_bytes 4 (unat v) @ le_bytes 4 (unat v div 256 ^ 4)"
    using le_bytes_add [of 4 4 "unat v"] by simp
  then have "bswap v = of_nat (le_value (rev (le_bytes 4 (unat hi))) + 256 ^ 4 * le_value (rev (le_bytes 4 (unat v))))"
    by (simp add: bswap_def hi le_value_append)
  moreover have "ucast (of_nat (a + 256 ^ 4 * b) :: u64) = (of_nat a :: u32)" for a b
    by (rule word_unat_eq_iff [THEN iffD2])
      (simp add: unsigned_ucast_eq unat_of_nat take_bit_eq_mod mod_mod_cancel del: of_nat_add of_nat_mult)
  ultimately have "ucast (bswap v) = (of_nat (le_value (rev (le_bytes 4 (unat hi)))) :: u32)" by (simp only:)
  then have "ucast (bswap v) = bswap hi" by (simp add: bswap_def)
  then have "bswap_32_of_64 (bswap v) = ucast hi"
    by (simp add: bswap_32_of_64_def bswap_bswap whole_bytes_def)
  also have "\<dots> = drop_bit 32 v"
  proof (rule word_unat_eq_iff [THEN iffD2])
    have "unat (drop_bit 32 v) = unat v div 256 ^ 4" by (simp add: drop_bit_eq_div unat_div)
    moreover have "unat hi < 4294967296" using unsigned_less [of hi] by simp
    then have "unat (ucast hi :: u64) = unat hi"
      by (simp add: unsigned_ucast_eq take_bit_nat_eq_self)
    ultimately show "unat (ucast hi :: u64) = unat (drop_bit 32 v)" by (simp add: hi)
  qed
  finally show ?thesis .
qed

text \<open>
  a 64-bit real written on a host of the other byte order is read as its upper half: the
  reader swaps only 32 of the 64 bits.  Read on a host of the same byte order it is unchanged.
\<close>
lemma float64_across_byte_orders:
  "get_float64 (ieee_host big) (new_unmarshaller (ieee_host big) big' (native big' v @ rest)) =
     (Inr (if big = big' then v else drop_bit 32 v), new_unmarshaller (ieee_host big) big' rest)"
proof -
  have r: "read_raw 8 (new_unmarshaller (ieee_host big) big' (native big' v @ rest)) =
      (Inr (native big' v), new_unmarshaller (ieee_host big) big' rest)"
    by (simp add: read_raw_def new_unmarshaller_def)
  have w: "whole_bytes TYPE(64)" "whole_bytes TYPE(32)" by (simp_all add: whole_bytes_def)
  show ?thesis
  proof (cases "big = big'")
    case True
    with r w show ?thesis
      by (auto simp: get_float64_def ieee_host_def new_unmarshaller_def from_native_native)
  next
    case False
    then have "from_native big (native big' v) = bswap v"
      using bswap_native [of v big] native_flip [of big v] by (cases big) simp_all
    moreover have "bswap_32_of_64 (bswap v) = drop_bit 32 v" by (rule bswap_32_of_bswap)
    ultimately show ?thesis using r False
      by (auto simp: get_float64_def ieee_host_def new_unmarshaller_def)
  qed
qed

text \<open>
  C20: after a reset, the checksum of any sequence of \<open>put_\<close> calls that return is the digest of
  the values, one after the other, without the length prefixes, whether the values were
  written or only digested.
\<close>
theorem checksum_covers_values:
  assumes "d_checksum_ctx_valid m" "d_ctx m = []" "perform_all e h ps m = (Inr (), m')"
    and "digest_final e (concat (map (payload h) ps)) = Some md" "length md = 16"
  shows "fst (get_checksum e m') = Inr (md_string md)"
  using perform_all_digests [OF assms(3,1)] assms(2,4,5)
  by (simp add: get_checksum_def m_compute_checksum_def c_md5_length_def Let_def)

theorem checksum_covers_values_witness:
  "fst (get_checksum any_evp (snd (perform_all any_evp (ieee_host False) [Op_byte 7, Op_str [1, 2]]
      (fresh_marshaller\<lparr>d_write_data := False\<rparr>)))) = Inr (md_string (replicate 16 3))"
  by (rule checksum_covers_values [of "fresh_marshaller\<lparr>d_write_data := False\<rparr>" _ "ieee_host False" "[Op_byte 7, Op_str [1, 2]]"])
    (simp_all add: fresh_marshaller_def new_marshaller_def any_evp_def put_byte_def put_str_def checksum_update_def
      when_writing_def native_def ieee_host_def)

text \<open>
  All the public member functions that may change the marshaller: the values, the length prefix, the
  checksum itself, and \<open>put_int\<close>, which DAP4 does not use.
\<close>

definition put_int :: "u32 \<Rightarrow> (d4_out, unit) action" where
  "put_int v = throwS (InternalErr ''Not Implemented; use put_length_prefix.'')"

datatype d4_call = Put d4_op | Put_length_prefix u64 | Put_int u32 | Put_checksum | Get_checksum | Update_checksum "u8 list" | Reset_checksum

primrec call_member :: "evp \<Rightarrow> platform \<Rightarrow> d4_call \<Rightarrow> (d4_out, unit) action" where
  "call_member e h (Put p) = perform e h p"
| "call_member e h (Put_length_prefix v) = put_length_prefix v"
| "call_member e h (Put_int v) = put_int v"
| "call_member e h Put_checksum = put_checksum e"
| "call_member e h Get_checksum = bindS (get_checksum e) (\<lambda>_. returnS ())"
| "call_member e h (Update_checksum data) = checksum_update e data"
| "call_member e h Reset_checksum = reset_checksum e"

lemma perform_checksum_only:
  assumes "\<not> d_write_data m" "perform e h p m = (r, m')"
  shows "d_out m' = d_out m @ (case p of Op_vector bs \<Rightarrow> if r = Inr () then bs else [] | _ \<Rightarrow> []) \<and> \<not> d_write_data m'"
  using assms
  by (cases p) (auto simp: put_defs put_varying_vector_of_def put_length_prefix_def checksum_update_def when_writing_def put_raw_def
      split: if_splits prod.splits sum.splits)

lemma compute_checksum_out: "m_compute_checksum e m = (r, m') \<Longrightarrow> d_out m' = d_out m \<and> d_write_data m' = d_write_data m"
  by (auto simp: m_compute_checksum_def Let_def split: if_splits option.splits)

text \<open>
  C39: a marshaller that is only to compute checksums writes nothing, whichever member function is
  called, with two exceptions: \<open>put_vector\<close> of a byte array writes its bytes all the same, and
  \<open>put_checksum\<close> the 16 bytes of the digest.
\<close>
theorem checksum_only_writes:
  assumes "\<not> d_write_data m" "call_member e h p m = (r, m')"
  shows "d_out m' = d_out m @ (if r = Inr () then case p of Put (Op_vector bs) \<Rightarrow> bs | Put_checksum \<Rightarrow> take 16 (d_md m') | _ \<Rightarrow> [] else [])
    \<and> \<not> d_write_data m'"
proof (cases p)
  case (Put q)
  with assms perform_checksum_only [of m e h q r m'] show ?thesis by (cases q) auto
next
  case Put_checksum
  with assms show ?thesis
    by (auto simp: put_checksum_def put_raw_def c_md5_length_def dest!: compute_checksum_out split: if_splits prod.splits sum.splits)
next
  case Get_checksum
  with assms show ?thesis
    by (auto simp: get_checksum_def dest!: compute_checksum_out split: if_splits prod.splits sum.splits)
qed (use assms in \<open>auto simp: put_int_def put_length_prefix_def when_writing_def checksum_update_def reset_checksum_def split: if_splits\<close>)

theorem checksum_only_writes_witness:
  "d_out (snd (call_member any_evp (ieee_host False) (Put (Op_vector [5, 6])) (fresh_marshaller\<lparr>d_write_data := False\<rparr>))) = [] @ [5, 6]"
  using checksum_only_writes [of "fresh_marshaller\<lparr>d_write_data := False\<rparr>" any_evp "ieee_host False" "Put (Op_vector [5, 6])"
      "Inr ()" "snd (call_member any_evp (ieee_host False) (Put (Op_vector [5, 6])) (fresh_marshaller\<lparr>d_write_data := False\<rparr>))"]
  by (simp add: fresh_marshaller_def new_marshaller_def any_evp_def put_vector_def checksum_update_def put_raw_def)

end
