(* ===== verification/Xdr_Stream.thy ===== *)
theory Xdr_Stream
  imports Dap_Util Byte_Memory
begin

text \<open>
  The DAP2 data stream: \<open>XDRStreamMarshaller.cc\<close>, \<open>XDRStreamUnMarshaller.cc\<close> and
  \<open>XDRUtils.cc\<close>, which move values through the Sun RPC XDR routines.  Those routines are a
  parameter, a record of encoders and decoders; the locale \<open>xdr_library\<close> states what RFC 4506
  and their manual page promise, and \<open>rfc4506\<close> is an instance.
\<close>

section \<open>The XDR routines\<close>

text \<open>The encoders \<open>XDRUtils::xdr_coder\<close> can name.\<close>

datatype coder = XDR_INT16 | XDR_UINT16 | XDR_INT32 | XDR_UINT32 | XDR_FLOAT32 | XDR_FLOAT64

definition xdr_coder :: "dap_type \<Rightarrow> coder option" where
  "xdr_coder t =
     (case t of
        dods_int16_c \<Rightarrow> Some XDR_INT16
      | dods_uint16_c \<Rightarrow> Some XDR_UINT16
      | dods_int32_c \<Rightarrow> Some XDR_INT32
      | dods_uint32_c \<Rightarrow> Some XDR_UINT32
      | dods_float32_c \<Rightarrow> Some XDR_FLOAT32
      | dods_float64_c \<Rightarrow> Some XDR_FLOAT64
      | _ \<Rightarrow> None)"

text \<open>
  An encoder yields the bytes it puts at the start of its sink, or fails; those with a
  variable amount of data get the room of the sink first.  A decoder gets the bytes of its
  source from the current position and yields the value and the number of bytes it used.
  The string, byte and array routines also get the largest length they accept; the array
  routines the number and the size of the elements in memory and the coder.
\<close>

record xdr =
  enc_char :: "u8 \<Rightarrow> u8 list option"
  enc_int16 :: "u16 \<Rightarrow> u8 list option"
  enc_uint16 :: "u16 \<Rightarrow> u8 list option"
  enc_int32 :: "u32 \<Rightarrow> u8 list option"
  enc_uint32 :: "u32 \<Rightarrow> u8 list option"
  enc_float :: "u32 \<Rightarrow> u8 list option"
  enc_double :: "u64 \<Rightarrow> u8 list option"
  enc_int :: "u32 \<Rightarrow> u8 list option"
  enc_string :: "nat \<Rightarrow> nat \<Rightarrow> u8 list \<Rightarrow> u8 list option"
  enc_opaque :: "nat \<Rightarrow> u8 list \<Rightarrow> u8 list option"
  enc_bytes :: "nat \<Rightarrow> nat \<Rightarrow> u8 list \<Rightarrow> u8 list option"
  enc_array :: "nat \<Rightarrow> nat \<Rightarrow> nat \<Rightarrow> nat \<Rightarrow> coder \<Rightarrow> u8 list \<Rightarrow> u8 list option"
  dec_char :: "u8 list \<Rightarrow> (u8 \<times> nat) option"
  dec_int16 :: "u8 list \<Rightarrow> (u16 \<times> nat) option"
  dec_uint16 :: "u8 list \<Rightarrow> (u16 \<times> nat) option"
  dec_int32 :: "u8 list \<Rightarrow> (u32 \<times> nat) option"
  dec_uint32 :: "u8 list \<Rightarrow> (u32 \<times> nat) option"
  dec_float :: "u8 list \<Rightarrow> (u32 \<times> nat) option"
  dec_double :: "u8 list \<Rightarrow> (u64 \<times> nat) option"
  dec_int :: "u8 list \<Rightarrow> (u32 \<times> nat) option"
  dec_string :: "nat \<Rightarrow> u8 list \<Rightarrow> (u8 list \<times> nat) option"
  dec_opaque :: "nat \<Rightarrow> u8 list \<Rightarrow> (u8 list \<times> nat) option"
  dec_bytes :: "nat \<Rightarrow> u8 list \<Rightarrow> (u8 list \<times> nat) option"
  dec_array :: "nat \<Rightarrow> nat \<Rightarrow> coder \<Rightarrow> u8 list \<Rightarrow> (u8 list list \<times> nat) option"

section \<open>The marshaller\<close>

text \<open>
  Every encoding goes to a buffer and from there to the output, which is the state.
\<close>

definition newline_char :: char where "newline_char = CHR 0x0A"

definition io_error :: "string \<Rightarrow> exn" where
  "io_error what = Error unknown_error (''Network I/O Error. '' @ what)"

definition bug_in_dods :: string where
  "bug_in_dods = newline_char # ''This may be due to a bug in DODS, on the server or a'' @ newline_char # ''problem with the network connection.''"

definition bug_in_libdap :: string where
  "bug_in_libdap = newline_char # ''This may be due to a bug in libdap, on the server or a'' @ newline_char # ''problem with the network connection.''"

definition no_position :: "string \<Rightarrow> exn" where
  "no_position what = io_error (''Could not send '' @ what @ '' data - unable to get stream position.'' @ bug_in_dods)"

text \<open>
  The common shape: encode, take the position of the sink as the number of bytes written,
  fail when it is 0, and write that much of the buffer.
\<close>

definition send :: "exn \<Rightarrow> string \<Rightarrow> u8 list option \<Rightarrow> (u8 list, unit) action" where
  "send failed what encoded out =
     (case encoded of
        None \<Rightarrow> (Inl failed, out)
      | Some bs \<Rightarrow> if bs = [] then (Inl (no_position what), out) else (Inr (), out @ bs))"

definition xdr_put_byte :: "xdr \<Rightarrow> u8 \<Rightarrow> (u8 list, unit) action" where
  "xdr_put_byte x val = send (io_error (''Could not send byte data.'' @ bug_in_dods)) ''byte'' (enc_char x val)"

definition xdr_put_int16 :: "xdr \<Rightarrow> u16 \<Rightarrow> (u8 list, unit) action" where
  "xdr_put_int16 x val = send (io_error (''Could not send int 16 data.'' @ bug_in_libdap)) ''int 16'' (enc_int16 x val)"

definition xdr_put_int32 :: "xdr \<Rightarrow> u32 \<Rightarrow> (u8 list, unit) action" where
  "xdr_put_int32 x val = send (io_error (''Culd not read int 32 data.'' @ bug_in_libdap)) ''int 32'' (enc_int32 x val)"

definition xdr_put_float32 :: "xdr \<Rightarrow> u32 \<Rightarrow> (u8 list, unit) action" where
  "xdr_put_float32 x val = send (io_error (''Could not send float 32 data.'' @ bug_in_libdap)) ''float 32'' (enc_float x val)"

definition xdr_put_float64 :: "xdr \<Rightarrow> u64 \<Rightarrow> (u8 list, unit) action" where
  "xdr_put_float64 x val = send (io_error (''Could not send float 64 data.'' @ bug_in_libdap)) ''float 64'' (enc_double x val)"

definition bug_or_problem :: string where
  "bug_or_problem = '' This may be due to a'' @ newline_char # ''bug in libdap or a problem with the network connection.''"

definition xdr_put_uint16 :: "xdr \<Rightarrow> u16 \<Rightarrow> (u8 list, unit) action" where
  "xdr_put_uint16 x val = send (io_error (''Could not send uint 16 data.'' @ bug_or_problem)) ''uint 16'' (enc_uint16 x val)"

definition xdr_put_uint32 :: "xdr \<Rightarrow> u32 \<Rightarrow> (u8 list, unit) action" where
  "xdr_put_uint32 x val = send (io_error (''Could not send uint 32 data.'' @ bug_or_problem)) ''uint 32'' (enc_uint32 x val)"

text \<open>
  A C string ends at its first NUL.  The buffer of \<open>put_str\<close> has the \<open>int\<close> size
  \<open>length + 8\<close>: a negative one asks for an impossible vector.
\<close>

definition c_bytes :: "u8 list \<Rightarrow> u8 list" where
  "c_bytes s = takeWhile (\<lambda>b. b \<noteq> 0) s"

definition buffer_size :: "nat \<Rightarrow> nat res" where
  "buffer_size n = (let sz = sint (of_nat n :: u32) in if sz < 0 then Inl Bad_Alloc else Inr (nat sz))"

definition xdr_put_str :: "xdr \<Rightarrow> u8 list \<Rightarrow> (u8 list, unit) action" where
  "xdr_put_str x val out =
     (case buffer_size (length val + 8) of
        Inl e \<Rightarrow> (Inl e, out)
      | Inr sz \<Rightarrow> send (io_error (''Could not send string data.'' @ bug_in_libdap)) ''string''
                    (enc_string x sz sz (c_bytes val)) out)"

definition xdr_put_url :: "xdr \<Rightarrow> u8 list \<Rightarrow> (u8 list, unit) action" where
  "xdr_put_url x val = xdr_put_str x val"

definition sink_size :: nat where "sink_size = 256"

definition xdr_put_opaque :: "xdr \<Rightarrow> u8 list \<Rightarrow> (u8 list, unit) action" where
  "xdr_put_opaque x val out =
     (if length val > sink_size
      then (Inl (io_error ''Could not send opaque data - length of opaque data larger than allowed''), out)
      else send (io_error (''Could not send opaque data.'' @ bug_in_libdap)) ''opaque'' (enc_opaque x sink_size val) out)"

definition bug_or_a :: string where
  "bug_or_a = newline_char # ''This may be due to a bug in libdap or a'' @ newline_char # ''problem with the network connection.''"

definition xdr_put_int :: "xdr \<Rightarrow> u32 \<Rightarrow> (u8 list, unit) action" where
  "xdr_put_int x val =
     send (Error unknown_error (''Network I/O Error(1). Could not send int data.'' @ bug_or_a)) ''int'' (enc_int x val)"

text \<open>
  \<open>put_vector\<close> of bytes: \<open>val\<close> is the memory, or null; the count is sent twice, once by
  \<open>put_int\<close>, once by \<open>xdr_bytes\<close>.
\<close>

definition xdr_put_vector :: "xdr \<Rightarrow> u8 list option \<Rightarrow> u32 \<Rightarrow> (u8 list, unit) action" where
  "xdr_put_vector x val num =
     (case val of
        None \<Rightarrow> throwS (InternalErr ''Could not send byte vector data. Buffer pointer is not set.'')
      | Some mem \<Rightarrow> bindS (xdr_put_int x num) (\<lambda>_.
          let room = unat (num + 8) in
          send (Error unknown_error (''Network I/O Error(2). Could not send byte vector data.'' @ bug_or_a)) ''byte vector''
            (if unat num > room then None else enc_bytes x room room (take (unat num) mem))))"

definition xdr_put_vector_of :: "xdr \<Rightarrow> u8 list option \<Rightarrow> u32 \<Rightarrow> nat \<Rightarrow> dap_type \<Rightarrow> (u8 list, unit) action" where
  "xdr_put_vector_of x val num width t =
     (case val of
        None \<Rightarrow> throwS (InternalErr ''Buffer pointer is not set.'')
      | Some mem \<Rightarrow> bindS (xdr_put_int x num) (\<lambda>_ out.
          let use_width = (if width < 4 then 4 else width) in
          case buffer_size (unat num * use_width + 4) of
            Inl e \<Rightarrow> (Inl e, out)
          | Inr sz \<Rightarrow>
              (case xdr_coder t of
                 None \<Rightarrow> (Inl Undefined, out)
               | Some c \<Rightarrow> send (Error unknown_error (''Network I/O Error(2). Could not send vector data.'' @ bug_or_a)) ''vector''
                   (enc_array x sz sz (unat num) width c mem) out)))"

section \<open>The unmarshaller\<close>

text \<open>
  The object: what the input stream has left, its \<open>rdstate()\<close> (2 is \<open>eofbit\<close>, 4 \<open>failbit\<close>,
  1 \<open>badbit\<close>), the buffer \<open>d_buf\<close> and the position of the XDR source in it.
\<close>

record xdr_in =
  x_in :: "u8 list"
  x_state :: nat
  x_buf :: "u8 list"
  x_pos :: nat

definition source_size :: nat where "source_size = 4096"

definition new_xdr_in :: "u8 list \<Rightarrow> u8 list \<Rightarrow> xdr_in" where
  "new_xdr_in buf inp = \<lparr>x_in = inp, x_state = 0, x_buf = buf, x_pos = 0\<rparr>"

text \<open>\<open>istream::read\<close> without exceptions: what it could read, and the stream afterwards.\<close>

definition stream_read :: "nat \<Rightarrow> xdr_in \<Rightarrow> u8 list \<times> xdr_in" where
  "stream_read n m =
     (if x_state m \<noteq> 0 then ([], m\<lparr>x_state := or (x_state m) 4\<rparr>)
      else if length (x_in m) < n then (x_in m, m\<lparr>x_in := [], x_state := 6\<rparr>)
      else (take n (x_in m), m\<lparr>x_in := drop n (x_in m)\<rparr>))"

definition overwrite :: "nat \<Rightarrow> u8 list \<Rightarrow> u8 list \<Rightarrow> u8 list" where
  "overwrite off bs mem = take off mem @ bs @ drop (off + length bs) mem"

definition read_to_buf :: "nat \<Rightarrow> nat \<Rightarrow> xdr_in \<Rightarrow> xdr_in" where
  "read_to_buf off n m = (case stream_read n m of (bs, m') \<Rightarrow> m'\<lparr>x_buf := overwrite off bs (x_buf m')\<rparr>)"

text \<open>Set the source to the start of the buffer, decode, and move it past the value.\<close>

definition decode :: "exn \<Rightarrow> (u8 list \<Rightarrow> ('v \<times> nat) option) \<Rightarrow> (xdr_in, 'v) action" where
  "decode failed dec m =
     (case dec (x_buf m) of
        None \<Rightarrow> (Inl failed, m\<lparr>x_pos := 0\<rparr>)
      | Some (v, n) \<Rightarrow> (Inr v, m\<lparr>x_pos := n\<rparr>))"

definition xdr_get_byte :: "xdr \<Rightarrow> (xdr_in, u8) action" where
  "xdr_get_byte x m =
     (let m' = read_to_buf 0 4 m in
      if and (x_state m') 5 \<noteq> 0
      then (if and (x_state m') 2 \<noteq> 0 then (Inl (Error unknown_error ''Premature EOF in input stream''), m'\<lparr>x_pos := 0\<rparr>)
            else (Inl (Error unknown_error (digit_char (x_state m') # ''rror reading from input stream: '')), m'\<lparr>x_pos := 0\<rparr>))
      else decode (io_error ''Could not read byte data.'') (dec_char x) m')"

definition xdr_get_int16 :: "xdr \<Rightarrow> (xdr_in, u16) action" where
  "xdr_get_int16 x m = decode (io_error ''Could not read int 16 data.'') (dec_int16 x) (read_to_buf 0 4 m)"

definition xdr_get_int32 :: "xdr \<Rightarrow> (xdr_in, u32) action" where
  "xdr_get_int32 x m = decode (io_error ''Could not read int 32 data.'') (dec_int32 x) (read_to_buf 0 4 m)"

definition xdr_get_float32 :: "xdr \<Rightarrow> (xdr_in, u32) action" where
  "xdr_get_float32 x m = decode (io_error ''Could not read float 32 data.'') (dec_float x) (read_to_buf 0 4 m)"

definition xdr_get_float64 :: "xdr \<Rightarrow> (xdr_in, u64) action" where
  "xdr_get_float64 x m = decode (io_error ''Could not read float 64 data.'') (dec_double x) (read_to_buf 0 8 m)"

definition xdr_get_uint16 :: "xdr \<Rightarrow> (xdr_in, u16) action" where
  "xdr_get_uint16 x m = decode (io_error ''Could not read uint 16 data.'') (dec_uint16 x) (read_to_buf 0 4 m)"

definition xdr_get_uint32 :: "xdr \<Rightarrow> (xdr_in, u32) action" where
  "xdr_get_uint32 x m = decode (io_error ''Could not read uint 32 data.'') (dec_uint32 x) (read_to_buf 0 4 m)"

definition xdr_get_int :: "xdr \<Rightarrow> (xdr_in, u32) action" where
  "xdr_get_int x m = decode (Error unknown_error ''Network I/O Error(1).'') (dec_int x) (read_to_buf 0 4 m)"

text \<open>
  A second source over a buffer of its own: the four bytes of the count that are in \<open>d_buf\<close>
  and \<open>n\<close> more from the stream (bytes that could not be read stay 0).
\<close>

definition own_buffer :: "nat \<Rightarrow> xdr_in \<Rightarrow> u8 list \<times> xdr_in" where
  "own_buffer n m =
     (case stream_read n m of (bs, m') \<Rightarrow>
        (overwrite 4 bs (take 4 (x_buf m) @ replicate n 0), m'))"

definition max_str_len :: nat where "max_str_len = 65534"

text \<open>
  \<open>get_str\<close>: the length is an \<open>int\<close>, rounded up to a multiple of 4; that and adding 4
  overflow for the largest lengths, and a negative count cannot be read.
\<close>

definition xdr_get_str :: "xdr \<Rightarrow> (xdr_in, u8 list) action" where
  "xdr_get_str x = bindS (xdr_get_int x) (\<lambda>len m.
     let i = sint len in
     if 2147483640 < i then (Inl Undefined, m)
     else let r = c_div (i + 3) 4 * 4 in
     if r < 0 then (Inl Undefined, m)
     else if 4096 < r + 4
     then (case own_buffer (nat r) m of (buf, m') \<Rightarrow>
             (case dec_string x max_str_len buf of
                None \<Rightarrow> (Inl (io_error ''Could not read string data.''), m')
              | Some (s, n) \<Rightarrow> (Inr (c_bytes s), m')))
     else bindS (decode (io_error ''Could not read string data.'') (dec_string x max_str_len))
            (\<lambda>s. returnS (c_bytes s)) (read_to_buf 4 (nat r) m))"

definition xdr_get_url :: "xdr \<Rightarrow> (xdr_in, u8 list) action" where
  "xdr_get_url x = xdr_get_str x"

text \<open>
  \<open>get_opaque\<close>: the caller's memory has the \<open>len\<close> bytes it asked for; the code decodes
  \<open>len + (len & 3)\<close> bytes into it, and leaves it alone when decoding fails.
\<close>

definition xdr_get_opaque :: "xdr \<Rightarrow> u8 list \<Rightarrow> (xdr_in, u8 list) action" where
  "xdr_get_opaque x val m =
     (let len = of_nat (length val) :: u32; n = len + and len 3 in
      if 4096 < sint n then (Inl (io_error ''Length of opaque data larger than allowed''), m)
      else let m' = read_to_buf 0 (unat n) m in
      case dec_opaque x (unat n) (x_buf m') of
        None \<Rightarrow> (Inr val, m'\<lparr>x_pos := 0\<rparr>)
      | Some (bs, k) \<Rightarrow>
          if length val < length bs then (Inl Undefined, m') else (Inr (overwrite 0 bs val), m'\<lparr>x_pos := k\<rparr>))"


text \<open>
  \<open>get_vector\<close> of bytes into the \<open>cap\<close> bytes at \<open>*val\<close>.  The count is rounded with
  \<open>i += i & 3\<close>.  A block that does not fit in \<open>d_buf\<close> is read into a buffer of its own, but
  decoded from \<open>d_buf\<close>, at the position where reading the count left its source.
\<close>

definition store :: "u8 list \<Rightarrow> u8 list \<Rightarrow> u8 list res" where
  "store bs val = (if length val < length bs then Inl Undefined else Inr (overwrite 0 bs val))"

definition dods_max_array :: nat where "dods_max_array = 2147483647"

definition no_byte_array :: exn where "no_byte_array = io_error ''Could not read byte array data.''"

definition xdr_get_vector :: "xdr \<Rightarrow> u8 list \<Rightarrow> (xdr_in, nat \<times> u8 list) action" where
  "xdr_get_vector x val = bindS (xdr_get_int x) (\<lambda>count m.
     let i = sint (count + and count 3) in
     if i < 0 \<or> 2147483643 < i then (Inl Undefined, m)
     else if 4096 < i + 4
     then (case own_buffer (nat i) m of (buf, m') \<Rightarrow>
             (case dec_bytes x dods_max_array (drop (x_pos m') (x_buf m')) of
                None \<Rightarrow> (Inl no_byte_array, m')
              | Some (bs, n) \<Rightarrow> (map_sum id (Pair (length bs)) (store bs val), m'\<lparr>x_pos := x_pos m' + n\<rparr>)))
     else bindS (decode no_byte_array (dec_bytes x dods_max_array))
            (\<lambda>bs m'. (map_sum id (Pair (length bs)) (store bs val), m')) (read_to_buf 4 (nat i) m))"

text \<open>The elements \<open>xdr_array\<close> decoded, put \<open>elsize\<close> bytes apart.\<close>

fun place :: "nat \<Rightarrow> nat \<Rightarrow> u8 list list \<Rightarrow> u8 list \<Rightarrow> u8 list res" where
  "place off elsize [] mem = Inr mem"
| "place off elsize (e # es) mem =
     (if length mem < off + length e then Inl Undefined
      else place (off + elsize) elsize es (overwrite off e mem))"

text \<open>
  \<open>get_vector\<close> of wider elements: the block goes to \<open>d_buf\<close> behind the count when its size
  alone is not larger than \<open>d_buf\<close>, so the last four bytes may lie past its end.
\<close>

definition no_array :: exn where "no_array = io_error ''Could not read array data.''"

definition xdr_get_vector_of :: "xdr \<Rightarrow> u8 list \<Rightarrow> nat \<Rightarrow> dap_type \<Rightarrow> (xdr_in, nat \<times> u8 list) action" where
  "xdr_get_vector_of x val width t = bindS (xdr_get_int x) (\<lambda>count m.
     let elsize = width + and width 3; sz = sint (count * of_nat elsize) in
     case xdr_coder t of
       None \<Rightarrow> (Inl Undefined, m)
     | Some c \<Rightarrow>
         if sz < 0 \<or> 2147483643 < sz then (Inl Undefined, m)
         else if 4096 < sz
         then (case own_buffer (nat sz) m of (buf, m') \<Rightarrow>
                 (case dec_array x dods_max_array elsize c buf of
                    None \<Rightarrow> (Inl no_array, m')
                  | Some (es, n) \<Rightarrow> (map_sum id (Pair (length es)) (place 0 elsize es val), m')))
         else if source_size < nat sz + 4 then (Inl Undefined, m)
         else bindS (decode no_array (dec_array x dods_max_array elsize c))
                (\<lambda>es m'. (map_sum id (Pair (length es)) (place 0 elsize es val), m')) (read_to_buf 4 (nat sz) m))"

section \<open>What the XDR routines promise\<close>

definition round4 :: "nat \<Rightarrow> nat" where
  "round4 n = (n + 3) div 4 * 4"

text \<open>The size of an element in memory and in the stream.\<close>

primrec host_size :: "coder \<Rightarrow> nat" where
  "host_size XDR_INT16 = 2" | "host_size XDR_UINT16 = 2" | "host_size XDR_INT32 = 4"
| "host_size XDR_UINT32 = 4" | "host_size XDR_FLOAT32 = 4" | "host_size XDR_FLOAT64 = 8"

definition wire_size :: "coder \<Rightarrow> nat" where
  "wire_size c = (if host_size c < 4 then 4 else host_size c)"

text \<open>Every value has an encoding of \<open>n\<close> bytes that decodes to it.\<close>

definition scalar_codec :: "nat \<Rightarrow> ('v \<Rightarrow> u8 list option) \<Rightarrow> (u8 list \<Rightarrow> ('v \<times> nat) option) \<Rightarrow> bool" where
  "scalar_codec n enc dec \<longleftrightarrow>
     (\<forall>v. \<exists>bs. enc v = Some bs \<and> length bs = n \<and> (\<forall>rest. dec (bs @ rest) = Some (v, n)))"

text \<open>
  A counted block: the number of its items as an \<open>int\<close>, then \<open>n\<close> bytes; decoding it yields
  \<open>v\<close> when the count is acceptable.
\<close>

definition counted :: "xdr \<Rightarrow> nat \<Rightarrow> nat \<Rightarrow> u8 list option \<Rightarrow> (nat \<Rightarrow> u8 list \<Rightarrow> ('v \<times> nat) option) \<Rightarrow> 'v \<Rightarrow> bool" where
  "counted x items n enc dec v \<longleftrightarrow>
     (\<exists>ls body. enc_int x (of_nat items) = Some ls \<and> enc = Some (ls @ body) \<and> length body = n \<and>
        (\<forall>lim rest. items \<le> lim \<longrightarrow> dec lim (ls @ body @ rest) = Some (v, 4 + n)))"

locale xdr_library =
  fixes x :: xdr
  assumes char: "scalar_codec 4 (enc_char x) (dec_char x)"
    and int16: "scalar_codec 4 (enc_int16 x) (dec_int16 x)"
    and uint16: "scalar_codec 4 (enc_uint16 x) (dec_uint16 x)"
    and int32: "scalar_codec 4 (enc_int32 x) (dec_int32 x)"
    and uint32: "scalar_codec 4 (enc_uint32 x) (dec_uint32 x)"
    and float: "scalar_codec 4 (enc_float x) (dec_float x)"
    and double: "scalar_codec 8 (enc_double x) (dec_double x)"
    and int: "scalar_codec 4 (enc_int x) (dec_int x)"
    and string: "0 \<notin> set s \<Longrightarrow> length s \<le> lim \<Longrightarrow> 4 + round4 (length s) \<le> room \<Longrightarrow> length s < 2 ^ 32 \<Longrightarrow>
      counted x (length s) (round4 (length s)) (enc_string x room lim s) (dec_string x) s"
    and bytes: "length bs \<le> lim \<Longrightarrow> 4 + round4 (length bs) \<le> room \<Longrightarrow> length bs < 2 ^ 32 \<Longrightarrow>
      counted x (length bs) (round4 (length bs)) (enc_bytes x room lim bs) (dec_bytes x) bs"
    and opaque: "round4 (length bs) \<le> room \<Longrightarrow>
      \<exists>body. enc_opaque x room bs = Some body \<and> length body = round4 (length bs) \<and>
        (\<forall>rest. dec_opaque x (length bs) (body @ rest) = Some (bs, round4 (length bs)))"
    and array: "length mem = n * host_size c \<Longrightarrow> n \<le> lim \<Longrightarrow> 4 + n * wire_size c \<le> room \<Longrightarrow> n < 2 ^ 32 \<Longrightarrow>
      \<exists>es. concat es = mem \<and> length es = n \<and> (\<forall>e \<in> set es. length e = host_size c) \<and>
        counted x n (n * wire_size c) (enc_array x room lim n (host_size c) c mem) (\<lambda>lim. dec_array x lim elsize c) es"

section \<open>Reading back what was written\<close>

text \<open>An unmarshaller on a stream without errors; a read that takes exactly \<open>bs\<close> and yields \<open>v\<close>.\<close>

definition ready :: "xdr_in \<Rightarrow> bool" where
  "ready m \<longleftrightarrow> x_state m = 0 \<and> length (x_buf m) = source_size"

definition takes :: "(xdr_in, 'v) action \<Rightarrow> u8 list \<Rightarrow> 'v \<Rightarrow> bool" where
  "takes get bs v \<longleftrightarrow>
     (\<forall>m rest. ready m \<and> x_in m = bs @ rest \<longrightarrow> (\<exists>m'. get m = (Inr v, m') \<and> ready m' \<and> x_in m' = rest))"

definition appends :: "(u8 list, unit) action \<Rightarrow> u8 list \<Rightarrow> bool" where
  "appends put bs \<longleftrightarrow> (\<forall>out. put out = (Inr (), out @ bs))"

lemma takesD: "takes get bs v \<Longrightarrow> ready m \<Longrightarrow> x_in m = bs @ rest \<Longrightarrow>
    \<exists>m'. get m = (Inr v, m') \<and> ready m' \<and> x_in m' = rest"
  by (auto simp: takes_def)

lemma takes_bind:
  assumes "takes get as v" "takes (f v) bs w"
  shows "takes (bindS get f) (as @ bs) w"
  unfolding takes_def
proof (intro allI impI, elim conjE)
  fix m rest assume m: "ready m" "x_in m = (as @ bs) @ rest"
  then obtain m1 where m1: "get m = (Inr v, m1)" "ready m1" "x_in m1 = bs @ rest"
    using takesD [OF assms(1), of m "bs @ rest"] by auto
  with takesD [OF assms(2) m1(2,3)] show "\<exists>m'. bindS get f m = (Inr w, m') \<and> ready m' \<and> x_in m' = rest"
    by auto
qed

lemma takes_return: "takes (returnS v) [] v"
  by (simp add: takes_def)

lemma appends_bind: "appends p as \<Longrightarrow> appends q bs \<Longrightarrow> appends (bindS p (\<lambda>_. q)) (as @ bs)"
  by (simp add: appends_def)

lemma send_appends: "bs \<noteq> [] \<Longrightarrow> appends (send e w (Some bs)) bs"
  by (simp add: appends_def send_def)

lemma length_overwrite: "off + length bs \<le> length mem \<Longrightarrow> length (overwrite off bs mem) = length mem"
  by (simp add: overwrite_def)

lemma read_to_buf_ready:
  assumes "ready m" "x_in m = bs @ rest" "off + length bs \<le> source_size"
  shows "ready (read_to_buf off (length bs) m)" "x_in (read_to_buf off (length bs) m) = rest"
    "x_buf (read_to_buf off (length bs) m) = take off (x_buf m) @ bs @ drop (off + length bs) (x_buf m)"
    "x_pos (read_to_buf off (length bs) m) = x_pos m"
  using assms by (simp_all add: read_to_buf_def stream_read_def ready_def overwrite_def)

lemma takes_scalar:
  assumes "scalar_codec n enc dec" "enc v = Some bs" "n \<le> source_size"
  shows "takes (\<lambda>m. decode e dec (read_to_buf 0 n m)) bs v" "length bs = n"
proof -
  have bs: "length bs = n" "dec (bs @ rest) = Some (v, n)" for rest
    using assms(1,2) by (auto simp: scalar_codec_def) (metis option.inject)+
  show "length bs = n" by (rule bs)
  show "takes (\<lambda>m. decode e dec (read_to_buf 0 n m)) bs v"
    unfolding takes_def
  proof (intro allI impI, elim conjE)
    fix m rest assume m: "ready m" "x_in m = bs @ rest"
    have "0 + length bs \<le> source_size" using assms(3) bs(1) by simp
    note r = read_to_buf_ready [OF m this, unfolded bs(1)]
    then show "\<exists>m'. decode e dec (read_to_buf 0 n m) = (Inr v, m') \<and> ready m' \<and> x_in m' = rest"
      by (simp add: decode_def bs(2) ready_def)
  qed
qed

lemma codec_obtain:
  assumes "scalar_codec n enc dec"
  obtains bs where "enc v = Some bs" "length bs = n"
  using assms by (auto simp: scalar_codec_def)

lemma scalar_round_trip:
  assumes "scalar_codec n enc dec" "0 < n" "n \<le> source_size"
  shows "\<exists>bs. appends (send e w (enc v)) bs \<and> takes (\<lambda>m. decode e' dec (read_to_buf 0 n m)) bs v"
proof -
  obtain bs where bs: "enc v = Some bs" "length bs = n" using codec_obtain [OF assms(1)] .
  then have "bs \<noteq> []" using assms(2) by auto
  then have "appends (send e w (enc v)) bs" unfolding bs(1) by (rule send_appends)
  with takes_scalar(1) [OF assms(1) bs(1) assms(3)] show ?thesis by blast
qed

lemma buffer_size_small: "n < 2 ^ 31 \<Longrightarrow> buffer_size n = Inr n"
  by (simp add: buffer_size_def sint_of_nat_small)

lemma c_bytes_id: "0 \<notin> set s \<Longrightarrow> c_bytes s = s"
  by (auto simp: c_bytes_def takeWhile_eq_all_conv)

lemma place_concat:
  assumes "\<forall>e \<in> set es. length e = w"
  shows "length pre = off \<Longrightarrow> length val = length (concat es) \<Longrightarrow> place off w es (pre @ val) = Inr (pre @ concat es)"
  using assms
proof (induction es arbitrary: off pre val)
  case (Cons e es)
  then have l: "length e = w" "length val = w + length (concat es)" by simp_all
  then have "overwrite off e (pre @ val) = (pre @ e) @ drop w val" using Cons.prems(1) by (simp add: overwrite_def)
  moreover have "place (off + w) w es ((pre @ e) @ drop w val) = Inr ((pre @ e) @ concat es)"
    using Cons.prems l by (intro Cons.IH) simp_all
  ultimately show ?case using Cons.prems(1) l by simp
qed simp

lemma place_overrun:
  "\<forall>e \<in> set es. length e = w \<Longrightarrow> es \<noteq> [] \<Longrightarrow> length mem < off + (length es - 1) * k + w \<Longrightarrow> place off k es mem = Inl Undefined"
proof (induction es arbitrary: off mem)
  case (Cons e es)
  show ?case
  proof (cases "es = [] \<or> length mem < off + length e")
    case False
    then have "length (overwrite off e mem) < (off + k) + (length es - 1) * k + w"
      using Cons.prems by (cases es) (simp_all add: length_overwrite overwrite_def)
    with False Cons show ?thesis by simp
  qed (use Cons.prems in auto)
qed simp

lemma round4_bounds: "n \<le> round4 n" "round4 n \<le> n + 3"
  unfolding round4_def by linarith+

context xdr_library
begin

text \<open>Reading an \<open>int\<close> also leaves its encoding at the start of the buffer.\<close>

lemma int_read:
  assumes "enc_int x v = Some ls" "ready m" "x_in m = ls @ rest"
  shows "\<exists>m'. xdr_get_int x m = (Inr v, m') \<and> ready m' \<and> x_in m' = rest \<and> take 4 (x_buf m') = ls \<and> x_pos m' = 4"
proof -
  have l: "length ls = 4" and d: "dec_int x (ls @ r) = Some (v, 4)" for r
    using int assms(1) by (auto simp: scalar_codec_def) (metis option.inject)+
  have "0 + length ls \<le> source_size" using l by (simp add: source_size_def)
  note r = read_to_buf_ready [OF assms(2,3) this, unfolded l]
  then show ?thesis using l by (simp add: xdr_get_int_def decode_def d ready_def)
qed

lemma int_encoded: "enc_int x v = Some ls \<Longrightarrow> length ls = 4"
  using int by (auto simp: scalar_codec_def) (metis option.inject)

lemma int_takes: "enc_int x v = Some ls \<Longrightarrow> takes (xdr_get_int x) ls v"
  unfolding takes_def using int_read by blast

lemma byte_round_trip: "\<exists>bs. appends (xdr_put_byte x v) bs \<and> takes (xdr_get_byte x) bs v"
proof -
  obtain bs where bs: "enc_char x v = Some bs" "length bs = 4" using codec_obtain [OF char] .
  have t: "takes (\<lambda>m. decode e (dec_char x) (read_to_buf 0 4 m)) bs v" for e
    using takes_scalar(1) [OF char bs(1)] by (simp add: source_size_def)
  have "takes (xdr_get_byte x) bs v"
    unfolding takes_def
  proof (intro allI impI, elim conjE)
    fix m rest assume m: "ready m" "x_in m = bs @ rest"
    have "x_state (read_to_buf 0 4 m) = 0"
      using read_to_buf_ready(1) [OF m, of 0] bs(2) by (simp add: source_size_def ready_def)
    then show "\<exists>m'. xdr_get_byte x m = (Inr v, m') \<and> ready m' \<and> x_in m' = rest"
      using takesD [OF t m] by (simp add: xdr_get_byte_def Let_def)
  qed
  moreover have "appends (xdr_put_byte x v) bs"
    unfolding xdr_put_byte_def bs(1) using bs(2) by (intro send_appends) auto
  ultimately show ?thesis by blast
qed

lemma string_round_trip:
  assumes "0 \<notin> set s" "length s \<le> max_str_len"
  shows "\<exists>bs. appends (xdr_put_str x s) bs \<and> takes (xdr_get_str x) bs s"
proof -
  let ?n = "length s" let ?k = "round4 (length s)"
  have n: "?n \<le> 65534" using assms(2) by (simp add: max_str_len_def)
  obtain ls body where b: "enc_int x (of_nat ?n) = Some ls" "enc_string x (?n + 8) (?n + 8) s = Some (ls @ body)"
      "length body = ?k" "\<And>lim rest. ?n \<le> lim \<Longrightarrow> dec_string x lim (ls @ body @ rest) = Some (s, 4 + ?k)"
    using string [OF assms(1), of "?n + 8" "?n + 8"] n round4_bounds [of ?n] by (auto simp: counted_def)
  have l: "length ls = 4" by (rule int_encoded [OF b(1)])
  have "appends (xdr_put_str x s) (ls @ body)"
    using n l by (auto simp: appends_def xdr_put_str_def buffer_size_small c_bytes_id assms(1) b(2) send_def)
  moreover have "takes (xdr_get_str x) (ls @ body) s"
    unfolding takes_def
  proof (intro allI impI, elim conjE)
    fix m rest assume m: "ready m" "x_in m = (ls @ body) @ rest"
    then obtain m1 where m1: "xdr_get_int x m = (Inr (of_nat ?n), m1)" "ready m1" "x_in m1 = body @ rest" "take 4 (x_buf m1) = ls"
      using int_read [OF b(1), of m "body @ rest"] by auto
    have i: "sint (of_nat ?n :: u32) = int ?n" using n by (simp add: sint_of_nat_small)
    have r: "c_div (int ?n + 3) 4 * 4 = int ?k" by (simp add: c_div_nonneg round4_def zdiv_int)
    show "\<exists>m'. xdr_get_str x m = (Inr s, m') \<and> ready m' \<and> x_in m' = rest"
    proof (cases "4096 < ?k + 4")
      case True
      have "overwrite 4 body (ls @ replicate ?k 0) = ls @ body" using l b(3) by (simp add: overwrite_def)
      then show ?thesis using m1 b(3) n True b(4) [of max_str_len "[]"] assms(2)
        by (simp add: xdr_get_str_def Let_def i r own_buffer_def stream_read_def ready_def c_bytes_id [OF assms(1)])
    next
      case False
      have f: "4 + length body \<le> source_size" using False b(3) by (simp add: source_size_def)
      note r4 = read_to_buf_ready [OF m1(2,3) f, unfolded b(3) m1(4)]
      then show ?thesis using m1 n False b(4) [OF assms(2)]
        by (simp add: xdr_get_str_def Let_def i r decode_def ready_def c_bytes_id [OF assms(1)])
    qed
  qed
  ultimately show ?thesis by blast
qed

end

text \<open>Rounding with \<open>i + (i & 3)\<close>.\<close>

definition and_round :: "nat \<Rightarrow> nat" where
  "and_round n = n + n mod 4"

lemma and_three: "and (w :: u32) 3 = of_nat (unat w mod 4)"
proof -
  have "(3 :: u32) = mask 2" by (simp add: mask_eq_exp_minus_1)
  then have "and w 3 = take_bit 2 w" by (simp only: take_bit_eq_mask)
  moreover have "unat (take_bit 2 w) = unat (of_nat (unat w mod 4) :: u32)"
    by (simp only: unsigned_take_bit_eq unat_of_nat take_bit_eq_mod) (simp add: unat_mod)
  ultimately show ?thesis by (simp only: word_unat_eq_iff)
qed

lemma and_round_u32:
  assumes "n < 2 ^ 30" shows "sint (of_nat n + and (of_nat n) 3 :: u32) = int (and_round n)"
proof -
  have "unat (of_nat n :: u32) = n" using assms by (simp add: unat_of_nat take_bit_nat_eq_self)
  then have "of_nat n + and (of_nat n) 3 = (of_nat (and_round n) :: u32)"
    by (simp add: and_three and_round_def)
  moreover have "n mod 4 < 4" by simp
  then have "and_round n < 2 ^ 31" using assms unfolding and_round_def by simp
  ultimately show ?thesis by (simp add: sint_of_nat_small)
qed

lemma and_round_even: "n mod 4 \<noteq> 1 \<Longrightarrow> n mod 4 \<noteq> 3 \<Longrightarrow> and_round n = round4 n"
proof -
  assume "n mod 4 \<noteq> 1" "n mod 4 \<noteq> 3"
  moreover have "n mod 4 < 4" "n = 4 * (n div 4) + n mod 4" by simp_all
  ultimately have "n = 4 * (n div 4) \<or> n = 4 * (n div 4) + 2" by linarith
  then obtain q where "n = 4 * q \<or> n = 4 * q + 2" by blast
  then show ?thesis
  proof
    assume n: "n = 4 * q"
    have "(4 * q + 3) div 4 = q" by linarith
    then show ?thesis by (simp add: n and_round_def round4_def)
  next
    assume n: "n = 4 * q + 2"
    have "(4 * q + 2 + 3) div 4 = q + 1" "(4 * q + 2) mod 4 = 2" by (linarith, presburger)
    then show ?thesis by (simp add: n and_round_def round4_def)
  qed
qed

context xdr_library
begin

text \<open>The count of a vector, then the block with a count of its own.\<close>

lemma bytes_written:
  assumes "length mem = n" "n < 2 ^ 30"
  shows "\<exists>ls body. enc_int x (of_nat n) = Some ls \<and> length ls = 4 \<and> length body = round4 n \<and>
    appends (xdr_put_vector x (Some mem) (of_nat n)) (ls @ ls @ body) \<and>
    (\<forall>lim rest. n \<le> lim \<longrightarrow> dec_bytes x lim (ls @ body @ rest) = Some (mem, 4 + round4 n))"
proof -
  have u1: "unat (of_nat n :: u32) = n" using assms(2) by (simp add: unat_of_nat take_bit_nat_eq_self)
  have "unat (of_nat (n + 8) :: u32) = n + 8"
    using assms(2) by (subst unat_of_nat) (simp add: take_bit_nat_eq_self)
  then have u2: "unat (of_nat n + 8 :: u32) = n + 8" by simp
  note u = u1 u2
  have "counted x (length mem) (round4 (length mem)) (enc_bytes x (n + 8) (n + 8) mem) (dec_bytes x) mem"
    by (rule bytes) (use assms round4_bounds [of n] in simp_all)
  then obtain ls body where b: "enc_int x (of_nat n) = Some ls" "enc_bytes x (n + 8) (n + 8) mem = Some (ls @ body)"
      "length body = round4 n" "\<forall>lim rest. n \<le> lim \<longrightarrow> dec_bytes x lim (ls @ body @ rest) = Some (mem, 4 + round4 n)"
    unfolding counted_def assms(1) by blast
  have l: "length ls = 4" by (rule int_encoded [OF b(1)])
  have c: "(if unat (of_nat n :: u32) > unat (of_nat n + 8 :: u32) then None
      else enc_bytes x (unat (of_nat n + 8 :: u32)) (unat (of_nat n + 8 :: u32)) (take (unat (of_nat n :: u32)) mem)) = Some (ls @ body)"
    unfolding u using b(2) assms(1) by simp
  have "appends (xdr_put_vector x (Some mem) (of_nat n)) (ls @ ls @ body)"
    unfolding xdr_put_vector_def option.case Let_def c
  proof (rule appends_bind)
    show "appends (xdr_put_int x (of_nat n)) ls"
      unfolding xdr_put_int_def b(1) using l by (intro send_appends) auto
  qed (use l in \<open>intro send_appends, auto\<close>)
  with b l show ?thesis by blast
qed

text \<open>How much of the stream is taken, and what is in the buffer when the block is decoded.\<close>

lemma bytes_consumed:
  assumes "n < 2 ^ 30" "and_round n + 4 \<le> 4096" "enc_int x (of_nat n) = Some ls"
    and m: "ready m" "x_in m = ls @ block @ rest" "length block = and_round n"
  shows "\<exists>m2. xdr_get_vector x val m =
        bindS (decode no_byte_array (dec_bytes x dods_max_array))
            (\<lambda>bs m'. (map_sum id (Pair (length bs)) (store bs val), m')) m2
      \<and> ready m2 \<and> x_in m2 = rest \<and> (\<exists>junk. x_buf m2 = ls @ block @ junk)"
proof -
  obtain m1 where m1: "xdr_get_int x m = (Inr (of_nat n), m1)" "ready m1" "x_in m1 = block @ rest" "take 4 (x_buf m1) = ls"
    using int_read [OF assms(3) m(1,2)] by auto
  have k: "sint (of_nat n + and (of_nat n) 3 :: u32) = int (and_round n)" by (rule and_round_u32 [OF assms(1)])
  have f: "4 + length block \<le> source_size" using assms(2) m(3) by (simp add: source_size_def)
  note r = read_to_buf_ready [OF m1(2,3) f, unfolded m(3) m1(4)]
  have "xdr_get_vector x val m = bindS (decode no_byte_array (dec_bytes x dods_max_array))
      (\<lambda>bs m'. (map_sum id (Pair (length bs)) (store bs val), m')) (read_to_buf 4 (and_round n) m1)"
    using m1(1) k assms(2) by (simp add: xdr_get_vector_def Let_def)
  with r show ?thesis by blast
qed

lemma bytes_read:
  assumes "length mem = n" "n < 2 ^ 30" "and_round n + 4 \<le> 4096" "n mod 4 \<noteq> 1" "n mod 4 \<noteq> 3" "length val = n"
    and ls: "enc_int x (of_nat n) = Some ls" and body: "length body = round4 n"
    and dec: "\<And>lim rest. n \<le> lim \<Longrightarrow> dec_bytes x lim (ls @ body @ rest) = Some (mem, 4 + round4 n)"
  shows "takes (xdr_get_vector x val) (ls @ body) (n, mem)"
  unfolding takes_def
proof (intro allI impI, elim conjE)
  fix m rest assume m: "ready m" "x_in m = (ls @ body) @ rest"
  have "length body = and_round n" using body and_round_even [OF assms(4,5)] by simp
  with bytes_consumed [OF assms(2,3) ls m(1), of body rest val] m(2)
  obtain m2 junk where "xdr_get_vector x val m = bindS (decode no_byte_array (dec_bytes x dods_max_array))
        (\<lambda>bs m'. (map_sum id (Pair (length bs)) (store bs val), m')) m2"
      and m2: "ready m2" "x_in m2 = rest" "x_buf m2 = ls @ body @ junk" by auto
  then show "\<exists>m'. xdr_get_vector x val m = (Inr (n, mem), m') \<and> ready m' \<and> x_in m' = rest"
    using dec assms(1,2,6) by (simp add: decode_def store_def overwrite_def ready_def dods_max_array_def)
qed

end

lemma elsize_even: "2 dvd w \<Longrightarrow> w + and w (3 :: nat) = w + w mod 4"
proof -
  have "and w (3 :: nat) = w mod 4"
    using take_bit_eq_mask [of 2 w] by (simp add: take_bit_eq_mod mask_eq_exp_minus_1)
  then show ?thesis by simp
qed

context xdr_library
begin

lemma array_written:
  assumes "length mem = n * host_size c" "xdr_coder t = Some c" "4 + n * wire_size c < 2 ^ 31"
  shows "\<exists>ls body es. enc_int x (of_nat n) = Some ls \<and> length ls = 4 \<and> length body = n * wire_size c \<and>
    appends (xdr_put_vector_of x (Some mem) (of_nat n) (host_size c) t) (ls @ ls @ body) \<and>
    concat es = mem \<and> length es = n \<and> (\<forall>e \<in> set es. length e = host_size c) \<and>
    (\<forall>lim rest. n \<le> lim \<longrightarrow> dec_array x lim elsize c (ls @ body @ rest) = Some (es, 4 + n * wire_size c))"
proof -
  let ?sz = "4 + n * wire_size c"
  have w: "1 \<le> wire_size c" "(if host_size c < 4 then 4 else host_size c) = wire_size c"
    by (simp_all add: wire_size_def)
  obtain k where k: "k = n * wire_size c" by blast
  have "n \<le> k" "4 + k < 2 ^ 31" unfolding k using w(1) assms(3) by simp_all
  then have "n < 2 ^ 32" "n \<le> 4 + k" by simp_all
  then have n: "n < 2 ^ 32" "n \<le> ?sz" by (simp_all only: k)
  have u: "unat (of_nat n :: u32) = n" using n(1) by (simp add: unat_of_nat take_bit_nat_eq_self)
  have bs: "buffer_size (n * wire_size c + 4) = Inr ?sz"
    using assms(3) by (subst buffer_size_small) (simp_all add: add.commute)
  obtain es where es: "concat es = mem" "length es = n" "\<forall>e \<in> set es. length e = host_size c"
      "counted x n (n * wire_size c) (enc_array x ?sz ?sz n (host_size c) c mem) (\<lambda>lim. dec_array x lim elsize c) es"
    using array [OF assms(1) n(2) order.refl n(1), of elsize] by auto
  then obtain ls body where b: "enc_int x (of_nat n) = Some ls" "enc_array x ?sz ?sz n (host_size c) c mem = Some (ls @ body)"
      "length body = n * wire_size c"
      "\<forall>lim rest. n \<le> lim \<longrightarrow> dec_array x lim elsize c (ls @ body @ rest) = Some (es, 4 + n * wire_size c)"
    by (auto simp: counted_def)
  have l: "length ls = 4" by (rule int_encoded [OF b(1)])
  have "appends (xdr_put_vector_of x (Some mem) (of_nat n) (host_size c) t) (ls @ ls @ body)"
    unfolding xdr_put_vector_of_def option.case
  proof (rule appends_bind)
    show "appends (xdr_put_int x (of_nat n)) ls"
      unfolding xdr_put_int_def b(1) using l by (intro send_appends) auto
  qed (use l b(2) in \<open>auto simp: appends_def Let_def u w(2) bs assms(2) send_def\<close>)
  with b l es show ?thesis by blast
qed

lemma array_read:
  assumes "xdr_coder t = Some c" "host_size c = 4 \<or> host_size c = 8" "n * host_size c \<le> 4092 \<or> 4096 < n * host_size c"
    and "n * host_size c < 2147483644" "length val = length mem"
    and ls: "enc_int x (of_nat n) = Some ls" and body: "length body = n * wire_size c"
    and es: "concat es = mem" "length es = n" "\<forall>e \<in> set es. length e = host_size c"
    and dec: "\<And>lim rest. n \<le> lim \<Longrightarrow> dec_array x lim (host_size c) c (ls @ body @ rest) = Some (es, 4 + n * wire_size c)"
  shows "takes (xdr_get_vector_of x val (host_size c) t) (ls @ body) (n, mem)"
  unfolding takes_def
proof (intro allI impI, elim conjE)
  fix m rest assume m: "ready m" "x_in m = (ls @ body) @ rest"
  let ?w = "host_size c"
  have ws: "wire_size c = ?w" using assms(2) by (auto simp: wire_size_def)
  have el: "?w + and ?w 3 = ?w" using assms(2) elsize_even [of ?w] by auto
  have l: "length ls = 4" by (rule int_encoded [OF ls])
  obtain m1 where m1: "xdr_get_int x m = (Inr (of_nat n), m1)" "ready m1" "x_in m1 = body @ rest" "take 4 (x_buf m1) = ls"
    using int_read [OF ls m(1), of "body @ rest"] m(2) by auto
  define k where "k = n * ?w"
  have k: "k < 2147483644" "k \<le> 4092 \<or> 4096 < k" using assms(3,4) by (simp_all add: k_def)
  have "sint (of_nat (n * ?w) :: u32) = int k" using assms(4) unfolding k_def by (intro sint_of_nat_small) simp
  then have sz: "sint (of_nat n * of_nat ?w :: u32) = int k" by simp
  have bk: "length body = k" using body ws by (simp add: k_def)
  have "n \<le> n * ?w" using assms(2) by auto
  also have "\<dots> \<le> dods_max_array" using assms(4) by (simp add: dods_max_array_def)
  finally have n: "n \<le> dods_max_array" .
  have pl: "place 0 ?w es val = Inr mem"
    using place_concat [OF es(3), of "[]" 0 val] assms(5) es(1) by simp
  show "\<exists>m'. xdr_get_vector_of x val ?w t m = (Inr (n, mem), m') \<and> ready m' \<and> x_in m' = rest"
  proof (cases "4096 < k")
    case True
    have "overwrite 4 body (ls @ replicate k 0) = ls @ body" using l bk by (simp add: overwrite_def)
    then show ?thesis using m1 True bk k assms(1) dec [OF n, of "[]"] pl es(2)
      by (simp add: xdr_get_vector_of_def Let_def el sz own_buffer_def stream_read_def ready_def)
  next
    case False
    have f: "4 + length body \<le> source_size" using False k bk by (simp add: source_size_def)
    note r = read_to_buf_ready [OF m1(2,3) f, unfolded bk m1(4)]
    have "\<not> source_size < k + 4" using f bk by simp
    then show ?thesis using m1(1) False assms(1) k dec [OF n] pl es(2) r
      by (simp add: xdr_get_vector_of_def Let_def el sz decode_def ready_def)
  qed
qed

end

section \<open>RFC 4506\<close>

text \<open>The standard's encoding, for a host of either byte order.\<close>

definition be32 :: "u32 \<Rightarrow> u8 list" where "be32 w = native True w"

definition dec32 :: "u8 list \<Rightarrow> (u32 \<times> nat) option" where
  "dec32 bs = (if length bs < 4 then None else Some (from_native True (take 4 bs), 4))"

definition dec64 :: "u8 list \<Rightarrow> (u64 \<times> nat) option" where
  "dec64 bs = (if length bs < 8 then None else Some (from_native True (take 8 bs), 8))"

definition padded :: "u8 list \<Rightarrow> u8 list" where
  "padded bs = bs @ replicate (round4 (length bs) - length bs) 0"

definition enc_block :: "nat \<Rightarrow> nat \<Rightarrow> u8 list \<Rightarrow> u8 list option" where
  "enc_block room lim bs =
     (if lim < length bs \<or> room < 4 + round4 (length bs) then None
      else Some (be32 (of_nat (length bs)) @ padded bs))"

definition dec_block :: "nat \<Rightarrow> u8 list \<Rightarrow> (u8 list \<times> nat) option" where
  "dec_block lim bs =
     (case dec32 bs of None \<Rightarrow> None
      | Some (n, _) \<Rightarrow> let k = unat n in
          if lim < k \<or> length bs < 4 + round4 k then None else Some (take k (drop 4 bs), 4 + round4 k))"

primrec to_wire :: "bool \<Rightarrow> coder \<Rightarrow> u8 list \<Rightarrow> u8 list" where
  "to_wire big XDR_INT16 e = be32 (scast (from_native big e :: u16))"
| "to_wire big XDR_UINT16 e = be32 (ucast (from_native big e :: u16))"
| "to_wire big XDR_INT32 e = be32 (from_native big e)"
| "to_wire big XDR_UINT32 e = be32 (from_native big e)"
| "to_wire big XDR_FLOAT32 e = be32 (from_native big e)"
| "to_wire big XDR_FLOAT64 e = native True (from_native big e :: u64)"

primrec from_wire :: "bool \<Rightarrow> coder \<Rightarrow> u8 list \<Rightarrow> u8 list" where
  "from_wire big XDR_INT16 e = native big (ucast (from_native True e :: u32) :: u16)"
| "from_wire big XDR_UINT16 e = native big (ucast (from_native True e :: u32) :: u16)"
| "from_wire big XDR_INT32 e = native big (from_native True e :: u32)"
| "from_wire big XDR_UINT32 e = native big (from_native True e :: u32)"
| "from_wire big XDR_FLOAT32 e = native big (from_native True e :: u32)"
| "from_wire big XDR_FLOAT64 e = native big (from_native True e :: u64)"

fun chunks :: "nat \<Rightarrow> nat \<Rightarrow> u8 list \<Rightarrow> u8 list list" where
  "chunks 0 w bs = []"
| "chunks (Suc n) w bs = take w bs # chunks n w (drop w bs)"

definition rfc4506 :: "bool \<Rightarrow> xdr" where
  "rfc4506 big = \<lparr>
     enc_char = (\<lambda>v. Some (be32 (scast v))), enc_int16 = (\<lambda>v. Some (be32 (scast v))),
     enc_uint16 = (\<lambda>v. Some (be32 (ucast v))), enc_int32 = (\<lambda>v. Some (be32 v)), enc_uint32 = (\<lambda>v. Some (be32 v)),
     enc_float = (\<lambda>v. Some (be32 v)), enc_double = (\<lambda>v. Some (native True v)), enc_int = (\<lambda>v. Some (be32 v)),
     enc_string = enc_block,
     enc_opaque = (\<lambda>room bs. if room < round4 (length bs) then None else Some (padded bs)),
     enc_bytes = enc_block,
     enc_array = (\<lambda>room lim n elsize c mem.
        if lim < n \<or> room < 4 + n * wire_size c then None
        else Some (be32 (of_nat n) @ concat (map (\<lambda>e. to_wire big c (take (host_size c) e)) (chunks n elsize mem)))),
     dec_char = (\<lambda>bs. map_option (map_prod ucast id) (dec32 bs)), dec_int16 = (\<lambda>bs. map_option (map_prod ucast id) (dec32 bs)),
     dec_uint16 = (\<lambda>bs. map_option (map_prod ucast id) (dec32 bs)), dec_int32 = dec32, dec_uint32 = dec32,
     dec_float = dec32, dec_double = dec64, dec_int = dec32,
     dec_string = dec_block,
     dec_opaque = (\<lambda>n bs. if length bs < round4 n then None else Some (take n bs, round4 n)),
     dec_bytes = dec_block,
     dec_array = (\<lambda>lim elsize c bs.
        case dec32 bs of None \<Rightarrow> None
        | Some (n, _) \<Rightarrow> let k = unat n in
            if lim < k \<or> length bs < 4 + k * wire_size c then None
            else Some (map (from_wire big c) (chunks k (wire_size c) (drop 4 bs)), 4 + k * wire_size c))\<rparr>"

lemma whole_words: "whole_bytes TYPE(8)" "whole_bytes TYPE(16)" "whole_bytes TYPE(32)" "whole_bytes TYPE(64)"
  by (simp_all add: whole_bytes_def)

lemma length_be32 [simp]: "length (be32 w) = 4"
  by (simp add: be32_def)

lemma dec32_be32 [simp]: "dec32 (be32 w @ rest) = Some (w, 4)"
  by (simp add: dec32_def be32_def from_native_native whole_words)

lemma length_padded [simp]: "length (padded bs) = round4 (length bs)"
  using round4_bounds(1) [of "length bs"] by (simp add: padded_def)

lemma take_padded [simp]: "take (length bs) (padded bs) = bs" "take (length bs) (padded bs @ rest) = bs"
  by (simp_all add: padded_def)

lemma block_counted:
  assumes "length bs \<le> lim" "4 + round4 (length bs) \<le> room" "length bs < 2 ^ 32"
  shows "counted (rfc4506 big) (length bs) (round4 (length bs)) (enc_block room lim bs) dec_block bs"
proof -
  have "unat (of_nat (length bs) :: u32) = length bs" using assms(3) by (simp add: unat_of_nat take_bit_nat_eq_self)
  then show ?thesis using assms(1,2)
    by (auto simp: counted_def rfc4506_def enc_block_def dec_block_def Let_def round4_bounds)
qed

lemma ucast_scast_u8: "ucast (scast (v :: u8) :: u32) = v"
proof (rule bit_word_eqI)
  fix n assume "n < LENGTH(8)"
  then have "n < 7 \<or> n = 7" by (simp, linarith)
  then show "bit (ucast (scast v :: u32) :: u8) n \<longleftrightarrow> bit v n" by (auto simp: bit_simps min_def)
qed

lemma ucast_scast_u16: "ucast (scast (v :: u16) :: u32) = v"
proof (rule bit_word_eqI)
  fix n assume "n < LENGTH(16)"
  then have "n < 15 \<or> n = 15" by (simp, linarith)
  then show "bit (ucast (scast v :: u32) :: u16) n \<longleftrightarrow> bit v n" by (auto simp: bit_simps min_def)
qed

lemma ucast_ucast_u16: "ucast (ucast (v :: u16) :: u32) = v"
  by (rule bit_word_eqI) (simp add: bit_simps)

lemma from_to_wire: "length e = host_size c \<Longrightarrow> from_wire big c (to_wire big c e) = e"
  by (cases c) (simp_all add: be32_def from_native_native native_from_native whole_words ucast_scast_u16 ucast_ucast_u16)

lemma length_to_wire: "length (to_wire big c e) = wire_size c"
  by (cases c) (simp_all add: wire_size_def)

lemma chunks_concat:
  "length mem = n * w \<Longrightarrow> concat (chunks n w mem) = mem \<and> length (chunks n w mem) = n \<and> (\<forall>e \<in> set (chunks n w mem). length e = w)"
proof (induction n arbitrary: mem)
  case (Suc n)
  then have "length (drop w mem) = n * w" by simp
  from Suc.IH [OF this] Suc.prems show ?case by simp
qed simp

lemma chunks_of_wire:
  "\<forall>e \<in> set es. length (f e) = w \<Longrightarrow> chunks (length es) w (concat (map f es) @ rest) = map f es"
  by (induction es) auto

interpretation rfc: xdr_library "rfc4506 big"
proof
  show "scalar_codec 4 (enc_char (rfc4506 big)) (dec_char (rfc4506 big))"
    by (simp add: scalar_codec_def rfc4506_def ucast_scast_u8)
  show "scalar_codec 4 (enc_int16 (rfc4506 big)) (dec_int16 (rfc4506 big))"
    by (simp add: scalar_codec_def rfc4506_def ucast_scast_u16)
  show "scalar_codec 4 (enc_uint16 (rfc4506 big)) (dec_uint16 (rfc4506 big))"
    by (simp add: scalar_codec_def rfc4506_def ucast_ucast_u16)
  show "scalar_codec 4 (enc_int32 (rfc4506 big)) (dec_int32 (rfc4506 big))"
    "scalar_codec 4 (enc_uint32 (rfc4506 big)) (dec_uint32 (rfc4506 big))"
    "scalar_codec 4 (enc_float (rfc4506 big)) (dec_float (rfc4506 big))"
    "scalar_codec 4 (enc_int (rfc4506 big)) (dec_int (rfc4506 big))"
    by (simp_all add: scalar_codec_def rfc4506_def)
  show "scalar_codec 8 (enc_double (rfc4506 big)) (dec_double (rfc4506 big))"
    by (simp add: scalar_codec_def rfc4506_def dec64_def from_native_native whole_words)
next
  fix s :: "u8 list" and lim room
  assume "length s \<le> lim" "4 + round4 (length s) \<le> room" "length s < 2 ^ 32"
  then show "counted (rfc4506 big) (length s) (round4 (length s)) (enc_string (rfc4506 big) room lim s) (dec_string (rfc4506 big)) s"
    using block_counted [of s lim room big] by (simp add: rfc4506_def)
next
  fix bs :: "u8 list" and lim room
  assume "length bs \<le> lim" "4 + round4 (length bs) \<le> room" "length bs < 2 ^ 32"
  then show "counted (rfc4506 big) (length bs) (round4 (length bs)) (enc_bytes (rfc4506 big) room lim bs) (dec_bytes (rfc4506 big)) bs"
    using block_counted [of bs lim room big] by (simp add: rfc4506_def)
next
  fix bs :: "u8 list" and room
  assume "round4 (length bs) \<le> room"
  then show "\<exists>body. enc_opaque (rfc4506 big) room bs = Some body \<and> length body = round4 (length bs) \<and>
      (\<forall>rest. dec_opaque (rfc4506 big) (length bs) (body @ rest) = Some (bs, round4 (length bs)))"
    by (auto simp: rfc4506_def round4_bounds)
next
  fix mem :: "u8 list" and n c lim room elsize
  assume m: "length mem = n * host_size c" "n \<le> lim" "4 + n * wire_size c \<le> room" "n < 2 ^ 32"
  define es where "es = chunks n (host_size c) mem"
  have es: "concat es = mem" "length es = n" "\<forall>e \<in> set es. length e = host_size c"
    using chunks_concat [OF m(1)] by (simp_all add: es_def)
  have n: "unat (of_nat n :: u32) = n" using m(4) by (simp add: unat_of_nat take_bit_nat_eq_self)
  have w: "map (\<lambda>e. to_wire big c (take (host_size c) e)) es = map (to_wire big c) es" using es(3) by simp
  have f: "map (from_wire big c) (map (to_wire big c) es) = es" using es(3) by (simp add: map_idI from_to_wire)
  have l: "length (concat (map (to_wire big c) es)) = n * wire_size c"
    using es(2) by (simp add: length_concat comp_def length_to_wire sum_list_triv)
  have d: "chunks n (wire_size c) (concat (map (to_wire big c) es) @ rest) = map (to_wire big c) es" for rest
    using chunks_of_wire [of es "to_wire big c" "wire_size c" rest] es(2) by (simp add: length_to_wire)
  have "counted (rfc4506 big) n (n * wire_size c) (enc_array (rfc4506 big) room lim n (host_size c) c mem)
      (\<lambda>lim. dec_array (rfc4506 big) lim elsize c) es"
    unfolding counted_def
    by (intro exI [of _ "be32 (of_nat n)"] exI [of _ "concat (map (to_wire big c) es)"])
      (use m n l d f in \<open>auto simp: rfc4506_def Let_def w simp flip: es_def\<close>)
  with es show "\<exists>es. concat es = mem \<and> length es = n \<and> (\<forall>e \<in> set es. length e = host_size c) \<and>
      counted (rfc4506 big) n (n * wire_size c) (enc_array (rfc4506 big) room lim n (host_size c) c mem)
        (\<lambda>lim. dec_array (rfc4506 big) lim elsize c) es"
    by blast
qed

section \<open>Properties\<close>

text \<open>
  C22: a vector of 32 or 64 bit elements written to the stream is read back into the memory of
  the client, count and elements, and the rest of the stream is left, provided that its bytes
  do not end within the last four bytes of the buffer.
\<close>
theorem xdr_vector_round_trip:
  assumes "xdr_library x" "xdr_coder t = Some c" "host_size c = 4 \<or> host_size c = 8"
    and "length mem = n * host_size c" "n * host_size c \<le> 4092 \<or> 4096 < n * host_size c" "n * host_size c < 2147483644"
    and "length val = length mem"
  shows "\<exists>bs. appends (xdr_put_vector_of x (Some mem) (of_nat n) (host_size c) t) bs \<and>
    takes (bindS (xdr_get_int x) (\<lambda>num. if num = of_nat n then xdr_get_vector_of x val (host_size c) t else throwS Undefined)) bs (n, mem)"
proof -
  have w: "4 + n * wire_size c < 2 ^ 31" using assms(3,6) by (auto simp: wire_size_def)
  obtain ls body es where a: "enc_int x (of_nat n) = Some ls" "length ls = 4" "length body = n * wire_size c"
      "appends (xdr_put_vector_of x (Some mem) (of_nat n) (host_size c) t) (ls @ ls @ body)"
      "concat es = mem" "length es = n" "\<forall>e \<in> set es. length e = host_size c"
      "\<forall>lim rest. n \<le> lim \<longrightarrow> dec_array x lim (host_size c) c (ls @ body @ rest) = Some (es, 4 + n * wire_size c)"
    using xdr_library.array_written [OF assms(1,4,2) w, of "host_size c"] by blast
  have "takes (xdr_get_vector_of x val (host_size c) t) (ls @ body) (n, mem)"
    by (rule xdr_library.array_read [OF assms(1,2,3,5,6,7) a(1,3,5,6,7)]) (use a(8) in blast)
  then have "takes (bindS (xdr_get_int x) (\<lambda>num. if num = of_nat n then xdr_get_vector_of x val (host_size c) t else throwS Undefined))
      (ls @ ls @ body) (n, mem)"
    by (intro takes_bind [OF xdr_library.int_takes [OF assms(1) a(1)]]) simp
  with a(4) show ?thesis by blast
qed

theorem xdr_vector_round_trip_witness:
  "\<exists>bs. appends (xdr_put_vector_of (rfc4506 False) (Some (memory False [7, 8 :: u32])) 2 4 dods_int32_c) bs \<and>
    takes (bindS (xdr_get_int (rfc4506 False)) (\<lambda>num. if num = 2
      then xdr_get_vector_of (rfc4506 False) (replicate 8 0) 4 dods_int32_c else throwS Undefined)) bs (2, memory False [7, 8 :: u32])"
  using xdr_vector_round_trip [OF rfc.xdr_library_axioms, of dods_int32_c XDR_INT32 "memory False [7, 8 :: u32]" 2 "replicate 8 0" False, unfolded host_size.simps]
  by (simp add: xdr_coder_def length_memory)

text \<open>
  C37: reading an array of two or more 16 bit integers back writes past the memory it was given,
  as long as the bytes received fit the routine (fewer than 2147483644): the elements are placed
  four bytes apart in a block with two bytes for each.  For 1024 elements the bytes read already
  overrun \<open>d_buf\<close>.
\<close>
theorem xdr_short_vector_overruns:
  assumes "xdr_library x" "xdr_coder t = Some c" "host_size c = 2" "length mem = n * 2" "2 \<le> n" "n * 4 < 2147483644"
    and "length val = length mem"
  shows "\<exists>bs. appends (xdr_put_vector_of x (Some mem) (of_nat n) 2 t) bs \<and>
    (\<forall>m rest. ready m \<and> x_in m = drop 4 bs @ rest \<longrightarrow> fst (xdr_get_vector_of x val 2 t m) = Inl Undefined)"
proof -
  have w: "wire_size c = 4" using assms(3) by (simp add: wire_size_def)
  have mem: "length mem = n * host_size c" using assms(3,4) by simp
  have lim: "4 + n * wire_size c < 2 ^ 31" using assms(6) w by simp
  obtain ls body es where a: "enc_int x (of_nat n) = Some ls" "length ls = 4" "length body = n * 4"
      "appends (xdr_put_vector_of x (Some mem) (of_nat n) 2 t) (ls @ ls @ body)"
      "concat es = mem" "length es = n" "\<forall>e \<in> set es. length e = 2"
      "\<forall>lim rest. n \<le> lim \<longrightarrow> dec_array x lim 4 c (ls @ body @ rest) = Some (es, 4 + n * 4)"
    using xdr_library.array_written [OF assms(1) mem assms(2) lim, of 4] w assms(3) by auto
  have "length val < 0 + (length es - 1) * 4 + 2" "es \<noteq> []" using a(6) assms(4,5,7) by (linarith, auto)
  then have pl: "place 0 4 es val = Inl Undefined" using place_overrun [OF a(7)] by blast
  have el: "2 + and 2 3 = (4 :: nat)" using elsize_even [of 2] by simp
  have "fst (xdr_get_vector_of x val 2 t m) = Inl Undefined" if r: "ready m" and m: "x_in m = ls @ body @ rest" for m rest
  proof -
    obtain m1 where m1: "xdr_get_int x m = (Inr (of_nat n), m1)" "ready m1" "x_in m1 = body @ rest" "take 4 (x_buf m1) = ls"
      using xdr_library.int_read [OF assms(1) a(1) r m] by blast
    define k where "k = n * 4"
    have k: "k < 2147483644" "length body = k" "n \<le> dods_max_array" using assms(6) a(3) by (simp_all add: k_def dods_max_array_def)
    have "sint (of_nat (n * 4) :: u32) = int k" unfolding k_def using assms(6) by (intro sint_of_nat_small) simp
    then have sz: "sint (of_nat n * 4 :: u32) = int k" by simp
    have dec: "dec_array x dods_max_array 4 c (ls @ body @ rest) = Some (es, 4 + k)" for rest
      using a(8) k(3) by (simp add: k_def)
    consider "4096 < k" | "4092 < k" "k \<le> 4096" | "k \<le> 4092" by linarith
    then show ?thesis
    proof cases
      case 1
      have "overwrite 4 body (ls @ replicate k 0) = ls @ body" using a(2) k(2) by (simp add: overwrite_def)
      then show ?thesis using m1 1 k assms(2) dec [of "[]"] pl
        by (simp add: xdr_get_vector_of_def Let_def el sz own_buffer_def stream_read_def ready_def)
    next
      case 2
      then show ?thesis using m1(1) assms(2) by (simp add: xdr_get_vector_of_def Let_def el sz source_size_def)
    next
      case 3
      have f: "4 + length body \<le> source_size" using 3 k(2) by (simp add: source_size_def)
      note r = read_to_buf_ready [OF m1(2,3) f, unfolded k(2) m1(4)]
      show ?thesis using m1(1) r(3) dec pl assms(2) 3 el
        by (simp add: xdr_get_vector_of_def Let_def sz decode_def source_size_def)
    qed
  qed
  with a(2,4) show ?thesis by (intro exI [of _ "ls @ ls @ body"]) auto
qed

theorem xdr_short_vector_overruns_witness:
  "\<exists>bs. appends (xdr_put_vector_of (rfc4506 False) (Some (memory False [7, 8 :: u16])) 2 2 dods_int16_c) bs \<and>
    (\<forall>m rest. ready m \<and> x_in m = drop 4 bs @ rest \<longrightarrow>
       fst (xdr_get_vector_of (rfc4506 False) (replicate 4 0) 2 dods_int16_c m) = Inl Undefined)"
  using xdr_short_vector_overruns [OF rfc.xdr_library_axioms, of dods_int16_c XDR_INT16 "memory False [7, 8 :: u16]" 2 "replicate 4 0" False]
  by (simp add: xdr_coder_def length_memory)

text \<open>
  reading a vector of bytes takes \<open>n + n mod 4\<close> bytes for its block instead of \<open>n\<close> rounded up
  to a multiple of four: two bytes of padding too few when \<open>n mod 4\<close> is 1, so that they are
  left in the stream, and two bytes of the next value too many when it is 3.
\<close>
lemma xdr_byte_vector_consumes:
  assumes "xdr_library x" "length mem = n" "n + n mod 4 + 4 \<le> 4096"
  shows "\<exists>bs. appends (xdr_put_vector x (Some mem) (of_nat n)) bs \<and> length bs = 8 + round4 n \<and>
    (\<forall>m rest. ready m \<and> x_in m = drop 4 bs @ rest \<and> n + n mod 4 \<le> round4 n + length rest \<longrightarrow>
       x_in (snd (xdr_get_vector x val m)) = drop (4 + n + n mod 4) (drop 4 bs @ rest))"
proof -
  have n: "n < 2 ^ 30" using assms(3) by simp
  obtain ls body where a: "enc_int x (of_nat n) = Some ls" "length ls = 4" "length body = round4 n"
      "appends (xdr_put_vector x (Some mem) (of_nat n)) (ls @ ls @ body)"
    using xdr_library.bytes_written [OF assms(1,2) n] by blast
  have "x_in (snd (xdr_get_vector x val m)) = drop (and_round n) (body @ rest)"
    if rd: "ready m" and m: "x_in m = ls @ body @ rest" and k: "and_round n \<le> length (body @ rest)" for m rest
  proof -
    have m': "x_in m = ls @ take (and_round n) (body @ rest) @ drop (and_round n) (body @ rest)"
      unfolding append_take_drop_id by (rule m)
    have l: "length (take (and_round n) (body @ rest)) = and_round n" using k by simp
    have r: "and_round n + 4 \<le> 4096" using assms(3) by (simp add: and_round_def)
    from xdr_library.bytes_consumed [OF assms(1) n r a(1) rd m' l, of val]
    obtain m2 where "xdr_get_vector x val m = bindS (decode no_byte_array (dec_bytes x dods_max_array))
          (\<lambda>bs m'. (map_sum id (Pair (length bs)) (store bs val), m')) m2" "x_in m2 = drop (and_round n) (body @ rest)"
      by blast
    then show ?thesis by (auto simp: decode_def split: option.splits)
  qed
  then show ?thesis using a
    by (intro exI [of _ "ls @ ls @ body"]) (auto simp: and_round_def)
qed

lemma xdr_byte_vector_consumes_witness:
  "\<exists>bs. appends (xdr_put_vector (rfc4506 False) (Some [9]) 1) bs \<and> length bs = 12 \<and>
    (\<forall>m rest. ready m \<and> x_in m = drop 4 bs @ rest \<longrightarrow>
       x_in (snd (xdr_get_vector (rfc4506 False) [0] m)) = drop 6 (drop 4 bs @ rest))"
  using xdr_byte_vector_consumes [OF rfc.xdr_library_axioms, of "[9]" 1 False "[0]"] by (simp add: round4_def)

end
