(* ===== verification/Data_Stream.thy ===== *)
theory Data_Stream
  imports Xdr_Stream
begin

text \<open>
  Moving variables: the \<open>serialize\<close> and \<open>deserialize\<close> members of the scalar classes, of
  \<open>Vector.cc\<close>, \<open>Constructor.cc\<close>, \<open>Grid.cc\<close> and \<open>Sequence.cc\<close> over the abstract classes
  \<open>Marshaller\<close> and \<open>UnMarshaller\<close>, which are records of functions here.  The locale
  \<open>marshalling\<close> is their contract; \<open>XDRFileMarshaller.cc\<close> and \<open>XDRFileUnMarshaller.cc\<close> and
  the DAP2 stream classes of \<^theory_text>\<open>Xdr_Stream\<close> are interpreted in it.
\<close>

section \<open>The abstract classes\<close>

text \<open>\<open>put_vector\<close> gets the buffer (or null), the number of elements, and for wider elements
  their width and the type of the vector's template.\<close>

record 'm marshaller =
  m_byte :: "u8 \<Rightarrow> ('m, unit) action"
  m_int16 :: "u16 \<Rightarrow> ('m, unit) action"
  m_int32 :: "u32 \<Rightarrow> ('m, unit) action"
  m_float32 :: "u32 \<Rightarrow> ('m, unit) action"
  m_float64 :: "u64 \<Rightarrow> ('m, unit) action"
  m_uint16 :: "u16 \<Rightarrow> ('m, unit) action"
  m_uint32 :: "u32 \<Rightarrow> ('m, unit) action"
  m_str :: "u8 list \<Rightarrow> ('m, unit) action"
  m_url :: "u8 list \<Rightarrow> ('m, unit) action"
  m_opaque :: "u8 list \<Rightarrow> ('m, unit) action"
  m_int :: "u32 \<Rightarrow> ('m, unit) action"
  m_vector :: "u8 list option \<Rightarrow> u32 \<Rightarrow> ('m, unit) action"
  m_vector_of :: "u8 list option \<Rightarrow> u32 \<Rightarrow> nat \<Rightarrow> dap_type \<Rightarrow> ('m, unit) action"

text \<open>\<open>get_opaque\<close> and \<open>get_vector\<close> get the memory they are to fill; \<open>get_vector\<close> also
  yields the number of elements.  \<open>u_stack\<close> is no member of the class: it is the byte a local
  variable holds that was not initialised, which the state of the program determines.\<close>

record 'u unmarshaller =
  u_byte :: "('u, u8) action"
  u_int16 :: "('u, u16) action"
  u_int32 :: "('u, u32) action"
  u_float32 :: "('u, u32) action"
  u_float64 :: "('u, u64) action"
  u_uint16 :: "('u, u16) action"
  u_uint32 :: "('u, u32) action"
  u_str :: "('u, u8 list) action"
  u_url :: "('u, u8 list) action"
  u_opaque :: "u8 list \<Rightarrow> ('u, u8 list) action"
  u_int :: "('u, u32) action"
  u_vector :: "u8 list \<Rightarrow> ('u, nat \<times> u8 list) action"
  u_vector_of :: "u8 list \<Rightarrow> nat \<Rightarrow> dap_type \<Rightarrow> ('u, nat \<times> u8 list) action"
  u_stack :: "('u, u8) action"

section \<open>Variables with their data\<close>

text \<open>\<open>Url\<close> is sent by the members it inherits from \<open>Str\<close>.\<close>

datatype prim =
    V_byte u8 | V_int16 u16 | V_uint16 u16 | V_int32 u32 | V_uint32 u32
  | V_float32 u32 | V_float64 u64 | V_str "u8 list" | V_url "u8 list"

text \<open>
  A variable after \<open>read()\<close>, or one that is to be deserialized.  A vector has its length and
  its data: \<open>Card\<close> the buffer of a cardinal type (or null), \<open>Strs\<close> the strings, \<open>Vec\<close> its
  template and the elements.  A field carries its \<open>send_p\<close>.  A grid has its array and its maps.
  A sequence has its fields, the row number constraint, whether it is the top most one, and
  its rows: on the server the rows \<open>read()\<close> will yield, each with whether it satisfies the
  selection, on the client those received.
\<close>

datatype seq_rows = Rows int int int bool

datatype vdata =
    Prim prim
  | Card dap_type int "u8 list option"
  | Strs dap_type int "u8 list list"
  | Vec int vdata "vdata list"
  | Struct_d "field list"
  | Grid_d field "field list"
  | Seq_d "field list" seq_rows "(bool \<times> field list) list"
and field = Field bool vdata

primrec f_send :: "field \<Rightarrow> bool" where "f_send (Field s v) = s"
primrec f_data :: "field \<Rightarrow> vdata" where "f_data (Field s v) = v"

definition card_width :: "dap_type \<Rightarrow> nat" where
  "card_width t =
     (case t of dods_byte_c \<Rightarrow> 1 | dods_int16_c \<Rightarrow> 2 | dods_uint16_c \<Rightarrow> 2 | dods_int32_c \<Rightarrow> 4 | dods_uint32_c \<Rightarrow> 4
      | dods_float32_c \<Rightarrow> 4 | dods_float64_c \<Rightarrow> 8 | _ \<Rightarrow> 0)"

definition m_is_cardinal_type :: "dap_type \<Rightarrow> bool" where
  "m_is_cardinal_type t = (t \<in> {dods_byte_c, dods_int16_c, dods_uint16_c, dods_int32_c, dods_uint32_c, dods_float32_c, dods_float64_c})"

section \<open>Serializing\<close>

primrec prim_serialize :: "'m marshaller \<Rightarrow> prim \<Rightarrow> ('m, unit) action" where
  "prim_serialize M (V_byte v) = m_byte M v"
| "prim_serialize M (V_int16 v) = m_int16 M v"
| "prim_serialize M (V_uint16 v) = m_uint16 M v"
| "prim_serialize M (V_int32 v) = m_int32 M v"
| "prim_serialize M (V_uint32 v) = m_uint32 M v"
| "prim_serialize M (V_float32 v) = m_float32 M v"
| "prim_serialize M (V_float64 v) = m_float64 M v"
| "prim_serialize M (V_str s) = m_str M s"
| "prim_serialize M (V_url s) = m_str M s"

definition int32_bits :: "int \<Rightarrow> u32" where "int32_bits i = of_int i"

text \<open>The first \<open>n\<close> of a list of actions; there is no element past its end.\<close>

fun first_n :: "nat \<Rightarrow> ('m, unit) action list \<Rightarrow> ('m, unit) action" where
  "first_n 0 acts = returnS ()"
| "first_n (Suc n) [] = throwS Undefined"
| "first_n (Suc n) (a # acts) = bindS a (\<lambda>_. first_n n acts)"

definition unknown_datatype :: exn where "unknown_datatype = InternalErr ''Unknown datatype.''"

definition card_serialize :: "'m marshaller \<Rightarrow> dap_type \<Rightarrow> int \<Rightarrow> u8 list option \<Rightarrow> ('m, unit) action" where
  "card_serialize M t len buf =
     (if t = dods_byte_c then m_vector M buf (int32_bits len)
      else if m_is_cardinal_type t then m_vector_of M buf (int32_bits len) (card_width t) t
      else throwS unknown_datatype)"

definition strs_serialize :: "'m marshaller \<Rightarrow> int \<Rightarrow> u8 list list \<Rightarrow> ('m, unit) action" where
  "strs_serialize M len strs =
     (if strs = [] then throwS (InternalErr ''The capacity of the string vector is 0'')
      else bindS (m_int M (int32_bits len)) (\<lambda>_. first_n (nat len) (map (m_str M) strs)))"

definition end_of_sequence :: u8 where "end_of_sequence = 0xA5"
definition start_of_instance :: u8 where "start_of_instance = 0x5A"

definition write_end_of_sequence :: "'m marshaller \<Rightarrow> ('m, unit) action" where
  "write_end_of_sequence M = m_opaque M [end_of_sequence]"

definition write_start_of_instance :: "'m marshaller \<Rightarrow> ('m, unit) action" where
  "write_start_of_instance M = m_opaque M [start_of_instance]"

text \<open>
  The loop of \<open>Sequence::read_row\<close> from row number \<open>cur\<close> on, over the rows \<open>read()\<close> has left:
  the values of the last row read, unless the end was found, the row number and what is left.
\<close>

fun read_row_loop :: "bool \<Rightarrow> int \<Rightarrow> int \<Rightarrow> 'r option \<Rightarrow> (bool \<times> 'r) list \<Rightarrow> 'r option \<times> int \<times> (bool \<times> 'r) list" where
  "read_row_loop ce row cur seen [] = (if cur < row then (None, cur, []) else (seen, cur, []))"
| "read_row_loop ce row cur seen ((sel, r) # src) =
     (if cur < row then read_row_loop ce row (if \<not> ce \<or> sel then cur + 1 else cur) (Some r) src
      else (seen, cur, (sel, r) # src))"

definition read_row :: "bool \<Rightarrow> int \<Rightarrow> int \<Rightarrow> (bool \<times> 'r) list \<Rightarrow> ('r option \<times> int \<times> (bool \<times> 'r) list) res" where
  "read_row ce row cur src =
     (if row < cur then Inl (InternalErr ''Trying to back up inside a sequence!'')
      else if row = cur then Inr (None, cur, src)
      else Inr (read_row_loop ce row cur None src))"

definition is_end_of_rows :: "int \<Rightarrow> int \<Rightarrow> bool" where
  "is_end_of_rows ending i = (if ending = -1 then False else i > ending)"

lemma read_row_loop_shorter:
  "read_row_loop ce row cur seen src = (v, cur', src') \<Longrightarrow> length src' \<le> length src"
  by (induction ce row cur seen src rule: read_row_loop.induct) (auto split: if_splits intro: le_SucI)

lemma read_row_shorter:
  "read_row ce row cur src = Inr (Some r, cur', src') \<Longrightarrow> length src' < length src"
  by (cases src) (auto simp: read_row_def less_Suc_eq_le split: if_splits dest: read_row_loop_shorter)

text \<open>
  The rows \<open>serialize_leaf\<close> sends: the row that was read, if any, and those its \<open>while\<close> loop
  reads after it; the flag tells whether the loop ends with an exception of \<open>read_row\<close>.
\<close>

function leaf_rows :: "bool \<Rightarrow> int \<Rightarrow> int \<Rightarrow> int \<Rightarrow> ('r option \<times> int \<times> (bool \<times> 'r) list) res \<Rightarrow> 'r list \<times> exn option" where
  "leaf_rows ce stride ending i (Inl e) = ([], Some e)"
| "leaf_rows ce stride ending i (Inr (None, cur, src)) = ([], None)"
| "leaf_rows ce stride ending i (Inr (Some r, cur, src)) =
     (if is_end_of_rows ending i then ([], None)
      else (case leaf_rows ce stride ending (i + stride) (read_row ce (i + stride) cur src) of (rs, e) \<Rightarrow> (r # rs, e)))"
  by pat_completeness auto
termination
proof (relation "measure (\<lambda>(ce, stride, ending, i, st). case st of Inr (Some _, _, src) \<Rightarrow> Suc (length src) | _ \<Rightarrow> 0)")
  fix ce stride ending i r cur and src :: "(bool \<times> 'b) list"
  show "((ce, stride, ending, i + stride, read_row ce (i + stride) cur src), ce, stride, ending, i, Inr (Some r, cur, src))
      \<in> measure (\<lambda>(ce, stride, ending, i, st). case st of Inr (Some _, _, src) \<Rightarrow> Suc (length src) | _ \<Rightarrow> 0)"
    by (auto split: sum.splits option.splits prod.splits dest: read_row_shorter)
qed simp

text \<open>Serialize the fields that are to be sent, in order.\<close>

fun send_fields :: "(bool \<times> ('m, unit) action) list \<Rightarrow> ('m, unit) action" where
  "send_fields [] = returnS ()"
| "send_fields ((send_p, act) # fs) = bindS (if send_p then act else returnS ()) (\<lambda>_. send_fields fs)"

fun write_rows :: "'m marshaller \<Rightarrow> ('m, unit) action list \<Rightarrow> ('m, unit) action" where
  "write_rows M [] = returnS ()"
| "write_rows M (r # rs) = bindS (write_start_of_instance M) (\<lambda>_. bindS r (\<lambda>_. write_rows M rs))"

text \<open>
  \<open>serialize_leaf\<close>: no rows are before the first one that is read; the end of the sequence is
  written when a row was, or for the top most sequence.
\<close>

definition serialize_leaf :: "'m marshaller \<Rightarrow> bool \<Rightarrow> seq_rows \<Rightarrow> (bool \<times> ('m, unit) action) list \<Rightarrow> ('m, unit) action" where
  "serialize_leaf M ce spec src =
     (case spec of Rows start stride ending top_most \<Rightarrow>
        let i = (if start \<noteq> -1 then start else 0) in
        case leaf_rows ce stride ending i (read_row ce i (-1) src) of
          (rows, e) \<Rightarrow> bindS (write_rows M rows) (\<lambda>_.
            case e of
              Some ex \<Rightarrow> throwS ex
            | None \<Rightarrow> if rows \<noteq> [] \<or> top_most then write_end_of_sequence M else returnS ()))"

text \<open>The vectors of strings and of variables are taken to have room for something exactly when
  there is something in them.\<close>

definition vec_serialize :: "'m marshaller \<Rightarrow> int \<Rightarrow> ('m, unit) action list \<Rightarrow> ('m, unit) action" where
  "vec_serialize M len acts =
     (if acts = [] then throwS (InternalErr ''The capacity of *this* vector is 0.'')
      else bindS (m_int M (int32_bits len)) (\<lambda>_. first_n (nat len) acts))"

text \<open>
  A sequence is a leaf sequence here; those with a sequence among their fields are in
  \<^theory_text>\<open>Nested_Sequence\<close>.  \<open>ce\<close> is \<open>ce_eval\<close>, off inside other variables, and \<open>sel\<close> what \<open>eval_selection\<close> finds for the values at hand: with \<open>ce_eval\<close>
  on nothing is sent for a variable that is not selected.  A sequence has its own \<open>sel\<close> for every row.
\<close>

definition selected_only :: "bool \<Rightarrow> bool \<Rightarrow> ('m, unit) action \<Rightarrow> ('m, unit) action" where
  "selected_only ce sel act = (if ce \<and> \<not> sel then returnS () else act)"

fun serialize :: "'m marshaller \<Rightarrow> bool \<Rightarrow> bool \<Rightarrow> vdata \<Rightarrow> ('m, unit) action"
  and serialize_field :: "'m marshaller \<Rightarrow> field \<Rightarrow> bool \<times> ('m, unit) action" where
  "serialize M ce sel (Prim p) = selected_only ce sel (prim_serialize M p)"
| "serialize M ce sel (Card t len buf) = selected_only ce sel (card_serialize M t len buf)"
| "serialize M ce sel (Strs t len strs) = selected_only ce sel (strs_serialize M len strs)"
| "serialize M ce sel (Vec len template elems) =
     selected_only ce sel (vec_serialize M len (map (\<lambda>v. serialize M False True v) elems))"
| "serialize M ce sel (Struct_d fs) = selected_only ce sel (send_fields (map (\<lambda>f. serialize_field M f) fs))"
| "serialize M ce sel (Grid_d a maps) =
     selected_only ce sel (send_fields (serialize_field M a # map (\<lambda>f. serialize_field M f) maps))"
| "serialize M ce sel (Seq_d fs spec rows) =
     serialize_leaf M ce spec (map (\<lambda>(sel, r). (sel, send_fields (map (\<lambda>f. serialize_field M f) r))) rows)"
| "serialize_field M (Field send_p v) = (send_p, serialize M False True v)"

section \<open>Deserializing\<close>

primrec prim_deserialize :: "'u unmarshaller \<Rightarrow> prim \<Rightarrow> ('u, prim) action" where
  "prim_deserialize U (V_byte _) = bindS (u_byte U) (\<lambda>v. returnS (V_byte v))"
| "prim_deserialize U (V_int16 _) = bindS (u_int16 U) (\<lambda>v. returnS (V_int16 v))"
| "prim_deserialize U (V_uint16 _) = bindS (u_uint16 U) (\<lambda>v. returnS (V_uint16 v))"
| "prim_deserialize U (V_int32 _) = bindS (u_int32 U) (\<lambda>v. returnS (V_int32 v))"
| "prim_deserialize U (V_uint32 _) = bindS (u_uint32 U) (\<lambda>v. returnS (V_uint32 v))"
| "prim_deserialize U (V_float32 _) = bindS (u_float32 U) (\<lambda>v. returnS (V_float32 v))"
| "prim_deserialize U (V_float64 _) = bindS (u_float64 U) (\<lambda>v. returnS (V_float64 v))"
| "prim_deserialize U (V_str _) = bindS (u_str U) (\<lambda>s. returnS (V_str s))"
| "prim_deserialize U (V_url _) = bindS (u_str U) (\<lambda>s. returnS (V_url s))"

text \<open>The number of elements in the stream against the declared length.\<close>

definition agreed_length :: "string \<Rightarrow> int \<Rightarrow> u32 \<Rightarrow> int res" where
  "agreed_length who len num =
     (let l = (if len = -1 then sint num else len) in
      if num \<noteq> int32_bits l
      then Inl (InternalErr (''The '' @ who @ '' sent declarations and data with mismatched sizes.''))
      else Inr l)"

fun liftS :: "'a res \<Rightarrow> ('u, 'a) action" where
  "liftS (Inl e) = throwS e"
| "liftS (Inr x) = returnS x"

text \<open>
  A buffer that is there is kept with \<open>reuse\<close>, otherwise one for the whole vector is made
  (new memory is shown as zeros).
\<close>

definition card_deserialize :: "'u unmarshaller \<Rightarrow> bool \<Rightarrow> dap_type \<Rightarrow> int \<Rightarrow> u8 list option \<Rightarrow> ('u, vdata) action" where
  "card_deserialize U reuse t len buf =
     (if \<not> m_is_cardinal_type t then throwS (InternalErr ''Unknown type!'')
      else bindS (u_int U) (\<lambda>num. bindS (liftS (agreed_length ''server'' len num)) (\<lambda>l.
        let mem = (case buf of Some b \<Rightarrow> if reuse then b else replicate (card_width t * unat (int32_bits l)) 0
                   | None \<Rightarrow> replicate (card_width t * unat (int32_bits l)) 0) in
        bindS (if t = dods_byte_c then u_vector U mem else u_vector_of U mem (card_width t) t)
          (\<lambda>r. returnS (Card t l (Some (snd r)))))))"

fun repeat_action :: "nat \<Rightarrow> ('u, 'a) action \<Rightarrow> ('u, 'a list) action" where
  "repeat_action 0 act = returnS []"
| "repeat_action (Suc n) act = bindS act (\<lambda>x. bindS (repeat_action n act) (\<lambda>xs. returnS (x # xs)))"

definition strs_deserialize :: "'u unmarshaller \<Rightarrow> dap_type \<Rightarrow> int \<Rightarrow> ('u, vdata) action" where
  "strs_deserialize U t len =
     bindS (u_int U) (\<lambda>num. bindS (liftS (agreed_length ''client'' len num)) (\<lambda>l.
       bindS (repeat_action (unat num) (u_str U)) (\<lambda>strs. returnS (Strs t l strs))))"

definition vec_deserialize :: "'u unmarshaller \<Rightarrow> int \<Rightarrow> vdata \<Rightarrow> ('u, vdata) action \<Rightarrow> ('u, vdata) action" where
  "vec_deserialize U len template act =
     bindS (u_int U) (\<lambda>num. bindS (liftS (agreed_length ''client'' len num)) (\<lambda>l.
       bindS (repeat_action (unat num) act) (\<lambda>vs. returnS (Vec l template vs))))"

fun all_fields :: "(bool \<times> ('u, vdata) action) list \<Rightarrow> ('u, field list) action" where
  "all_fields [] = returnS []"
| "all_fields ((s, act) # fs) = bindS act (\<lambda>v. bindS (all_fields fs) (\<lambda>vs. returnS (Field s v # vs)))"

text \<open>\<open>read_marker\<close> does not initialise the byte it gives to \<open>get_opaque\<close>.\<close>

definition read_marker :: "'u unmarshaller \<Rightarrow> ('u, u8 list) action" where
  "read_marker U = bindS (u_stack U) (\<lambda>marker. u_opaque U [marker])"

text \<open>
  The \<open>while (true)\<close> loop over the rows of a sequence; it is cut off after \<open>fuel\<close> markers, with
  \<open>No_Return\<close>, which is not an exception of the program.
\<close>

fun row_loop :: "'u unmarshaller \<Rightarrow> nat \<Rightarrow> ('u, field list) action \<Rightarrow> ('u, (bool \<times> field list) list) action" where
  "row_loop U 0 act = throwS No_Return"
| "row_loop U (Suc fuel) act = bindS (read_marker U) (\<lambda>marker.
     if marker = [end_of_sequence] then returnS []
     else if marker = [start_of_instance]
     then bindS act (\<lambda>r. bindS (row_loop U fuel act) (\<lambda>rs. returnS ((True, r) # rs)))
     else throwS (Error unknown_error ''I could not read the expected Sequence data stream marker!''))"

text \<open>
  \<open>protocol\<close> is the protocol of the data set, its major version and as a string; a row is appended to those a
  sequence already holds.
\<close>

definition old_server :: "string \<Rightarrow> exn" where
  "old_server version = Error unknown_error (''The protocl version ('' @ version @ '') indicates that this'' @ [newline_char]
     @ ''is an old server which may not correctly transmit Sequence variables.'' @ [newline_char]
     @ ''Contact the server administrator.'')"

definition seq_deserialize :: "'u unmarshaller \<Rightarrow> nat \<times> string \<Rightarrow> nat \<Rightarrow> field list \<Rightarrow> seq_rows \<Rightarrow> (bool \<times> field list) list
    \<Rightarrow> ('u, field list) action \<Rightarrow> ('u, vdata) action" where
  "seq_deserialize U protocol fuel fs spec old act =
     (if fst protocol < 2 then throwS (old_server (snd protocol))
      else bindS (row_loop U fuel act) (\<lambda>rows. returnS (Seq_d fs spec (old @ rows))))"

fun deserialize :: "'u unmarshaller \<Rightarrow> nat \<times> string \<Rightarrow> nat \<Rightarrow> bool \<Rightarrow> vdata \<Rightarrow> ('u, vdata) action"
  and deserialize_field :: "'u unmarshaller \<Rightarrow> nat \<times> string \<Rightarrow> nat \<Rightarrow> bool \<Rightarrow> field \<Rightarrow> bool \<times> ('u, vdata) action" where
  "deserialize U protocol fuel reuse (Prim p) = bindS (prim_deserialize U p) (\<lambda>q. returnS (Prim q))"
| "deserialize U protocol fuel reuse (Card t len buf) = card_deserialize U reuse t len buf"
| "deserialize U protocol fuel reuse (Strs t len strs) = strs_deserialize U t len"
| "deserialize U protocol fuel reuse (Vec len template elems) =
     vec_deserialize U len template (deserialize U protocol fuel False template)"
| "deserialize U protocol fuel reuse (Struct_d fs) =
     bindS (all_fields (map (\<lambda>f. deserialize_field U protocol fuel reuse f) fs)) (\<lambda>gs. returnS (Struct_d gs))"
| "deserialize U protocol fuel reuse (Grid_d a maps) =
     bindS (all_fields (deserialize_field U protocol fuel reuse a # map (\<lambda>f. deserialize_field U protocol fuel reuse f) maps))
       (\<lambda>gs. case gs of [] \<Rightarrow> throwS Undefined | g # gs' \<Rightarrow> returnS (Grid_d g gs'))"
| "deserialize U protocol fuel reuse (Seq_d fs spec rows) =
     seq_deserialize U protocol fuel fs spec rows (all_fields (map (\<lambda>f. deserialize_field U protocol fuel reuse f) fs))"
| "deserialize_field U protocol fuel reuse (Field send_p v) = (send_p, deserialize U protocol fuel reuse v)"

section \<open>XDR files\<close>

text \<open>
  \<open>XDRFileMarshaller\<close> encodes straight to a file, which has room for everything that is
  written to it; the bytes written are the state.
\<close>

definition file_room :: "nat \<Rightarrow> nat" where "file_room n = n + 8"

definition file_send :: "exn \<Rightarrow> u8 list option \<Rightarrow> (u8 list, unit) action" where
  "file_send failed encoded out =
     (case encoded of None \<Rightarrow> (Inl failed, out) | Some bs \<Rightarrow> (Inr (), out @ bs))"

definition file_put_byte :: "xdr \<Rightarrow> u8 \<Rightarrow> (u8 list, unit) action" where
  "file_put_byte x val = file_send (io_error (''Could not send byte data.'' @ bug_in_dods)) (enc_char x val)"

definition file_put_int16 :: "xdr \<Rightarrow> u16 \<Rightarrow> (u8 list, unit) action" where
  "file_put_int16 x val = file_send (io_error (''Could not send int 16 data.'' @ bug_in_libdap)) (enc_int16 x val)"

definition file_put_int32 :: "xdr \<Rightarrow> u32 \<Rightarrow> (u8 list, unit) action" where
  "file_put_int32 x val = file_send (io_error (''Could not read int 32 data.'' @ bug_in_libdap)) (enc_int32 x val)"

definition file_put_float32 :: "xdr \<Rightarrow> u32 \<Rightarrow> (u8 list, unit) action" where
  "file_put_float32 x val = file_send (io_error (''Could not send float 32 data.'' @ bug_in_libdap)) (enc_float x val)"

definition file_put_float64 :: "xdr \<Rightarrow> u64 \<Rightarrow> (u8 list, unit) action" where
  "file_put_float64 x val = file_send (io_error (''Could not send float 64 data.'' @ bug_in_libdap)) (enc_double x val)"

definition file_put_uint16 :: "xdr \<Rightarrow> u16 \<Rightarrow> (u8 list, unit) action" where
  "file_put_uint16 x val = file_send (io_error (''Could not send uint 16 data.'' @ bug_or_problem)) (enc_uint16 x val)"

definition file_put_uint32 :: "xdr \<Rightarrow> u32 \<Rightarrow> (u8 list, unit) action" where
  "file_put_uint32 x val = file_send (io_error (''Could not send uint 32 data.'' @ bug_or_problem)) (enc_uint32 x val)"

definition file_put_str :: "xdr \<Rightarrow> u8 list \<Rightarrow> (u8 list, unit) action" where
  "file_put_str x val = file_send (io_error (''Could not send string data.'' @ bug_in_libdap))
     (enc_string x (file_room (length val)) max_str_len (c_bytes val))"

definition file_put_url :: "xdr \<Rightarrow> u8 list \<Rightarrow> (u8 list, unit) action" where
  "file_put_url x val = file_put_str x val"

definition file_put_opaque :: "xdr \<Rightarrow> u8 list \<Rightarrow> (u8 list, unit) action" where
  "file_put_opaque x val = file_send (io_error (''Could not send opaque data.'' @ bug_in_libdap))
     (enc_opaque x (file_room (length val)) val)"

definition this_may_be :: "string \<Rightarrow> exn" where
  "this_may_be n = Error unknown_error (''Network I/O Error'' @ n @ ''. This may be due to a bug in libdap or a'' @ newline_char # ''problem with the network connection.'')"

definition file_put_int :: "xdr \<Rightarrow> u32 \<Rightarrow> (u8 list, unit) action" where
  "file_put_int x val = file_send (this_may_be ''(1)'') (enc_int x val)"

definition no_buffer :: exn where "no_buffer = InternalErr ''Buffer pointer is not set.''"

definition file_put_vector :: "xdr \<Rightarrow> u8 list option \<Rightarrow> u32 \<Rightarrow> (u8 list, unit) action" where
  "file_put_vector x val num =
     (case val of
        None \<Rightarrow> throwS no_buffer
      | Some mem \<Rightarrow> bindS (file_put_int x num) (\<lambda>_.
          file_send (this_may_be ''(2)'')
            (if dods_max_array < unat num then None
             else enc_bytes x (file_room (unat num)) dods_max_array (take (unat num) mem))))"

definition file_put_vector_of :: "xdr \<Rightarrow> u8 list option \<Rightarrow> u32 \<Rightarrow> nat \<Rightarrow> dap_type \<Rightarrow> (u8 list, unit) action" where
  "file_put_vector_of x val num width t =
     (case val of
        None \<Rightarrow> throwS no_buffer
      | Some mem \<Rightarrow> bindS (file_put_int x num) (\<lambda>_.
          case xdr_coder t of
            None \<Rightarrow> throwS Undefined
          | Some c \<Rightarrow> file_send (this_may_be ''(2)'')
              (enc_array x (file_room (unat num * wire_size c)) dods_max_array (unat num) width c mem)))"

text \<open>\<open>XDRFileUnMarshaller\<close> decodes from what the file has left, which is its state.\<close>

definition file_decode :: "exn \<Rightarrow> (u8 list \<Rightarrow> ('v \<times> nat) option) \<Rightarrow> (u8 list, 'v) action" where
  "file_decode failed dec inp =
     (case dec inp of None \<Rightarrow> (Inl failed, inp) | Some (v, n) \<Rightarrow> (Inr v, drop n inp))"

definition could_not_read :: "string \<Rightarrow> string \<Rightarrow> exn" where
  "could_not_read what where_bug = Error unknown_error (''Network I/O Error. Could not read '' @ what @ '' data. This may be due to a''
     @ newline_char # ''bug in '' @ where_bug @ '' or a problem with the network connection.'')"

definition file_get_byte :: "xdr \<Rightarrow> (u8 list, u8) action" where
  "file_get_byte x = file_decode (could_not_read ''byte'' ''DODS'') (dec_char x)"

definition file_get_int16 :: "xdr \<Rightarrow> (u8 list, u16) action" where
  "file_get_int16 x = file_decode (could_not_read ''int 16'' ''libdap'') (dec_int16 x)"

definition file_get_int32 :: "xdr \<Rightarrow> (u8 list, u32) action" where
  "file_get_int32 x = file_decode (could_not_read ''int 32'' ''libdap'') (dec_int32 x)"

definition file_get_float32 :: "xdr \<Rightarrow> (u8 list, u32) action" where
  "file_get_float32 x = file_decode (could_not_read ''float 32'' ''libdap'') (dec_float x)"

definition file_get_float64 :: "xdr \<Rightarrow> (u8 list, u64) action" where
  "file_get_float64 x = file_decode (could_not_read ''float 64'' ''libdap'') (dec_double x)"

definition file_get_uint16 :: "xdr \<Rightarrow> (u8 list, u16) action" where
  "file_get_uint16 x = file_decode (could_not_read ''uint 16'' ''libdap'') (dec_uint16 x)"

definition file_get_uint32 :: "xdr \<Rightarrow> (u8 list, u32) action" where
  "file_get_uint32 x = file_decode (could_not_read ''uint 32'' ''libdap'') (dec_uint32 x)"

definition file_get_str :: "xdr \<Rightarrow> (u8 list, u8 list) action" where
  "file_get_str x = bindS (file_decode (io_error (''Could not read string data.'' @ bug_in_libdap)) (dec_string x max_str_len))
     (\<lambda>s. returnS (c_bytes s))"

definition file_get_url :: "xdr \<Rightarrow> (u8 list, u8 list) action" where
  "file_get_url x = file_get_str x"

text \<open>
  The result of \<open>xdr_opaque\<close> is not looked at; when it fails \<open>val\<close> holds what it happens to
  hold.  (The library may take the last bytes of a file that are too few for an item before it
  fails; they are left here, where no item can be read from them either.)
\<close>

definition file_get_opaque :: "xdr \<Rightarrow> u8 list \<Rightarrow> (u8 list, u8 list) action" where
  "file_get_opaque x val inp =
     (case dec_opaque x (length val) inp of
        None \<Rightarrow> (Inr val, inp)
      | Some (bs, n) \<Rightarrow> (store bs val, drop n inp))"

definition file_get_int :: "xdr \<Rightarrow> (u8 list, u32) action" where
  "file_get_int x = file_decode (this_may_be ''(1)'') (dec_int x)"

definition packed_array :: exn where
  "packed_array = Error unknown_error (''Network I/O error. Could not read packed array data.'' @ newline_char
     # ''This may be due to a bug in libdap or a problem with'' @ newline_char # ''the network connection.'')"

definition file_get_vector :: "xdr \<Rightarrow> u8 list \<Rightarrow> (u8 list, nat \<times> u8 list) action" where
  "file_get_vector x val = bindS (file_decode packed_array (dec_bytes x dods_max_array))
     (\<lambda>bs. liftS (map_sum id (Pair (length bs)) (store bs val)))"

definition file_get_vector_of :: "xdr \<Rightarrow> u8 list \<Rightarrow> nat \<Rightarrow> dap_type \<Rightarrow> (u8 list, nat \<times> u8 list) action" where
  "file_get_vector_of x val width t =
     (case xdr_coder t of
        None \<Rightarrow> throwS Undefined
      | Some c \<Rightarrow> bindS (file_decode packed_array (dec_array x dods_max_array width c))
          (\<lambda>es. liftS (map_sum id (Pair (length es)) (place 0 width es val))))"

section \<open>Uninitialised memory\<close>

text \<open>
  The bytes that the variables hold which are not initialised, in the order they are read, are
  not determined by the program: they are part of the state, next to the stream.
\<close>

definition in_memory :: "('u, 'v) action \<Rightarrow> ('u \<times> (nat \<Rightarrow> u8), 'v) action" where
  "in_memory act s = (case act (fst s) of (r, u) \<Rightarrow> (r, (u, snd s)))"

definition stack_byte :: "('u \<times> (nat \<Rightarrow> u8), u8) action" where
  "stack_byte s = (Inr (snd s 0), (fst s, \<lambda>n. snd s (Suc n)))"

section \<open>The contract of the abstract classes\<close>

text \<open>
  \<open>puts\<close>: the call succeeds and writes \<open>bs\<close>; \<open>gets\<close>: on a stream that is \<open>ok\<close> it takes exactly
  \<open>bs\<close>, yields \<open>v\<close> and leaves the stream \<open>ok\<close>; \<open>moves\<close>: what one writes the other reads.
\<close>

definition puts :: "('m \<Rightarrow> u8 list) \<Rightarrow> ('m, unit) action \<Rightarrow> u8 list \<Rightarrow> bool" where
  "puts written act bs \<longleftrightarrow> (\<forall>m. \<exists>m'. act m = (Inr (), m') \<and> written m' = written m @ bs)"

definition gets :: "('u \<Rightarrow> bool) \<Rightarrow> ('u \<Rightarrow> u8 list) \<Rightarrow> ('u, 'v) action \<Rightarrow> u8 list \<Rightarrow> 'v \<Rightarrow> bool" where
  "gets ok pending act bs v \<longleftrightarrow>
     (\<forall>u rest. ok u \<and> pending u = bs @ rest \<longrightarrow> (\<exists>u'. act u = (Inr v, u') \<and> ok u' \<and> pending u' = rest))"

definition moves :: "('m \<Rightarrow> u8 list) \<Rightarrow> ('u \<Rightarrow> bool) \<Rightarrow> ('u \<Rightarrow> u8 list) \<Rightarrow> ('m, unit) action \<Rightarrow> ('u, 'v) action \<Rightarrow> 'v \<Rightarrow> bool" where
  "moves written ok pending put get v \<longleftrightarrow> (\<exists>bs. puts written put bs \<and> gets ok pending get bs v)"

lemma puts_return: "puts w (returnS ()) []"
  by (simp add: puts_def)

lemma puts_bind: "puts w p as \<Longrightarrow> puts w q bs \<Longrightarrow> puts w (bindS p (\<lambda>_. q)) (as @ bs)"
  unfolding puts_def
proof
  fix m assume p: "\<forall>m. \<exists>m'. p m = (Inr (), m') \<and> w m' = w m @ as" and q: "\<forall>m. \<exists>m'. q m = (Inr (), m') \<and> w m' = w m @ bs"
  from p obtain m1 where "p m = (Inr (), m1)" "w m1 = w m @ as" by blast
  moreover from q obtain m2 where "q m1 = (Inr (), m2)" "w m2 = w m1 @ bs" by blast
  ultimately show "\<exists>m'. bindS p (\<lambda>_. q) m = (Inr (), m') \<and> w m' = w m @ as @ bs" by simp
qed

lemma gets_return: "gets ok pd (returnS v) [] v"
  by (simp add: gets_def)

lemma gets_bind:
  assumes "gets ok pd get as v" "gets ok pd (f v) bs w"
  shows "gets ok pd (bindS get f) (as @ bs) w"
  unfolding gets_def
proof (intro allI impI, elim conjE)
  fix u rest assume u: "ok u" "pd u = (as @ bs) @ rest"
  then obtain u1 where u1: "get u = (Inr v, u1)" "ok u1" "pd u1 = bs @ rest"
    using assms(1) unfolding gets_def by (metis append.assoc)
  then obtain u2 where "f v u1 = (Inr w, u2)" "ok u2" "pd u2 = rest"
    using assms(2) unfolding gets_def by metis
  with u1(1) show "\<exists>u'. bindS get f u = (Inr w, u') \<and> ok u' \<and> pd u' = rest" by simp
qed

lemma gets_then_return: "gets ok pd get bs v \<Longrightarrow> gets ok pd (bindS get (\<lambda>v. returnS (f v))) bs (f v)"
  using gets_bind [OF _ gets_return, of ok pd get bs v f] unfolding append_Nil2 .

lemma movesI: "puts w p bs \<Longrightarrow> gets ok pd g bs v \<Longrightarrow> moves w ok pd p g v"
  unfolding moves_def by (rule exI, rule conjI)

lemma movesE:
  assumes "moves w ok pd p g v"
  obtains bs where "puts w p bs" "gets ok pd g bs v"
  using assms unfolding moves_def by (elim exE conjE)

lemma moves_return: "moves w ok pd (returnS ()) (returnS v) v"
  by (rule movesI, rule puts_return, rule gets_return)

lemma moves_bind:
  assumes "moves w ok pd p g v" "moves w ok pd q (f v) r"
  shows "moves w ok pd (bindS p (\<lambda>_. q)) (bindS g f) r"
proof -
  obtain as bs where "puts w p as" "gets ok pd g as v" "puts w q bs" "gets ok pd (f v) bs r"
    using assms by (elim movesE)
  then show ?thesis by (intro movesI [OF puts_bind gets_bind])
qed

lemma moves_map:
  assumes "moves w ok pd p g v"
  shows "moves w ok pd p (bindS g (\<lambda>v. returnS (f v))) (f v)"
proof -
  obtain bs where "puts w p bs" "gets ok pd g bs v" using assms by (elim movesE)
  then show ?thesis by (intro movesI [OF _ gets_then_return])
qed

text \<open>Which strings, byte vectors and vectors of wider elements survive is a matter of the
  class, and so is whether the markers of a sequence do.\<close>

locale marshalling =
  fixes M :: "'m marshaller" and U :: "'u unmarshaller"
    and written :: "'m \<Rightarrow> u8 list" and ok :: "'u \<Rightarrow> bool" and pending :: "'u \<Rightarrow> u8 list"
    and str_ok :: "u8 list \<Rightarrow> bool" and bytes_ok :: "nat \<Rightarrow> bool" and vec_ok :: "dap_type \<Rightarrow> nat \<Rightarrow> bool" and marks :: bool
  assumes byte: "moves written ok pending (m_byte M b) (u_byte U) b"
    and int16: "moves written ok pending (m_int16 M h) (u_int16 U) h"
    and uint16: "moves written ok pending (m_uint16 M h) (u_uint16 U) h"
    and int32: "moves written ok pending (m_int32 M w) (u_int32 U) w"
    and uint32: "moves written ok pending (m_uint32 M w) (u_uint32 U) w"
    and float32: "moves written ok pending (m_float32 M w) (u_float32 U) w"
    and float64: "moves written ok pending (m_float64 M d) (u_float64 U) d"
    and str: "str_ok s \<Longrightarrow> moves written ok pending (m_str M s) (u_str U) s"
    and url: "str_ok s \<Longrightarrow> moves written ok pending (m_url M s) (u_url U) s"
    and int: "moves written ok pending (m_int M w) (u_int U) w"
    and mark: "marks \<Longrightarrow> moves written ok pending (m_opaque M [b]) (read_marker U) [b]"
    and vector: "bytes_ok n \<Longrightarrow> length mem = n \<Longrightarrow>
      \<exists>as bs. puts written (m_vector M (Some mem) (of_nat n)) (as @ bs) \<and> gets ok pending (u_int U) as (of_nat n) \<and>
        (\<forall>val. length val = n \<longrightarrow> gets ok pending (u_vector U val) bs (n, mem))"
    and vector_of: "vec_ok t n \<Longrightarrow> length mem = n * card_width t \<Longrightarrow>
      \<exists>as bs. puts written (m_vector_of M (Some mem) (of_nat n) (card_width t) t) (as @ bs) \<and> gets ok pending (u_int U) as (of_nat n) \<and>
        (\<forall>val. length val = length mem \<longrightarrow> gets ok pending (u_vector_of U val (card_width t) t) bs (n, mem))"

section \<open>What the client declares and receives\<close>

primrec blank :: "prim \<Rightarrow> prim" where
  "blank (V_byte _) = V_byte 0" | "blank (V_int16 _) = V_int16 0" | "blank (V_uint16 _) = V_uint16 0"
| "blank (V_int32 _) = V_int32 0" | "blank (V_uint32 _) = V_uint32 0" | "blank (V_float32 _) = V_float32 0"
| "blank (V_float64 _) = V_float64 0" | "blank (V_str _) = V_str []" | "blank (V_url _) = V_url []"

text \<open>The variable as the DDS of the response declares it: the fields that are sent, no data.\<close>

fun declared :: "vdata \<Rightarrow> vdata" and declared_field :: "field \<Rightarrow> field" where
  "declared (Prim p) = Prim (blank p)"
| "declared (Card t len buf) = Card t len None"
| "declared (Strs t len strs) = Strs t len []"
| "declared (Vec len template elems) = Vec len (declared template) []"
| "declared (Struct_d fs) = Struct_d (map declared_field (filter f_send fs))"
| "declared (Grid_d a maps) = Grid_d (declared_field a) (map declared_field (filter f_send maps))"
| "declared (Seq_d fs spec rows) = Seq_d (map declared_field (filter f_send fs)) spec []"
| "declared_field (Field s v) = Field s (declared v)"

definition sent_rows :: "bool \<Rightarrow> seq_rows \<Rightarrow> (bool \<times> 'r) list \<Rightarrow> 'r list" where
  "sent_rows ce spec src =
     (case spec of Rows start stride ending top_most \<Rightarrow>
        let i = (if start \<noteq> -1 then start else 0) in fst (leaf_rows ce stride ending i (read_row ce i (-1) src)))"

text \<open>The variable the client has in the end.\<close>

fun received :: "bool \<Rightarrow> vdata \<Rightarrow> vdata" and received_field :: "field \<Rightarrow> field" where
  "received ce (Prim p) = Prim p"
| "received ce (Card t len buf) = Card t len buf"
| "received ce (Strs t len strs) = Strs t len strs"
| "received ce (Vec len template elems) = Vec len (declared template) (map (\<lambda>v. received False v) elems)"
| "received ce (Struct_d fs) = Struct_d (map received_field (filter f_send fs))"
| "received ce (Grid_d a maps) = Grid_d (received_field a) (map received_field (filter f_send maps))"
| "received ce (Seq_d fs spec rows) =
     Seq_d (map declared_field (filter f_send fs)) spec
       (map (Pair True) (sent_rows ce spec (map (\<lambda>(sel, r). (sel, map received_field (filter f_send r))) rows)))"
| "received_field (Field s v) = Field s (received False v)"

section \<open>Data survives the stream\<close>

primrec prim_ok :: "(u8 list \<Rightarrow> bool) \<Rightarrow> prim \<Rightarrow> bool" where
  "prim_ok S (V_byte _) = True" | "prim_ok S (V_int16 _) = True" | "prim_ok S (V_uint16 _) = True"
| "prim_ok S (V_int32 _) = True" | "prim_ok S (V_uint32 _) = True" | "prim_ok S (V_float32 _) = True"
| "prim_ok S (V_float64 _) = True" | "prim_ok S (V_str s) = S s" | "prim_ok S (V_url s) = S s"

definition card_ok :: "(nat \<Rightarrow> bool) \<Rightarrow> (dap_type \<Rightarrow> nat \<Rightarrow> bool) \<Rightarrow> dap_type \<Rightarrow> int \<Rightarrow> u8 list option \<Rightarrow> bool" where
  "card_ok B V t len buf \<longleftrightarrow> m_is_cardinal_type t \<and> 0 \<le> len \<and> len < 2 ^ 31
     \<and> (case buf of None \<Rightarrow> False | Some mem \<Rightarrow> length mem = nat len * card_width t)
     \<and> (if t = dods_byte_c then B (nat len) else V t (nat len))"

definition counted_ok :: "int \<Rightarrow> 'a list \<Rightarrow> bool" where
  "counted_ok len xs \<longleftrightarrow> xs \<noteq> [] \<and> len = int (length xs) \<and> length xs < 2 ^ 31"

fun is_sequence :: "vdata \<Rightarrow> bool" where
  "is_sequence (Seq_d fs spec rows) = True"
| "is_sequence v = False"

definition rows_ok :: "seq_rows \<Rightarrow> bool" where
  "rows_ok spec = (case spec of Rows start stride ending top_most \<Rightarrow> top_most \<and> 0 \<le> stride \<and> -1 \<le> start)"

text \<open>
  A variable whose data a class can move: \<open>S\<close>, \<open>B\<close>, \<open>V\<close> and \<open>K\<close> are the predicates of the
  contract, \<open>F\<close> bounds the number of rows of a sequence, which has to be a leaf.
\<close>

fun sendable :: "(u8 list \<Rightarrow> bool) \<Rightarrow> (nat \<Rightarrow> bool) \<Rightarrow> (dap_type \<Rightarrow> nat \<Rightarrow> bool) \<Rightarrow> bool \<Rightarrow> nat \<Rightarrow> vdata \<Rightarrow> bool"
  and sendable_field :: "(u8 list \<Rightarrow> bool) \<Rightarrow> (nat \<Rightarrow> bool) \<Rightarrow> (dap_type \<Rightarrow> nat \<Rightarrow> bool) \<Rightarrow> bool \<Rightarrow> nat \<Rightarrow> field \<Rightarrow> bool" where
  "sendable S B V K F (Prim p) = prim_ok S p"
| "sendable S B V K F (Card t len buf) = card_ok B V t len buf"
| "sendable S B V K F (Strs t len strs) = (counted_ok len strs \<and> (\<forall>s \<in> set strs. S s))"
| "sendable S B V K F (Vec len template elems) =
     (counted_ok len elems \<and> (\<forall>v \<in> set elems. sendable S B V K F v \<and> declared v = declared template))"
| "sendable S B V K F (Struct_d fs) = (\<forall>f \<in> set fs. sendable_field S B V K F f)"
| "sendable S B V K F (Grid_d a maps) =
     (f_send a \<and> sendable_field S B V K F a \<and> (\<forall>f \<in> set maps. sendable_field S B V K F f))"
| "sendable S B V K F (Seq_d fs spec rows) =
     (K \<and> rows_ok spec \<and> length rows < F \<and>
      (\<forall>p \<in> set rows. (\<forall>f \<in> set (snd p). sendable_field S B V K F f \<and> \<not> (f_send f \<and> is_sequence (f_data f))) \<and>
         map declared_field (filter f_send (snd p)) = map declared_field (filter f_send fs)))"
| "sendable_field S B V K F (Field s v) = (s \<longrightarrow> sendable S B V K F v)"

lemma read_row_reached: "read_row ce row cur src = Inr (Some r, cur', src') \<Longrightarrow> cur' = row"
proof -
  have "read_row_loop ce row c seen src = (Some r, cur', src') \<Longrightarrow> c \<le> row \<Longrightarrow> cur' = row" for c seen
    by (induction ce row c seen src rule: read_row_loop.induct) (auto split: if_splits)
  then show "read_row ce row cur src = Inr (Some r, cur', src') \<Longrightarrow> cur' = row"
    by (auto simp: read_row_def split: if_splits)
qed

lemma read_row_step:
  "cur \<le> row \<Longrightarrow> \<exists>v c s. read_row ce row cur src = Inr (v, c, s) \<and> (v \<noteq> None \<longrightarrow> c = row)"
proof -
  assume "cur \<le> row"
  then obtain v c s where r: "read_row ce row cur src = Inr (v, c, s)" by (auto simp: read_row_def) (metis prod_cases3)
  then have "v \<noteq> None \<longrightarrow> c = row" by (cases v) (auto dest: read_row_reached)
  with r show ?thesis by blast
qed

lemma leaf_rows_no_error:
  "0 \<le> stride \<Longrightarrow> \<exists>v c s. st = Inr (v, c, s) \<and> (v \<noteq> None \<longrightarrow> c = i) \<Longrightarrow> snd (leaf_rows ce stride ending i st) = None"
proof (induction ce stride ending i st rule: leaf_rows.induct)
  case (3 ce stride ending i r cur src)
  then have "cur \<le> i + stride" by simp
  from 3(1) [OF _ 3(2) read_row_step [OF this]] show ?case by (auto split: prod.splits)
qed simp_all

lemma rows_ok_no_error:
  assumes "rows_ok (Rows start stride ending top_most)"
  shows "snd (leaf_rows ce stride ending (if start \<noteq> -1 then start else 0)
      (read_row ce (if start \<noteq> -1 then start else 0) (-1) src)) = None"
  by (rule leaf_rows_no_error, use assms in \<open>simp add: rows_ok_def\<close>, rule read_row_step)
    (use assms in \<open>simp add: rows_ok_def\<close>)

text \<open>The rows are chosen by their position and selection, not by their values.\<close>

lemma read_row_loop_map:
  "read_row_loop ce row cur (map_option f seen) (map (apsnd f) src) =
     (case read_row_loop ce row cur seen src of (v, c, s) \<Rightarrow> (map_option f v, c, map (apsnd f) s))"
  by (induction ce row cur seen src rule: read_row_loop.induct) auto

lemma read_row_map:
  "read_row ce row cur (map (apsnd f) src) =
     map_sum id (\<lambda>(v, c, s). (map_option f v, c, map (apsnd f) s)) (read_row ce row cur src)"
  using read_row_loop_map [of ce row cur f None src] by (auto simp: read_row_def split: prod.splits)

lemma leaf_rows_map:
  "leaf_rows ce stride ending i (map_sum id (\<lambda>(v, c, s). (map_option f v, c, map (apsnd f) s)) st) =
     map_prod (map f) id (leaf_rows ce stride ending i st)"
proof (induction ce stride ending i st rule: leaf_rows.induct)
  case (3 ce stride ending i r cur src)
  show ?case
  proof (cases "is_end_of_rows ending i")
    case False
    obtain rs e where l: "leaf_rows ce stride ending (i + stride) (read_row ce (i + stride) cur src) = (rs, e)" by fastforce
    have "leaf_rows ce stride ending (i + stride) (read_row ce (i + stride) cur (map (apsnd f) src)) = (map f rs, e)"
      using 3 [OF False, folded read_row_map] unfolding l by simp
    with l False show ?thesis by simp
  qed simp
qed simp_all

lemma sent_rows_map: "sent_rows ce spec (map (apsnd f) src) = map f (sent_rows ce spec src)"
  by (simp add: sent_rows_def read_row_map leaf_rows_map Let_def split: seq_rows.splits)

lemma read_row_loop_subset:
  "read_row_loop ce row cur seen src = (v, cur', src') \<Longrightarrow> (\<forall>r. v = Some r \<longrightarrow> seen = Some r \<or> r \<in> snd ` set src) \<and> set src' \<subseteq> set src"
  by (induction ce row cur seen src rule: read_row_loop.induct) (fastforce split: if_splits)+

lemma read_row_subset:
  "read_row ce row cur src = Inr (v, cur', src') \<Longrightarrow> (\<forall>r. v = Some r \<longrightarrow> r \<in> snd ` set src) \<and> set src' \<subseteq> set src"
  by (auto simp: read_row_def split: if_splits dest: read_row_loop_subset)

lemma leaf_rows_subset:
  "set (fst (leaf_rows ce stride ending i st)) \<subseteq> (case st of Inr (Some r, c, src) \<Rightarrow> insert r (snd ` set src) | _ \<Rightarrow> {})
   \<and> length (fst (leaf_rows ce stride ending i st)) \<le> (case st of Inr (Some r, c, src) \<Rightarrow> Suc (length src) | _ \<Rightarrow> 0)"
proof (induction ce stride ending i st rule: leaf_rows.induct)
  case (3 ce stride ending i r cur src)
  show ?case
  proof (cases "is_end_of_rows ending i")
    case False
    obtain rs e where l: "leaf_rows ce stride ending (i + stride) (read_row ce (i + stride) cur src) = (rs, e)" by fastforce
    have "set rs \<subseteq> snd ` set src \<and> length rs \<le> length src"
    proof (cases "\<exists>r' c s. read_row ce (i + stride) cur src = Inr (Some r', c, s)")
      case True
      then obtain r' c s where r: "read_row ce (i + stride) cur src = Inr (Some r', c, s)" by blast
      have "set rs \<subseteq> insert r' (snd ` set s)" "length rs \<le> Suc (length s)" using 3 [OF False] l r by simp_all
      moreover have "r' \<in> snd ` set src" "set s \<subseteq> set src" using read_row_subset [OF r] by simp_all
      moreover have "length s < length src" by (rule read_row_shorter [OF r])
      ultimately show ?thesis by auto
    next
      case n: False
      have "rs = []" using 3 [OF False] l n by (auto split: sum.splits option.splits prod.splits)
      then show ?thesis by simp
    qed
    with l False show ?thesis by auto
  qed simp
qed simp_all

lemma sent_rows_subset: "set (sent_rows ce spec src) \<subseteq> snd ` set src \<and> length (sent_rows ce spec src) \<le> length src"
proof -
  have "set (fst (leaf_rows ce stride ending i (read_row ce i (-1) src))) \<subseteq> snd ` set src
      \<and> length (fst (leaf_rows ce stride ending i (read_row ce i (-1) src))) \<le> length src" for i stride ending
  proof (cases "\<exists>r' c s. read_row ce i (-1) src = Inr (Some r', c, s)")
    case True
    then obtain r' c s where r: "read_row ce i (-1) src = Inr (Some r', c, s)" by blast
    show ?thesis using leaf_rows_subset [of ce stride ending i "read_row ce i (-1) src"] read_row_subset [OF r] read_row_shorter [OF r]
      by (auto simp: r simp del: leaf_rows.simps(3))
  next
    case False
    then show ?thesis using leaf_rows_subset [of ce stride ending i "read_row ce i (-1) src"]
      by (auto split: sum.splits option.splits prod.splits)
  qed
  then show ?thesis by (cases spec) (simp add: sent_rows_def Let_def)
qed

lemma int32_bits_nat: "0 \<le> len \<Longrightarrow> int32_bits len = of_nat (nat len)"
  by (simp add: int32_bits_def)

lemma agreed_length_same: "0 \<le> len \<Longrightarrow> agreed_length who len (of_nat (nat len)) = Inr len"
  by (simp add: agreed_length_def int32_bits_nat)

lemma unat_small: "n < 2 ^ 31 \<Longrightarrow> unat (of_nat n :: u32) = n"
  by (simp add: unat_of_nat take_bit_nat_eq_self)

lemma f_send_fields [simp]: "f_send (declared_field f) = f_send f" "f_send (received_field f) = f_send f"
  "fst (serialize_field M f) = f_send f" "fst (deserialize_field U pr F reuse f) = f_send f"
  by (cases f; simp)+

lemma field_eq: "Field (f_send f) (f_data f) = f"
  by (cases f) simp

lemma moves_first_n:
  "list_all2 (\<lambda>a v. moves w ok pd a get v) acts vs \<Longrightarrow> moves w ok pd (first_n (length vs) acts) (repeat_action (length vs) get) vs"
proof (induction acts vs rule: list_all2_induct)
  case Nil
  show ?case by (simp only: first_n.simps repeat_action.simps list.size moves_return)
next
  case (Cons a acts v vs)
  show ?case unfolding list.size(4) add_Suc_right add_0_right first_n.simps repeat_action.simps
    by (rule moves_bind [OF Cons(1) moves_map [OF Cons(3)]])
qed

lemma moves_fields:
  assumes "\<And>f. f \<in> set fs \<Longrightarrow> f_send f \<Longrightarrow>
      moves w ok pd (snd (serialize_field M f)) (snd (deserialize_field U pr F reuse (declared_field f))) (f_data (received_field f))"
  shows "moves w ok pd (send_fields (map (\<lambda>f. serialize_field M f) fs))
    (all_fields (map (\<lambda>f. deserialize_field U pr F reuse f) (map declared_field (filter f_send fs)))) (map received_field (filter f_send fs))"
  using assms
proof (induction fs)
  case Nil
  show ?case by (simp only: list.map filter.simps send_fields.simps all_fields.simps moves_return)
next
  case (Cons f fs)
  obtain s act where p: "serialize_field M f = (s, act)" by (cases "serialize_field M f")
  then have s: "s = f_send f" using f_send_fields(3) [of M f] by simp
  have IH: "moves w ok pd (send_fields (map (\<lambda>f. serialize_field M f) fs))
    (all_fields (map (\<lambda>f. deserialize_field U pr F reuse f) (map declared_field (filter f_send fs)))) (map received_field (filter f_send fs))"
    by (rule Cons.IH, rule Cons.prems, rule list.set_intros(2))
  show ?case
  proof (cases "f_send f")
    case True
    obtain s' get where g: "deserialize_field U pr F reuse (declared_field f) = (s', get)"
      by (cases "deserialize_field U pr F reuse (declared_field f)")
    then have s': "s' = f_send f" using f_send_fields(4) [of U pr F reuse "declared_field f"] by simp
    have m: "moves w ok pd act get (f_data (received_field f))"
      using Cons.prems [OF list.set_intros(1) True] by (simp only: p g snd_conv)
    have r: "received_field f = Field s' (f_data (received_field f))"
      using field_eq [of "received_field f"] s' by simp
    show ?thesis
      unfolding list.map filter.simps if_P [OF True] p g send_fields.simps all_fields.simps s if_P [OF True]
      by (subst r) (intro moves_bind [OF m] moves_map [OF IH])
  next
    case False
    show ?thesis
      unfolding list.map filter.simps if_not_P [OF False] p send_fields.simps s if_not_P [OF False]
    proof -
      obtain bs where "puts w (send_fields (map (\<lambda>f. serialize_field M f) fs)) bs"
          "gets ok pd (all_fields (map (\<lambda>f. deserialize_field U pr F reuse f) (map declared_field (filter f_send fs)))) bs
             (map received_field (filter f_send fs))"
        using IH by (elim movesE)
      then show "moves w ok pd (bindS (returnS ()) (\<lambda>_. send_fields (map (\<lambda>f. serialize_field M f) fs)))
          (all_fields (map (\<lambda>f. deserialize_field U pr F reuse f) (map declared_field (filter f_send fs))))
          (map received_field (filter f_send fs))"
        using puts_bind [OF puts_return, of w _ bs] by (intro movesI) simp_all
    qed
  qed
qed

context marshalling
begin

lemma prim_moves:
  "prim_ok str_ok p \<Longrightarrow> moves written ok pending (prim_serialize M p) (prim_deserialize U (blank p)) p"
proof (cases p)
  case (V_str s)
  assume "prim_ok str_ok p"
  then show ?thesis unfolding V_str prim_serialize.simps blank.simps prim_deserialize.simps
    by (intro moves_map str) (simp add: V_str)
next
  case (V_url s)
  assume "prim_ok str_ok p"
  then show ?thesis unfolding V_url prim_serialize.simps blank.simps prim_deserialize.simps
    by (intro moves_map str) (simp add: V_url)
qed (simp only: prim_serialize.simps blank.simps prim_deserialize.simps, rule moves_map, rule byte int16 uint16 int32 uint32 float32 float64)+

lemma card_moves:
  assumes "card_ok bytes_ok vec_ok t len buf"
  shows "moves written ok pending (card_serialize M t len buf) (card_deserialize U False t len None) (Card t len buf)"
proof -
  obtain mem where mem: "buf = Some mem" "length mem = nat len * card_width t"
    using assms by (auto simp: card_ok_def split: option.splits)
  have t: "m_is_cardinal_type t" "0 \<le> len" "len < 2 ^ 31" using assms by (simp_all add: card_ok_def)
  have "nat len < 2 ^ 31" using t by simp
  then have n: "unat (int32_bits len) = nat len" by (simp only: int32_bits_nat [OF t(2)] unat_small)
  let ?new = "replicate (card_width t * nat len) (0 :: u8)"
  let ?put = "if t = dods_byte_c then m_vector M (Some mem) (of_nat (nat len))
    else m_vector_of M (Some mem) (of_nat (nat len)) (card_width t) t"
  let ?get = "if t = dods_byte_c then u_vector U ?new else u_vector_of U ?new (card_width t) t"
  obtain as bs where b: "puts written ?put (as @ bs)" "gets ok pending (u_int U) as (of_nat (nat len))"
      "gets ok pending ?get bs (nat len, mem)"
  proof (cases "t = dods_byte_c")
    case True
    then have "bytes_ok (nat len)" "length mem = nat len" using assms mem by (simp_all add: card_ok_def card_width_def)
    from vector [OF this] obtain as bs where "puts written (m_vector M (Some mem) (of_nat (nat len))) (as @ bs)"
        "gets ok pending (u_int U) as (of_nat (nat len))" "\<forall>val. length val = nat len \<longrightarrow> gets ok pending (u_vector U val) bs (nat len, mem)"
      by blast
    with True that show thesis by (simp add: card_width_def)
  next
    case False
    then have "vec_ok t (nat len)" using assms by (simp add: card_ok_def)
    from vector_of [OF this mem(2)] obtain as bs where "puts written (m_vector_of M (Some mem) (of_nat (nat len)) (card_width t) t) (as @ bs)"
        "gets ok pending (u_int U) as (of_nat (nat len))" "\<forall>val. length val = length mem \<longrightarrow> gets ok pending (u_vector_of U val (card_width t) t) bs (nat len, mem)"
      by blast
    with False mem that show thesis by (simp add: mult.commute)
  qed
  have p: "card_serialize M t len buf = ?put"
    using t(1,2) mem(1) by (simp add: card_serialize_def int32_bits_nat)
  have "gets ok pending (card_deserialize U False t len None) (as @ bs) (Card t len (Some mem))"
    unfolding card_deserialize_def Let_def option.case
  proof -
    have "gets ok pending (bindS ?get (\<lambda>r. returnS (Card t len (Some (snd r))))) bs (Card t len (Some (snd (nat len, mem))))"
      by (rule gets_then_return [OF b(3)])
    then have "gets ok pending (bindS (liftS (agreed_length ''server'' len (of_nat (nat len))))
        (\<lambda>l. bindS (if t = dods_byte_c then u_vector U (replicate (card_width t * unat (int32_bits l)) 0)
            else u_vector_of U (replicate (card_width t * unat (int32_bits l)) 0) (card_width t) t) (\<lambda>r. returnS (Card t l (Some (snd r))))))
        ([] @ bs) (Card t len (Some mem))"
      unfolding agreed_length_same [OF t(2)] liftS.simps by (intro gets_bind [OF gets_return]) (simp only: n snd_conv)
    then have "gets ok pending (bindS (u_int U) (\<lambda>num. bindS (liftS (agreed_length ''server'' len num))
        (\<lambda>l. bindS (if t = dods_byte_c then u_vector U (replicate (card_width t * unat (int32_bits l)) 0)
            else u_vector_of U (replicate (card_width t * unat (int32_bits l)) 0) (card_width t) t) (\<lambda>r. returnS (Card t l (Some (snd r)))))))
        (as @ bs) (Card t len (Some mem))"
      by (intro gets_bind [OF b(2)]) simp
    then show "gets ok pending
     (if \<not> m_is_cardinal_type t then throwS (InternalErr ''Unknown type!'')
      else bindS (u_int U) (\<lambda>num. bindS (liftS (agreed_length ''server'' len num))
        (\<lambda>l. bindS (if t = dods_byte_c then u_vector U (replicate (card_width t * unat (int32_bits l)) 0)
            else u_vector_of U (replicate (card_width t * unat (int32_bits l)) 0) (card_width t) t) (\<lambda>r. returnS (Card t l (Some (snd r)))))))
        (as @ bs) (Card t len (Some mem))"
      using t(1) by (simp only: simp_thms if_False)
  qed
  with b(1) p mem(1) show ?thesis by (intro movesI) simp_all
qed

end

end
