(* ===== verification/Data_Transfer.thy ===== *)
theory Data_Transfer
  imports Data_Stream
begin

text \<open>
  The data of a variable survives every pair of classes that keeps the contract
  \<open>marshalling\<close>: the client holds what the server selected, and the stream is at its end.
  The contract is met by \<open>XDRFileMarshaller\<close> and \<open>XDRFileUnMarshaller\<close> for all data, and by
  the classes for streams for the data their rounding does not spoil.
\<close>

section \<open>Loops over elements and rows\<close>

lemma bind_return: "bindS (returnS a) f = f a"
  by (rule ext) simp

lemma bind_assoc: "bindS (bindS p f) g = bindS p (\<lambda>a. bindS (f a) g)"
  by (rule ext) (simp split: prod.splits sum.splits)

lemma moves_then_return: "moves w ok pd p g v \<Longrightarrow> f v = returnS r \<Longrightarrow> moves w ok pd p (bindS g f) r"
  by (elim movesE) (rule movesI, assumption, rule gets_bind [where bs = "[]", unfolded append_Nil2], assumption, simp only: gets_return)

lemma list_all2_moves:
  "(\<And>x. x \<in> set xs \<Longrightarrow> moves w ok pd (f x) get (g x)) \<Longrightarrow> list_all2 (\<lambda>a v. moves w ok pd a get v) (map f xs) (map g xs)"
  by (simp only: list.rel_map) (rule list.rel_refl_strong)

lemma rows_apsnd: "map (\<lambda>(sel, r). (sel, f r)) rows = map (apsnd f) rows"
  by (rule map_cong) auto

context marshalling
begin

lemma counted_moves:
  assumes "counted_ok len xs" "\<And>v. v \<in> set xs \<Longrightarrow> moves written ok pending (put v) get (g v)"
  shows "moves written ok pending (bindS (m_int M (int32_bits len)) (\<lambda>_. first_n (nat len) (map put xs)))
    (bindS (u_int U) (\<lambda>num. bindS (liftS (agreed_length who len num)) (\<lambda>l. bindS (repeat_action (unat num) get) (\<lambda>vs. returnS (f l vs)))))
    (f len (map g xs))"
proof -
  have len: "0 \<le> len" "nat len = length (map g xs)" "unat (of_nat (nat len) :: u32) = nat len"
    using assms(1) by (simp_all add: counted_ok_def unat_small)
  have "moves written ok pending (first_n (nat len) (map put xs)) (repeat_action (nat len) get) (map g xs)"
    unfolding len(2) by (rule moves_first_n, rule list_all2_moves, rule assms(2))
  from moves_map [OF this, of "f len"]
  show ?thesis unfolding int32_bits_nat [OF len(1)]
    by (intro moves_bind [OF int]) (simp only: agreed_length_same [OF len(1)] liftS.simps bind_return len(3))
qed

lemma rows_move:
  assumes "marks" "list_all2 (\<lambda>a v. moves written ok pending a act v) acts vs" "length vs < F"
  shows "moves written ok pending (bindS (write_rows M acts) (\<lambda>_. write_end_of_sequence M)) (row_loop U F act) (map (Pair True) vs)"
  using assms(2,3)
proof (induction acts vs arbitrary: F rule: list_all2_induct)
  case Nil
  then obtain F' where F: "F = Suc F'" by (cases F) simp_all
  show ?case unfolding F write_rows.simps bind_return row_loop.simps write_end_of_sequence_def
    by (rule moves_then_return [OF mark [OF assms(1)]]) (simp only: simp_thms if_True list.map)
next
  case (Cons a acts v vs)
  then obtain F' where F: "F = Suc F'" "length vs < F'" by (cases F) simp_all
  have d: "[start_of_instance] \<noteq> [end_of_sequence]" by (simp add: start_of_instance_def end_of_sequence_def)
  show ?case unfolding F(1) write_rows.simps bind_assoc row_loop.simps write_start_of_instance_def
    by (rule moves_bind [OF mark [OF assms(1)]], unfold if_not_P [OF d] if_P [OF refl] list.map)
      (rule moves_bind [OF Cons(1)], rule moves_map [OF Cons(3) [OF F(2)]])
qed

lemma leaf_moves:
  assumes "marks" "rows_ok spec" "length rows < F"
    and "\<And>r. r \<in> snd ` set rows \<Longrightarrow> moves written ok pending (put r) act (g r)"
  shows "moves written ok pending (serialize_leaf M ce spec (map (apsnd put) rows))
    (row_loop U F act) (map (Pair True) (map g (sent_rows ce spec rows)))"
proof -
  obtain start stride ending top_most where s: "spec = Rows start stride ending top_most" by (cases spec)
  have top: "top_most" using assms(2) s by (simp add: rows_ok_def)
  let ?i = "if start \<noteq> -1 then start else 0"
  have "snd (leaf_rows ce stride ending ?i (read_row ce ?i (-1) (map (apsnd put) rows))) = None"
    by (rule rows_ok_no_error [of _ _ _ top_most], use assms(2) s in simp)
  moreover have "fst (leaf_rows ce stride ending ?i (read_row ce ?i (-1) (map (apsnd put) rows))) = sent_rows ce spec (map (apsnd put) rows)"
    by (simp only: sent_rows_def s seq_rows.case Let_def)
  ultimately have l: "leaf_rows ce stride ending ?i (read_row ce ?i (-1) (map (apsnd put) rows)) = (map put (sent_rows ce spec rows), None)"
    by (simp only: prod_eq_iff sent_rows_map fst_conv snd_conv)
  have ser: "serialize_leaf M ce spec (map (apsnd put) rows) =
      bindS (write_rows M (map put (sent_rows ce spec rows))) (\<lambda>_. write_end_of_sequence M)"
    unfolding serialize_leaf_def s seq_rows.case Let_def l [unfolded s] prod.case option.case
    using top by (simp only: disj_comms if_True simp_thms)
  have n: "length (sent_rows ce spec rows) \<le> length rows" "set (sent_rows ce spec rows) \<subseteq> snd ` set rows"
    using sent_rows_subset [of ce spec rows] by simp_all
  show ?thesis unfolding ser
    by (rule rows_move [OF assms(1) list_all2_moves]) (use n assms(3,4) in auto)
qed

lemma selected_only_True: "selected_only ce True act = act"
  by (simp add: selected_only_def)

lemma moves_all:
  assumes "2 \<le> fst protocol"
  shows "sendable str_ok bytes_ok vec_ok marks F v \<Longrightarrow>
      moves written ok pending (serialize M ce True v) (deserialize U protocol F False (declared v)) (received ce v)"
    and "sendable_field str_ok bytes_ok vec_ok marks F f \<Longrightarrow> f_send f \<Longrightarrow>
      moves written ok pending (snd (serialize_field M f)) (snd (deserialize_field U protocol F False (declared_field f))) (f_data (received_field f))"
proof (induction ce v and f rule: received_received_field.induct)
  case (1 ce p)
  then show ?case unfolding serialize.simps selected_only_True declared.simps deserialize.simps received.simps
    by (intro moves_map prim_moves) simp
next
  case (2 ce t len buf)
  then show ?case unfolding serialize.simps selected_only_True declared.simps deserialize.simps received.simps
    by (intro card_moves) simp
next
  case (3 ce t len strs)
  then have "counted_ok len strs" "\<And>s. s \<in> set strs \<Longrightarrow> str_ok s" by simp_all
  from counted_moves [OF this(1) str [OF this(2)], where g = "\<lambda>s. s" and f = "Strs t" and who = "''client''"] this(1)
  show ?case unfolding serialize.simps selected_only_True declared.simps deserialize.simps received.simps strs_serialize_def strs_deserialize_def
    by (simp only: counted_ok_def if_False simp_thms list.map_ident)
next
  case (4 ce len template elems)
  then have len: "counted_ok len elems"
    and e: "v \<in> set elems \<Longrightarrow> moves written ok pending (serialize M False True v) (deserialize U protocol F False (declared template)) (received False v)" for v
    using 4(1) [of v] by auto
  from counted_moves [OF len e, where f = "\<lambda>l. Vec l (declared template)" and who = "''client''"] len
  show ?case unfolding serialize.simps selected_only_True declared.simps deserialize.simps received.simps vec_serialize_def vec_deserialize_def
    by (simp only: counted_ok_def if_False simp_thms list.map_ident list.map_disc_iff)
next
  case (5 ce fs)
  show ?case unfolding serialize.simps selected_only_True declared.simps deserialize.simps received.simps
    by (intro moves_map moves_fields, rule 5(1)) (use 5(2) in auto)
next
  case (6 ce a maps)
  have "moves written ok pending (send_fields (map (\<lambda>f. serialize_field M f) (a # maps)))
      (all_fields (map (\<lambda>f. deserialize_field U protocol F False f) (map declared_field (filter f_send (a # maps)))))
      (map received_field (filter f_send (a # maps)))"
    by (rule moves_fields) (use 6 in auto)
  moreover have "f_send a" using 6(3) by simp
  ultimately show ?case unfolding serialize.simps selected_only_True declared.simps deserialize.simps received.simps
    by (simp only: filter.simps if_True list.map) (erule moves_then_return, simp only: list.case)
next
  case (7 ce fs spec rows)
  let ?act = "all_fields (map (\<lambda>f. deserialize_field U protocol F False f) (map declared_field (filter f_send fs)))"
  let ?put = "\<lambda>r. send_fields (map (\<lambda>f. serialize_field M f) r)"
  have s: "marks" "rows_ok spec" "length rows < F" using 7(2) by simp_all
  have r: "moves written ok pending (?put r) ?act (map received_field (filter f_send r))" if "r \<in> snd ` set rows" for r
  proof -
    from that obtain sel where p: "(sel, r) \<in> set rows" by auto
    then have d: "map declared_field (filter f_send r) = map declared_field (filter f_send fs)"
      and f: "\<And>f. f \<in> set r \<Longrightarrow> sendable_field str_ok bytes_ok vec_ok marks F f" using 7(2) by fastforce+
    show ?thesis unfolding d [symmetric]
      by (rule moves_fields, rule 7(1) [OF p refl]) (use f in auto)
  qed
  have "\<not> fst protocol < 2" using assms by simp
  then show ?case
    unfolding serialize.simps selected_only_True declared.simps deserialize.simps received.simps rows_apsnd sent_rows_map seq_deserialize_def
    by (simp only: if_False) (rule moves_then_return [OF leaf_moves [OF s r]], assumption, simp only: append_Nil)
next
  case (8 s v)
  then show ?case by (simp only: serialize_field.simps snd_conv declared_field.simps deserialize_field.simps received_field.simps f_data.simps f_send.simps sendable_field.simps)
qed

end

section \<open>The classes for files\<close>

definition file_marshaller :: "xdr \<Rightarrow> u8 list marshaller" where
  "file_marshaller x =
     \<lparr>m_byte = file_put_byte x, m_int16 = file_put_int16 x, m_int32 = file_put_int32 x,
      m_float32 = file_put_float32 x, m_float64 = file_put_float64 x,
      m_uint16 = file_put_uint16 x, m_uint32 = file_put_uint32 x,
      m_str = file_put_str x, m_url = file_put_url x, m_opaque = file_put_opaque x, m_int = file_put_int x,
      m_vector = file_put_vector x, m_vector_of = file_put_vector_of x\<rparr>"

definition file_unmarshaller :: "xdr \<Rightarrow> (u8 list \<times> (nat \<Rightarrow> u8)) unmarshaller" where
  "file_unmarshaller x =
     \<lparr>u_byte = in_memory (file_get_byte x), u_int16 = in_memory (file_get_int16 x), u_int32 = in_memory (file_get_int32 x),
      u_float32 = in_memory (file_get_float32 x), u_float64 = in_memory (file_get_float64 x),
      u_uint16 = in_memory (file_get_uint16 x), u_uint32 = in_memory (file_get_uint32 x),
      u_str = in_memory (file_get_str x), u_url = in_memory (file_get_url x), u_opaque = (\<lambda>val. in_memory (file_get_opaque x val)), u_int = in_memory (file_get_int x),
      u_vector = (\<lambda>val. in_memory (file_get_vector x val)), u_vector_of = (\<lambda>val w t. in_memory (file_get_vector_of x val w t)), u_stack = stack_byte\<rparr>"

definition any_stream :: "u8 list \<Rightarrow> bool" where "any_stream u = True"

abbreviation file_ok :: "u8 list \<times> (nat \<Rightarrow> u8) \<Rightarrow> bool" where "file_ok u \<equiv> any_stream (fst u)"

abbreviation stream_ok :: "xdr_in \<times> (nat \<Rightarrow> u8) \<Rightarrow> bool" where "stream_ok u \<equiv> ready (fst u)"

abbreviation stream_pending :: "xdr_in \<times> (nat \<Rightarrow> u8) \<Rightarrow> u8 list" where "stream_pending u \<equiv> x_in (fst u)"

lemma gets_in_memory: "gets ok pd act bs v \<Longrightarrow> gets (\<lambda>u. ok (fst u)) (\<lambda>u. pd (fst u)) (in_memory act) bs v"
  unfolding gets_def
proof (intro allI impI, elim conjE)
  fix u :: "'a \<times> (nat \<Rightarrow> u8)" and rest
  assume g: "\<forall>u rest. ok u \<and> pd u = bs @ rest \<longrightarrow> (\<exists>u'. act u = (Inr v, u') \<and> ok u' \<and> pd u' = rest)"
    and "ok (fst u)" "pd (fst u) = bs @ rest"
  then obtain u' where "act (fst u) = (Inr v, u')" "ok u'" "pd u' = rest" by blast
  then show "\<exists>u'. in_memory act u = (Inr v, u') \<and> ok (fst u') \<and> pd (fst u') = rest" by (simp add: in_memory_def)
qed

lemma moves_in_memory: "moves w ok pd put get v \<Longrightarrow> moves w (\<lambda>u. ok (fst u)) (\<lambda>u. pd (fst u)) put (in_memory get) v"
  by (elim movesE) (rule movesI, assumption, rule gets_in_memory)

lemma vector_in_memory:
  assumes "\<exists>as bs. puts w p (as @ bs) \<and> gets ok pd g as n \<and> (\<forall>val. length val = k \<longrightarrow> gets ok pd (f val) bs v)"
  shows "\<exists>as bs. puts w p (as @ bs) \<and> gets (\<lambda>u. ok (fst u)) (\<lambda>u. pd (fst u)) (in_memory g) as n \<and>
    (\<forall>val. length val = k \<longrightarrow> gets (\<lambda>u. ok (fst u)) (\<lambda>u. pd (fst u)) (in_memory (f val)) bs v)"
  using assms by (elim exE conjE) (intro exI conjI allI impI gets_in_memory, assumption+, blast)

abbreviation file_moves :: "(u8 list, unit) action \<Rightarrow> (u8 list, 'v) action \<Rightarrow> 'v \<Rightarrow> bool" where
  "file_moves \<equiv> moves (\<lambda>m. m) any_stream (\<lambda>u. u)"

lemma file_puts: "puts (\<lambda>m. m) (file_send e (Some bs)) bs"
  by (simp add: puts_def file_send_def)

lemma file_gets:
  "(\<And>rest. dec (bs @ rest) = Some (v, length bs)) \<Longrightarrow> gets any_stream (\<lambda>u. u) (file_decode e dec) bs v"
  by (simp add: gets_def file_decode_def any_stream_def)

lemma file_scalar: "scalar_codec n enc dec \<Longrightarrow> file_moves (file_send e (enc v)) (file_decode e' dec) v"
proof -
  assume "scalar_codec n enc dec"
  then obtain bs where "enc v = Some bs" "\<And>rest. dec (bs @ rest) = Some (v, length bs)" unfolding scalar_codec_def by metis
  then show ?thesis by (intro movesI [of _ _ bs]) (simp_all only: file_puts file_gets)
qed

lemma round4_room: "4 + round4 n \<le> file_room n" "round4 n \<le> file_room n"
  using round4_bounds(2) [of n] by (simp_all add: file_room_def)

lemma store_whole: "length bs = length val \<Longrightarrow> store bs val = Inr bs"
  by (simp add: store_def overwrite_def)

lemma card_coder:
  "m_is_cardinal_type t \<Longrightarrow> t \<noteq> dods_byte_c \<Longrightarrow> \<exists>c. xdr_coder t = Some c \<and> host_size c = card_width t"
  by (auto simp: m_is_cardinal_type_def xdr_coder_def card_width_def)

text \<open>The strings that fit, and the vectors whose number of elements is a positive \<open>int\<close>.\<close>

definition str_fits :: "u8 list \<Rightarrow> bool" where "str_fits s \<longleftrightarrow> 0 \<notin> set s \<and> length s \<le> max_str_len"
definition int_many :: "nat \<Rightarrow> bool" where "int_many n \<longleftrightarrow> n < 2 ^ 31"
definition card_many :: "dap_type \<Rightarrow> nat \<Rightarrow> bool" where
  "card_many t n \<longleftrightarrow> n < 2 ^ 31 \<and> m_is_cardinal_type t \<and> t \<noteq> dods_byte_c"

context xdr_library
begin

lemma file_str:
  assumes "str_fits s"
  shows "file_moves (file_put_str x s) (file_get_str x) s"
proof -
  have s: "0 \<notin> set s" "length s \<le> max_str_len" using assms by (simp_all add: str_fits_def)
  have "length s < 2 ^ 32" using s(2) by (simp add: max_str_len_def)
  from string [OF s round4_room(1) this]
  obtain ls body where l: "enc_int x (of_nat (length s)) = Some ls" "enc_string x (file_room (length s)) max_str_len s = Some (ls @ body)"
      "length body = round4 (length s)" "\<And>rest. dec_string x max_str_len (ls @ body @ rest) = Some (s, 4 + round4 (length s))"
    using s(2) unfolding counted_def by blast
  have "gets any_stream (\<lambda>u. u) (file_decode (io_error (''Could not read string data.'' @ bug_in_libdap)) (dec_string x max_str_len)) (ls @ body) s"
    by (rule file_gets) (simp add: l(3,4) int_encoded [OF l(1)])
  from gets_then_return [OF this, of c_bytes]
  show ?thesis unfolding file_put_str_def file_get_str_def c_bytes_id [OF s(1)] l(2)
    by (rule movesI [OF file_puts])
qed

lemma file_mark:
  assumes "u_stack U = stack_byte" "u_opaque U = (\<lambda>val. in_memory (file_get_opaque x val))"
  shows "moves (\<lambda>m. m) file_ok fst (file_put_opaque x [b]) (read_marker U) [b]"
proof -
  from opaque [OF round4_room(2), of "[b]"] obtain body where b: "enc_opaque x (file_room (length [b])) [b] = Some body"
      "length body = 4" "\<And>rest. dec_opaque x (length [b]) (body @ rest) = Some ([b], 4)"
    by (auto simp: round4_def)
  show ?thesis unfolding file_put_opaque_def b(1)
    by (rule movesI [OF file_puts])
      (use b in \<open>simp add: gets_def read_marker_def assms stack_byte_def in_memory_def file_get_opaque_def any_stream_def store_whole\<close>)
qed

lemma file_vector:
  assumes "int_many n" "length mem = n"
  shows "\<exists>as bs. puts (\<lambda>m. m) (file_put_vector x (Some mem) (of_nat n)) (as @ bs) \<and> gets any_stream (\<lambda>u. u) (file_get_int x) as (of_nat n) \<and>
    (\<forall>val. length val = n \<longrightarrow> gets any_stream (\<lambda>u. u) (file_get_vector x val) bs (n, mem))"
proof -
  have n: "n < 2 ^ 31" "n \<le> dods_max_array" "length mem < 2 ^ 32" "length mem \<le> dods_max_array"
    using assms by (simp_all add: int_many_def dods_max_array_def)
  from bytes [OF n(4) round4_room(1) n(3)]
  obtain ls body where l: "enc_int x (of_nat n) = Some ls" "enc_bytes x (file_room n) dods_max_array mem = Some (ls @ body)"
      "length body = round4 n" "\<And>rest. dec_bytes x dods_max_array (ls @ body @ rest) = Some (mem, 4 + round4 n)"
    using n(4) unfolding counted_def assms(2) by blast
  obtain ls' where i: "enc_int x (of_nat n) = Some ls'" "\<And>rest. dec_int x (ls' @ rest) = Some (of_nat n, length ls')"
    using int unfolding scalar_codec_def by metis
  have p: "puts (\<lambda>m. m) (file_put_vector x (Some mem) (of_nat n)) (ls @ ls @ body)"
    unfolding file_put_vector_def option.case file_put_int_def unat_small [OF n(1)] l(1)
    by (rule puts_bind [OF file_puts]) (use n assms(2) file_puts in \<open>simp add: l(2)\<close>)
  have "gets any_stream (\<lambda>u. u) (file_get_int x) ls (of_nat n)"
    unfolding file_get_int_def by (rule file_gets) (use i l(1) in simp)
  moreover have "gets any_stream (\<lambda>u. u) (file_get_vector x val) (ls @ body) (n, mem)" if v: "length val = n" for val
    unfolding file_get_vector_def
  proof (rule gets_bind [where bs = "[]", unfolded append_Nil2])
    show "gets any_stream (\<lambda>u. u) (file_decode packed_array (dec_bytes x dods_max_array)) (ls @ body) mem"
      by (rule file_gets) (simp add: l(3,4) int_encoded [OF l(1)])
    show "gets any_stream (\<lambda>u. u) (liftS (map_sum id (Pair (length mem)) (store mem val))) [] (n, mem)"
      using v assms(2) by (simp add: store_whole gets_return [simplified])
  qed
  ultimately show ?thesis using p by blast
qed

lemma file_vector_of:
  assumes "card_many t n" "length mem = n * card_width t"
  shows "\<exists>as bs. puts (\<lambda>m. m) (file_put_vector_of x (Some mem) (of_nat n) (card_width t) t) (as @ bs) \<and> gets any_stream (\<lambda>u. u) (file_get_int x) as (of_nat n) \<and>
    (\<forall>val. length val = n * card_width t \<longrightarrow> gets any_stream (\<lambda>u. u) (file_get_vector_of x val (card_width t) t) bs (n, mem))"
proof -
  have n: "n < 2 ^ 31" "n \<le> dods_max_array" "n < 2 ^ 32" using assms by (simp_all add: card_many_def dods_max_array_def)
  obtain c where c: "xdr_coder t = Some c" "host_size c = card_width t" using card_coder assms(1) by (auto simp: card_many_def)
  have mem: "length mem = n * host_size c" using assms(2) c(2) by simp
  have room: "4 + n * wire_size c \<le> file_room (n * wire_size c)" by (simp add: file_room_def)
  from array [OF mem n(2) room n(3), of "card_width t"]
  obtain es ls body where e: "concat es = mem" "length es = n" "\<forall>e \<in> set es. length e = host_size c"
      and l: "enc_int x (of_nat n) = Some ls" "enc_array x (file_room (n * wire_size c)) dods_max_array n (card_width t) c mem = Some (ls @ body)"
      "length body = n * wire_size c" "\<And>rest. dec_array x dods_max_array (card_width t) c (ls @ body @ rest) = Some (es, 4 + n * wire_size c)"
    using n(2) unfolding counted_def c(2) by blast
  obtain ls' where i: "enc_int x (of_nat n) = Some ls'" "\<And>rest. dec_int x (ls' @ rest) = Some (of_nat n, length ls')"
    using int unfolding scalar_codec_def by metis
  have p: "puts (\<lambda>m. m) (file_put_vector_of x (Some mem) (of_nat n) (card_width t) t) (ls @ ls @ body)"
    unfolding file_put_vector_of_def option.case file_put_int_def unat_small [OF n(1)] l(1) c(1) l(2)
    by (intro puts_bind file_puts)
  have "gets any_stream (\<lambda>u. u) (file_get_int x) ls (of_nat n)"
    unfolding file_get_int_def by (rule file_gets) (use i l(1) in simp)
  moreover have "gets any_stream (\<lambda>u. u) (file_get_vector_of x val (card_width t) t) (ls @ body) (n, mem)" if v: "length val = n * card_width t" for val
    unfolding file_get_vector_of_def c(1) option.case
  proof (rule gets_bind [where bs = "[]", unfolded append_Nil2])
    show "gets any_stream (\<lambda>u. u) (file_decode packed_array (dec_array x dods_max_array (card_width t) c)) (ls @ body) es"
      by (rule file_gets) (simp add: l(3,4) int_encoded [OF l(1)])
    have "place 0 (card_width t) es val = Inr mem" using place_concat [OF e(3), of "[]" 0 val] v assms(2) by (simp add: e(1) c(2))
    then show "gets any_stream (\<lambda>u. u) (liftS (map_sum id (Pair (length es)) (place 0 (card_width t) es val))) [] (n, mem)"
      by (simp add: e(2) gets_return [simplified])
  qed
  ultimately show ?thesis using p by blast
qed

lemma file_marshalling:
  "marshalling (file_marshaller x) (file_unmarshaller x) (\<lambda>m. m) file_ok fst str_fits int_many card_many True"
  by standard (simp_all only: file_marshaller_def file_unmarshaller_def marshaller.select_convs unmarshaller.select_convs
      file_put_byte_def file_get_byte_def file_put_int16_def file_get_int16_def file_put_int32_def file_get_int32_def
      file_put_uint16_def file_get_uint16_def file_put_uint32_def file_get_uint32_def file_put_float32_def file_get_float32_def
      file_put_float64_def file_get_float64_def file_put_int_def file_get_int_def
      moves_in_memory [OF file_scalar [OF char]] moves_in_memory [OF file_scalar [OF int16]] moves_in_memory [OF file_scalar [OF uint16]]
      moves_in_memory [OF file_scalar [OF int32]] moves_in_memory [OF file_scalar [OF uint32]]
      moves_in_memory [OF file_scalar [OF float]] moves_in_memory [OF file_scalar [OF double]] moves_in_memory [OF file_scalar [OF int]]
      file_put_url_def file_get_url_def moves_in_memory [OF file_str] file_mark
      vector_in_memory [OF file_vector [unfolded file_get_int_def]] vector_in_memory [OF file_vector_of [unfolded file_get_int_def]])

end

interpretation rfc_file: marshalling "file_marshaller (rfc4506 big)" "file_unmarshaller (rfc4506 big)" "\<lambda>m. m" file_ok fst
    str_fits int_many card_many True
  for big
  by (rule rfc.file_marshalling)

section \<open>The classes for streams\<close>

definition stream_marshaller :: "xdr \<Rightarrow> u8 list marshaller" where
  "stream_marshaller x =
     \<lparr>m_byte = xdr_put_byte x, m_int16 = xdr_put_int16 x, m_int32 = xdr_put_int32 x,
      m_float32 = xdr_put_float32 x, m_float64 = xdr_put_float64 x,
      m_uint16 = xdr_put_uint16 x, m_uint32 = xdr_put_uint32 x,
      m_str = xdr_put_str x, m_url = xdr_put_url x, m_opaque = xdr_put_opaque x, m_int = xdr_put_int x,
      m_vector = xdr_put_vector x, m_vector_of = xdr_put_vector_of x\<rparr>"

definition stream_unmarshaller :: "xdr \<Rightarrow> (xdr_in \<times> (nat \<Rightarrow> u8)) unmarshaller" where
  "stream_unmarshaller x =
     \<lparr>u_byte = in_memory (xdr_get_byte x), u_int16 = in_memory (xdr_get_int16 x), u_int32 = in_memory (xdr_get_int32 x),
      u_float32 = in_memory (xdr_get_float32 x), u_float64 = in_memory (xdr_get_float64 x),
      u_uint16 = in_memory (xdr_get_uint16 x), u_uint32 = in_memory (xdr_get_uint32 x),
      u_str = in_memory (xdr_get_str x), u_url = in_memory (xdr_get_url x), u_opaque = (\<lambda>val. in_memory (xdr_get_opaque x val)), u_int = in_memory (xdr_get_int x),
      u_vector = (\<lambda>val. in_memory (xdr_get_vector x val)), u_vector_of = (\<lambda>val w t. in_memory (xdr_get_vector_of x val w t)), u_stack = stack_byte\<rparr>"

text \<open>The vectors that \<open>XDRStreamUnMarshaller\<close> reads back, and no marker is among the data it does.\<close>

definition even_block :: "nat \<Rightarrow> bool" where
  "even_block n \<longleftrightarrow> n mod 4 \<noteq> 1 \<and> n mod 4 \<noteq> 3 \<and> n + n mod 4 \<le> 4092"

definition fitting_block :: "dap_type \<Rightarrow> nat \<Rightarrow> bool" where
  "fitting_block t n \<longleftrightarrow> m_is_cardinal_type t \<and> 4 \<le> card_width t
     \<and> (n * card_width t \<le> 4092 \<or> 4096 < n * card_width t) \<and> n * card_width t < 2147483644"

lemma puts_iff_appends: "puts (\<lambda>m. m) p bs \<longleftrightarrow> appends p bs"
  by (simp add: puts_def appends_def)

lemma gets_iff_takes: "gets ready x_in g bs v \<longleftrightarrow> takes g bs v"
  by (simp add: gets_def takes_def)

lemma moves_stream: "(\<exists>bs. appends p bs \<and> takes g bs v) \<Longrightarrow> moves (\<lambda>m. m) ready x_in p g v"
  by (simp only: moves_def puts_iff_appends gets_iff_takes)

lemma stream_scalar:
  "scalar_codec n enc dec \<Longrightarrow> 0 < n \<Longrightarrow> n \<le> source_size \<Longrightarrow> g = (\<lambda>m. decode e' dec (read_to_buf 0 n m)) \<Longrightarrow>
    moves (\<lambda>m. m) ready x_in (send e w (enc v)) g v"
  by (simp only: moves_stream scalar_round_trip)

context xdr_library
begin

lemma stream_vector:
  assumes "even_block n" "length mem = n"
  shows "\<exists>as bs. puts (\<lambda>m. m) (xdr_put_vector x (Some mem) (of_nat n)) (as @ bs) \<and> gets ready x_in (xdr_get_int x) as (of_nat n) \<and>
    (\<forall>val. length val = n \<longrightarrow> gets ready x_in (xdr_get_vector x val) bs (n, mem))"
proof -
  have n: "n < 2 ^ 30" "and_round n + 4 \<le> 4096" "n mod 4 \<noteq> 1" "n mod 4 \<noteq> 3" using assms(1) by (simp_all add: even_block_def and_round_def)
  obtain ls body where l: "enc_int x (of_nat n) = Some ls" "length body = round4 n"
      "appends (xdr_put_vector x (Some mem) (of_nat n)) (ls @ ls @ body)"
      "\<And>lim rest. n \<le> lim \<Longrightarrow> dec_bytes x lim (ls @ body @ rest) = Some (mem, 4 + round4 n)"
    using bytes_written [OF assms(2) n(1)] by blast
  have "takes (xdr_get_vector x val) (ls @ body) (n, mem)" if "length val = n" for val
    by (rule bytes_read [OF assms(2) n that l(1,2)]) (rule l(4))
  then show ?thesis unfolding puts_iff_appends gets_iff_takes using int_takes [OF l(1)] l(3) by blast
qed

lemma stream_vector_of:
  assumes "fitting_block t n" "length mem = n * card_width t"
  shows "\<exists>as bs. puts (\<lambda>m. m) (xdr_put_vector_of x (Some mem) (of_nat n) (card_width t) t) (as @ bs) \<and> gets ready x_in (xdr_get_int x) as (of_nat n) \<and>
    (\<forall>val. length val = n * card_width t \<longrightarrow> gets ready x_in (xdr_get_vector_of x val (card_width t) t) bs (n, mem))"
proof -
  have "t \<noteq> dods_byte_c" using assms(1) by (auto simp: fitting_block_def card_width_def)
  then obtain c where c: "xdr_coder t = Some c" "host_size c = card_width t" using card_coder assms(1) by (auto simp: fitting_block_def)
  have b: "host_size c = 4 \<or> host_size c = 8" "n * host_size c \<le> 4092 \<or> 4096 < n * host_size c" "n * host_size c < 2147483644"
    using assms(1) unfolding fitting_block_def c(2) by (simp_all add: card_width_def split: dap_type.splits)
  have w: "4 + n * wire_size c < 2 ^ 31" using b(1,3) by (auto simp: wire_size_def)
  have mem: "length mem = n * host_size c" using assms(2) c(2) by simp
  obtain ls body es where l: "enc_int x (of_nat n) = Some ls" "length body = n * wire_size c"
      "appends (xdr_put_vector_of x (Some mem) (of_nat n) (host_size c) t) (ls @ ls @ body)"
      "concat es = mem" "length es = n" "\<forall>e \<in> set es. length e = host_size c"
      "\<And>lim rest. n \<le> lim \<Longrightarrow> dec_array x lim (host_size c) c (ls @ body @ rest) = Some (es, 4 + n * wire_size c)"
    using array_written [OF mem c(1) w, of "host_size c"] by blast
  have "takes (xdr_get_vector_of x val (host_size c) t) (ls @ body) (n, mem)" if "length val = length mem" for val
    by (rule array_read [OF c(1) b that l(1,2,4,5,6)]) (rule l(7))
  then show ?thesis unfolding puts_iff_appends gets_iff_takes c(2) [symmetric] mem [symmetric] using int_takes [OF l(1)] l(3) by blast
qed

lemma stream_str: "str_fits s \<Longrightarrow> moves (\<lambda>m. m) ready x_in (xdr_put_str x s) (xdr_get_str x) s"
  by (rule moves_stream, rule string_round_trip) (simp_all add: str_fits_def)

lemma stream_scalars:
  "moves (\<lambda>m. m) ready x_in (xdr_put_byte x b) (xdr_get_byte x) b"
  "moves (\<lambda>m. m) ready x_in (xdr_put_int16 x h) (xdr_get_int16 x) h"
  "moves (\<lambda>m. m) ready x_in (xdr_put_uint16 x h) (xdr_get_uint16 x) h"
  "moves (\<lambda>m. m) ready x_in (xdr_put_int32 x w) (xdr_get_int32 x) w"
  "moves (\<lambda>m. m) ready x_in (xdr_put_uint32 x w) (xdr_get_uint32 x) w"
  "moves (\<lambda>m. m) ready x_in (xdr_put_float32 x w) (xdr_get_float32 x) w"
  "moves (\<lambda>m. m) ready x_in (xdr_put_float64 x d) (xdr_get_float64 x) d"
  "moves (\<lambda>m. m) ready x_in (xdr_put_int x w) (xdr_get_int x) w"
proof -
  have s: "0 < (4 :: nat)" "4 \<le> source_size" "0 < (8 :: nat)" "8 \<le> source_size" by (simp_all add: source_size_def)
  show "moves (\<lambda>m. m) ready x_in (xdr_put_byte x b) (xdr_get_byte x) b" by (rule moves_stream, rule byte_round_trip)
  show "moves (\<lambda>m. m) ready x_in (xdr_put_int16 x h) (xdr_get_int16 x) h"
    unfolding xdr_put_int16_def by (rule stream_scalar [OF int16 s(1,2)], rule ext, rule xdr_get_int16_def)
  show "moves (\<lambda>m. m) ready x_in (xdr_put_uint16 x h) (xdr_get_uint16 x) h"
    unfolding xdr_put_uint16_def by (rule stream_scalar [OF uint16 s(1,2)], rule ext, rule xdr_get_uint16_def)
  show "moves (\<lambda>m. m) ready x_in (xdr_put_int32 x w) (xdr_get_int32 x) w"
    unfolding xdr_put_int32_def by (rule stream_scalar [OF int32 s(1,2)], rule ext, rule xdr_get_int32_def)
  show "moves (\<lambda>m. m) ready x_in (xdr_put_uint32 x w) (xdr_get_uint32 x) w"
    unfolding xdr_put_uint32_def by (rule stream_scalar [OF uint32 s(1,2)], rule ext, rule xdr_get_uint32_def)
  show "moves (\<lambda>m. m) ready x_in (xdr_put_float32 x w) (xdr_get_float32 x) w"
    unfolding xdr_put_float32_def by (rule stream_scalar [OF float s(1,2)], rule ext, rule xdr_get_float32_def)
  show "moves (\<lambda>m. m) ready x_in (xdr_put_float64 x d) (xdr_get_float64 x) d"
    unfolding xdr_put_float64_def by (rule stream_scalar [OF double s(3,4)], rule ext, rule xdr_get_float64_def)
  show "moves (\<lambda>m. m) ready x_in (xdr_put_int x w) (xdr_get_int x) w"
    unfolding xdr_put_int_def by (rule stream_scalar [OF int s(1,2)], rule ext, rule xdr_get_int_def)
qed

lemma stream_marshalling:
  "marshalling (stream_marshaller x) (stream_unmarshaller x) (\<lambda>m. m) stream_ok stream_pending str_fits even_block fitting_block False"
  by standard (simp_all only: stream_marshaller_def stream_unmarshaller_def marshaller.select_convs unmarshaller.select_convs
      xdr_put_url_def xdr_get_url_def stream_scalars [THEN moves_in_memory] moves_in_memory [OF stream_str]
      vector_in_memory [OF stream_vector] vector_in_memory [OF stream_vector_of])

end

interpretation rfc_stream: marshalling "stream_marshaller (rfc4506 big)" "stream_unmarshaller (rfc4506 big)" "\<lambda>m. m" stream_ok stream_pending
    str_fits even_block fitting_block False
  for big
  by (rule rfc.stream_marshalling)

section \<open>The rows of a sequence\<close>

text \<open>The rows that count: with \<open>ce_eval\<close> those that satisfy the selection.\<close>

definition counted_rows :: "bool \<Rightarrow> (bool \<times> 'r) list \<Rightarrow> 'r list" where
  "counted_rows ce src = map snd (filter (\<lambda>(sel, r). \<not> ce \<or> sel) src)"

lemma read_row_loop_counted:
  "cur \<le> row \<Longrightarrow> case read_row_loop ce row cur seen src of (v, cur', src') \<Rightarrow>
     (if row = cur then v = seen \<and> counted_rows ce src' = counted_rows ce src
      else if nat (row - cur) \<le> length (counted_rows ce src)
      then v = Some (counted_rows ce src ! (nat (row - cur) - 1)) \<and> counted_rows ce src' = drop (nat (row - cur)) (counted_rows ce src)
      else v = None)"
proof (induction ce row cur seen src rule: read_row_loop.induct)
  case (2 ce row cur seen sel r src)
  show ?case
  proof (cases "cur < row \<and> (\<not> ce \<or> sel)")
    case True
    then have "nat (row - cur) = Suc (nat (row - (cur + 1)))" "counted_rows ce ((sel, r) # src) = r # counted_rows ce src"
      by (auto simp: counted_rows_def)
    moreover have "row = cur + 1 \<or> (\<exists>k. nat (row - (cur + 1)) = Suc k)" using True by (cases "nat (row - (cur + 1))") auto
    ultimately show ?thesis using 2 True by (auto split: prod.splits if_splits)
  next
    case False
    then show ?thesis using 2 by (auto simp: counted_rows_def split: prod.splits)
  qed
qed (auto simp: counted_rows_def)

lemma next_row:
  assumes "cur < row" "n = nat (row - cur)"
  shows "read_row ce row cur src = Inr (v, c, s) \<Longrightarrow>
    (if n \<le> length (counted_rows ce src) then v = Some (counted_rows ce src ! (n - 1)) \<and> c = row \<and> counted_rows ce s = drop n (counted_rows ce src)
     else v = None)"
proof -
  assume r: "read_row ce row cur src = Inr (v, c, s)"
  then have "read_row_loop ce row cur None src = (v, c, s)" using assms(1) by (simp add: read_row_def)
  moreover have "c = row" if "v = Some x" for x using r unfolding that by (rule read_row_reached)
  ultimately show ?thesis using read_row_loop_counted [where cur = cur and row = row and ce = ce and seen = None and src = src] assms by (auto split: if_splits)
qed

lemma upt_split: "i \<le> j \<Longrightarrow> j \<le> k \<Longrightarrow> [i..<k] = [i..<j] @ [j..<k]"
  by (metis upt_add_eq_append le_add_diff_inverse)

lemma steps_of:
  fixes i s n :: nat
  assumes "0 < s" "i < n"
  shows "filter (\<lambda>k. s dvd (k - i) \<and> P k) [i..<n] = (if P i then [i] else []) @ filter (\<lambda>k. s dvd (k - (i + s)) \<and> P k) [i + s..<n]"
proof (cases "i + s \<le> n")
  case True
  have "[i..<n] = [i] @ [Suc i..<i + s] @ [i + s..<n]"
    using assms True upt_split [of i "Suc i" n] upt_split [of "Suc i" "i + s" n] by simp
  moreover have "\<not> s dvd (k - i)" if "Suc i \<le> k" "k < i + s" for k
    using nat_dvd_not_less [of "k - i" s] that by simp
  then have "filter (\<lambda>k. s dvd (k - i) \<and> P k) [Suc i..<i + s] = []"
    by (auto simp: filter_empty_conv)
  moreover have "s dvd (k - i) \<longleftrightarrow> s dvd (k - (i + s))" if "i + s \<le> k" for k
  proof -
    have "k - i = (k - (i + s)) + s" using that by simp
    then show ?thesis by (metis dvd_add_triv_right_iff)
  qed
  then have "filter (\<lambda>k. s dvd (k - i) \<and> P k) [i + s..<n] = filter (\<lambda>k. s dvd (k - (i + s)) \<and> P k) [i + s..<n]"
    by (intro filter_cong) auto
  ultimately show ?thesis by simp
next
  case False
  have "[i..<n] = i # [Suc i..<n]" using assms(2) by (simp add: upt_conv_Cons)
  moreover have "\<not> s dvd (k - i)" if "Suc i \<le> k" "k < n" for k
    using nat_dvd_not_less [of "k - i" s] that False by simp
  then have "filter (\<lambda>k. s dvd (k - i) \<and> P k) [Suc i..<n] = []"
    by (auto simp: filter_empty_conv)
  ultimately show ?thesis using False by simp
qed

lemma leaf_rows_counted:
  assumes "0 < s"
  shows "i < length all \<Longrightarrow> counted_rows ce src = drop (Suc i) all \<Longrightarrow>
    fst (leaf_rows ce (int s) ending (int i) (Inr (Some (all ! i), int i, src))) =
      map ((!) all) (filter (\<lambda>k. s dvd (k - i) \<and> (ending = -1 \<or> int k \<le> ending)) [i..<length all])"
proof (induction "length all - i" arbitrary: i src rule: less_induct)
  case less
  show ?case
  proof (cases "is_end_of_rows ending (int i)")
    case True
    then show ?thesis by (auto simp: is_end_of_rows_def filter_empty_conv split: if_splits)
  next
    case False
    then have P: "ending = -1 \<or> int i \<le> ending" by (auto simp: is_end_of_rows_def split: if_splits)
    have lt: "int i < int i + int s" and n: "s = nat (int i + int s - int i)" using assms by simp_all
    obtain v c src' where r: "read_row ce (int i + int s) (int i) src = Inr (v, c, src')" using lt by (auto simp: read_row_def) (metis prod_cases3)
    note nx = next_row [OF lt n r, unfolded less(3)]
    show ?thesis
    proof (cases "i + s < length all")
      case True
      then have v: "v = Some (all ! (i + s))" "c = int i + int s" "counted_rows ce src' = drop (Suc (i + s)) all"
        using nx assms by (auto simp: nth_drop add.commute split: if_splits)
      have e: "int i + int s = int (i + s)" by simp
      have "fst (leaf_rows ce (int s) ending (int (i + s)) (Inr (Some (all ! (i + s)), int (i + s), src'))) =
          map ((!) all) (filter (\<lambda>k. s dvd (k - (i + s)) \<and> (ending = -1 \<or> int k \<le> ending)) [i + s..<length all])"
        by (rule less.hyps [OF _ True v(3)]) (use assms True in simp)
      moreover have "fst (leaf_rows ce (int s) ending (int i) (Inr (Some (all ! i), int i, src))) =
          all ! i # fst (leaf_rows ce (int s) ending (int (i + s)) (Inr (Some (all ! (i + s)), int (i + s), src')))"
        unfolding leaf_rows.simps(3) [where src = src] if_not_P [OF False] e r [unfolded e] v by (simp only: split_beta fst_conv)
      ultimately show ?thesis using P steps_of [OF assms less(2), of "\<lambda>k. ending = -1 \<or> int k \<le> ending"] by simp
    next
      case ge: False
      then have "v = None" using nx less(2) by (auto split: if_splits)
      with False P ge steps_of [OF assms less(2), of "\<lambda>k. ending = -1 \<or> int k \<le> ending"] r show ?thesis by simp
    qed
  qed
qed

lemma sent_rows_counted:
  assumes "0 < stride" "-1 \<le> start"
  shows "sent_rows ce (Rows start stride ending top_most) src =
    map ((!) (counted_rows ce src))
      (filter (\<lambda>k. (if start = -1 then 0 else nat start) \<le> k \<and> nat stride dvd (k - (if start = -1 then 0 else nat start)) \<and> (ending = -1 \<or> int k \<le> ending))
        [0..<length (counted_rows ce src)])"
proof -
  define i where "i = (if start = -1 then 0 else nat start)"
  have i: "(if start \<noteq> -1 then start else 0) = int i" using assms(2) by (simp add: i_def)
  have s: "int (nat stride) = stride" "0 < nat stride" using assms(1) by simp_all
  obtain v c src' where r: "read_row ce (int i) (-1) src = Inr (v, c, src')" by (auto simp: read_row_def) (metis prod_cases3)
  have nx: "if Suc i \<le> length (counted_rows ce src) then v = Some (counted_rows ce src ! i) \<and> c = int i \<and> counted_rows ce src' = drop (Suc i) (counted_rows ce src) else v = None"
    using next_row [OF _ _ r, of "Suc i"] by simp
  have sent: "sent_rows ce (Rows start stride ending top_most) src = fst (leaf_rows ce stride ending (int i) (Inr (v, c, src')))"
    unfolding sent_rows_def seq_rows.case Let_def i r ..
  show ?thesis unfolding i_def [symmetric]
  proof (cases "i < length (counted_rows ce src)")
    case True
    have "[0..<length (counted_rows ce src)] = [0..<i] @ [i..<length (counted_rows ce src)]"
      by (rule upt_split) (use True in simp_all)
    then have "filter (\<lambda>k. i \<le> k \<and> nat stride dvd (k - i) \<and> (ending = -1 \<or> int k \<le> ending)) [0..<length (counted_rows ce src)] =
        filter (\<lambda>k. nat stride dvd (k - i) \<and> (ending = -1 \<or> int k \<le> ending)) [i..<length (counted_rows ce src)]"
      by (simp only: filter_append) (auto simp: filter_empty_conv intro: filter_cong)
    moreover have v: "v = Some (counted_rows ce src ! i)" "c = int i" "counted_rows ce src' = drop (Suc i) (counted_rows ce src)"
      using nx True by simp_all
    ultimately show "sent_rows ce (Rows start stride ending top_most) src = map ((!) (counted_rows ce src))
        (filter (\<lambda>k. i \<le> k \<and> nat stride dvd (k - i) \<and> (ending = -1 \<or> int k \<le> ending)) [0..<length (counted_rows ce src)])"
      using leaf_rows_counted [OF s(2) True v(3)] unfolding sent v s(1) by simp
  next
    case False
    then have "v = None" using nx by simp
    with False show "sent_rows ce (Rows start stride ending top_most) src = map ((!) (counted_rows ce src))
        (filter (\<lambda>k. i \<le> k \<and> nat stride dvd (k - i) \<and> (ending = -1 \<or> int k \<le> ending)) [0..<length (counted_rows ce src)])"
      unfolding sent by (auto simp: filter_empty_conv)
  qed
qed

lemma serialize_selected: "ce \<longrightarrow> sel \<Longrightarrow> serialize M ce True v = serialize M ce sel v"
  by (cases v) (simp_all only: serialize.simps selected_only_def simp_thms if_False, auto)

section \<open>A sequence in a file ends\<close>

text \<open>An XDR routine that succeeds takes part of its input.\<close>

definition takes_input :: "(u8 list \<Rightarrow> ('v \<times> nat) option) \<Rightarrow> bool" where
  "takes_input dec \<longleftrightarrow> (\<forall>inp v n. dec inp = Some (v, n) \<longrightarrow> 0 < n \<and> n \<le> length inp)"

definition reads_input :: "xdr \<Rightarrow> bool" where
  "reads_input x \<longleftrightarrow> takes_input (dec_char x) \<and> takes_input (dec_int16 x) \<and> takes_input (dec_uint16 x) \<and>
     takes_input (dec_int32 x) \<and> takes_input (dec_uint32 x) \<and> takes_input (dec_float x) \<and> takes_input (dec_double x) \<and>
     takes_input (dec_int x) \<and> (\<forall>lim. takes_input (dec_string x lim)) \<and> takes_input (dec_opaque x 1)"

text \<open>
  A variable that cannot be read from nothing: every kind except a structure or grid of such
  that can be, and a sequence, which is read when its first marker is the end.
\<close>

fun solid :: "vdata \<Rightarrow> bool" and solid_field :: "field \<Rightarrow> bool" where
  "solid (Prim p) = True"
| "solid (Card t len buf) = True"
| "solid (Strs t len strs) = True"
| "solid (Vec len template elems) = True"
| "solid (Struct_d fs) = list_ex solid_field fs"
| "solid (Grid_d a maps) = (solid_field a \<or> list_ex solid_field maps)"
| "solid (Seq_d fs spec rows) = False"
| "solid_field (Field s v) = solid v"

text \<open>The rows of every sequence, at any depth, have something that is solid.\<close>

fun solid_rows :: "vdata \<Rightarrow> bool" and solid_rows_field :: "field \<Rightarrow> bool" where
  "solid_rows (Prim p) = True"
| "solid_rows (Card t len buf) = True"
| "solid_rows (Strs t len strs) = True"
| "solid_rows (Vec len template elems) = solid_rows template"
| "solid_rows (Struct_d fs) = list_all solid_rows_field fs"
| "solid_rows (Grid_d a maps) = (solid_rows_field a \<and> list_all solid_rows_field maps)"
| "solid_rows (Seq_d fs spec rows) = (list_ex solid_field fs \<and> list_all solid_rows_field fs)"
| "solid_rows_field (Field s v) = solid_rows v"

text \<open>No uninitialised byte is the start of an instance, or any may be.\<close>

definition garbage_ok :: "bool \<Rightarrow> (nat \<Rightarrow> u8) \<Rightarrow> bool" where
  "garbage_ok q g \<longleftrightarrow> (q \<longrightarrow> start_of_instance \<notin> range g)"

text \<open>
  \<open>settles\<close>: an action that comes to its end, given enough fuel, and never gives input back;
  \<open>eats\<close>: if it succeeds it has taken input.
\<close>

type_synonym file_state = "u8 list \<times> (nat \<Rightarrow> u8)"

definition settles :: "bool \<Rightarrow> nat \<Rightarrow> (file_state, 'v) action \<Rightarrow> bool" where
  "settles q F act \<longleftrightarrow> (\<forall>u. length (fst u) < F \<and> garbage_ok q (snd u) \<longrightarrow>
     fst (act u) \<noteq> Inl No_Return \<and> length (fst (snd (act u))) \<le> length (fst u) \<and> garbage_ok q (snd (snd (act u))))"

definition eats :: "bool \<Rightarrow> nat \<Rightarrow> (file_state, 'v) action \<Rightarrow> bool" where
  "eats q F act \<longleftrightarrow> (\<forall>u v. length (fst u) < F \<and> garbage_ok q (snd u) \<and> fst (act u) = Inr v \<longrightarrow>
     length (fst (snd (act u))) < length (fst u))"

lemma settlesD:
  "settles q F act \<Longrightarrow> length (fst u) < F \<Longrightarrow> garbage_ok q (snd u) \<Longrightarrow> act u = (r, u') \<Longrightarrow>
   r \<noteq> Inl No_Return \<and> length (fst u') \<le> length (fst u) \<and> garbage_ok q (snd u')"
  unfolding settles_def by (metis fst_conv snd_conv)

lemma eatsD:
  "eats q F act \<Longrightarrow> length (fst u) < F \<Longrightarrow> garbage_ok q (snd u) \<Longrightarrow> act u = (Inr v, u') \<Longrightarrow> length (fst u') < length (fst u)"
  unfolding eats_def by (metis fst_conv snd_conv)

lemma settles_bind:
  assumes "settles q F act" "\<And>v. settles q F (f v)"
  shows "settles q F (bindS act f)"
  unfolding settles_def
proof (intro allI impI, elim conjE)
  fix u :: file_state
  assume u: "length (fst u) < F" "garbage_ok q (snd u)"
  obtain r u' where a: "act u = (r, u')" by (cases "act u")
  note s = settlesD [OF assms(1) u a]
  show "fst (bindS act f u) \<noteq> Inl No_Return \<and> length (fst (snd (bindS act f u))) \<le> length (fst u) \<and> garbage_ok q (snd (snd (bindS act f u)))"
  proof (cases r)
    case (Inr v)
    obtain r2 u2 where b: "f v u' = (r2, u2)" by (cases "f v u'")
    have "length (fst u') < F" "garbage_ok q (snd u')" using s u by simp_all
    from settlesD [OF assms(2) this b] s a b Inr show ?thesis by simp
  qed (use s a in simp)
qed

lemma eats_bind:
  assumes "settles q F act" "\<And>v. settles q F (f v)" "eats q F act \<or> (\<forall>v. eats q F (f v))"
  shows "eats q F (bindS act f)"
  unfolding eats_def
proof (intro allI impI, elim conjE)
  fix u :: file_state and w
  assume u: "length (fst u) < F" "garbage_ok q (snd u)" and r: "fst (bindS act f u) = Inr w"
  from r obtain v u' where a: "act u = (Inr v, u')" by (auto split: prod.splits sum.splits)
  obtain r2 u2 where b: "f v u' = (r2, u2)" by (cases "f v u'")
  have w: "r2 = Inr w" using r a b by simp
  have s: "length (fst u') \<le> length (fst u)" "garbage_ok q (snd u')" using settlesD [OF assms(1) u a] by simp_all
  then have l: "length (fst u') < F" using u by simp
  have "length (fst u2) < length (fst u)"
    using assms(3) eatsD [of q F act u v u'] eatsD [of q F "f v" u' w u2] settlesD [OF assms(2) l s(2) b] s u a b w l by force
  with a b show "length (fst (snd (bindS act f u))) < length (fst u)" by simp
qed

lemma settles_if: "settles q F a \<Longrightarrow> settles q F b \<Longrightarrow> settles q F (if P then a else b)"
  by simp

lemma settles_return: "settles q F (returnS v)"
  by (simp add: settles_def)

lemma settles_throw: "e \<noteq> No_Return \<Longrightarrow> settles q F (throwS e)"
  by (simp add: settles_def)

lemma eats_throw: "eats q F (throwS e)"
  by (simp add: eats_def)

lemma eats_if: "eats q F a \<Longrightarrow> eats q F b \<Longrightarrow> eats q F (if P then a else b)"
  by simp

lemma settles_decode: "e \<noteq> No_Return \<Longrightarrow> settles q F (in_memory (file_decode e dec))"
  by (auto simp: settles_def in_memory_def file_decode_def split: option.splits)

lemma eats_decode: "takes_input dec \<Longrightarrow> eats q F (in_memory (file_decode e dec))"
  by (auto simp: eats_def takes_input_def in_memory_def file_decode_def split: option.splits intro!: diff_less) fastforce+

lemma settles_lift: "r \<noteq> Inl No_Return \<Longrightarrow> settles q F (liftS r)"
  by (cases r) (simp_all add: settles_throw settles_return)

lemma in_memory_bind: "in_memory (bindS p f) = bindS (in_memory p) (\<lambda>v. in_memory (f v))"
  by (rule ext) (simp add: in_memory_def split: prod.splits sum.splits)

lemma in_memory_lift: "in_memory (liftS r) = liftS r"
  by (rule ext) (cases r; simp add: in_memory_def)

lemma in_memory_return: "in_memory (returnS v) = returnS v"
  by (rule ext) (simp add: in_memory_def)

lemma in_memory_throw: "in_memory (throwS e) = throwS e"
  by (rule ext) (simp add: in_memory_def)

lemma settles_repeat: "settles q F act \<Longrightarrow> settles q F (repeat_action n act)"
  by (induction n) (simp_all only: repeat_action.simps settles_return settles_bind)

lemma settles_agreed: "settles q F (liftS (agreed_length who len num))"
  by (rule settles_lift) (simp add: agreed_length_def Let_def)

lemma settles_all_fields: "(\<And>p. p \<in> set fs \<Longrightarrow> settles q F (snd p)) \<Longrightarrow> settles q F (all_fields fs)"
proof (induction fs rule: all_fields.induct)
  case (2 s act fs)
  have "settles q F act" "settles q F (all_fields fs)" using 2(2) [of "(s, act)"] 2(1) 2(2) by simp_all
  then show ?case unfolding all_fields.simps by (intro settles_bind settles_return)
qed (simp only: all_fields.simps settles_return)

lemma eats_all_fields:
  "(\<And>p. p \<in> set fs \<Longrightarrow> settles q F (snd p)) \<Longrightarrow> p \<in> set fs \<Longrightarrow> eats q F (snd p) \<Longrightarrow> eats q F (all_fields fs)"
proof (induction fs arbitrary: p rule: all_fields.induct)
  case (2 s act fs)
  have s: "settles q F act" "settles q F (all_fields fs)" using 2(2) [of "(s, act)"] settles_all_fields [of fs q F] 2(2) by simp_all
  have "eats q F act \<or> eats q F (all_fields fs)"
  proof (cases "p = (s, act)")
    case False
    then have "p \<in> set fs" using 2(3) by simp
    from 2(1) [OF _ this 2(4)] 2(2) show ?thesis by simp
  qed (use 2(4) in simp)
  then show ?case unfolding all_fields.simps
    by (elim disjE) (intro eats_bind settles_bind settles_return s; blast intro: eats_bind settles_return s)+
qed simp

lemma place_error: "place off w es mem \<noteq> Inl No_Return"
  by (induction off w es mem rule: place.induct) auto

text \<open>A marker is read from the file, or is what the memory holds.\<close>

lemma read_marker_file:
  assumes "takes_input (dec_opaque x 1)" "length (fst u) < F" "garbage_ok q (snd u)"
  obtains (garbage) u' where "read_marker (file_unmarshaller x) u = (Inr [snd u 0], u')" "fst u' = fst u" "garbage_ok q (snd u')"
    | (read) r u' where "read_marker (file_unmarshaller x) u = (r, u')" "r \<noteq> Inl No_Return" "length (fst u') < length (fst u)" "garbage_ok q (snd u')"
proof -
  have g: "garbage_ok q (\<lambda>n. snd u (Suc n))" using assms(3) by (auto simp: garbage_ok_def)
  show thesis
  proof (cases "dec_opaque x 1 (fst u)")
    case None
    with g garbage show thesis
      by (simp add: read_marker_def file_unmarshaller_def stack_byte_def in_memory_def file_get_opaque_def)
  next
    case (Some p)
    obtain bs n where p: "p = (bs, n)" by (cases p)
    then have n: "0 < n" "n \<le> length (fst u)" using assms(1) Some by (auto simp: takes_input_def)
    have "read_marker (file_unmarshaller x) u = (store bs [snd u 0], (drop n (fst u), \<lambda>n. snd u (Suc n)))"
      using Some p by (simp add: read_marker_def file_unmarshaller_def stack_byte_def in_memory_def file_get_opaque_def)
    with n g read show thesis by (simp add: store_def)
  qed
qed

lemma row_loop_settles:
  assumes "settles q F act" "takes_input (dec_opaque x 1)" "q \<or> eats q F act"
  shows "length (fst u) < fuel \<Longrightarrow> length (fst u) < F \<Longrightarrow> garbage_ok q (snd u) \<Longrightarrow>
    fst (row_loop (file_unmarshaller x) fuel act u) \<noteq> Inl No_Return \<and>
    length (fst (snd (row_loop (file_unmarshaller x) fuel act u))) \<le> length (fst u) \<and>
    garbage_ok q (snd (snd (row_loop (file_unmarshaller x) fuel act u)))"
proof (induction fuel arbitrary: u)
  case (Suc fuel)
  let ?loop = "row_loop (file_unmarshaller x)"
  have go: "fst (?loop (Suc fuel) act u) \<noteq> Inl No_Return \<and> length (fst (snd (?loop (Suc fuel) act u))) \<le> length (fst u) \<and>
      garbage_ok q (snd (snd (?loop (Suc fuel) act u)))"
    if m: "read_marker (file_unmarshaller x) u = (r, u1)" "r \<noteq> Inl No_Return" "length (fst u1) \<le> length (fst u)" "garbage_ok q (snd u1)"
      and e: "r = Inr [start_of_instance] \<Longrightarrow> length (fst u1) < length (fst u) \<or> eats q F act" for r u1
  proof (cases "r = Inr [start_of_instance]")
    case True
    have l: "length (fst u1) < F" using m(3) Suc.prems(2) by simp
    obtain r2 u2 where a: "act u1 = (r2, u2)" by (cases "act u1")
    have s: "r2 \<noteq> Inl No_Return" "length (fst u2) \<le> length (fst u1)" "garbage_ok q (snd u2)" using settlesD [OF assms(1) l m(4) a] by simp_all
    have d: "[start_of_instance] \<noteq> [end_of_sequence]" by (simp add: start_of_instance_def end_of_sequence_def)
    show ?thesis
    proof (cases r2)
      case (Inl ex)
      with m a s True d show ?thesis by simp
    next
      case (Inr row)
      have "length (fst u2) < length (fst u)"
        using e [OF True] eatsD [of q F act u1 row u2] l m(4) a Inr s(2) m(3) by fastforce
      then have "length (fst u2) < fuel" "length (fst u2) < F" using Suc.prems(1,2) by simp_all
      note IH = Suc.IH [OF this s(3)]
      obtain r3 u3 where b: "?loop fuel act u2 = (r3, u3)" by (cases "?loop fuel act u2")
      show ?thesis using IH b m(1,3) a s(2) True d Inr by (cases r3) simp_all
    qed
  next
    case False
    then show ?thesis using m by (cases r) simp_all
  qed
  show ?case
  proof (rule read_marker_file [OF assms(2) Suc.prems(2,3)])
    fix u1
    assume m: "read_marker (file_unmarshaller x) u = (Inr [snd u 0], u1)" "fst u1 = fst u" "garbage_ok q (snd u1)"
    have "snd u 0 = start_of_instance \<Longrightarrow> \<not> q" using Suc.prems(3) by (metis garbage_ok_def rangeI)
    with m(2) assms(3) show ?thesis by (intro go [OF m(1) _ _ m(3)]) auto
  next
    fix r u1
    assume "read_marker (file_unmarshaller x) u = (r, u1)" "r \<noteq> Inl No_Return" "length (fst u1) < length (fst u)" "garbage_ok q (snd u1)"
    then show ?thesis by (intro go) (blast | simp)+
  qed
qed simp

lemma file_settles:
  "settles q F (u_byte (file_unmarshaller x))" "settles q F (u_int16 (file_unmarshaller x))" "settles q F (u_uint16 (file_unmarshaller x))"
  "settles q F (u_int32 (file_unmarshaller x))" "settles q F (u_uint32 (file_unmarshaller x))" "settles q F (u_float32 (file_unmarshaller x))"
  "settles q F (u_float64 (file_unmarshaller x))" "settles q F (u_int (file_unmarshaller x))" "settles q F (u_str (file_unmarshaller x))"
  "settles q F (u_vector (file_unmarshaller x) val)" "settles q F (u_vector_of (file_unmarshaller x) val w t)"
proof -
  have lift: "map_sum id f r \<noteq> Inl No_Return" if "r \<noteq> Inl No_Return" for f :: "'a \<Rightarrow> 'b" and r using that by (cases r) auto
  show "settles q F (u_str (file_unmarshaller x))"
    unfolding file_unmarshaller_def unmarshaller.select_convs file_get_str_def in_memory_bind in_memory_return
    by (intro settles_bind settles_decode settles_return) (simp add: io_error_def)
  show "settles q F (u_vector (file_unmarshaller x) val)"
    unfolding file_unmarshaller_def unmarshaller.select_convs file_get_vector_def in_memory_bind in_memory_lift
    by (intro settles_bind settles_decode settles_lift lift) (simp_all add: packed_array_def store_def)
  show "settles q F (u_vector_of (file_unmarshaller x) val w t)"
    unfolding file_unmarshaller_def unmarshaller.select_convs file_get_vector_of_def
    by (cases "xdr_coder t") (simp only: option.case in_memory_bind in_memory_lift in_memory_throw,
      (intro settles_bind settles_decode settles_lift settles_throw lift)?; simp add: packed_array_def place_error)+
qed (simp_all only: file_unmarshaller_def unmarshaller.select_convs file_get_byte_def file_get_int16_def file_get_uint16_def
    file_get_int32_def file_get_uint32_def file_get_float32_def file_get_float64_def file_get_int_def settles_decode
    could_not_read_def this_may_be_def exn.distinct simp_thms)

lemma file_eats:
  assumes "reads_input x"
  shows "eats q F (u_byte (file_unmarshaller x))" "eats q F (u_int16 (file_unmarshaller x))" "eats q F (u_uint16 (file_unmarshaller x))"
    "eats q F (u_int32 (file_unmarshaller x))" "eats q F (u_uint32 (file_unmarshaller x))" "eats q F (u_float32 (file_unmarshaller x))"
    "eats q F (u_float64 (file_unmarshaller x))" "eats q F (u_int (file_unmarshaller x))" "eats q F (u_str (file_unmarshaller x))"
proof -
  note d = assms [unfolded reads_input_def]
  have "eats q F (in_memory (file_decode (io_error (''Could not read string data.'' @ bug_in_libdap)) (dec_string x max_str_len)))"
    by (rule eats_decode) (use d in blast)
  then show "eats q F (u_str (file_unmarshaller x))"
    unfolding file_unmarshaller_def unmarshaller.select_convs file_get_str_def in_memory_bind in_memory_return
    by (intro eats_bind settles_decode settles_return disjI1) (simp_all add: io_error_def)
  show "eats q F (u_byte (file_unmarshaller x))" "eats q F (u_int16 (file_unmarshaller x))" "eats q F (u_uint16 (file_unmarshaller x))"
    "eats q F (u_int32 (file_unmarshaller x))" "eats q F (u_uint32 (file_unmarshaller x))" "eats q F (u_float32 (file_unmarshaller x))"
    "eats q F (u_float64 (file_unmarshaller x))" "eats q F (u_int (file_unmarshaller x))"
    using d by (simp_all only: file_unmarshaller_def unmarshaller.select_convs file_get_byte_def file_get_int16_def file_get_uint16_def
      file_get_int32_def file_get_uint32_def file_get_float32_def file_get_float64_def file_get_int_def eats_decode)
qed

lemma prim_settles: "settles q F (prim_deserialize (file_unmarshaller x) p)"
  by (cases p) (simp_all only: prim_deserialize.simps settles_bind settles_return file_settles)

lemma prim_eats: "reads_input x \<Longrightarrow> eats q F (prim_deserialize (file_unmarshaller x) p)"
  by (cases p; simp only: prim_deserialize.simps) (intro eats_bind disjI1 settles_return file_settles file_eats; assumption)+

text \<open>What starts with the number of elements.\<close>

lemma counted_settles:
  assumes "reads_input x" "\<And>num l. settles q F (f num l)"
  shows "settles q F (bindS (u_int (file_unmarshaller x)) (\<lambda>num. bindS (liftS (agreed_length who len num)) (f num)))"
    "eats q F (bindS (u_int (file_unmarshaller x)) (\<lambda>num. bindS (liftS (agreed_length who len num)) (f num)))"
  by (intro settles_bind eats_bind disjI1 file_settles settles_agreed file_eats assms)+

lemma deserialize_settles:
  assumes "reads_input x"
  shows "q \<or> solid_rows v \<Longrightarrow> settles q F (deserialize (file_unmarshaller x) protocol F reuse v) \<and>
      (solid v \<longrightarrow> eats q F (deserialize (file_unmarshaller x) protocol F reuse v))"
    and "q \<or> solid_rows_field f \<Longrightarrow> settles q F (snd (deserialize_field (file_unmarshaller x) protocol F reuse f)) \<and>
      (solid_field f \<longrightarrow> eats q F (snd (deserialize_field (file_unmarshaller x) protocol F reuse f)))"
proof (induction "file_unmarshaller x" protocol F reuse v and "file_unmarshaller x" protocol F reuse f rule: deserialize_deserialize_field.induct)
  case (1 protocol fuel reuse p)
  show ?case unfolding deserialize.simps
    by (intro conjI impI settles_bind eats_bind disjI1 settles_return prim_settles prim_eats assms)
next
  case (2 protocol fuel reuse t len buf)
  show ?case unfolding deserialize.simps card_deserialize_def Let_def
    by (intro conjI impI settles_if eats_if settles_throw eats_throw counted_settles [OF assms] settles_bind settles_return file_settles) simp
next
  case (3 protocol fuel reuse t len strs)
  show ?case unfolding deserialize.simps strs_deserialize_def
    by (intro conjI impI counted_settles [OF assms] settles_bind settles_repeat settles_return file_settles)
next
  case (4 protocol fuel reuse len template elems)
  have "settles q fuel (deserialize (file_unmarshaller x) protocol fuel False template)" using 4 by simp
  then show ?case unfolding deserialize.simps vec_deserialize_def
    by (intro conjI impI counted_settles [OF assms] settles_bind settles_repeat settles_return)
next
  case (5 protocol fuel reuse fs)
  let ?acts = "map (\<lambda>f. deserialize_field (file_unmarshaller x) protocol fuel reuse f) fs"
  have s: "settles q fuel (snd p)" if "p \<in> set ?acts" for p using 5 that by (auto simp: list_all_iff)
  have e: "eats q fuel (all_fields ?acts)" if "solid (Struct_d fs)"
    using that 5 by (auto simp: list_ex_iff list_all_iff intro!: eats_all_fields [OF s])
  show ?case unfolding deserialize.simps using settles_all_fields [OF s] e
    by (intro conjI impI settles_bind eats_bind disjI1 settles_return) assumption+
next
  case (6 protocol fuel reuse a maps)
  let ?acts = "map (\<lambda>f. deserialize_field (file_unmarshaller x) protocol fuel reuse f) (a # maps)"
  have s: "settles q fuel (snd p)" if "p \<in> set ?acts" for p using 6 that by (auto simp: list_all_iff)
  have e: "eats q fuel (all_fields ?acts)" if g: "solid (Grid_d a maps)"
  proof -
    obtain f where f: "f = a \<or> f \<in> set maps" "solid_field f" using g by (auto simp: list_ex_iff)
    then have "eats q fuel (snd (deserialize_field (file_unmarshaller x) protocol fuel reuse f))"
      using 6 by (auto simp: list_all_iff)
    with f(1) show ?thesis by (intro eats_all_fields [OF s, of _ "deserialize_field (file_unmarshaller x) protocol fuel reuse f"]) auto
  qed
  have r: "settles q fuel (case gs of [] \<Rightarrow> throwS Undefined | g # gs' \<Rightarrow> returnS (Grid_d g gs'))" for gs
    by (cases gs) (simp_all only: list.case settles_return settles_throw exn.distinct simp_thms)
  show ?case unfolding deserialize.simps using settles_all_fields [OF s] e r unfolding list.map
    by (intro conjI impI settles_bind eats_bind disjI1) assumption+
next
  case (7 protocol fuel reuse fs spec rows)
  let ?acts = "map (\<lambda>f. deserialize_field (file_unmarshaller x) protocol fuel reuse f) fs"
  have s: "settles q fuel (snd p)" if "p \<in> set ?acts" for p using 7 that by (auto simp: list_all_iff)
  have "q \<or> eats q fuel (all_fields ?acts)"
    using 7 by (auto simp: list_ex_iff list_all_iff intro!: eats_all_fields [OF s])
  moreover have "takes_input (dec_opaque x 1)" using assms by (simp add: reads_input_def)
  ultimately have "settles q fuel (row_loop (file_unmarshaller x) fuel (all_fields ?acts))"
    unfolding settles_def [of _ _ "row_loop _ _ _"] using row_loop_settles [OF settles_all_fields [OF s]] by blast
  then show ?case unfolding deserialize.simps seq_deserialize_def
    by (intro conjI impI settles_if settles_throw settles_bind settles_return) (simp_all add: old_server_def)
next
  case (8 protocol fuel reuse s v)
  then show ?case unfolding deserialize_field.simps snd_conv solid_field.simps solid_rows_field.simps by blast
qed

section \<open>Properties\<close>



text \<open>
  C26: through a stream the same holds for variables without sequences whose vectors do not
  meet the rounding of \<open>XDRStreamUnMarshaller\<close>.
\<close>
theorem data_survives_streams:
  assumes "xdr_library x" "2 \<le> fst protocol" "ce \<longrightarrow> sel" "sendable str_fits even_block fitting_block False F v"
  shows "\<exists>bs. (\<forall>out. serialize (stream_marshaller x) ce sel v out = (Inr (), out @ bs)) \<and>
    (\<forall>m rest g. ready m \<and> x_in m = bs @ rest \<longrightarrow>
       (\<exists>m' g'. deserialize (stream_unmarshaller x) protocol F False (declared v) (m, g) = (Inr (received ce v), (m', g')) \<and>
         ready m' \<and> x_in m' = rest))"
proof -
  obtain bs where "puts (\<lambda>m. m) (serialize (stream_marshaller x) ce sel v) bs"
      "gets stream_ok stream_pending (deserialize (stream_unmarshaller x) protocol F False (declared v)) bs (received ce v)"
    using marshalling.moves_all(1) [OF xdr_library.stream_marshalling [OF assms(1)] assms(2,4), where ce = ce] unfolding serialize_selected [OF assms(3)] by (rule movesE)
  then show ?thesis unfolding puts_def gets_def by (intro exI [of _ bs]) fastforce
qed

theorem data_survives_streams_witness:
  "\<exists>bs. (\<forall>out. serialize (stream_marshaller (rfc4506 False)) True True
      (Grid_d (Field True (Card dods_int32_c 1 (Some [0, 0, 0, 7]))) [Field True (Card dods_float64_c 1 (Some [0, 1, 2, 3, 4, 5, 6, 7]))]) out
      = (Inr (), out @ bs)) \<and>
    (\<forall>m rest g. ready m \<and> x_in m = bs @ rest \<longrightarrow>
       (\<exists>m' g'. deserialize (stream_unmarshaller (rfc4506 False)) (2, ''2.0'') 1 False
          (Grid_d (Field True (Card dods_int32_c 1 None)) [Field True (Card dods_float64_c 1 None)]) (m, g)
        = (Inr (Grid_d (Field True (Card dods_int32_c 1 (Some [0, 0, 0, 7]))) [Field True (Card dods_float64_c 1 (Some [0, 1, 2, 3, 4, 5, 6, 7]))]), (m', g'))
        \<and> ready m' \<and> x_in m' = rest))"
  using data_survives_streams [OF rfc.xdr_library_axioms [of False], where protocol = "(2, ''2.0'')" and F = 1 and ce = True and sel = True and v =
      "Grid_d (Field True (Card dods_int32_c 1 (Some [0, 0, 0, 7]))) [Field True (Card dods_float64_c 1 (Some [0, 1, 2, 3, 4, 5, 6, 7]))]"]
  by (simp add: card_ok_def fitting_block_def m_is_cardinal_type_def card_width_def)



text \<open>
  C32: deserializing from a file comes to its end, whatever the file holds and whatever is
  declared, if no uninitialised byte is the start of instance marker or the rows of every sequence
  have a field that cannot be read from nothing: the row loops then need no more iterations than
  the file has bytes, when every XDR routine that succeeds takes input.  Without this they may
  loop at the end of the file, see \<open>stale_markers_never_end\<close>.
\<close>
theorem file_sequences_end:
  assumes "reads_input x" "start_of_instance \<notin> range garbage \<or> solid_rows v" "length inp < F"
  shows "fst (deserialize (file_unmarshaller x) protocol F reuse v (inp, garbage)) \<noteq> Inl No_Return"
proof -
  let ?q = "start_of_instance \<notin> range garbage"
  have "settles ?q F (deserialize (file_unmarshaller x) protocol F reuse v)"
    using deserialize_settles(1) [OF assms(1), of ?q v] assms(2) by blast
  with assms(3) show ?thesis by (simp add: settles_def garbage_ok_def)
qed

lemma rfc_reads_input: "reads_input (rfc4506 big)"
  unfolding reads_input_def takes_input_def
  by (auto simp: rfc4506_def dec_block_def dec32_def dec64_def round4_def Let_def split: if_splits)

text \<open>A file that ends after the first row, with the marker of that row still on the stack.\<close>

theorem file_sequences_end_witness:
  "fst (deserialize (file_unmarshaller (rfc4506 True)) (2, ''2.0'') 9 False
      (Seq_d [Field True (Prim (V_byte 0))] (Rows 0 1 (-1) True) []) ([0x5A, 0, 0, 0, 0, 0, 0, 1], \<lambda>n. 0x5A)) \<noteq> Inl No_Return"
  by (rule file_sequences_end [OF rfc_reads_input]) simp_all

text \<open>
  At the end of the file, a sequence whose rows only hold sequences: the marker of the outer one is
  still on the stack, the inner one finds the end marker there.
\<close>

lemma stale_markers_never_end:
  assumes "dec_opaque x 1 [] = None" "2 \<le> fst protocol"
  shows "fst (deserialize (file_unmarshaller x) protocol (Suc F) reuse
      (Seq_d [Field True (Seq_d fs spec rows)] spec' rows') ([], \<lambda>n. if even n then start_of_instance else end_of_sequence)) = Inl No_Return"
proof -
  let ?g = "\<lambda>n. if even n then start_of_instance else end_of_sequence"
  let ?inner = "deserialize (file_unmarshaller x) protocol (Suc F) reuse (Seq_d fs spec rows)"
  have m: "read_marker (file_unmarshaller x) ([], g) = (Inr [g 0], ([], \<lambda>n. g (Suc n)))" for g
    using assms(1) by (simp add: read_marker_def file_unmarshaller_def stack_byte_def in_memory_def file_get_opaque_def)
  have d: "start_of_instance \<noteq> end_of_sequence" by (simp add: start_of_instance_def end_of_sequence_def)
  have "?inner ([], \<lambda>n. ?g (Suc n)) = (Inr (Seq_d fs spec rows), ([], ?g))"
    using assms(2) by (simp add: seq_deserialize_def m)
  then have a: "all_fields [(True, ?inner)] ([], \<lambda>n. ?g (Suc n)) = (Inr [Field True (Seq_d fs spec rows)], ([], ?g))"
    by (simp del: deserialize.simps)
  have loop: "fst (row_loop (file_unmarshaller x) n act ([], ?g)) = Inl No_Return" if "act ([], \<lambda>n. ?g (Suc n)) = (Inr r, ([], ?g))" for n act r
  proof (induction n)
    case (Suc n)
    then obtain w where "row_loop (file_unmarshaller x) n act ([], ?g) = (Inl No_Return, w)" by (metis prod.collapse)
    with that d show ?case by (simp add: m)
  qed simp
  obtain w where "row_loop (file_unmarshaller x) (Suc F) (all_fields [(True, ?inner)]) ([], ?g) = (Inl No_Return, w)"
    using loop [of "all_fields [(True, ?inner)]", OF a] by (metis prod.collapse)
  then show ?thesis using assms(2) unfolding deserialize.simps(7) [of _ _ _ _ "[_]"] list.map deserialize_field.simps
    by (simp add: seq_deserialize_def del: row_loop.simps deserialize.simps all_fields.simps)
qed

text \<open>
  C34: a number of elements in the stream that is not the declared one is an error for every
  class and every kind of vector, before any element is read.
\<close>
theorem mismatched_length_error:
  assumes "u_int U u = (Inr num, u')" "len \<noteq> -1" "num \<noteq> int32_bits len" "m_is_cardinal_type t"
  shows "deserialize U protocol F reuse (Card t len buf) u =
      (Inl (InternalErr ''The server sent declarations and data with mismatched sizes.''), u') \<and>
    deserialize U protocol F reuse (Strs t' len strs) u =
      (Inl (InternalErr ''The client sent declarations and data with mismatched sizes.''), u') \<and>
    deserialize U protocol F reuse (Vec len template elems) u =
      (Inl (InternalErr ''The client sent declarations and data with mismatched sizes.''), u')"
  using assms by (simp add: card_deserialize_def strs_deserialize_def vec_deserialize_def agreed_length_def)

theorem mismatched_length_error_witness:
  "deserialize (file_unmarshaller (rfc4506 True)) (2, ''2.0'') 1 False (Card dods_byte_c 4 None) ([0, 0, 0, 3, 9, 9, 9, 0], \<lambda>_. 0) =
    (Inl (InternalErr ''The server sent declarations and data with mismatched sizes.''), ([9, 9, 9, 0], \<lambda>_. 0))"
proof -
  have "u_int (file_unmarshaller (rfc4506 True)) ([0, 0, 0, 3, 9, 9, 9, 0], \<lambda>_. 0) = (Inr 3, ([9, 9, 9, 0], \<lambda>_. 0))"
    by (simp add: in_memory_def file_unmarshaller_def file_get_int_def file_decode_def rfc4506_def dec32_def from_native_def)
  then show ?thesis
    using mismatched_length_error [where U = "file_unmarshaller (rfc4506 True)" and u = "([0, 0, 0, 3, 9, 9, 9, 0], \<lambda>_. 0)" and num = 3 and len = 4
        and t = dods_byte_c and u' = "([9, 9, 9, 0], \<lambda>_. 0)" and protocol = "(2, ''2.0'')" and F = 1 and reuse = False and buf = None]
    by (simp add: int32_bits_def m_is_cardinal_type_def)
qed

end
