(* ===== verification/Nested_Sequence.thy ===== *)
theory Nested_Sequence
  imports Data_Transfer
begin

text \<open>
  Sequences with a sequence among their fields (\<open>Sequence.cc\<close>): the leaf sequence decides
  whether the row of a parent is sent, by \<open>serialize_parent_part_two\<close>, and the flags
  \<open>d_unsent_data\<close> and \<open>d_wrote_soi\<close> keep track of it.  The result is the table from which
  the rows without a selected leaf row are dropped.
\<close>

section \<open>The code\<close>

text \<open>
  A sequence as the rows its \<open>read()\<close> will yield.  A leaf row is the action that sends its
  fields, with whether it is selected; a parent row sends the fields that are no sequences and
  has the rows of the nested sequence, which comes last.
\<close>

datatype 'a nseq =
    Leaf_seq seq_rows "(bool \<times> 'a) list"
  | Parent_seq seq_rows "('a \<times> 'a nseq) list"

text \<open>What a parent has at hand: its two flags and the row that was read.\<close>

record 'a ancestor =
  an_unsent :: bool
  an_wrote :: bool
  an_row :: 'a

text \<open>\<open>serialize_parent_part_two\<close>, from the outermost parent inwards; the nearest is the first.\<close>

fun parent_part_two :: "'m marshaller \<Rightarrow> ('m, unit) action ancestor list \<Rightarrow> ('m, ('m, unit) action ancestor list) action" where
  "parent_part_two M [] = returnS []"
| "parent_part_two M (a # ancs) = bindS (parent_part_two M ancs) (\<lambda>ancs'.
     if an_unsent a
     then bindS (write_start_of_instance M) (\<lambda>_. bindS (an_row a) (\<lambda>_.
       returnS (a\<lparr>an_unsent := False, an_wrote := True\<rparr> # ancs')))
     else returnS (a # ancs'))"

text \<open>
  The row number the leaf is left with: \<open>read()\<close> resets it when there are no more rows, as
  the documentation of \<open>BaseType::read\<close> has it; when the row constraint ended the loop it stays.
\<close>

function leaf_row_number :: "bool \<Rightarrow> int \<Rightarrow> int \<Rightarrow> int \<Rightarrow> ('r option \<times> int \<times> (bool \<times> 'r) list) res \<Rightarrow> int" where
  "leaf_row_number ce stride ending i (Inl e) = i"
| "leaf_row_number ce stride ending i (Inr (None, cur, src)) = (if cur = i then cur else -1)"
| "leaf_row_number ce stride ending i (Inr (Some r, cur, src)) =
     (if is_end_of_rows ending i then cur else leaf_row_number ce stride ending (i + stride) (read_row ce (i + stride) cur src))"
  by pat_completeness auto
termination
proof (relation "measure (\<lambda>(ce, stride, ending, i, st). case st of Inr (Some _, _, src) \<Rightarrow> Suc (length src) | _ \<Rightarrow> 0)")
  fix ce stride ending i r cur and src :: "(bool \<times> 'b) list"
  show "((ce, stride, ending, i + stride, read_row ce (i + stride) cur src), ce, stride, ending, i, Inr (Some r, cur, src))
      \<in> measure (\<lambda>(ce, stride, ending, i, st). case st of Inr (Some _, _, src) \<Rightarrow> Suc (length src) | _ \<Rightarrow> 0)"
    by (auto split: sum.splits option.splits prod.splits dest: read_row_shorter)
qed simp

text \<open>\<open>serialize_leaf\<close> below parents: \<open>n\<close> is the row number the leaf has.\<close>

definition nested_leaf :: "'m marshaller \<Rightarrow> seq_rows \<Rightarrow> (bool \<times> ('m, unit) action) list \<Rightarrow>
    ('m, unit) action ancestor list \<Rightarrow> int \<Rightarrow> ('m, ('m, unit) action ancestor list \<times> int) action" where
  "nested_leaf M spec src ancs n =
     (case spec of Rows start stride ending top_most \<Rightarrow>
        let i = (if start \<noteq> -1 then start else 0); st = read_row True i n src in
        case leaf_rows True stride ending i st of
          (rows, e) \<Rightarrow> bindS (if rows \<noteq> [] then parent_part_two M ancs else returnS ancs) (\<lambda>ancs'.
            bindS (write_rows M rows) (\<lambda>_.
              case e of
                Some ex \<Rightarrow> throwS ex
              | None \<Rightarrow> bindS (if rows \<noteq> [] \<or> top_most then write_end_of_sequence M else returnS ())
                  (\<lambda>_. returnS (ancs', leaf_row_number True stride ending i st)))))"

text \<open>The loop of \<open>serialize_parent_part_one\<close> over the rows it reads, with its \<open>d_wrote_soi\<close>.\<close>

fun parent_rows :: "(('m, unit) action \<times> (('m, unit) action ancestor list \<Rightarrow> int \<Rightarrow> ('m, ('m, unit) action ancestor list \<times> int) action)) list
    \<Rightarrow> bool \<Rightarrow> ('m, unit) action ancestor list \<Rightarrow> int \<Rightarrow> ('m, bool \<times> ('m, unit) action ancestor list \<times> int) action" where
  "parent_rows [] wrote ancs n = returnS (wrote, ancs, n)"
| "parent_rows ((row, inner) # rs) wrote ancs n =
     bindS (inner (\<lparr>an_unsent = True, an_wrote = wrote, an_row = row\<rparr> # ancs) n) (\<lambda>(as, n').
       case as of [] \<Rightarrow> throwS Undefined | a # ancs' \<Rightarrow> parent_rows rs (an_wrote a) ancs' n')"

definition parent_part_one :: "'m marshaller \<Rightarrow> seq_rows
    \<Rightarrow> (('m, unit) action \<times> (('m, unit) action ancestor list \<Rightarrow> int \<Rightarrow> ('m, ('m, unit) action ancestor list \<times> int) action)) list
    \<Rightarrow> ('m, unit) action ancestor list \<Rightarrow> int \<Rightarrow> ('m, ('m, unit) action ancestor list \<times> int) action" where
  "parent_part_one M spec src ancs n =
     (case spec of Rows start stride ending top_most \<Rightarrow>
        let i = (if start \<noteq> -1 then start else 0) in
        case leaf_rows False stride ending i (read_row False i (-1) (map (Pair True) src)) of
          (rows, e) \<Rightarrow> bindS (parent_rows rows False ancs n) (\<lambda>(wrote, ancs', n').
            case e of
              Some ex \<Rightarrow> throwS ex
            | None \<Rightarrow> bindS (if top_most \<or> wrote then write_end_of_sequence M else returnS ()) (\<lambda>_. returnS (ancs', n'))))"

fun nested_serialize :: "'m marshaller \<Rightarrow> ('m, unit) action nseq
    \<Rightarrow> ('m, unit) action ancestor list \<Rightarrow> int \<Rightarrow> ('m, ('m, unit) action ancestor list \<times> int) action" where
  "nested_serialize M (Leaf_seq spec src) = nested_leaf M spec src"
| "nested_serialize M (Parent_seq spec src) =
     parent_part_one M spec (map (\<lambda>(row, inner). (row, nested_serialize M inner)) src)"

section \<open>The table that is sent\<close>

datatype 'a table = Leaf_table "'a list" | Parent_table "('a \<times> 'a table) list"

fun no_rows :: "'a table \<Rightarrow> bool" where
  "no_rows (Leaf_table rs) = (rs = [])"
| "no_rows (Parent_table rs) = (rs = [])"

text \<open>The rows of every level that its row constraint and the selection leave, without the parent rows that have none below.\<close>

fun kept :: "'a nseq \<Rightarrow> 'a table" where
  "kept (Leaf_seq spec src) = Leaf_table (sent_rows True spec src)"
| "kept (Parent_seq spec src) =
     Parent_table (filter (\<lambda>(row, t). \<not> no_rows t)
       (sent_rows False spec (map (Pair True) (map (\<lambda>(row, inner). (row, kept inner)) src))))"

fun write_table :: "'m marshaller \<Rightarrow> ('m, unit) action table \<Rightarrow> ('m, unit) action"
  and write_parents :: "'m marshaller \<Rightarrow> (('m, unit) action \<times> ('m, unit) action table) list \<Rightarrow> ('m, unit) action" where
  "write_table M (Leaf_table rs) = bindS (write_rows M rs) (\<lambda>_. write_end_of_sequence M)"
| "write_table M (Parent_table rs) = bindS (write_parents M rs) (\<lambda>_. write_end_of_sequence M)"
| "write_parents M [] = returnS ()"
| "write_parents M ((row, t) # rs) = bindS (write_start_of_instance M) (\<lambda>_. bindS row (\<lambda>_.
     bindS (write_table M t) (\<lambda>_. write_parents M rs)))"

text \<open>What the theorem is about: only the outermost sequence is top most, strides are
  positive, and each leaf reads to the end of its rows, so that it has no row constraint or
  one by which no row that there is and that its start and stride pick lies past the ending row.\<close>

fun seq_spec :: "'a nseq \<Rightarrow> seq_rows" where
  "seq_spec (Leaf_seq spec src) = spec" | "seq_spec (Parent_seq spec src) = spec"

definition is_top :: "seq_rows \<Rightarrow> bool" where
  "is_top spec = (case spec of Rows start stride ending top_most \<Rightarrow> top_most)"

definition reads_all :: "seq_rows \<Rightarrow> nat \<Rightarrow> bool" where
  "reads_all spec n = (case spec of Rows start stride ending top_most \<Rightarrow>
     ending = -1 \<or> list_all (\<lambda>k. max 0 start + int k * stride < int n \<longrightarrow> max 0 start + int k * stride \<le> ending) [0..<n])"

definition forward :: "seq_rows \<Rightarrow> bool" where
  "forward spec = (case spec of Rows start stride ending top_most \<Rightarrow> -1 \<le> start \<and> 0 < stride)"

fun nest_ok :: "'a nseq \<Rightarrow> bool" where
  "nest_ok (Leaf_seq spec src) = (forward spec \<and> reads_all spec (length (counted_rows True src)))"
| "nest_ok (Parent_seq spec src) = (forward spec \<and> (\<forall>(row, inner) \<in> set src. \<not> is_top (seq_spec inner) \<and> nest_ok inner))"

section \<open>The leaf sends for its parents\<close>

definition mark_sent :: "'a ancestor \<Rightarrow> 'a ancestor" where
  "mark_sent a = (if an_unsent a then a\<lparr>an_unsent := False, an_wrote := True\<rparr> else a)"

fun send_unsent :: "'m marshaller \<Rightarrow> ('m, unit) action ancestor list \<Rightarrow> ('m, unit) action" where
  "send_unsent M [] = returnS ()"
| "send_unsent M (a # ancs) = bindS (send_unsent M ancs) (\<lambda>_.
     if an_unsent a then bindS (write_start_of_instance M) (\<lambda>_. an_row a) else returnS ())"

lemma bind_return_right: "bindS p returnS = p"
  by (rule ext) (simp split: prod.splits sum.splits)

lemma bind_unit: "bindS p (\<lambda>_. returnS ()) = p"
  by (rule ext) (simp split: prod.splits sum.splits)

lemma bind_cong_unit: "bindS p (\<lambda>_. q) = bindS p (\<lambda>_. q')" if "q = q'" for q q' :: "('m, 'a) action"
  by (simp only: that)

lemma parent_part_two_eq: "parent_part_two M ancs = bindS (send_unsent M ancs) (\<lambda>_. returnS (map mark_sent ancs))"
proof (induction ancs)
  case (Cons a ancs)
  show ?case
    by (cases "an_unsent a")
      (simp_all only: parent_part_two.simps Cons send_unsent.simps bind_assoc bind_return if_True if_False list.map mark_sent_def)
qed (simp only: parent_part_two.simps send_unsent.simps bind_return list.map)

lemma send_sent: "send_unsent M (map mark_sent ancs) = returnS ()"
proof (induction ancs)
  case (Cons a ancs)
  have "\<not> an_unsent (mark_sent a)" by (simp add: mark_sent_def)
  with Cons show ?case by (simp only: list.map send_unsent.simps bind_return if_False)
qed (simp only: list.map send_unsent.simps)

lemma mark_sent_idem: "map mark_sent (map mark_sent ancs) = map mark_sent ancs"
  by (simp add: mark_sent_def)

text \<open>What a sequence does to the stream and to its ancestors.\<close>

definition sends :: "'m marshaller \<Rightarrow> ('m, unit) action table \<Rightarrow> bool \<Rightarrow> ('m, unit) action ancestor list
    \<Rightarrow> ('m, ('m, unit) action ancestor list \<times> int) action" where
  "sends M t outer ancs =
     (if no_rows t then bindS (if outer then write_table M t else returnS ()) (\<lambda>_. returnS (ancs, -1))
      else bindS (send_unsent M ancs) (\<lambda>_. bindS (write_table M t) (\<lambda>_. returnS (map mark_sent ancs, -1))))"

lemma read_row_None: "cur < row \<Longrightarrow> read_row ce row cur src = Inr (None, c, s) \<Longrightarrow> c < row"
proof -
  have "seen \<noteq> None \<or> n < row \<Longrightarrow> read_row_loop ce row n seen src = (None, c, s) \<Longrightarrow> c < row" for n and seen :: "'a option"
    by (induction ce row n seen src rule: read_row_loop.induct) (auto split: if_splits)
  then show "cur < row \<Longrightarrow> read_row ce row cur src = Inr (None, c, s) \<Longrightarrow> c < row"
    by (auto simp: read_row_def split: if_splits)
qed

lemma read_row_forward:
  "cur < row \<Longrightarrow> \<exists>v c s. read_row ce row cur src = Inr (v, c, s) \<and> (if v = None then c < row else c = row)"
proof -
  assume l: "cur < row"
  then obtain v c s where r: "read_row ce row cur src = Inr (v, c, s)" by (auto simp: read_row_def) (metis prod_cases3)
  have "if v = None then c < row else c = row"
    using read_row_None [OF l] read_row_reached r by (cases v) auto
  with r show ?thesis by blast
qed

lemma leaf_row_number_reset:
  assumes "0 < s"
  shows "(\<And>k. i + k * s < length all \<Longrightarrow> \<not> is_end_of_rows ending (int (i + k * s))) \<Longrightarrow>
    cur < int i \<Longrightarrow> counted_rows ce src = drop (nat (cur + 1)) all \<Longrightarrow> -1 \<le> cur \<Longrightarrow>
    leaf_row_number ce (int s) ending (int i) (read_row ce (int i) cur src) = -1"
proof (induction "length all - i" arbitrary: i cur src rule: less_induct)
  case less
  obtain v c src' where r: "read_row ce (int i) cur src = Inr (v, c, src')" using less(3) by (auto simp: read_row_def) (metis prod_cases3)
  have len: "nat (int i - cur) \<le> length all - nat (cur + 1) \<longleftrightarrow> i < length all" using less(3,5) by linarith
  note n = next_row [OF less(3) refl r, unfolded less(4) length_drop len drop_drop]
  show ?case
  proof (cases "i < length all")
    case True
    with n obtain x where v: "v = Some x" "c = int i" "counted_rows ce src' = drop (nat (int i - cur) + nat (cur + 1)) all" by auto
    have "nat (int i - cur) + nat (cur + 1) = nat (int i + 1)" using less(3,5) by linarith
    note v3 = v(3) [unfolded this]
    have e: "\<not> is_end_of_rows ending (int i)" using less(2) [of 0] True by simp
    have ends: "\<not> is_end_of_rows ending (int (i + s + k * s))" if "i + s + k * s < length all" for k
      using less(2) [of "Suc k"] that by (simp add: ac_simps)
    have "leaf_row_number ce (int s) ending (int (i + s)) (read_row ce (int (i + s)) (int i) src') = -1"
      by (rule less(1) [OF _ ends _ v3]) (use assms True in simp_all)
    then show ?thesis unfolding r v(1,2) by (simp add: e)
  next
    case False
    with n have "v = None" by simp
    with read_row_None [OF less(3)] r show ?thesis by auto
  qed
qed

lemma reads_all_no_end:
  assumes "reads_all (Rows start stride ending outer) n" "0 < stride" "i = nat (max 0 start)" "i + k * nat stride < n"
  shows "\<not> is_end_of_rows ending (int (i + k * nat stride))"
proof -
  have "k \<le> k * nat stride" using assms(2) by (cases "nat stride") auto
  then have "k < n" using assms(4) by linarith
  moreover have "int (i + k * nat stride) = max 0 start + int k * stride" using assms(2,3) by simp
  moreover have "int (i + k * nat stride) < int n" using assms(4) by (simp only: of_nat_less_iff)
  ultimately have "k \<in> set [0..<n]" "max 0 start + int k * stride < int n" by (simp_all only: set_upt atLeastLessThan_iff le0 simp_thms)
  then have "ending = -1 \<or> int (i + k * nat stride) \<le> ending"
    using assms(1) \<open>int (i + k * nat stride) = max 0 start + int k * stride\<close> unfolding reads_all_def seq_rows.case list_all_iff by metis
  then show ?thesis by (auto simp: is_end_of_rows_def)
qed

lemma forward_start: "forward (Rows start stride ending outer) \<Longrightarrow> -1 < (if start \<noteq> -1 then start else 0)"
  by (simp add: forward_def)

lemma rows_of:
  assumes "forward (Rows start stride ending outer)"
  shows "leaf_rows ce stride ending (if start \<noteq> -1 then start else 0) (read_row ce (if start \<noteq> -1 then start else 0) (-1) src) =
    (sent_rows ce (Rows start stride ending outer) src, None)"
proof -
  have "rows_ok (Rows start stride ending True)" using assms by (simp add: rows_ok_def forward_def)
  from rows_ok_no_error [OF this] show ?thesis
    by (simp only: sent_rows_def seq_rows.case Let_def prod_eq_iff fst_conv snd_conv simp_thms)
qed

lemma nested_leaf_sends:
  assumes "forward spec \<and> reads_all spec (length (counted_rows True src))"
  shows "nested_leaf M spec src ancs (-1) = sends M (Leaf_table (sent_rows True spec src)) (is_top spec) ancs"
proof -
  obtain start stride ending outer where s: "spec = Rows start stride ending outer" by (cases spec)
  have f: "forward (Rows start stride ending outer)" using assms by (simp add: s)
  then have e: "0 < stride" by (simp add: forward_def)
  let ?i = "if start \<noteq> -1 then start else 0"
  have i: "?i = int (nat (max 0 start))" "stride = int (nat stride)" using f by (auto simp: forward_def)
  have "leaf_row_number True (int (nat stride)) ending (int (nat (max 0 start))) (read_row True (int (nat (max 0 start))) (-1) src) = -1"
  proof (rule leaf_row_number_reset [where all = "counted_rows True src"])
    fix k
    assume "nat (max 0 start) + k * nat stride < length (counted_rows True src)"
    with assms show "\<not> is_end_of_rows ending (int (nat (max 0 start) + k * nat stride))"
      unfolding s by (intro reads_all_no_end [OF _ e refl]) blast+
  qed (use e in simp_all)
  then have n: "leaf_row_number True stride ending ?i (read_row True ?i (-1) src) = -1" by (simp only: i [symmetric])
  show ?thesis
    unfolding nested_leaf_def s seq_rows.case Let_def rows_of [OF f] prod.case option.case n is_top_def sends_def
    by (cases "sent_rows True (Rows start stride ending outer) src = []"; cases outer)
      (simp_all only: no_rows.simps write_table.simps write_rows.simps parent_part_two_eq simp_thms if_True if_False bind_assoc bind_return)
qed

lemma parent_rows_send:
  assumes "\<And>row inner ancs. (row, inner) \<in> set S \<Longrightarrow> g inner ancs (-1) = sends M (k inner) False ancs"
  shows "parent_rows (map (\<lambda>(row, inner). (row, g inner)) S) wrote ancs (-1) =
    (let K = filter (\<lambda>(row, t). \<not> no_rows t) (map (\<lambda>(row, inner). (row, k inner)) S) in
      if K = [] then returnS (wrote, ancs, -1)
      else bindS (send_unsent M ancs) (\<lambda>_. bindS (write_parents M K) (\<lambda>_. returnS (True, map mark_sent ancs, -1))))"
  using assms
proof (induction S arbitrary: wrote ancs)
  case Nil
  show ?case by (simp only: list.map parent_rows.simps filter.simps Let_def if_True simp_thms)
next
  case (Cons p S)
  obtain row inner where p: "p = (row, inner)" by (cases p)
  have g: "g inner as (-1) = sends M (k inner) False as" for as by (rule Cons.prems [of row]) (simp add: p)
  have IH: "parent_rows (map (\<lambda>(row, inner). (row, g inner)) S) wrote ancs (-1) =
    (let K = filter (\<lambda>(row, t). \<not> no_rows t) (map (\<lambda>(row, inner). (row, k inner)) S) in
      if K = [] then returnS (wrote, ancs, -1)
      else bindS (send_unsent M ancs) (\<lambda>_. bindS (write_parents M K) (\<lambda>_. returnS (True, map mark_sent ancs, -1))))" for wrote ancs
    by (rule Cons.IH, rule Cons.prems) (rule list.set_intros(2))
  show ?case
  proof (cases "no_rows (k inner)")
    case True
    then have "\<not> (\<not> no_rows (k inner))" by blast
    then show ?thesis
      by (simp only: p list.map prod.case parent_rows.simps g sends_def if_True if_False True bind_return list.case
          ancestor.select_convs IH filter.simps)
  next
    case False
    let ?K = "filter (\<lambda>(row, t). \<not> no_rows t) (map (\<lambda>(row, inner). (row, k inner)) S)"
    have first: "send_unsent M (\<lparr>an_unsent = True, an_wrote = wrote, an_row = row\<rparr> # ancs) =
        bindS (send_unsent M ancs) (\<lambda>_. bindS (write_start_of_instance M) (\<lambda>_. row))"
      by (simp only: send_unsent.simps ancestor.select_convs if_True)
    have rest: "parent_rows (map (\<lambda>(row, inner). (row, g inner)) S) True (map mark_sent ancs) (-1) =
        bindS (write_parents M ?K) (\<lambda>_. returnS (True, map mark_sent ancs, -1))"
      unfolding IH Let_def send_sent bind_return mark_sent_idem
      by (cases "?K = []") (simp_all only: if_True if_False write_parents.simps bind_return simp_thms)
    have m: "mark_sent \<lparr>an_unsent = True, an_wrote = wrote, an_row = row\<rparr> = \<lparr>an_unsent = False, an_wrote = True, an_row = row\<rparr>"
      by (simp add: mark_sent_def)
    show ?thesis
      by (simp only: p list.map prod.case parent_rows.simps g sends_def if_False False simp_thms first bind_assoc bind_return
          list.case m ancestor.select_convs if_True rest filter.simps Let_def write_parents.simps list.distinct)
  qed
qed

lemma map_Pair_lift: "map (Pair True) (map h src) = map (apsnd h) (map (Pair True) src)"
  by simp

lemma nested_sends:
  "nest_ok s \<Longrightarrow> nested_serialize M s ancs (-1) = sends M (kept s) (is_top (seq_spec s)) ancs"
proof (induction s arbitrary: ancs rule: nest_ok.induct)
  case (1 spec src)
  then show ?case by (simp only: nested_serialize.simps kept.simps seq_spec.simps nest_ok.simps nested_leaf_sends)
next
  case (2 spec src)
  obtain start stride ending outer where s: "spec = Rows start stride ending outer" by (cases spec)
  have f: "forward spec" using 2(2) by simp
  let ?S = "sent_rows False spec (map (Pair True) src)"
  have sub: "set ?S \<subseteq> set src" using sent_rows_subset [of False spec "map (Pair True) src"] by force
  have IH: "nested_serialize M inner as (-1) = sends M (kept inner) False as" if "(row, inner) \<in> set ?S" for row inner as
  proof -
    have m: "(row, inner) \<in> set src" using sub that by blast
    then have i: "\<not> is_top (seq_spec inner)" "nest_ok inner" using 2(2) by auto
    from 2(1) [OF m refl i(2), of as] i(1) show ?thesis by simp
  qed
  let ?K = "filter (\<lambda>(row, t). \<not> no_rows t) (map (\<lambda>(row, inner). (row, kept inner)) ?S)"
  have K: "kept (Parent_seq spec src) = Parent_table ?K"
    unfolding kept.simps map_Pair_lift sent_rows_map ..
  have rows: "parent_rows (map (\<lambda>(row, inner). (row, nested_serialize M inner)) ?S) False ancs (-1) =
      (if ?K = [] then returnS (False, ancs, -1)
       else bindS (send_unsent M ancs) (\<lambda>_. bindS (write_parents M ?K) (\<lambda>_. returnS (True, map mark_sent ancs, -1))))"
    using parent_rows_send [of ?S "nested_serialize M" M kept False ancs, OF IH] unfolding Let_def .
  have "nested_serialize M (Parent_seq spec src) ancs (-1) =
      bindS (parent_rows (map (\<lambda>(row, inner). (row, nested_serialize M inner)) ?S) False ancs (-1)) (\<lambda>(wrote, ancs', n').
        bindS (if outer \<or> wrote then write_end_of_sequence M else returnS ()) (\<lambda>_. returnS (ancs', n')))"
    unfolding nested_serialize.simps parent_part_one_def s seq_rows.case Let_def rows_of [OF f [unfolded s]] prod.case option.case map_Pair_lift sent_rows_map ..
  note eq = this [unfolded rows]
  have "is_top spec = outer" by (simp only: is_top_def s seq_rows.case)
  then show ?case unfolding eq K sends_def seq_spec.simps no_rows.simps write_table.simps
    by (cases "?K = []"; cases outer)
      (simp_all only: if_True if_False bind_return bind_assoc prod.case simp_thms write_parents.simps)
qed

lemma leaf_row_number_past_end:
  assumes "0 < s" "0 \<le> ending" "ending + int s < int (length all)"
  shows "i < length all \<Longrightarrow> counted_rows ce src = drop (Suc i) all \<Longrightarrow>
    ending < leaf_row_number ce (int s) ending (int i) (Inr (Some r, int i, src))"
proof (induction "length all - i" arbitrary: i r src rule: less_induct)
  case less
  show ?case
  proof (cases "is_end_of_rows ending (int i)")
    case True
    then show ?thesis using assms(2) by (simp add: is_end_of_rows_def)
  next
    case False
    then have i: "int i \<le> ending" using assms(2) by (simp add: is_end_of_rows_def)
    then have lt: "i + s < length all" using assms(3) by simp
    have st: "int i < int i + int s" "s = nat (int i + int s - int i)" using assms(1) by simp_all
    obtain v c src' where r: "read_row ce (int i + int s) (int i) src = Inr (v, c, src')" using st(1) by (auto simp: read_row_def) (metis prod_cases3)
    from next_row [OF st r, unfolded less(3)] lt assms(1)
    have v: "v = Some (all ! (i + s))" "c = int i + int s" "counted_rows ce src' = drop (Suc (i + s)) all"
      by (auto simp: nth_drop add.commute split: if_splits)
    have e: "int i + int s = int (i + s)" by simp
    have "ending < leaf_row_number ce (int s) ending (int (i + s)) (Inr (Some (all ! (i + s)), int (i + s), src'))"
      by (rule less.hyps [OF _ lt v(3)]) (use assms(1) lt in simp)
    then show ?thesis unfolding leaf_row_number.simps(3) [where src = src] if_not_P [OF False] e r [unfolded e] v .
  qed
qed

lemma nested_leaf_row_number:
  assumes "nested_leaf M (Rows start stride ending outer) src ancs n m = (Inr (ancs', n'), m')"
  shows "n' = leaf_row_number True stride ending (if start \<noteq> -1 then start else 0) (read_row True (if start \<noteq> -1 then start else 0) n src)"
proof -
  obtain rows e where l: "leaf_rows True stride ending (if start \<noteq> -1 then start else 0) (read_row True (if start \<noteq> -1 then start else 0) n src) = (rows, e)"
    by fastforce
  show ?thesis using assms unfolding nested_leaf_def seq_rows.case Let_def l prod.case
    by (cases e) (auto split: prod.splits sum.splits)
qed

section \<open>Properties\<close>

text \<open>
  C5: a nested sequence, whatever its depth, sends the table of the selected rows: a parent row
  once, before the first leaf row below it that is sent, and not at all when there is none; an
  empty result is the end marker of the outermost sequence alone.  The strides are positive and
  every leaf reads to the end of its rows; a row constraint that ends a leaf before that makes
  the next row of its parent fail, see \<open>inner_row_constraint_fails\<close>.
\<close>
theorem nested_sequence_sends_table:
  assumes "nest_ok s" "is_top (seq_spec s)"
  shows "nested_serialize M s [] (-1) = bindS (write_table M (kept s)) (\<lambda>_. returnS ([], -1))"
  unfolding nested_sends [OF assms(1)] sends_def using assms(2)
  by (cases "no_rows (kept s)") (simp_all only: if_True if_False send_unsent.simps bind_return list.map)

theorem nested_sequence_sends_table_witness:
  "nested_serialize (file_marshaller (rfc4506 False))
      (Parent_seq (Rows (-1) 1 (-1) True)
        [(file_put_byte (rfc4506 False) 1, Leaf_seq (Rows (-1) 1 (-1) False) [(False, file_put_byte (rfc4506 False) 2)]),
         (file_put_byte (rfc4506 False) 3, Leaf_seq (Rows 0 2 0 False) [(True, file_put_byte (rfc4506 False) 4), (True, file_put_byte (rfc4506 False) 5)])]) [] (-1) =
    bindS (write_table (file_marshaller (rfc4506 False))
        (Parent_table [(file_put_byte (rfc4506 False) 3, Leaf_table [file_put_byte (rfc4506 False) 4])]))
      (\<lambda>_. returnS ([], -1))"
proof -
  let ?s = "Parent_seq (Rows (-1) 1 (-1) True)
        [(file_put_byte (rfc4506 False) 1, Leaf_seq (Rows (-1) 1 (-1) False) [(False, file_put_byte (rfc4506 False) 2)]),
         (file_put_byte (rfc4506 False) 3, Leaf_seq (Rows 0 2 0 False) [(True, file_put_byte (rfc4506 False) 4), (True, file_put_byte (rfc4506 False) 5)])]"
  have k: "kept ?s = Parent_table [(file_put_byte (rfc4506 False) 3, Leaf_table [file_put_byte (rfc4506 False) 4])]"
    by (simp add: sent_rows_def read_row_def is_end_of_rows_def)
  have ok: "nest_ok ?s" "is_top (seq_spec ?s)" by (simp_all add: forward_def reads_all_def is_top_def counted_rows_def)
  show ?thesis by (rule nested_sequence_sends_table [OF ok, unfolded k])
qed



end
