(* ===== verification/Http_Cache_Table.thy ===== *)
theory Http_Cache_Table
  imports Http_Time
begin

text \<open>
  The table of the client-side HTTP cache (\<open>HTTPCacheTable.h\<close>, \<open>HTTPCacheTable.cc\<close>): its
  entries with their locks, the slots they are hashed to, the accounting of disk space, the
  removal functors, the ages of RFC 2616 and the response headers.  The files of the
  persistent store belong to the environment; removing one is not checked by the code
  (\<open>REMOVE\<close> ignores the result).  \<open>time_t\<close> is unbounded.
\<close>

section \<open>Hashing\<close>

definition cache_table_size :: int where "cache_table_size = 1499"

definition get_hash :: "string \<Rightarrow> int" where
  "get_hash url = foldl (\<lambda>h c. (h * 3 + int (ord_of c)) mod cache_table_size) 0 (c_str url)"

section \<open>Entries\<close>

text \<open>The slot and \<open>c_id\<close> stand for the address of an entry, \<open>c_rlock\<close> and \<open>c_wlock\<close> for \<open>d_response_lock\<close>
  and \<open>d_response_write_lock\<close>.\<close>

record centry =
  c_id :: nat
  c_url :: string
  c_hash :: int
  c_hits :: int
  c_cachename :: string
  c_etag :: string
  c_lm :: int
  c_expires :: int
  c_date :: int
  c_age :: int
  c_max_age :: int
  c_size :: u64
  c_freshness :: int
  c_response :: int
  c_initial_age :: int
  c_must_revalidate :: bool
  c_no_cache :: bool
  c_readers :: int
  c_rlock :: bool
  c_wlock :: bool

definition new_entry :: "nat \<Rightarrow> string \<Rightarrow> centry" where
  "new_entry n url = \<lparr>c_id = n, c_url = url, c_hash = get_hash url, c_hits = 0, c_cachename = [], c_etag = [],
     c_lm = -1, c_expires = -1, c_date = -1, c_age = -1, c_max_age = -1, c_size = 0, c_freshness = 0, c_response = 0,
     c_initial_age = 0, c_must_revalidate = False, c_no_cache = False, c_readers = 0, c_rlock = False, c_wlock = False\<rparr>"

text \<open>
  Every operation on an entry runs inside the interface lock of the cache, and the locks that
  are left behind are released by operations that need it: waiting for one never ends
  (\<open>No_Return\<close>).  Unlocking a mutex that is not locked is \<open>Undefined\<close>.
\<close>

definition lock_read_response :: "centry \<Rightarrow> centry res" where
  "lock_read_response e =
     (if \<not> c_rlock e then Inr (e\<lparr>c_rlock := True, c_readers := c_readers e + 1\<rparr>)
      else if c_wlock e then Inl No_Return
      else Inr (e\<lparr>c_readers := c_readers e + 1\<rparr>))"

definition unlock_read_response :: "centry \<Rightarrow> centry res" where
  "unlock_read_response e =
     (if c_readers e - 1 = 0
      then (if c_rlock e then Inr (e\<lparr>c_readers := 0, c_rlock := False\<rparr>) else Inl Undefined)
      else Inr (e\<lparr>c_readers := c_readers e - 1\<rparr>))"

definition lock_write_response :: "centry \<Rightarrow> centry res" where
  "lock_write_response e = (if c_rlock e \<or> c_wlock e then Inl No_Return else Inr (e\<lparr>c_rlock := True, c_wlock := True\<rparr>))"

definition unlock_write_response :: "centry \<Rightarrow> centry res" where
  "unlock_write_response e = (if c_rlock e \<and> c_wlock e then Inr (e\<lparr>c_rlock := False, c_wlock := False\<rparr>) else Inl Undefined)"

section \<open>The table\<close>

text \<open>
  \<open>d_locked_entries\<close> binds the files handed out to entries; looking a file up inserts a null
  pointer for it.  A null in a slot is skipped by every operation until it is erased; it is
  left out here.
\<close>

record ctable =
  t_slots :: "int \<Rightarrow> centry list"
  t_block :: u32
  t_current :: u64
  t_new :: int
  t_locked :: "(nat \<times> (int \<times> nat) option) list"

definition new_table :: "u32 \<Rightarrow> ctable" where
  "new_table block = \<lparr>t_slots = (\<lambda>_. []), t_block = block, t_current = 0, t_new = 0, t_locked = []\<rparr>"

text \<open>The size is an \<open>int\<close>, the number of blocks and the product \<open>unsigned int\<close>, the result an \<open>int\<close>.\<close>

definition entry_disk_space :: "u64 \<Rightarrow> u32 \<Rightarrow> u32" where
  "entry_disk_space sz block = (ucast sz + block) div block * block"

definition add_entry_to_cache_table :: "centry \<Rightarrow> (ctable, unit) action" where
  "add_entry_to_cache_table e t =
     (if c_hash e > cache_table_size - 1 \<or> c_hash e < 0 then (Inl (InternalErr ''Hash value too large!''), t)
      else (Inr (), t\<lparr>t_slots := (t_slots t)(c_hash e := t_slots t (c_hash e) @ [e]),
                      t_current := t_current t + scast (entry_disk_space (c_size e) (t_block t)),
                      t_new := s32 (t_new t + 1)\<rparr>))"

text \<open>The first entry for the URL is locked.\<close>

fun lock_first :: "(centry \<Rightarrow> centry res) \<Rightarrow> string \<Rightarrow> centry list \<Rightarrow> (centry option \<times> centry list) res" where
  "lock_first lock url [] = Inr (None, [])"
| "lock_first lock url (e # es) =
     (if c_url e = url then bindE (lock e) (\<lambda>e'. Inr (Some e', e' # es))
      else bindE (lock_first lock url es) (\<lambda>(r, es'). Inr (r, e # es')))"

definition get_entry :: "(centry \<Rightarrow> centry res) \<Rightarrow> int \<Rightarrow> string \<Rightarrow> (ctable, centry option) action" where
  "get_entry lock h url t =
     (case lock_first lock url (t_slots t h) of
        Inl ex \<Rightarrow> (Inl ex, t)
      | Inr (r, es) \<Rightarrow> (Inr r, t\<lparr>t_slots := (t_slots t)(h := es)\<rparr>))"

definition get_locked_entry_from_cache_table :: "string \<Rightarrow> (ctable, centry option) action" where
  "get_locked_entry_from_cache_table url = get_entry lock_read_response (get_hash url) url"

definition get_write_locked_entry_from_cache_table :: "string \<Rightarrow> (ctable, centry option) action" where
  "get_write_locked_entry_from_cache_table url = get_entry lock_write_response (get_hash url) url"

text \<open>The space an entry took is given back, but not below 0.\<close>

definition shrink :: "u32 \<Rightarrow> centry \<Rightarrow> u64 \<Rightarrow> u64" where
  "shrink block e current =
     (let eds = ucast (entry_disk_space (c_size e) block) in if eds > current then 0 else current - eds)"

definition remove_cache_entry :: "u32 \<Rightarrow> centry \<Rightarrow> u64 \<Rightarrow> u64 res" where
  "remove_cache_entry block e current =
     (if c_readers e \<noteq> 0 then Inl (InternalErr ''Tried to delete a cache entry that is in use.'')
      else Inr (shrink block e current))"

text \<open>
  \<open>for_each\<close> with a functor that removes the entries it applies to, on one slot; when it
  throws, the entries before are gone.
\<close>

fun sweep :: "(centry \<Rightarrow> bool) \<Rightarrow> (centry \<Rightarrow> exn option) \<Rightarrow> u32 \<Rightarrow> centry list \<Rightarrow> u64 \<Rightarrow> exn option \<times> centry list \<times> u64" where
  "sweep P guard block [] current = (None, [], current)"
| "sweep P guard block (e # es) current =
     (if P e
      then (case guard e of
              Some ex \<Rightarrow> (Some ex, e # es, current)
            | None \<Rightarrow>
                (case remove_cache_entry block e current of
                   Inl ex \<Rightarrow> (Some ex, e # es, current)
                 | Inr current' \<Rightarrow> sweep P guard block es current'))
      else (case sweep P guard block es current of (x, es', current') \<Rightarrow> (x, e # es', current')))"

definition sweep_slot :: "(centry \<Rightarrow> bool) \<Rightarrow> (centry \<Rightarrow> exn option) \<Rightarrow> int \<Rightarrow> (ctable, unit) action" where
  "sweep_slot P guard h t =
     (case sweep P guard (t_block t) (t_slots t h) (t_current t) of
        (x, es, current) \<Rightarrow>
          (case x of None \<Rightarrow> Inr () | Some ex \<Rightarrow> Inl ex, t\<lparr>t_slots := (t_slots t)(h := es), t_current := current\<rparr>))"

fun sweep_slots :: "(centry \<Rightarrow> bool) \<Rightarrow> (centry \<Rightarrow> exn option) \<Rightarrow> int list \<Rightarrow> (ctable, unit) action" where
  "sweep_slots P guard [] = returnS ()"
| "sweep_slots P guard (h # hs) = bindS (sweep_slot P guard h) (\<lambda>_. sweep_slots P guard hs)"

definition all_slots :: "int list" where "all_slots = [0..cache_table_size - 1]"

definition no_guard :: "centry \<Rightarrow> exn option" where "no_guard e = None"

definition expired :: "int \<Rightarrow> centry \<Rightarrow> bool" where
  "expired d_time e = (c_readers e = 0 \<and> c_freshness e < c_initial_age e + (d_time - c_response e))"

text \<open>\<open>time\<close> 0 stands for the current time.\<close>

definition delete_expired_entries :: "int \<Rightarrow> int \<Rightarrow> (ctable, unit) action" where
  "delete_expired_entries now time = sweep_slots (expired (if time = 0 then now else time)) no_guard all_slots"

definition delete_by_hits :: "int \<Rightarrow> (ctable, unit) action" where
  "delete_by_hits hits = sweep_slots (\<lambda>e. c_readers e = 0 \<and> c_hits e \<le> hits) no_guard all_slots"

definition delete_by_size :: "u32 \<Rightarrow> (ctable, unit) action" where
  "delete_by_size sz = sweep_slots (\<lambda>e. c_readers e = 0 \<and> c_size e > ucast sz) no_guard all_slots"

text \<open>\<open>DeleteCacheEntry\<close> takes the write lock first.\<close>

definition write_guard :: "centry \<Rightarrow> exn option" where
  "write_guard e = (case lock_write_response e of Inl ex \<Rightarrow> Some ex | Inr _ \<Rightarrow> None)"

definition remove_entry_from_cache_table :: "string \<Rightarrow> (ctable, unit) action" where
  "remove_entry_from_cache_table url = sweep_slot (\<lambda>e. c_url e = url) write_guard (get_hash url)"

definition delete_all_entries :: "(ctable, unit) action" where
  "delete_all_entries = bindS (sweep_slots (\<lambda>_. True) no_guard all_slots) (\<lambda>_ t. (Inr (), t\<lparr>t_new := 0\<rparr>))"

text \<open>Binding the files that are handed out, and releasing them.\<close>

text \<open>\<open>f\<close> on the entry with the address \<open>h\<close>, \<open>n\<close>; there is none when the entry has been deleted.\<close>

fun change_in :: "(centry \<Rightarrow> centry res) \<Rightarrow> nat \<Rightarrow> centry list \<Rightarrow> (centry list \<times> centry) res" where
  "change_in f n [] = Inl Undefined"
| "change_in f n (e # es) =
     (if c_id e = n then bindE (f e) (\<lambda>e'. Inr (e' # es, e'))
      else bindE (change_in f n es) (\<lambda>(es', e'). Inr (e # es', e')))"

definition change_entry :: "(centry \<Rightarrow> centry res) \<Rightarrow> int \<Rightarrow> nat \<Rightarrow> (ctable, centry) action" where
  "change_entry f h n t =
     (case change_in f n (t_slots t h) of
        Inl ex \<Rightarrow> (Inl ex, t)
      | Inr (es, e) \<Rightarrow> (Inr e, t\<lparr>t_slots := (t_slots t)(h := es)\<rparr>))"

definition erase_file :: "nat \<Rightarrow> (nat \<times> (int \<times> nat) option) list \<Rightarrow> (nat \<times> (int \<times> nat) option) list" where
  "erase_file body ls = filter (\<lambda>p. fst p \<noteq> body) ls"

definition bind_entry_to_data :: "int \<Rightarrow> nat \<Rightarrow> nat \<Rightarrow> (ctable, unit) action" where
  "bind_entry_to_data h n body =
     bindS (change_entry (\<lambda>e. Inr (e\<lparr>c_hits := s32 (c_hits e + 1)\<rparr>)) h n) (\<lambda>_ t.
       (Inr (), t\<lparr>t_locked := (body, Some (h, n)) # erase_file body (t_locked t)\<rparr>))"

definition uncouple_entry_from_data :: "nat \<Rightarrow> (ctable, unit) action" where
  "uncouple_entry_from_data body t =
     (case map_of (t_locked t) body of
        Some (Some (h, n)) \<Rightarrow>
          bindS (change_entry unlock_read_response h n) (\<lambda>e.
            if c_readers e < 0 then throwS (InternalErr ''An unlocked entry was released'') else returnS ())
          (t\<lparr>t_locked := erase_file body (t_locked t)\<rparr>)
      | _ \<Rightarrow> (Inl (InternalErr ''There is no cache entry for the response given.''),
             t\<lparr>t_locked := (body, None) # erase_file body (t_locked t)\<rparr>))"

definition is_locked_read_responses :: "ctable \<Rightarrow> bool" where
  "is_locked_read_responses t = (t_locked t \<noteq> [])"

section \<open>Ages\<close>

definition lm_expiration :: "int \<Rightarrow> int" where
  "lm_expiration t = min (48 * 3600) (s32 (c_div t 10))"

definition freshness_of :: "centry \<Rightarrow> int \<Rightarrow> int" where
  "freshness_of e default_expiration =
     (if c_max_age e < 0
      then (if c_expires e < 0
            then (if c_lm e < 0 then default_expiration else lm_expiration (c_date e - c_lm e))
            else c_expires e - c_date e)
      else c_max_age e)"

definition calculate_time :: "centry \<Rightarrow> int \<Rightarrow> int \<Rightarrow> int \<Rightarrow> centry" where
  "calculate_time e default_expiration request_time now =
     (let apparent_age = max 0 (s32 (now - c_date e));
          corrected_received_age = max apparent_age (c_age e);
          response_delay = now - request_time
      in e\<lparr>c_response := now, c_initial_age := corrected_received_age + response_delay,
           c_freshness := max 0 (s32 (freshness_of e default_expiration))\<rparr>)"

section \<open>Response headers\<close>

text \<open>\<open>strtoul(s, 0, 0)\<close>: octal after a 0, hexadecimal after \<open>0x\<close>; a minus sign negates in 64 bits.\<close>

definition strtoul_auto :: "string \<Rightarrow> u64" where
  "strtoul_auto s =
     (let s1 = dropWhile is_space s; neg = (s1 \<noteq> [] \<and> hd s1 = CHR ''-'');
          s2 = (if s1 \<noteq> [] \<and> (hd s1 = CHR ''-'' \<or> hd s1 = CHR ''+'') then tl s1 else s1);
          v = (if take 1 s2 = ''0''
               then (if take 1 (drop 1 s2) \<in> {''x'', ''X''} \<and> (\<exists>c \<in> set (take 1 (drop 2 s2)). digit_in 16 c \<noteq> None)
                     then digits_value 16 0 (drop 2 s2) else digits_value 8 0 s2)
               else digits_value 10 0 s2)
      in if v \<ge> 2 ^ 64 then - 1 else if neg then - (of_nat v) else of_nat v)"

definition header_name :: "string \<Rightarrow> string" where
  "header_name h = takeWhile (\<lambda>c. c \<noteq> CHR '':'') h"

text \<open>\<open>h.substr(h.find(": ") + 2)\<close>; without a blank after the colon \<open>npos + 2\<close> is 1.\<close>

definition header_value :: "string \<Rightarrow> string" where
  "header_value h = (case str_find '': '' h 0 of Some k \<Rightarrow> drop (k + 2) h | None \<Rightarrow> drop 1 h)"

text \<open>
  \<open>value.substr(value.find("=" + 1))\<close>: \<open>"=" + 1\<close> is the empty string, which is found at 0.
  \<open>time\<close> is \<open>parse_time\<close> with \<open>expand\<close> on.
\<close>

definition directive_value :: "string \<Rightarrow> string" where
  "directive_value v = drop (case str_find [] v 0 of Some k \<Rightarrow> k | None \<Rightarrow> 0) v"

text \<open>The entry is changed header by header; when the time of one cannot be read the changes before remain.\<close>

definition set_time :: "int res \<Rightarrow> (int \<Rightarrow> centry) \<Rightarrow> (centry, unit) action" where
  "set_time r f e = (case r of Inl ex \<Rightarrow> (Inl ex, e) | Inr t \<Rightarrow> (Inr (), f t))"

definition parse_header :: "(string \<Rightarrow> int res) \<Rightarrow> u64 \<Rightarrow> string \<Rightarrow> (centry, unit) action" where
  "parse_header time max_entry_size h e =
     (if h = [] \<or> CHR '':'' \<notin> set h then (Inr (), e)
      else let name = header_name h; val = header_value h in
      if name = ''ETag'' then (Inr (), e\<lparr>c_etag := val\<rparr>)
      else if name = ''Last-Modified'' then set_time (time val) (\<lambda>t. e\<lparr>c_lm := t\<rparr>) e
      else if name = ''Expires'' then set_time (time val) (\<lambda>t. e\<lparr>c_expires := t\<rparr>) e
      else if name = ''Date'' then set_time (time val) (\<lambda>t. e\<lparr>c_date := t\<rparr>) e
      else if name = ''Age'' then set_time (time val) (\<lambda>t. e\<lparr>c_age := t\<rparr>) e
      else if name = ''Content-Length''
      then (Inr (), if strtoul_auto (c_str val) > max_entry_size then e\<lparr>c_no_cache := True\<rparr> else e)
      else if name = ''Cache-Control''
      then (if val = ''no-cache'' \<or> val = ''no-store'' then (Inr (), e\<lparr>c_no_cache := True\<rparr>)
            else if val = ''must-revalidate'' then (Inr (), e\<lparr>c_must_revalidate := True\<rparr>)
            else if str_find ''max-age'' val 0 \<noteq> None
            then set_time (time (directive_value val)) (\<lambda>t. e\<lparr>c_max_age := t\<rparr>) e
            else (Inr (), e))
      else (Inr (), e))"

fun parse_headers :: "(string \<Rightarrow> int res) \<Rightarrow> u64 \<Rightarrow> string list \<Rightarrow> (centry, unit) action" where
  "parse_headers time max_entry_size [] = returnS ()"
| "parse_headers time max_entry_size (h # hs) =
     bindS (parse_header time max_entry_size h) (\<lambda>_. parse_headers time max_entry_size hs)"

end
