(* ===== verification/Http_Cache_Index.thy ===== *)
theory Http_Cache_Index
  imports Http_Cache_Table
begin

text \<open>
  What the client-side HTTP cache keeps on disk: the index file of the table
  (\<open>HTTPCacheTable::cache_index_write\<close>, \<open>cache_index_read\<close>, \<open>cache_index_parse_line\<close>) and the
  headers of a response (\<open>HTTPCache::write_metadata\<close>, \<open>read_metadata\<close>).  A file is the string of its
  bytes.
\<close>

section \<open>Lines of a file\<close>

abbreviation newline :: char where "newline \<equiv> CHR 0x0A"

text \<open>\<open>fgets\<close> with room for \<open>n\<close> bytes and the NUL, and the loop around it.\<close>

fun fgets :: "nat \<Rightarrow> string \<Rightarrow> string" where
  "fgets 0 s = []"
| "fgets (Suc n) [] = []"
| "fgets (Suc n) (c # cs) = (if c = newline then [c] else c # fgets n cs)"

lemma fgets_pos: "s \<noteq> [] \<Longrightarrow> 0 < n \<Longrightarrow> 0 < length (fgets n s)"
  by (cases n; cases s) auto

function file_lines :: "string \<Rightarrow> string list" where
  "file_lines s = (if s = [] then [] else fgets 1023 s # file_lines (drop (length (fgets 1023 s)) s))"
  by pat_completeness auto
termination
  by (relation "measure length") (use fgets_pos in \<open>auto simp: diff_less\<close>)

declare file_lines.simps [simp del]

section \<open>Headers\<close>

definition is_hop_by_hop_header :: "string \<Rightarrow> bool" where
  "is_hop_by_hop_header h = (\<exists>p \<in> set [''Connection'', ''Keep-Alive'', ''Proxy-Authenticate'', ''Proxy-Authorization'',
     ''Transfer-Encoding'', ''Upgrade'']. str_find p h 0 \<noteq> None)"

text \<open>Writing an empty header is an item of size 0, which \<open>fwrite\<close> does not count.\<close>

fun write_metadata :: "string list \<Rightarrow> string res" where
  "write_metadata [] = Inr []"
| "write_metadata (h # hs) =
     (if is_hop_by_hop_header h then write_metadata hs
      else if h = [] then Inl (InternalErr ''could not write header: '')
      else bindE (write_metadata hs) (\<lambda>s. Inr (h @ newline # s)))"

text \<open>The last character of each line is erased, which is the newline unless the line is longer than 1022.\<close>

fun erase_last :: "string list \<Rightarrow> string list res" where
  "erase_last [] = Inr []"
| "erase_last (l # ls) =
     (if c_str l = [] then Inl Undefined else bindE (erase_last ls) (\<lambda>r. Inr (butlast (c_str l) # r)))"

definition read_metadata :: "string \<Rightarrow> string list res" where
  "read_metadata file = erase_last (file_lines file)"

section \<open>The index\<close>

definition empty_etag :: string where "empty_etag = ''@cache@''"

text \<open>\<open>fprintf\<close> of one entry.  The size is printed as a \<open>long\<close>; \<open>range\<close> is always false.\<close>

definition index_fields :: "centry \<Rightarrow> string list" where
  "index_fields e =
     [c_str (c_url e), c_str (c_cachename e), if c_etag e = [] then empty_etag else c_str (c_etag e),
      ostream_int (c_lm e), ostream_int (c_expires e), ostream_int (sint (c_size e)), ''0'',
      ostream_int (c_hash e), ostream_int (c_hits e), ostream_int (c_freshness e), ostream_int (c_response e),
      ostream_int (c_initial_age e), if c_must_revalidate e then ''1'' else ''0'']"

fun separated :: "string list \<Rightarrow> string" where
  "separated [] = []"
| "separated [w] = w"
| "separated (w # ws) = w @ CHR '' '' # separated ws"

definition write_one_cache_entry :: "centry \<Rightarrow> string" where
  "write_one_cache_entry e = separated (index_fields e) @ [CHR 0x0D, newline]"

definition cache_index_text :: "ctable \<Rightarrow> string" where
  "cache_index_text t = concat (map write_one_cache_entry (concat (map (t_slots t) all_slots)))"

text \<open>
  Extraction from an \<open>istringstream\<close>: \<open>None\<close> once it has failed.  What is there keeps its value when
  nothing is left; a number without digits is 0, one out of range is clamped, and both fail.
\<close>

definition get_word :: "string option \<Rightarrow> string \<Rightarrow> string \<times> string option" where
  "get_word st old =
     (case st of None \<Rightarrow> (old, None)
      | Some s \<Rightarrow> (let s1 = dropWhile is_space s in
          if s1 = [] then (old, None) else (takeWhile (\<lambda>c. \<not> is_space c) s1, Some (dropWhile (\<lambda>c. \<not> is_space c) s1))))"

definition get_number :: "(int \<Rightarrow> int \<times> bool) \<Rightarrow> string option \<Rightarrow> int \<Rightarrow> int \<times> string option" where
  "get_number conv st old =
     (case st of None \<Rightarrow> (old, None)
      | Some s \<Rightarrow> (let s1 = dropWhile is_space s in
          if s1 = [] then (old, None)
          else let neg = (hd s1 = CHR ''-'');
                   s2 = (if hd s1 = CHR ''-'' \<or> hd s1 = CHR ''+'' then tl s1 else s1);
                   ds = takeWhile is_digit s2;
                   v = int (digits_value 10 0 ds)
               in if ds = [] then (0, None)
                  else case conv (if neg then - v else v) of
                    (w, good) \<Rightarrow> (w, if good then Some (dropWhile is_digit s2) else None)))"

text \<open>The conversions to \<open>long\<close>, \<open>int\<close>, \<open>unsigned long\<close> and \<open>bool\<close>, and whether they are in range.\<close>

definition clamped :: "nat \<Rightarrow> int \<Rightarrow> int \<times> bool" where
  "clamped w v = (if v < - (2 ^ w) then (- (2 ^ w), False) else if v > 2 ^ w - 1 then (2 ^ w - 1, False) else (v, True))"

definition to_ulong :: "int \<Rightarrow> int \<times> bool" where
  "to_ulong v = (if \<bar>v\<bar> \<ge> 2 ^ 64 then (2 ^ 64 - 1, False) else (v mod 2 ^ 64, True))"

definition to_bool :: "int \<Rightarrow> int \<times> bool" where
  "to_bool v = (if v = 0 \<or> v = 1 then (v, True) else (1, False))"

definition cache_index_parse_line :: "nat \<Rightarrow> string \<Rightarrow> centry" where
  "cache_index_parse_line n line =
     (let (url, s1) = get_word (Some (c_str line)) [];
          (cachename, s2) = get_word s1 [];
          (etag, s3) = get_word s2 [];
          (lm, s4) = get_number (clamped 63) s3 (-1);
          (expires, s5) = get_number (clamped 63) s4 (-1);
          (sz, s6) = get_number to_ulong s5 0;
          (range, s7) = get_number to_bool s6 0;
          (hash, s8) = get_number (clamped 31) s7 (-1);
          (hits, s9) = get_number (clamped 31) s8 0;
          (freshness, s10) = get_number (clamped 63) s9 0;
          (response, s11) = get_number (clamped 63) s10 0;
          (age, s12) = get_number (clamped 63) s11 0;
          (revalidate, _) = get_number to_bool s12 0
      in (new_entry n [])\<lparr>c_url := url, c_hash := hash, c_hits := hits, c_cachename := cachename,
           c_etag := (if etag = empty_etag then [] else etag), c_lm := lm, c_expires := expires, c_size := of_int sz,
           c_freshness := freshness, c_response := response, c_initial_age := age, c_must_revalidate := revalidate \<noteq> 0\<rparr>)"

text \<open>Every line is added to the table; the entries are numbered.\<close>

fun add_lines :: "nat \<Rightarrow> string list \<Rightarrow> (ctable, nat) action" where
  "add_lines n [] = returnS n"
| "add_lines n (l # ls) = bindS (add_entry_to_cache_table (cache_index_parse_line n l)) (\<lambda>_. add_lines (Suc n) ls)"

definition cache_index_read :: "string option \<Rightarrow> (ctable, nat) action" where
  "cache_index_read file =
     (case file of None \<Rightarrow> returnS 0
      | Some s \<Rightarrow> bindS (add_lines 0 (file_lines s)) (\<lambda>n t. (Inr n, t\<lparr>t_new := 0\<rparr>)))"

end
