(* ===== verification/Http_Cache.thy ===== *)
theory Http_Cache
  imports Http_Cache_Index
begin

text \<open>
  The client-side HTTP cache (\<open>HTTPCache.h\<close>, \<open>HTTPCache.cc\<close>).  Every operation of the interface
  is an action on the cache; what the file system and the clock do is a record of results.
  The steps of the cache are the operations in any order, with any results.
\<close>

section \<open>The cache\<close>

record hcache =
  h_table :: ctable
  h_mutex :: bool
  h_next :: nat
  h_enabled :: bool
  h_expire_ignored :: bool
  h_always_validate :: bool
  h_total_size :: u64
  h_folder_size :: u64
  h_gc_buffer :: u64
  h_max_entry_size :: u64
  h_default_expiration :: int
  h_req_max_age :: int
  h_max_stale :: int
  h_min_fresh :: int
  h_cache_control :: "string list"

text \<open>
  The environment of one operation: the time, \<open>parse_time\<close> and \<open>date_time_str\<close> at that time,
  the name \<open>mkstemp\<close> finds or the failure to make a file, the number of bytes \<open>write_body\<close> has
  copied (an \<open>int\<close>), opening the file of the headers for writing, its contents, opening the body
  and writing the index.  What belongs to the file system is not kept in the state.
\<close>

record env =
  e_now :: int
  e_time :: "string \<Rightarrow> int res"
  e_date :: "int \<Rightarrow> string"
  e_location :: "string res"
  e_body :: "u32 res"
  e_write_meta :: "unit res"
  e_read_meta :: "string res"
  e_open :: "nat res"
  e_index :: "unit res"

definition mega :: u64 where "mega = 0x100000"

definition new_cache :: "u32 \<Rightarrow> hcache" where
  "new_cache block = \<lparr>h_table = new_table block, h_mutex = False, h_next = 0, h_enabled = True, h_expire_ignored = False,
     h_always_validate = False, h_total_size = 20 * mega, h_folder_size = 20 div 10, h_gc_buffer = 20 div 10,
     h_max_entry_size = 3 * mega, h_default_expiration = 24 * 3600, h_req_max_age = -1, h_max_stale = -1, h_min_fresh = -1,
     h_cache_control = []\<rparr>"

text \<open>The interface lock around an operation.  Waiting for it never ends when it is taken; an
  operation that never ends keeps it.\<close>

definition locked :: "(hcache, 'a) action \<Rightarrow> (hcache, 'a) action" where
  "locked act c =
     (if h_mutex c then (Inl No_Return, c)
      else case act (c\<lparr>h_mutex := True\<rparr>) of
        (Inl No_Return, c') \<Rightarrow> (Inl No_Return, c')
      | (r, c') \<Rightarrow> (r, c'\<lparr>h_mutex := False\<rparr>))"

definition on_table :: "(ctable, 'a) action \<Rightarrow> (hcache, 'a) action" where
  "on_table act c = (case act (h_table c) of (r, t) \<Rightarrow> (r, c\<lparr>h_table := t\<rparr>))"

definition result :: "'a res \<Rightarrow> (hcache, 'a) action" where
  "result r c = (r, c)"

section \<open>Garbage collection\<close>

definition stopGC :: "hcache \<Rightarrow> bool" where
  "stopGC c = (t_current (h_table c) + h_folder_size c < h_total_size c - h_gc_buffer c)"

definition startGC :: "hcache \<Rightarrow> bool" where
  "startGC c = (t_current (h_table c) + h_folder_size c > h_total_size c)"

definition expired_gc :: "env \<Rightarrow> (hcache, unit) action" where
  "expired_gc env c = (if h_expire_ignored c then (Inr (), c) else on_table (delete_expired_entries (e_now env) 0) c)"

definition too_big_gc :: "(hcache, unit) action" where
  "too_big_gc c = (if startGC c then on_table (delete_by_size (ucast (h_max_entry_size c))) c else (Inr (), c))"

text \<open>The loop of \<open>hits_gc\<close>; \<open>fuel\<close> bounds its iterations.\<close>

fun hits_loop :: "nat \<Rightarrow> int \<Rightarrow> (hcache, unit) action" where
  "hits_loop 0 hits c = (if stopGC c then (Inr (), c) else (Inl No_Return, c))"
| "hits_loop (Suc fuel) hits c =
     (if stopGC c then (Inr (), c)
      else bindS (on_table (delete_by_hits hits)) (\<lambda>_. hits_loop fuel (hits + 1)) c)"

definition hits_gc :: "nat \<Rightarrow> (hcache, unit) action" where
  "hits_gc fuel c = (if startGC c then hits_loop fuel 0 c else (Inr (), c))"

definition perform_garbage_collection :: "nat \<Rightarrow> env \<Rightarrow> (hcache, unit) action" where
  "perform_garbage_collection fuel env = bindS (expired_gc env) (\<lambda>_. bindS too_big_gc (\<lambda>_. hits_gc fuel))"

text \<open>Writing the index resets the number of new entries; when the file cannot be opened nothing is changed.\<close>

definition cache_index_write :: "env \<Rightarrow> (hcache, unit) action" where
  "cache_index_write env = bindS (result (e_index env)) (\<lambda>_. on_table (\<lambda>t. (Inr (), t\<lparr>t_new := 0\<rparr>)))"

section \<open>Properties of the cache\<close>

definition set_cache_enabled :: "bool \<Rightarrow> (hcache, unit) action" where
  "set_cache_enabled mode = locked (\<lambda>c. (Inr (), c\<lparr>h_enabled := mode\<rparr>))"

definition set_expire_ignored :: "bool \<Rightarrow> (hcache, unit) action" where
  "set_expire_ignored mode = locked (\<lambda>c. (Inr (), c\<lparr>h_expire_ignored := mode\<rparr>))"

definition set_always_validate :: "bool \<Rightarrow> (hcache, unit) action" where
  "set_always_validate validate c = (Inr (), c\<lparr>h_always_validate := validate\<rparr>)"

definition set_default_expiration :: "int \<Rightarrow> (hcache, unit) action" where
  "set_default_expiration exp_time = locked (\<lambda>c. (Inr (), c\<lparr>h_default_expiration := exp_time\<rparr>))"

text \<open>\<open>size > ULONG_MAX\<close> is never true.\<close>

definition set_max_size :: "nat \<Rightarrow> env \<Rightarrow> u64 \<Rightarrow> (hcache, unit) action" where
  "set_max_size fuel env sz = locked (\<lambda>c.
     let new_size = (if sz < 5 then 5 * mega else sz * mega); old_size = h_total_size c;
         c' = c\<lparr>h_total_size := new_size, h_folder_size := new_size div 10, h_gc_buffer := new_size div 10\<rparr>
     in if new_size < old_size \<and> startGC c'
        then bindS (perform_garbage_collection fuel env) (\<lambda>_. cache_index_write env) c'
        else (Inr (), c'))"

definition set_max_entry_size :: "nat \<Rightarrow> env \<Rightarrow> u64 \<Rightarrow> (hcache, unit) action" where
  "set_max_entry_size fuel env sz = locked (\<lambda>c.
     let new_size = sz * mega in
     if 0 < new_size \<and> new_size < h_total_size c - h_folder_size c
     then (let old_size = h_max_entry_size c; c' = c\<lparr>h_max_entry_size := new_size\<rparr> in
           if new_size < old_size \<and> startGC c'
           then bindS (perform_garbage_collection fuel env) (\<lambda>_. cache_index_write env) c'
           else (Inr (), c'))
     else (Inr (), c))"

text \<open>One \<open>Cache-Control\<close> header of the request.  \<open>substr\<close> throws when it starts past the end,
  which the header name cannot.\<close>

definition cache_control_header :: "env \<Rightarrow> string \<Rightarrow> (hcache, unit) action" where
  "cache_control_header env h c =
     (let val = header_value h in
      if h = [] then (Inl Out_Of_Range, c)
      else if header_name h \<noteq> ''Cache-Control'' then (Inl (InternalErr ''Expected cache control header not found.''), c)
      else if val = ''no-cache'' \<or> val = ''no-store'' then (Inr (), c\<lparr>h_enabled := False\<rparr>)
      else if str_find ''max-age'' val 0 \<noteq> None
      then bindS (result (e_time env (directive_value val))) (\<lambda>t c. (Inr (), c\<lparr>h_req_max_age := t\<rparr>)) c
      else if val = ''max-stale'' then (Inr (), c\<lparr>h_max_stale := 0\<rparr>)
      else if str_find ''max-stale'' val 0 \<noteq> None
      then bindS (result (e_time env (directive_value val))) (\<lambda>t c. (Inr (), c\<lparr>h_max_stale := t\<rparr>)) c
      else if str_find ''min-fresh'' val 0 \<noteq> None
      then bindS (result (e_time env (directive_value val))) (\<lambda>t c. (Inr (), c\<lparr>h_min_fresh := t\<rparr>)) c
      else (Inr (), c))"

fun cache_control_headers :: "env \<Rightarrow> string list \<Rightarrow> (hcache, unit) action" where
  "cache_control_headers env [] = returnS ()"
| "cache_control_headers env (h # hs) = bindS (cache_control_header env h) (\<lambda>_. cache_control_headers env hs)"

definition set_cache_control :: "env \<Rightarrow> string list \<Rightarrow> (hcache, unit) action" where
  "set_cache_control env cc = locked (\<lambda>c. cache_control_headers env cc (c\<lparr>h_cache_control := cc\<rparr>))"

section \<open>Operations on responses\<close>

text \<open>\<open>is_url_in_cache\<close> does not take the interface lock.\<close>

definition no_entry :: "string \<Rightarrow> exn" where
  "no_entry url = Error unknown_error (''There is no cache entry for the URL: '' @ url)"

definition is_url_in_cache :: "string \<Rightarrow> (hcache, bool) action" where
  "is_url_in_cache url = on_table (
     bindS (get_locked_entry_from_cache_table url) (\<lambda>r. case r of
       None \<Rightarrow> returnS False
     | Some e \<Rightarrow> bindS (change_entry unlock_read_response (get_hash url) (c_id e)) (\<lambda>_. returnS True)))"

text \<open>Reading from an entry under its read lock.\<close>

definition read_entry :: "string \<Rightarrow> (centry \<Rightarrow> 'a) \<Rightarrow> (hcache, 'a) action" where
  "read_entry url f = on_table (
     bindS (get_locked_entry_from_cache_table url) (\<lambda>r. case r of
       None \<Rightarrow> throwS (no_entry url)
     | Some e \<Rightarrow> bindS (change_entry unlock_read_response (get_hash url) (c_id e)) (\<lambda>_. returnS (f e))))"

definition conditional_headers :: "(int \<Rightarrow> string) \<Rightarrow> centry \<Rightarrow> string list" where
  "conditional_headers date e =
     (if c_etag e \<noteq> [] then [''If-None-Match: '' @ c_etag e] else []) @
     (if c_lm e > 0 then [''If-Modified-Since: '' @ date (c_lm e)]
      else if c_max_age e > 0 then [''If-Modified-Since: '' @ date (c_max_age e)]
      else if c_expires e > 0 then [''If-Modified-Since: '' @ date (c_expires e)]
      else [])"

definition get_conditional_request_headers :: "env \<Rightarrow> string \<Rightarrow> (hcache, string list) action" where
  "get_conditional_request_headers env url = locked (read_entry url (conditional_headers (e_date env)))"

definition entry_valid :: "int \<Rightarrow> int \<Rightarrow> int \<Rightarrow> int \<Rightarrow> centry \<Rightarrow> bool" where
  "entry_valid max_age max_stale min_fresh now e =
     (let current_age = c_initial_age e + (now - c_response e) in
      if c_must_revalidate e then False
      else if max_age \<ge> 0 \<and> current_age > max_age then False
      else if min_fresh \<ge> 0 \<and> c_freshness e < current_age + min_fresh then False
      else c_freshness e + (if max_stale \<ge> 0 then max_stale else 0) > current_age)"

definition is_url_valid :: "env \<Rightarrow> string \<Rightarrow> (hcache, bool) action" where
  "is_url_valid env url = locked (\<lambda>c.
     if h_always_validate c then (Inr False, c)
     else read_entry url (entry_valid (h_req_max_age c) (h_max_stale c) (h_min_fresh c) (e_now env)) c)"

text \<open>
  A new response.  \<open>response_entry\<close> is the entry built for it, write-locked, or \<open>None\<close> when it
  must not be cached.
\<close>

definition response_entry :: "env \<Rightarrow> u64 \<Rightarrow> int \<Rightarrow> nat \<Rightarrow> string \<Rightarrow> int \<Rightarrow> string list \<Rightarrow> centry option res" where
  "response_entry env max_entry_size default_expiration n url request_time headers =
     bindE (lock_write_response (new_entry n url)) (\<lambda>e0.
       case parse_headers (e_time env) max_entry_size headers e0 of
         (Inl ex, _) \<Rightarrow> Inl ex
       | (Inr _, e) \<Rightarrow>
           if c_no_cache e then bindE (unlock_write_response e) (\<lambda>_. Inr None)
           else let e' = calculate_time e default_expiration request_time (e_now env) in
             bindE (e_location env) (\<lambda>name.
             bindE (e_body env) (\<lambda>total.
             bindE (e_write_meta env) (\<lambda>_.
             bindE (write_metadata headers) (\<lambda>_.
               Inr (Some (e'\<lparr>c_cachename := name, c_size := scast total\<rparr>)))))))"

definition fresh_id :: "(hcache, nat) action" where
  "fresh_id c = (Inr (h_next c), c\<lparr>h_next := Suc (h_next c)\<rparr>)"

definition dump_frequency :: int where "dump_frequency = 10"

definition dump_index :: "nat \<Rightarrow> env \<Rightarrow> (hcache, unit) action" where
  "dump_index fuel env c =
     (if t_new (h_table c) > dump_frequency
      then bindS (\<lambda>c. if startGC c then perform_garbage_collection fuel env c else (Inr (), c))
             (\<lambda>_. cache_index_write env) c
      else (Inr (), c))"

definition cache_response :: "nat \<Rightarrow> env \<Rightarrow> string \<Rightarrow> int \<Rightarrow> string list \<Rightarrow> (hcache, bool) action" where
  "cache_response fuel env url request_time headers = locked (
     if str_find ''http:'' url 0 = None \<and> str_find ''https:'' url 0 = None then returnS False
     else bindS (on_table (remove_entry_from_cache_table url)) (\<lambda>_.
       bindS fresh_id (\<lambda>n c.
         case response_entry env (h_max_entry_size c) (h_default_expiration c) n url request_time headers of
           Inl ex \<Rightarrow> (Inl ex, c)
         | Inr None \<Rightarrow> (Inr False, c)
         | Inr (Some e) \<Rightarrow>
             bindS (on_table (add_entry_to_cache_table e)) (\<lambda>_.
             bindS (on_table (change_entry unlock_write_response (c_hash e) n)) (\<lambda>_.
             bindS (dump_index fuel env) (\<lambda>_. returnS True))) c)))"

text \<open>
  Merging headers: \<open>set<string, HeaderLess>\<close> orders them by name and keeps the first of each.
  They are written in descending order.
\<close>

fun insert_header :: "string \<Rightarrow> string list \<Rightarrow> string list" where
  "insert_header h [] = [h]"
| "insert_header h (x # xs) =
     (if header_name h < header_name x then h # x # xs
      else if header_name x < header_name h then x # insert_header h xs
      else x # xs)"

definition merge_headers :: "string list \<Rightarrow> string list \<Rightarrow> string list" where
  "merge_headers headers old = rev (foldl (\<lambda>s h. insert_header h s) (foldl (\<lambda>s h. insert_header h s) [] headers) old)"

definition update_entry :: "env \<Rightarrow> u64 \<Rightarrow> int \<Rightarrow> int \<Rightarrow> string list \<Rightarrow> (centry, unit) action" where
  "update_entry env max_entry_size default_expiration request_time headers =
     bindS (parse_headers (e_time env) max_entry_size headers) (\<lambda>_.
     bindS (\<lambda>e. (Inr (), calculate_time e default_expiration request_time (e_now env))) (\<lambda>_ e.
       (bindE (bindE (e_read_meta env) read_metadata) (\<lambda>old.
        bindE (e_write_meta env) (\<lambda>_.
        bindE (write_metadata (merge_headers headers old)) (\<lambda>_. Inr ()))), e)))"

text \<open>When the update fails the entry's read lock is released, though it is locked for writing.\<close>

definition update_response :: "env \<Rightarrow> string \<Rightarrow> int \<Rightarrow> string list \<Rightarrow> (hcache, unit) action" where
  "update_response env url request_time headers = locked (\<lambda>c. on_table (
     bindS (get_write_locked_entry_from_cache_table url) (\<lambda>r. case r of
       None \<Rightarrow> throwS (no_entry url)
     | Some e \<Rightarrow>
         (case update_entry env (h_max_entry_size c) (h_default_expiration c) request_time headers e of
            (Inr _, e') \<Rightarrow> bindS (change_entry (\<lambda>_. unlock_write_response e') (get_hash url) (c_id e)) (\<lambda>_. returnS ())
          | (Inl ex, e') \<Rightarrow> bindS (change_entry (\<lambda>_. unlock_read_response e') (get_hash url) (c_id e)) (\<lambda>_. throwS ex)))) c)"

text \<open>The body, the headers and the name of the file.  When one of the files cannot be read the entry stays locked.\<close>

definition get_cached_response :: "env \<Rightarrow> string \<Rightarrow> (hcache, (nat \<times> string list \<times> string) option) action" where
  "get_cached_response env url = locked (on_table (
     bindS (get_locked_entry_from_cache_table url) (\<lambda>r. case r of
       None \<Rightarrow> returnS None
     | Some e \<Rightarrow>
         (\<lambda>t. case bindE (e_read_meta env) read_metadata of
            Inl ex \<Rightarrow> (Inl ex, t)
          | Inr headers \<Rightarrow>
              (case e_open env of
                 Inl ex \<Rightarrow> (Inl ex, t)
               | Inr body \<Rightarrow>
                   bindS (bind_entry_to_data (get_hash url) (c_id e) body)
                     (\<lambda>_. returnS (Some (body, headers, c_cachename e))) t)))))"

definition release_cached_response :: "nat \<Rightarrow> (hcache, unit) action" where
  "release_cached_response body = locked (on_table (uncouple_entry_from_data body))"

definition purge_cache :: "(hcache, unit) action" where
  "purge_cache = locked (\<lambda>c.
     if is_locked_read_responses (h_table c)
     then (Inl (Error unknown_error ''Attempt to purge the cache with entries in use.''), c)
     else on_table delete_all_entries c)"

text \<open>The destructor ignores that the index cannot be written.\<close>

definition delete_cache :: "nat \<Rightarrow> env \<Rightarrow> hcache \<Rightarrow> unit res" where
  "delete_cache fuel env c =
     (case bindS (\<lambda>c. if startGC c then perform_garbage_collection fuel env c else (Inr (), c)) (\<lambda>_. cache_index_write env) c of
        (Inl No_Return, _) \<Rightarrow> Inl No_Return
      | _ \<Rightarrow> Inr ())"

section \<open>The persistent store\<close>

text \<open>Reading the index in the constructor.\<close>

definition open_cache :: "u32 \<Rightarrow> string option \<Rightarrow> hcache res" where
  "open_cache block index =
     (case cache_index_read index (new_table block) of
        (Inl ex, _) \<Rightarrow> Inl ex
      | (Inr n, t) \<Rightarrow> Inr ((new_cache block)\<lparr>h_table := t, h_next := n\<rparr>))"

text \<open>The root of the cache ends in a slash; an empty environment variable leaves no last character.\<close>

definition with_slash :: "string \<Rightarrow> string res" where
  "with_slash d = (if d = [] then Inl Undefined else Inr (if last d \<noteq> CHR ''/'' then d @ ''/'' else d))"

definition set_cache_root :: "(string \<Rightarrow> string option) \<Rightarrow> string \<Rightarrow> string res" where
  "set_cache_root getenv root =
     (if root \<noteq> [] then with_slash root
      else bindE (with_slash (case getenv ''DODS_CACHE'' of Some d \<Rightarrow> d | None \<Rightarrow>
                   case getenv ''TMP'' of Some d \<Rightarrow> d | None \<Rightarrow>
                   case getenv ''TEMP'' of Some d \<Rightarrow> d | None \<Rightarrow> ''/tmp/''))
             (\<lambda>d. Inr (d @ ''dods-cache/'')))"

text \<open>The directories \<open>create_cache_root\<close> makes sure of, in order.\<close>

fun slashes_after :: "nat \<Rightarrow> string \<Rightarrow> nat list" where
  "slashes_after i [] = []"
| "slashes_after i (c # cs) = (if c = CHR ''/'' then [i] else []) @ slashes_after (Suc i) cs"

definition root_directories :: "string \<Rightarrow> string list" where
  "root_directories root = map (\<lambda>i. take i root) (slashes_after 1 (drop 1 root))"

text \<open>The lock on the store: whether it was obtained and whether the lock file is there afterwards.\<close>

definition get_single_user_lock :: "bool \<Rightarrow> bool \<Rightarrow> bool \<Rightarrow> bool \<Rightarrow> bool \<times> bool" where
  "get_single_user_lock created exists_lock can_write force =
     (if \<not> created then (False, exists_lock)
      else if exists_lock \<and> \<not> force then (False, True)
      else (can_write, can_write))"

end
