(* ===== verification/Http_Cache_Locks.thy ===== *)
theory Http_Cache_Locks
  imports Http_Cache
begin

text \<open>
  The locks of the HTTP cache.  An entry is free, read-locked by as many readers as it counts, or
  left write-locked by a failed update.  \<open>table_ok\<close> ties the readers to the files that are handed
  out; every operation of the table keeps it.  Its second argument is the entry an operation
  holds a read lock on at that moment.
\<close>

section \<open>Entries\<close>

definition lock_ok :: "centry \<Rightarrow> bool" where
  "lock_ok e = (if c_readers e = 0 then \<not> c_rlock e \<and> \<not> c_wlock e
                else if c_readers e > 0 then c_rlock e \<and> \<not> c_wlock e
                else c_readers e = -1 \<and> c_rlock e \<and> c_wlock e)"

definition holders :: "(nat \<times> (int \<times> nat) option) list \<Rightarrow> (int \<times> nat) option \<Rightarrow> int \<Rightarrow> nat \<Rightarrow> nat" where
  "holders ls X h n = length (filter (\<lambda>p. snd p = Some (h, n)) ls) + (if X = Some (h, n) then 1 else 0)"

definition entry_ok :: "nat \<Rightarrow> int \<Rightarrow> nat \<Rightarrow> centry \<Rightarrow> bool" where
  "entry_ok next h k e = (c_hash e = h \<and> c_id e < next \<and> lock_ok e \<and> (k = 0 \<or> int k \<le> c_readers e))"

definition slot_ok :: "nat \<Rightarrow> (nat \<times> (int \<times> nat) option) list \<Rightarrow> (int \<times> nat) option \<Rightarrow> int \<Rightarrow> centry list \<Rightarrow> bool" where
  "slot_ok next ls X h es = (distinct (map c_id es) \<and> (\<forall>e \<in> set es. entry_ok next h (holders ls X h (c_id e)) e))"

definition table_ok :: "nat \<Rightarrow> (int \<times> nat) option \<Rightarrow> ctable \<Rightarrow> bool" where
  "table_ok next X t =
     (distinct (map fst (t_locked t)) \<and> (\<forall>h. slot_ok next (t_locked t) X h (t_slots t h)) \<and>
      (\<forall>h n. 0 < holders (t_locked t) X h n \<longrightarrow> (\<exists>e \<in> set (t_slots t h). c_id e = n)))"

lemma holders_None_le: "holders ls None h n \<le> holders ls X h n"
  by (simp add: holders_def)

lemma table_ok_weaken: "table_ok next X t \<Longrightarrow> table_ok next None t"
  unfolding table_ok_def slot_ok_def entry_ok_def
  by (smt (verit, best) holders_None_le le_zero_eq of_nat_le_iff order.strict_trans2)

lemma slot_ok_mono: "slot_ok next ls X h es \<Longrightarrow> next \<le> next' \<Longrightarrow> slot_ok next' ls X h es"
  by (auto simp: slot_ok_def entry_ok_def)

lemma table_ok_mono: "table_ok next X t \<Longrightarrow> next \<le> next' \<Longrightarrow> table_ok next' X t"
  by (auto simp: table_ok_def intro: slot_ok_mono)

section \<open>Changing one entry\<close>

lemma change_in_split:
  "c_id e \<notin> c_id ` set xs \<Longrightarrow> change_in f (c_id e) (xs @ e # ys) = bindE (f e) (\<lambda>e'. Inr (xs @ e' # ys, e'))"
proof (induction xs)
  case (Cons x xs)
  then show ?case by (cases "f e") auto
qed simp

lemma change_entry_split:
  "t_slots t h = xs @ e # ys \<Longrightarrow> distinct (map c_id (t_slots t h)) \<Longrightarrow> c_id e = n \<Longrightarrow>
   change_entry f h n t = (case f e of Inl ex \<Rightarrow> (Inl ex, t)
     | Inr e' \<Rightarrow> (Inr e', t\<lparr>t_slots := (t_slots t)(h := xs @ e' # ys)\<rparr>))"
  unfolding change_entry_def
  using change_in_split [of e xs f ys] by (cases "f e") auto

lemma lock_first_split:
  "lock_first lock url es = Inr (Some e', es') \<Longrightarrow>
   \<exists>xs e ys. es = xs @ e # ys \<and> es' = xs @ e' # ys \<and> c_url e = url \<and> lock e = Inr e' \<and> (\<forall>x \<in> set xs. c_url x \<noteq> url)"
proof (induction es arbitrary: es')
  case (Cons x es)
  show ?case
  proof (cases "c_url x = url")
    case True
    with Cons.prems have "lock x = Inr e'" "es' = e' # es"
      by (cases "lock x"; auto)+
    with True show ?thesis by (intro exI [of _ "[]"] exI [of _ x] exI [of _ es]) simp
  next
    case False
    with Cons.prems obtain es1 where e: "lock_first lock url es = Inr (Some e', es1)" "es' = x # es1"
      by auto
    from Cons.IH [OF e(1)] obtain xs e ys where
      "es = xs @ e # ys" "es1 = xs @ e' # ys" "c_url e = url" "lock e = Inr e'" "\<forall>x \<in> set xs. c_url x \<noteq> url"
      by blast
    with False e(2) show ?thesis by (intro exI [of _ "x # xs"] exI [of _ e] exI [of _ ys]) simp
  qed
qed simp

lemma lock_first_None:
  "lock_first lock url es = Inr (None, es') \<Longrightarrow> es' = es \<and> (\<forall>x \<in> set es. c_url x \<noteq> url)"
  by (induction es arbitrary: es') (auto split: if_splits)

lemma table_ok_replace:
  assumes "table_ok next X t" "t_slots t h = xs @ e # ys" "c_id e' = c_id e"
    and "entry_ok next h (holders (t_locked t) X' h (c_id e)) e'"
    and "\<And>h' n. (h', n) \<noteq> (h, c_id e) \<Longrightarrow> holders (t_locked t) X' h' n = holders (t_locked t) X h' n"
  shows "table_ok next X' (t\<lparr>t_slots := (t_slots t)(h := xs @ e' # ys)\<rparr>)"
proof -
  let ?t = "t\<lparr>t_slots := (t_slots t)(h := xs @ e' # ys)\<rparr>"
  have d: "distinct (map c_id (xs @ e # ys))"
    using assms(1,2) by (metis table_ok_def slot_ok_def)
  have s: "slot_ok next (t_locked t) X' h' (t_slots ?t h')" for h'
  proof (cases "h' = h")
    case True
    have "entry_ok next h (holders (t_locked t) X' h (c_id x)) x" if "x \<in> set xs \<union> set ys" for x
    proof -
      have "entry_ok next h (holders (t_locked t) X h (c_id x)) x"
        using assms(1,2) that by (auto simp: table_ok_def slot_ok_def dest: spec [of _ h])
      moreover have "c_id x \<noteq> c_id e" using d that by (auto simp: image_iff)
      ultimately show ?thesis using assms(5) by auto
    qed
    with True d assms(3,4) show ?thesis by (auto simp: slot_ok_def)
  next
    case False
    with assms(1,5) show ?thesis by (auto simp: table_ok_def slot_ok_def)
  qed
  have "\<exists>x \<in> set (t_slots ?t h'). c_id x = n" if "0 < holders (t_locked t) X' h' n" for h' n
  proof (cases "(h', n) = (h, c_id e)")
    case True
    with assms(3) show ?thesis by auto
  next
    case False
    with that assms(5) have "0 < holders (t_locked t) X h' n" by simp
    with assms(1) have "\<exists>x \<in> set (t_slots t h'). c_id x = n" unfolding table_ok_def by blast
    then obtain x where x: "x \<in> set (t_slots t h')" "c_id x = n" by blast
    show ?thesis
    proof (cases "h' = h")
      case True
      with x False assms(2) have "x \<in> set xs \<union> set ys" by auto
      with x True show ?thesis by auto
    qed (use x in auto)
  qed
  with s assms(1) show ?thesis by (simp add: table_ok_def)
qed

section \<open>Read locks\<close>

lemma holders_swap: "holders ls (Some (h, n)) h n = Suc (holders ls None h n)"
  by (simp add: holders_def)

lemma holders_other: "(h', n') \<noteq> (h, n) \<Longrightarrow> holders ls (Some (h, n)) h' n' = holders ls None h' n'"
  by (auto simp: holders_def)

lemma get_locked_entry_ok:
  assumes "table_ok next None t" "get_locked_entry_from_cache_table url t = (Inr (Some e), t')"
  shows "table_ok next (Some (get_hash url, c_id e)) t'" "t_locked t' = t_locked t"
    "\<exists>xs e0 ys. t_slots t (get_hash url) = xs @ e0 # ys \<and> c_url e = url \<and> lock_read_response e0 = Inr e
       \<and> t' = t\<lparr>t_slots := (t_slots t)(get_hash url := xs @ e # ys)\<rparr>"
proof -
  obtain es where l: "lock_first lock_read_response url (t_slots t (get_hash url)) = Inr (Some e, es)"
    and t': "t' = t\<lparr>t_slots := (t_slots t)(get_hash url := es)\<rparr>"
    using assms(2) unfolding get_locked_entry_from_cache_table_def get_entry_def by (auto split: sum.splits)
  from lock_first_split [OF l] obtain xs e0 ys where
    s: "t_slots t (get_hash url) = xs @ e0 # ys" "es = xs @ e # ys" "c_url e0 = url" "lock_read_response e0 = Inr e"
    by blast
  from s(4) have u: "c_id e = c_id e0" "c_url e = c_url e0" "c_hash e = c_hash e0"
    by (auto simp: lock_read_response_def split: if_splits)
  have o: "entry_ok next (get_hash url) (holders (t_locked t) None (get_hash url) (c_id e0)) e0"
    using assms(1) s(1) by (auto simp: table_ok_def slot_ok_def dest: spec [of _ "get_hash url"])
  with s(4) have "entry_ok next (get_hash url) (holders (t_locked t) (Some (get_hash url, c_id e)) (get_hash url) (c_id e0)) e"
    by (auto simp: u holders_swap entry_ok_def lock_ok_def lock_read_response_def split: if_splits)
  then show "table_ok next (Some (get_hash url, c_id e)) t'"
    unfolding t' s(2) by (intro table_ok_replace [OF assms(1) s(1)]) (simp_all add: u holders_other)
  show "t_locked t' = t_locked t" by (simp add: t')
  show "\<exists>xs e0 ys. t_slots t (get_hash url) = xs @ e0 # ys \<and> c_url e = url \<and> lock_read_response e0 = Inr e
       \<and> t' = t\<lparr>t_slots := (t_slots t)(get_hash url := xs @ e # ys)\<rparr>"
    using s u t' by blast
qed

lemma get_entry_unchanged:
  "get_entry lock h url t = (r, t') \<Longrightarrow> (\<forall>e. r \<noteq> Inr (Some e)) \<Longrightarrow> t' = t"
  unfolding get_entry_def by (auto split: sum.splits prod.splits dest!: lock_first_None)

text \<open>The entry whose read lock an operation holds is there, and releasing the lock succeeds.\<close>

lemma table_ok_held:
  assumes "table_ok next (Some (h, n)) t"
  obtains xs e ys where "t_slots t h = xs @ e # ys" "c_id e = n" "distinct (map c_id (t_slots t h))"
    "c_hash e = h" "n < next" "c_rlock e" "\<not> c_wlock e" "int (holders (t_locked t) None h n) < c_readers e"
proof -
  have "0 < holders (t_locked t) (Some (h, n)) h n" by (simp add: holders_swap)
  with assms have "\<exists>e \<in> set (t_slots t h). c_id e = n" unfolding table_ok_def by blast
  then obtain e where e: "e \<in> set (t_slots t h)" "c_id e = n" by blast
  then obtain xs ys where x: "t_slots t h = xs @ e # ys" by (meson split_list)
  have "slot_ok next (t_locked t) (Some (h, n)) h (t_slots t h)" using assms unfolding table_ok_def by blast
  with e have d: "distinct (map c_id (t_slots t h))" "entry_ok next h (Suc (holders (t_locked t) None h n)) e"
    by (auto simp: slot_ok_def holders_swap [symmetric])
  then have "c_rlock e" "\<not> c_wlock e" "int (holders (t_locked t) None h n) < c_readers e"
    by (auto simp: entry_ok_def lock_ok_def split: if_splits)
  with x e d that show ?thesis by (auto simp: entry_ok_def)
qed

lemma unlock_read_ok:
  assumes "table_ok next (Some (h, n)) t"
  shows "\<exists>e t'. change_entry unlock_read_response h n t = (Inr e, t') \<and> 0 \<le> c_readers e \<and> c_id e = n \<and>
           table_ok next None t' \<and> t_locked t' = t_locked t"
proof -
  obtain xs e ys where e: "t_slots t h = xs @ e # ys" "c_id e = n" "distinct (map c_id (t_slots t h))" "c_hash e = h"
    "n < next" "c_rlock e" "\<not> c_wlock e" "int (holders (t_locked t) None h n) < c_readers e"
    using assms by (rule table_ok_held)
  let ?e = "if c_readers e - 1 = 0 then e\<lparr>c_readers := 0, c_rlock := False\<rparr> else e\<lparr>c_readers := c_readers e - 1\<rparr>"
  have u: "unlock_read_response e = Inr ?e"
    using e(6) by (simp add: unlock_read_response_def)
  have "entry_ok next h (holders (t_locked t) None h (c_id e)) ?e"
    using e(2,4-8) by (auto simp: entry_ok_def lock_ok_def)
  then have "table_ok next None (t\<lparr>t_slots := (t_slots t)(h := xs @ ?e # ys)\<rparr>)"
    by (intro table_ok_replace [OF assms e(1)]) (auto simp: holders_def e(2))
  moreover have "change_entry unlock_read_response h n t = (Inr ?e, t\<lparr>t_slots := (t_slots t)(h := xs @ ?e # ys)\<rparr>)"
    by (simp only: change_entry_split [OF e(1,3,2)] u sum.case)
  moreover have "0 \<le> c_readers ?e" "c_id ?e = n" using e by auto
  ultimately show ?thesis by (intro exI [of _ ?e] exI [of _ "t\<lparr>t_slots := (t_slots t)(h := xs @ ?e # ys)\<rparr>"]) simp
qed

section \<open>Files that are handed out\<close>

lemma filter_erase: "map_of ls b = None \<Longrightarrow> erase_file b ls = ls"
  by (auto simp: erase_file_def filter_id_conv map_of_eq_None_iff image_iff)

lemma holders_erase:
  "distinct (map fst ls) \<Longrightarrow> map_of ls b = Some v \<Longrightarrow>
   holders ls X h n = holders (erase_file b ls) X h n + (if v = Some (h, n) then 1 else 0)"
proof (induction ls)
  case (Cons p ls)
  show ?case
  proof (cases "fst p = b")
    case True
    with Cons.prems have "erase_file b (p # ls) = ls" "snd p = v"
      by (auto simp: erase_file_def filter_id_conv image_iff)
    then show ?thesis by (auto simp: holders_def)
  next
    case False
    with Cons show ?thesis by (auto simp: holders_def erase_file_def)
  qed
qed simp

lemma distinct_erase: "distinct (map fst ls) \<Longrightarrow> distinct (map fst (erase_file b ls)) \<and> b \<notin> fst ` set (erase_file b ls)"
  by (auto simp: erase_file_def distinct_map_filter)

lemma map_of_erase: "b' \<noteq> b \<Longrightarrow> map_of (erase_file b ls) b' = map_of ls b'"
  by (induction ls) (auto simp: erase_file_def)

lemma table_ok_locked:
  assumes "table_ok next X t" "distinct (map fst ls)" "\<And>h n. holders ls X' h n = holders (t_locked t) X h n"
  shows "table_ok next X' (t\<lparr>t_locked := ls\<rparr>)"
  using assms by (simp add: table_ok_def slot_ok_def)

text \<open>A file that is not bound to an entry.\<close>

definition unbound :: "ctable \<Rightarrow> nat \<Rightarrow> bool" where
  "unbound t b = (\<forall>p. map_of (t_locked t) b \<noteq> Some (Some p))"

lemma holders_rebind:
  assumes "distinct (map fst ls)" "\<forall>p. map_of ls b \<noteq> Some (Some p)"
  shows "holders ((b, v) # erase_file b ls) X h n = holders ls X h n + (if v = Some (h, n) then 1 else 0)"
proof (cases "map_of ls b")
  case None
  then show ?thesis by (simp add: filter_erase) (simp add: holders_def)
next
  case (Some w)
  with assms(2) have "w = None" by (cases w) auto
  with holders_erase [OF assms(1) Some, of X h n] show ?thesis by (simp add: holders_def)
qed

lemma bind_entry_ok:
  assumes "table_ok next (Some (h, n)) t" "unbound t b"
  shows "\<exists>t'. bind_entry_to_data h n b t = (Inr (), t') \<and> table_ok next None t' \<and>
           map_of (t_locked t') b = Some (Some (h, n)) \<and> (\<forall>b'. b' \<noteq> b \<longrightarrow> map_of (t_locked t') b' = map_of (t_locked t) b')"
proof -
  obtain xs e ys where e: "t_slots t h = xs @ e # ys" "c_id e = n" "distinct (map c_id (t_slots t h))" "c_hash e = h"
    "n < next" "c_rlock e" "\<not> c_wlock e" "int (holders (t_locked t) None h n) < c_readers e"
    using assms(1) by (rule table_ok_held)
  let ?e = "e\<lparr>c_hits := s32 (c_hits e + 1)\<rparr>"
  let ?t = "t\<lparr>t_slots := (t_slots t)(h := xs @ ?e # ys)\<rparr>"
  let ?ls = "(b, Some (h, n)) # erase_file b (t_locked t)"
  have d: "distinct (map fst (t_locked t))" using assms(1) by (simp add: table_ok_def)
  have "entry_ok next h (holders (t_locked t) (Some (h, n)) h (c_id e)) ?e"
    using e(2,4-8) by (auto simp: entry_ok_def lock_ok_def holders_swap)
  then have 1: "table_ok next (Some (h, n)) ?t"
    by (intro table_ok_replace [OF assms(1) e(1)]) simp_all
  have "table_ok next None (?t\<lparr>t_locked := ?ls\<rparr>)"
  proof (rule table_ok_locked [OF 1])
    show "distinct (map fst ?ls)" using distinct_erase [OF d] by auto
    show "holders ?ls None h' n' = holders (t_locked ?t) (Some (h, n)) h' n'" for h' n'
      using holders_rebind [OF d, of b "Some (h, n)" None h' n'] assms(2) unfolding unbound_def
      by (cases "(h', n') = (h, n)") (auto simp: holders_swap holders_other)
  qed
  moreover have "bind_entry_to_data h n b t = (Inr (), ?t\<lparr>t_locked := ?ls\<rparr>)"
    by (simp add: bind_entry_to_data_def change_entry_split [OF e(1,3,2)])
  moreover have "map_of ?ls b' = map_of (t_locked t) b'" if "b' \<noteq> b" for b'
    using that by (simp add: map_of_erase)
  ultimately show ?thesis by (auto intro!: exI)
qed

text \<open>Releasing a file that was handed out never fails, any other file always does.\<close>

lemma uncouple_ok:
  assumes "table_ok next None t" "map_of (t_locked t) b = Some (Some (h, n))"
  shows "\<exists>t'. uncouple_entry_from_data b t = (Inr (), t') \<and> table_ok next None t' \<and> t_locked t' = erase_file b (t_locked t)"
proof -
  let ?t = "t\<lparr>t_locked := erase_file b (t_locked t)\<rparr>"
  have d: "distinct (map fst (t_locked t))" using assms(1) by (simp add: table_ok_def)
  have "table_ok next (Some (h, n)) ?t"
  proof (rule table_ok_locked [OF assms(1)])
    show "distinct (map fst (erase_file b (t_locked t)))" using distinct_erase [OF d] by simp
    show "holders (erase_file b (t_locked t)) (Some (h, n)) h' n' = holders (t_locked t) None h' n'" for h' n'
      using holders_erase [OF d assms(2), of None h' n']
      by (cases "(h', n') = (h, n)") (auto simp: holders_swap holders_other)
  qed
  from unlock_read_ok [OF this] obtain e t' where
    "change_entry unlock_read_response h n ?t = (Inr e, t')" "0 \<le> c_readers e" "table_ok next None t'"
    "t_locked t' = erase_file b (t_locked t)" by auto
  with assms(2) show ?thesis by (simp add: uncouple_entry_from_data_def)
qed

lemma uncouple_unbound:
  assumes "table_ok next None t" "unbound t b"
  shows "uncouple_entry_from_data b t = (Inl (InternalErr ''There is no cache entry for the response given.''),
           t\<lparr>t_locked := (b, None) # erase_file b (t_locked t)\<rparr>)"
    "table_ok next None (t\<lparr>t_locked := (b, None) # erase_file b (t_locked t)\<rparr>)"
proof -
  have d: "distinct (map fst (t_locked t))" using assms(1) by (simp add: table_ok_def)
  show "table_ok next None (t\<lparr>t_locked := (b, None) # erase_file b (t_locked t)\<rparr>)"
    using distinct_erase [OF d, of b] holders_rebind [OF d, of b None None] assms(2)
    by (intro table_ok_locked [OF assms(1)]) (auto simp: unbound_def)
  show "uncouple_entry_from_data b t = (Inl (InternalErr ''There is no cache entry for the response given.''),
           t\<lparr>t_locked := (b, None) # erase_file b (t_locked t)\<rparr>)"
    using assms(2) by (auto simp: uncouple_entry_from_data_def unbound_def split: option.splits)
qed

section \<open>Removing entries\<close>

definition entry_space :: "u32 \<Rightarrow> centry \<Rightarrow> nat" where
  "entry_space block e = unat (entry_disk_space (c_size e) block)"

definition slot_space :: "u32 \<Rightarrow> centry list \<Rightarrow> nat" where
  "slot_space block es = sum_list (map (entry_space block) es)"

lemma slot_space_simps [simp]:
  "slot_space block [] = 0" "slot_space block (e # es) = entry_space block e + slot_space block es"
  "slot_space block (es @ es') = slot_space block es + slot_space block es'"
  by (simp_all add: slot_space_def)

lemma unat_shrink: "entry_space block e \<le> unat current \<Longrightarrow> unat (shrink block e current) = unat current - entry_space block e"
proof -
  assume a: "entry_space block e \<le> unat current"
  have u: "unat (ucast (entry_disk_space (c_size e) block) :: u64) = entry_space block e"
    using unsigned_less [of "entry_disk_space (c_size e) block", where ?'a = nat]
    by (simp add: entry_space_def unsigned_ucast_eq take_bit_nat_eq_self)
  with a have "\<not> (ucast (entry_disk_space (c_size e) block) :: u64) > current"
    by (simp add: word_less_nat_alt)
  with u show ?thesis by (simp add: shrink_def Let_def unat_sub not_less)
qed

lemma sweep_keeps:
  "sweep P g block es current = (x, es', current') \<Longrightarrow>
   set es' \<subseteq> set es \<and> (distinct (map c_id es) \<longrightarrow> distinct (map c_id es')) \<and> (\<forall>e \<in> set es. c_readers e \<noteq> 0 \<longrightarrow> e \<in> set es')"
proof (induction P g block es current arbitrary: x es' current' rule: sweep.induct)
  case (2 P guard block e es current)
  show ?case
  proof (cases "P e")
    case False
    with 2 obtain es1 where "sweep P guard block es current = (x, es1, current')" "es' = e # es1"
      by (auto split: prod.splits)
    with 2(2) [OF False this(1)] show ?thesis by auto
  next
    case p: True
    show ?thesis
    proof (cases "guard e")
      case None
      show ?thesis
      proof (cases "remove_cache_entry block e current")
        case (Inl ex)
        with 2(3) p None show ?thesis by auto
      next
        case (Inr c)
        with 2(3) p None have s: "sweep P guard block es c = (x, es', current')" by auto
        from Inr have "c_readers e = 0" by (auto simp: remove_cache_entry_def split: if_splits)
        with 2(1) [OF p None Inr s] show ?thesis by auto
      qed
    next
      case (Some ex)
      with 2(3) p show ?thesis by auto
    qed
  qed
qed simp

lemma sweep_space:
  "sweep P g block es current = (x, es', current') \<Longrightarrow> slot_space block es \<le> unat current \<Longrightarrow>
   unat current' + slot_space block es = unat current + slot_space block es'"
proof (induction P g block es current arbitrary: x es' current' rule: sweep.induct)
  case (2 P guard block e es current)
  show ?case
  proof (cases "P e")
    case False
    with 2(3) obtain es1 where "sweep P guard block es current = (x, es1, current')" "es' = e # es1"
      by (auto split: prod.splits)
    with 2(2) [OF False this(1)] 2(4) show ?thesis by simp
  next
    case p: True
    show ?thesis
    proof (cases "guard e")
      case None
      show ?thesis
      proof (cases "remove_cache_entry block e current")
        case (Inl ex)
        with 2(3) p None show ?thesis by auto
      next
        case (Inr c)
        with 2(3) p None have s: "sweep P guard block es c = (x, es', current')" by auto
        from Inr have "c = shrink block e current" by (auto simp: remove_cache_entry_def split: if_splits)
        with 2(4) have "unat c = unat current - entry_space block e" by (simp add: unat_shrink)
        moreover from this 2(4) have "slot_space block es \<le> unat c" by simp
        note 2(1) [OF p None Inr s this]
        ultimately show ?thesis using 2(4) by simp
      qed
    next
      case (Some ex)
      with 2(3) p show ?thesis by auto
    qed
  qed
qed simp

lemma table_ok_slots:
  assumes "table_ok next X t" "\<And>h. set (f h) \<subseteq> set (t_slots t h)" "\<And>h. distinct (map c_id (f h))"
    and "\<And>h e. e \<in> set (t_slots t h) \<Longrightarrow> c_readers e \<noteq> 0 \<Longrightarrow> e \<in> set (f h)"
  shows "table_ok next X (t\<lparr>t_slots := f\<rparr>)"
proof -
  have "\<exists>e \<in> set (f h). c_id e = n" if "0 < holders (t_locked t) X h n" for h n
  proof -
    have "\<exists>e \<in> set (t_slots t h). c_id e = n" using assms(1) that unfolding table_ok_def by blast
    then obtain e where e: "e \<in> set (t_slots t h)" "c_id e = n" by blast
    have "slot_ok next (t_locked t) X h (t_slots t h)" using assms(1) unfolding table_ok_def by blast
    with e that have "c_readers e \<noteq> 0" by (auto simp: slot_ok_def entry_ok_def)
    with assms(4) e show ?thesis by blast
  qed
  moreover have "slot_ok next (t_locked t) X h (f h)" for h
    using assms(1-3) by (fastforce simp: table_ok_def slot_ok_def)
  ultimately show ?thesis using assms(1) by (simp add: table_ok_def)
qed

lemma table_ok_distinct: "table_ok next X t \<Longrightarrow> distinct (map c_id (t_slots t h))"
  by (simp add: table_ok_def slot_ok_def)

lemma table_ok_fields [simp]:
  "table_ok next X (t\<lparr>t_current := c\<rparr>) = table_ok next X t" "table_ok next X (t\<lparr>t_new := n\<rparr>) = table_ok next X t"
  by (simp_all add: table_ok_def)

lemma sweep_slot_ok: "sweep_slot P g h t = (r, t') \<Longrightarrow> table_ok next X t \<Longrightarrow> table_ok next X t'"
proof -
  assume a: "sweep_slot P g h t = (r, t')" "table_ok next X t"
  obtain x es c where s: "sweep P g (t_block t) (t_slots t h) (t_current t) = (x, es, c)" by (metis prod_cases3)
  with a(1) have t': "t' = t\<lparr>t_slots := (t_slots t)(h := es), t_current := c\<rparr>" by (simp add: sweep_slot_def)
  have "table_ok next X (t\<lparr>t_slots := (t_slots t)(h := es)\<rparr>)"
    using sweep_keeps [OF s] table_ok_distinct [OF a(2)] by (intro table_ok_slots [OF a(2)]) (auto split: if_splits)
  then show ?thesis unfolding t' by (metis (no_types, lifting) table_ok_fields(1) ctable.update_convs(1,3))
qed

lemma sweep_slots_ok: "sweep_slots P g hs t = (r, t') \<Longrightarrow> table_ok next X t \<Longrightarrow> table_ok next X t'"
  by (induction hs arbitrary: t) (auto split: prod.splits sum.splits dest: sweep_slot_ok)

section \<open>The space the entries take\<close>

text \<open>\<open>t_current\<close> is the sum over the slots.\<close>

definition all_entries :: "ctable \<Rightarrow> centry list" where
  "all_entries t = concat (map (t_slots t) all_slots)"

definition total_space :: "ctable \<Rightarrow> nat" where
  "total_space t = (\<Sum>h \<in> {0..<cache_table_size}. slot_space (t_block t) (t_slots t h))"

definition accounted :: "ctable \<Rightarrow> bool" where
  "accounted t = ((\<forall>h. h \<notin> {0..<cache_table_size} \<longrightarrow> t_slots t h = []) \<and> unat (t_current t) = total_space t)"

lemma total_space_upd:
  assumes "h \<in> {0..<cache_table_size}"
  shows "total_space (t\<lparr>t_slots := (t_slots t)(h := es)\<rparr>) + slot_space (t_block t) (t_slots t h) =
         total_space t + slot_space (t_block t) es"
proof -
  have "total_space (t\<lparr>t_slots := (t_slots t)(h := es)\<rparr>) =
     slot_space (t_block t) es + (\<Sum>h \<in> {0..<cache_table_size} - {h}. slot_space (t_block t) (t_slots t h))"
    unfolding total_space_def by (simp add: sum.remove [OF _ assms])
  moreover have "total_space t =
     slot_space (t_block t) (t_slots t h) + (\<Sum>h \<in> {0..<cache_table_size} - {h}. slot_space (t_block t) (t_slots t h))"
    unfolding total_space_def by (simp add: sum.remove [OF _ assms])
  ultimately show ?thesis by simp
qed

lemma slot_space_le: "h \<in> {0..<cache_table_size} \<Longrightarrow> slot_space (t_block t) (t_slots t h) \<le> total_space t"
  unfolding total_space_def by (rule member_le_sum) simp_all

lemma sweep_slot_accounted: "sweep_slot P g h t = (r, t') \<Longrightarrow> accounted t \<Longrightarrow> accounted t' \<and> t_block t' = t_block t \<and> t_locked t' = t_locked t"
proof -
  assume a: "sweep_slot P g h t = (r, t')" "accounted t"
  obtain x es c where s: "sweep P g (t_block t) (t_slots t h) (t_current t) = (x, es, c)" by (metis prod_cases3)
  with a(1) have t': "t' = t\<lparr>t_slots := (t_slots t)(h := es), t_current := c\<rparr>" by (simp add: sweep_slot_def)
  show ?thesis
  proof (cases "h \<in> {0..<cache_table_size}")
    case True
    have "slot_space (t_block t) (t_slots t h) \<le> unat (t_current t)"
      using slot_space_le [OF True] a(2) by (simp add: accounted_def)
    from sweep_space [OF s this] total_space_upd [OF True, of t es] a(2) True show ?thesis
      by (auto simp: t' accounted_def total_space_def split: if_splits)
  next
    case False
    with a(2) have "t_slots t h = []" by (auto simp: accounted_def)
    with s have "es = []" "c = t_current t" by simp_all
    with False \<open>t_slots t h = []\<close> a(2) have "t' = t" by (simp add: t' fun_upd_idem)
    with a(2) show ?thesis by simp
  qed
qed

lemma sweep_slots_accounted:
  "sweep_slots P g hs t = (r, t') \<Longrightarrow> accounted t \<Longrightarrow> accounted t' \<and> t_block t' = t_block t \<and> t_locked t' = t_locked t"
proof (induction hs arbitrary: t)
  case (Cons h hs)
  obtain r1 t1 where s: "sweep_slot P g h t = (r1, t1)" by fastforce
  note 1 = sweep_slot_accounted [OF s Cons.prems(2)]
  show ?case
  proof (cases r1)
    case (Inl ex)
    with Cons.prems s 1 show ?thesis by auto
  next
    case (Inr u)
    with Cons.prems s have "sweep_slots P g hs t1 = (r, t')" by simp
    from Cons.IH [OF this] 1 show ?thesis by auto
  qed
qed auto

section \<open>Collectors\<close>

text \<open>
  The functors of the garbage collection remove entries without readers only: they never throw,
  and what they leave is what they do not apply to.
\<close>

locale collector =
  fixes P :: "centry \<Rightarrow> bool"
  assumes idle: "P e \<Longrightarrow> c_readers e = 0"
begin

lemma sweep_filter: "\<exists>c. sweep P no_guard block es current = (None, filter (\<lambda>e. \<not> P e) es, c)"
proof (induction es arbitrary: current)
  case (Cons e es)
  show ?case
  proof (cases "P e")
    case True
    with idle Cons show ?thesis by (simp add: no_guard_def remove_cache_entry_def)
  next
    case False
    from Cons obtain c where "sweep P no_guard block es current = (None, filter (\<lambda>e. \<not> P e) es, c)" by blast
    with False show ?thesis by simp
  qed
qed simp

lemma slots_filter:
  "\<exists>t'. sweep_slots P no_guard hs t = (Inr (), t') \<and>
     t_slots t' = (\<lambda>h. if h \<in> set hs then filter (\<lambda>e. \<not> P e) (t_slots t h) else t_slots t h)"
proof (induction hs arbitrary: t)
  case (Cons h hs)
  obtain c where "sweep P no_guard (t_block t) (t_slots t h) (t_current t) = (None, filter (\<lambda>e. \<not> P e) (t_slots t h), c)"
    using sweep_filter by blast
  then obtain t1 where t1: "sweep_slot P no_guard h t = (Inr (), t1)"
    "t_slots t1 = (t_slots t)(h := filter (\<lambda>e. \<not> P e) (t_slots t h))"
    by (simp add: sweep_slot_def)
  from Cons.IH [of t1] t1 show ?case by (auto simp: fun_eq_iff)
qed auto

text \<open>An entry that is being read survives, with everything it holds.\<close>

lemma keeps_readers:
  "sweep_slots P no_guard hs t = (r, t') \<Longrightarrow> e \<in> set (t_slots t h) \<Longrightarrow> c_readers e \<noteq> 0 \<Longrightarrow> e \<in> set (t_slots t' h)"
  using slots_filter [of hs t] idle [of e] by (auto split: if_splits)

end

lemma sweep_collector: "(\<And>e. P e \<Longrightarrow> c_readers e = 0) \<Longrightarrow> collector P"
  by unfold_locales

interpretation expired: collector "expired time" for time
  by (rule sweep_collector) (simp add: expired_def)

interpretation by_hits: collector "\<lambda>e. c_readers e = 0 \<and> c_hits e \<le> hits" for hits
  by (rule sweep_collector) simp

interpretation by_size: collector "\<lambda>e. c_readers e = 0 \<and> c_size e > ucast (sz :: u32)" for sz
  by (rule sweep_collector) simp

section \<open>Entries that stay\<close>

text \<open>
  The first part of a ghost names the URL and the file of entries, the second says which files are
  bound to which entries: \<open>kept\<close> states that both still hold.  Addresses that were never used are not named.
\<close>

type_synonym ghost = "(int \<times> nat \<Rightarrow> (string \<times> string) option) \<times> (nat \<Rightarrow> (int \<times> nat) option)"

definition kept :: "ghost \<Rightarrow> nat \<Rightarrow> ctable \<Rightarrow> bool" where
  "kept gh n t =
     ((\<forall>h k. n \<le> k \<longrightarrow> fst gh (h, k) = None) \<and>
      (\<forall>h. \<forall>e \<in> set (t_slots t h). \<forall>v. fst gh (h, c_id e) = Some v \<longrightarrow> v = (c_url e, c_cachename e)) \<and>
      (\<forall>b p. snd gh b = Some p \<longrightarrow> map_of (t_locked t) b = Some (Some p)))"

definition sound :: "ghost \<Rightarrow> nat \<Rightarrow> ctable \<Rightarrow> bool" where
  "sound gh n t = (accounted t \<and> kept gh n t)"

lemma kept_mono: "kept gh n t \<Longrightarrow> n \<le> n' \<Longrightarrow> kept gh n' t"
  by (simp add: kept_def)

lemma kept_slots:
  "kept gh n t \<Longrightarrow> (\<And>h. set (t_slots t' h) \<subseteq> set (t_slots t h)) \<Longrightarrow> t_locked t' = t_locked t \<Longrightarrow> kept gh n t'"
proof -
  assume a: "kept gh n t" "\<And>h. set (t_slots t' h) \<subseteq> set (t_slots t h)" "t_locked t' = t_locked t"
  have "\<forall>v. fst gh (h, c_id e) = Some v \<longrightarrow> v = (c_url e, c_cachename e)" if "e \<in> set (t_slots t' h)" for h e
    using a(1) a(2) [of h] that unfolding kept_def by blast
  with a(1,3) show ?thesis unfolding kept_def by simp
qed

lemma sweep_slot_subset: "sweep_slot P g h t = (r, t') \<Longrightarrow> set (t_slots t' h') \<subseteq> set (t_slots t h')"
proof -
  assume a: "sweep_slot P g h t = (r, t')"
  obtain x es c where s: "sweep P g (t_block t) (t_slots t h) (t_current t) = (x, es, c)" by (metis prod_cases3)
  with a sweep_keeps [OF s] show ?thesis by (auto simp: sweep_slot_def split: if_splits)
qed

lemma sweep_slots_subset: "sweep_slots P g hs t = (r, t') \<Longrightarrow> set (t_slots t' h') \<subseteq> set (t_slots t h')"
proof (induction hs arbitrary: t)
  case (Cons h hs)
  obtain r1 t1 where s: "sweep_slot P g h t = (r1, t1)" by fastforce
  with Cons sweep_slot_subset [OF s, of h'] show ?case by (cases r1) auto
qed simp

lemma sweep_sound:
  "sweep_slots P g hs t = (r, t') \<Longrightarrow> sound gh n t \<Longrightarrow> sound gh n t'"
  "sweep_slot P g h t = (r', t') \<Longrightarrow> sound gh n t \<Longrightarrow> sound gh n t'"
proof -
  assume a: "sweep_slots P g hs t = (r, t')" "sound gh n t"
  note k = sweep_slots_accounted [OF a(1)]
  show "sound gh n t'"
    using k kept_slots [of gh n t t'] sweep_slots_subset [OF a(1)] a(2) by (auto simp: sound_def)
next
  assume a: "sweep_slot P g h t = (r', t')" "sound gh n t"
  note k = sweep_slot_accounted [OF a(1)]
  show "sound gh n t'"
    using k kept_slots [of gh n t t'] sweep_slot_subset [OF a(1)] a(2) by (auto simp: sound_def)
qed

section \<open>Changing entries keeps the account\<close>

lemma slot_space_replace: "c_size e' = c_size e \<Longrightarrow> slot_space b (xs @ e' # ys) = slot_space b (xs @ e # ys)"
  by (simp add: entry_space_def)

lemma accounted_replace:
  assumes "accounted t" "t_slots t h = xs @ e # ys" "c_size e' = c_size e"
  shows "accounted (t\<lparr>t_slots := (t_slots t)(h := xs @ e' # ys)\<rparr>)"
proof -
  have h: "h \<in> {0..<cache_table_size}" using assms(1,2) by (auto simp: accounted_def)
  have "slot_space (t_block t) (xs @ e' # ys) = slot_space (t_block t) (t_slots t h)"
    using slot_space_replace [OF assms(3), of "t_block t" xs ys] by (simp only: assms(2))
  with total_space_upd [OF h, of t "xs @ e' # ys"]
  have "total_space (t\<lparr>t_slots := (t_slots t)(h := xs @ e' # ys)\<rparr>) = total_space t" by simp
  with assms(1) h show ?thesis by (auto simp: accounted_def)
qed

definition same_file :: "centry \<Rightarrow> centry \<Rightarrow> bool" where
  "same_file e e' = (c_id e' = c_id e \<and> c_url e' = c_url e \<and> c_cachename e' = c_cachename e \<and> c_size e' = c_size e)"

lemma sound_replace:
  assumes "sound gh n t" "t_slots t h = xs @ e # ys" "same_file e e'"
  shows "sound gh n (t\<lparr>t_slots := (t_slots t)(h := xs @ e' # ys)\<rparr>)"
proof -
  have "accounted (t\<lparr>t_slots := (t_slots t)(h := xs @ e' # ys)\<rparr>)"
    using assms by (intro accounted_replace) (auto simp: sound_def same_file_def)
  moreover have "\<forall>v. fst gh (h, c_id x) = Some v \<longrightarrow> v = (c_url x, c_cachename x)" if "x \<in> set (xs @ e # ys)" for x
    using assms(1) that unfolding sound_def kept_def assms(2) [symmetric] by blast
  then have "\<forall>x \<in> set (xs @ e' # ys). \<forall>v. fst gh (h, c_id x) = Some v \<longrightarrow> v = (c_url x, c_cachename x)"
    using assms(3) by (auto simp: same_file_def)
  then have "kept gh n (t\<lparr>t_slots := (t_slots t)(h := xs @ e' # ys)\<rparr>)"
    using assms(1) by (simp add: sound_def kept_def)
  ultimately show ?thesis by (simp add: sound_def)
qed

lemma accounted_fields [simp]:
  "accounted (t\<lparr>t_locked := ls\<rparr>) = accounted t" "accounted (t\<lparr>t_new := k\<rparr>) = accounted t"
  by (simp_all add: accounted_def total_space_def)

lemma sound_new [simp]: "sound gh n (t\<lparr>t_new := k\<rparr>) = sound gh n t"
  by (simp add: sound_def kept_def)

lemma sound_locked:
  "sound gh n t \<Longrightarrow> (\<And>b p. snd gh b = Some p \<Longrightarrow> map_of ls b = map_of (t_locked t) b) \<Longrightarrow> sound gh n (t\<lparr>t_locked := ls\<rparr>)"
  by (simp add: sound_def kept_def)

lemma change_in_list:
  "change_in f n es = Inr (es', e') \<Longrightarrow> \<exists>xs e ys. es = xs @ e # ys \<and> es' = xs @ e' # ys \<and> f e = Inr e'"
proof (induction es arbitrary: es')
  case (Cons x es)
  show ?case
  proof (cases "c_id x = n")
    case True
    with Cons.prems show ?thesis by (intro exI [of _ "[]"] exI [of _ x] exI [of _ es]) auto
  next
    case False
    with Cons.prems obtain es1 where e: "change_in f n es = Inr (es1, e')" "es' = x # es1" by auto
    from Cons.IH [OF e(1)] obtain xs e0 ys where "es = xs @ e0 # ys" "es1 = xs @ e' # ys" "f e0 = Inr e'" by blast
    with e(2) show ?thesis by (intro exI [of _ "x # xs"] exI [of _ e0] exI [of _ ys]) simp
  qed
qed simp

lemma change_entry_sound:
  assumes "change_entry f h k t = (r, t')" "\<And>e e'. f e = Inr e' \<Longrightarrow> same_file e e'" "sound gh n t"
  shows "sound gh n t'"
proof (cases "change_in f k (t_slots t h)")
  case (Inl ex)
  with assms show ?thesis by (simp add: change_entry_def)
next
  case (Inr p)
  then obtain es e' where p: "change_in f k (t_slots t h) = Inr (es, e')" by (cases p) auto
  from change_in_list [OF p] obtain xs e ys where "t_slots t h = xs @ e # ys" "es = xs @ e' # ys" "f e = Inr e'" by blast
  with p assms show ?thesis by (auto simp: change_entry_def intro: sound_replace)
qed

lemma unlock_read_file: "unlock_read_response e = Inr e' \<Longrightarrow> same_file e e'"
  by (auto simp: same_file_def unlock_read_response_def split: if_splits)

lemma get_locked_sound:
  assumes "table_ok next None t" "get_locked_entry_from_cache_table url t = (r, t')" "sound gh n t"
  shows "sound gh n t'"
proof (cases "\<exists>e. r = Inr (Some e)")
  case True
  then obtain e where "get_locked_entry_from_cache_table url t = (Inr (Some e), t')" using assms(2) by auto
  from get_locked_entry_ok(3) [OF assms(1) this] obtain xs e0 ys where
    "t_slots t (get_hash url) = xs @ e0 # ys" "lock_read_response e0 = Inr e"
    "t' = t\<lparr>t_slots := (t_slots t)(get_hash url := xs @ e # ys)\<rparr>" by blast
  with assms(3) show ?thesis
    by (auto simp: lock_read_response_def same_file_def split: if_splits intro!: sound_replace)
next
  case False
  with assms show ?thesis using get_entry_unchanged unfolding get_locked_entry_from_cache_table_def by blast
qed

section \<open>What operations keep\<close>

definition keeps :: "('s \<Rightarrow> bool) \<Rightarrow> ('s, 'a) action \<Rightarrow> bool" where
  "keeps I act = (\<forall>s. I s \<longrightarrow> I (snd (act s)))"

named_theorems keeps_intros

lemma keepsI [intro?]: "(\<And>s r s'. I s \<Longrightarrow> act s = (r, s') \<Longrightarrow> I s') \<Longrightarrow> keeps I act"
  unfolding keeps_def by (metis prod.collapse)

lemma keepsD: "keeps I act \<Longrightarrow> I s \<Longrightarrow> act s = (r, s') \<Longrightarrow> I s'"
  by (metis keeps_def snd_conv)

lemma keeps_return [keeps_intros]: "keeps I (returnS x)" "keeps I (throwS ex)"
  by (simp_all add: keeps_def)

lemma keeps_bind [keeps_intros]: "keeps I m \<Longrightarrow> (\<And>x. keeps I (f x)) \<Longrightarrow> keeps I (bindS m f)"
  unfolding keeps_def by (auto split: prod.splits sum.splits)

lemma keeps_if [keeps_intros]: "(b \<Longrightarrow> keeps I m) \<Longrightarrow> (\<not> b \<Longrightarrow> keeps I m') \<Longrightarrow> keeps I (if b then m else m')"
  by simp

lemma keeps_if_state [keeps_intros]:
  "keeps I m \<Longrightarrow> keeps I m' \<Longrightarrow> keeps I (\<lambda>s. if P s then m s else m' s)"
  by (simp add: keeps_def)

lemma keeps_unchanged [keeps_intros]: "keeps I (\<lambda>s. (r, s))"
  by (simp add: keeps_def)

definition good_table :: "ghost \<Rightarrow> nat \<Rightarrow> ctable \<Rightarrow> bool" where
  "good_table gh next t = (table_ok next None t \<and> sound gh next t)"

definition cache_inv :: "ghost \<Rightarrow> hcache \<Rightarrow> bool" where
  "cache_inv gh c = (good_table gh (h_next c) (h_table c) \<and> h_folder_size c < h_total_size c - h_gc_buffer c)"

lemma keeps_on_table [keeps_intros]: "(\<And>n. keeps (good_table gh n) act) \<Longrightarrow> keeps (cache_inv gh) (on_table act)"
  unfolding keeps_def on_table_def cache_inv_def by (auto split: prod.splits) (metis snd_conv)

lemma keeps_locked [keeps_intros]: "keeps (cache_inv gh) act \<Longrightarrow> keeps (cache_inv gh) (locked act)"
proof
  fix c r c' assume a: "keeps (cache_inv gh) act" "cache_inv gh c" "locked act c = (r, c')"
  obtain r1 c1 where c1: "act (c\<lparr>h_mutex := True\<rparr>) = (r1, c1)" by fastforce
  have "cache_inv gh (c\<lparr>h_mutex := True\<rparr>)" using a(2) by (simp add: cache_inv_def)
  from keepsD [OF a(1) this c1] have "cache_inv gh c1" .
  with a(2,3) c1 show "cache_inv gh c'"
    by (auto simp: locked_def cache_inv_def split: if_splits sum.splits exn.splits)
qed

lemma keeps_result [keeps_intros]: "keeps I (result r)"
  by (simp add: keeps_def result_def)

lemma keeps_sweep [keeps_intros]: "keeps (good_table gh n) (sweep_slots P g hs)" "keeps (good_table gh n) (sweep_slot P g h)"
  using sweep_slots_ok sweep_slot_ok sweep_sound
  unfolding keeps_def good_table_def by (metis prod.collapse)+

text \<open>Reading from an entry.\<close>

lemma keeps_read [keeps_intros]:
  assumes "keeps (good_table gh n) A" "\<And>e. keeps (good_table gh n) (B e)"
  shows "keeps (good_table gh n) (bindS (get_locked_entry_from_cache_table url) (\<lambda>r. case r of None \<Rightarrow> A
     | Some e \<Rightarrow> bindS (change_entry unlock_read_response (get_hash url) (c_id e)) (\<lambda>_. B e)))"
proof
  fix t r t'
  assume g: "good_table gh n t" and e: "bindS (get_locked_entry_from_cache_table url) (\<lambda>r. case r of None \<Rightarrow> A
     | Some e \<Rightarrow> bindS (change_entry unlock_read_response (get_hash url) (c_id e)) (\<lambda>_. B e)) t = (r, t')"
  obtain r1 t1 where l: "get_locked_entry_from_cache_table url t = (r1, t1)" by fastforce
  have ok: "table_ok n None t" "sound gh n t" using g by (simp_all add: good_table_def)
  note a1 = get_locked_sound [OF ok(1) l ok(2)]
  show "good_table gh n t'"
  proof (cases "\<exists>e. r1 = Inr (Some e)")
    case True
    then obtain e1 where r1: "r1 = Inr (Some e1)" by blast
    from unlock_read_ok [OF get_locked_entry_ok(1) [OF ok(1) l [unfolded r1]]] obtain e2 t2 where
      u: "change_entry unlock_read_response (get_hash url) (c_id e1) t1 = (Inr e2, t2)" "table_ok n None t2" by blast
    with change_entry_sound [OF u(1) unlock_read_file a1] have "good_table gh n t2" by (simp add: good_table_def)
    moreover from e l r1 u(1) have "B e1 t2 = (r, t')" by simp
    ultimately show ?thesis using keepsD [OF assms(2)] by blast
  next
    case False
    with l have "t1 = t" unfolding get_locked_entry_from_cache_table_def using get_entry_unchanged by blast
    with e l False g keepsD [OF assms(1) g] show ?thesis by (cases r1) (auto split: option.splits)
  qed
qed

text \<open>Under the write lock an entry is replaced by one that is free again, or is left locked with its read lock released.\<close>

lemma get_write_locked_split:
  assumes "get_write_locked_entry_from_cache_table url t = (Inr (Some e), t')"
  obtains xs e0 ys where "t_slots t (get_hash url) = xs @ e0 # ys" "c_url e0 = url" "\<not> c_rlock e0" "\<not> c_wlock e0"
    "e = e0\<lparr>c_rlock := True, c_wlock := True\<rparr>" "t' = t\<lparr>t_slots := (t_slots t)(get_hash url := xs @ e # ys)\<rparr>"
proof -
  obtain es where l: "lock_first lock_write_response url (t_slots t (get_hash url)) = Inr (Some e, es)"
    and t': "t' = t\<lparr>t_slots := (t_slots t)(get_hash url := es)\<rparr>"
    using assms unfolding get_write_locked_entry_from_cache_table_def get_entry_def by (auto split: sum.splits)
  from lock_first_split [OF l] obtain xs e0 ys where
    s: "t_slots t (get_hash url) = xs @ e0 # ys" "es = xs @ e # ys" "c_url e0 = url" "lock_write_response e0 = Inr e"
    by blast
  from s(4) have "\<not> c_rlock e0" "\<not> c_wlock e0" "e = e0\<lparr>c_rlock := True, c_wlock := True\<rparr>"
    by (auto simp: lock_write_response_def split: if_splits)
  with s t' that show ?thesis by blast
qed

lemma slot_elem:
  assumes "table_ok next X t" "t_slots t h = xs @ e # ys"
  shows "entry_ok next h (holders (t_locked t) X h (c_id e)) e"
proof -
  have "slot_ok next (t_locked t) X h (t_slots t h)" using assms(1) unfolding table_ok_def by blast
  with assms(2) show ?thesis by (simp add: slot_ok_def)
qed

lemma write_locked_update:
  assumes "good_table gh n t" "get_write_locked_entry_from_cache_table url t = (Inr (Some e), t1)"
    "same_file e e'" "c_hash e' = c_hash e" "lock_ok e'" "c_readers e' = 0 \<or> c_readers e' = -1"
    "f e = Inr e'"
  shows "\<exists>t2. change_entry f (get_hash url) (c_id e) t1 = (Inr e', t2) \<and> good_table gh n t2"
proof -
  obtain xs e0 ys where s: "t_slots t (get_hash url) = xs @ e0 # ys" "\<not> c_rlock e0" "\<not> c_wlock e0"
    "e = e0\<lparr>c_rlock := True, c_wlock := True\<rparr>" "t1 = t\<lparr>t_slots := (t_slots t)(get_hash url := xs @ e # ys)\<rparr>"
    using assms(2) by (rule get_write_locked_split)
  have ok: "table_ok n None t" "sound gh n t" using assms(1) by (simp_all add: good_table_def)
  have id: "c_id e = c_id e0" "c_hash e = c_hash e0" "c_size e = c_size e0" using s(4) by simp_all
  have e0: "entry_ok n (get_hash url) (holders (t_locked t) None (get_hash url) (c_id e0)) e0"
    by (rule slot_elem [OF ok(1) s(1)])
  then have k: "holders (t_locked t) None (get_hash url) (c_id e0) = 0"
    using s(2,3) by (auto simp: entry_ok_def lock_ok_def split: if_splits)
  have "entry_ok n (get_hash url) (holders (t_locked t) None (get_hash url) (c_id e0)) e'"
    using e0 assms(3-6) k by (simp add: entry_ok_def id same_file_def)
  then have 1: "table_ok n None (t\<lparr>t_slots := (t_slots t)(get_hash url := xs @ e' # ys)\<rparr>)"
    using assms(3) id by (intro table_ok_replace [OF ok(1) s(1)]) (simp_all add: same_file_def)
  have 2: "sound gh n (t\<lparr>t_slots := (t_slots t)(get_hash url := xs @ e' # ys)\<rparr>)"
    using assms(3) s(4) by (intro sound_replace [OF ok(2) s(1)]) (simp add: same_file_def)
  have "distinct (map c_id (xs @ e # ys))"
    using table_ok_distinct [OF ok(1), of "get_hash url"] s(1) by (simp add: id)
  then have "change_entry f (get_hash url) (c_id e) t1 = (Inr e', t1\<lparr>t_slots := (t_slots t1)(get_hash url := xs @ e' # ys)\<rparr>)"
    using assms(7) by (subst change_entry_split [where xs = xs and ys = ys and e = e]) (simp_all add: s(5))
  moreover have "t1\<lparr>t_slots := (t_slots t1)(get_hash url := xs @ e' # ys)\<rparr> = t\<lparr>t_slots := (t_slots t)(get_hash url := xs @ e' # ys)\<rparr>"
    by (simp add: s(5))
  ultimately show ?thesis using 1 2 by (auto simp: good_table_def)
qed

end
