(* ===== verification/Http_Cache_Steps.thy ===== *)
theory Http_Cache_Steps
  imports Http_Cache_Locks
begin

text \<open>
  The HTTP cache as a transition system: its states are those reached from a cache that has read
  its index by operations of the interface, in any order and with any results of the file system
  and the clock.  The invariant of the table holds in all of them, the operations return while
  nothing is locked, and a failed update locks its entry for good.
\<close>

section \<open>Operations\<close>

datatype cache_op =
    Cache_Response env string int "string list"
  | Update_Response env string int "string list"
  | Get_Response env string
  | Release nat
  | Purge
  | Url_Valid env string
  | Url_In_Cache string
  | Conditional_Headers env string
  | Set_Max_Size env u64
  | Set_Max_Entry_Size env u64
  | Set_Cache_Control env "string list"
  | Set_Enabled bool
  | Set_Expire_Ignored bool
  | Set_Always_Validate bool
  | Set_Default_Expiration int

definition discard :: "('s, 'a) action \<Rightarrow> ('s, unit) action" where
  "discard act = bindS act (\<lambda>_. returnS ())"

primrec run_op :: "nat \<Rightarrow> cache_op \<Rightarrow> (hcache, unit) action" where
  "run_op fuel (Cache_Response env url time headers) = discard (cache_response fuel env url time headers)"
| "run_op fuel (Update_Response env url time headers) = update_response env url time headers"
| "run_op fuel (Get_Response env url) = discard (get_cached_response env url)"
| "run_op fuel (Release body) = release_cached_response body"
| "run_op fuel Purge = purge_cache"
| "run_op fuel (Url_Valid env url) = discard (is_url_valid env url)"
| "run_op fuel (Url_In_Cache url) = discard (is_url_in_cache url)"
| "run_op fuel (Conditional_Headers env url) = discard (get_conditional_request_headers env url)"
| "run_op fuel (Set_Max_Size env sz) = set_max_size fuel env sz"
| "run_op fuel (Set_Max_Entry_Size env sz) = set_max_entry_size fuel env sz"
| "run_op fuel (Set_Cache_Control env headers) = set_cache_control env headers"
| "run_op fuel (Set_Enabled mode) = set_cache_enabled mode"
| "run_op fuel (Set_Expire_Ignored mode) = set_expire_ignored mode"
| "run_op fuel (Set_Always_Validate mode) = set_always_validate mode"
| "run_op fuel (Set_Default_Expiration t) = set_default_expiration t"

text \<open>
  What the environment guarantees: the bytes of a response fit an \<open>int\<close> with its last block and
  the store fits the disk; \<open>fopen\<close> returns no file that is still handed out; a size in megabytes
  does not wrap around.
\<close>

definition body_fits :: "env \<Rightarrow> hcache \<Rightarrow> bool" where
  "body_fits env c = (case e_body env of Inl _ \<Rightarrow> True
     | Inr bytes \<Rightarrow> let space = entry_disk_space (ucast (scast bytes :: u64)) (t_block (h_table c)) in
         unat space < 2 ^ 31 \<and> unat (t_current (h_table c)) + unat space < 2 ^ 64)"

definition opens_unbound :: "env \<Rightarrow> hcache \<Rightarrow> bool" where
  "opens_unbound env c = (case e_open env of Inl _ \<Rightarrow> True | Inr b \<Rightarrow> unbound (h_table c) b)"

fun allowed :: "cache_op \<Rightarrow> hcache \<Rightarrow> bool" where
  "allowed (Cache_Response env url time headers) c = body_fits env c"
| "allowed (Get_Response env url) c = opens_unbound env c"
| "allowed (Set_Max_Size env sz) c = (sz < 2 ^ 44)"
| "allowed _ c = True"

definition index_fits :: "ctable \<Rightarrow> bool" where
  "index_fits t = ((\<forall>h. \<forall>e \<in> set (t_slots t h). entry_space (t_block t) e < 2 ^ 31) \<and> total_space t < 2 ^ 64)"

inductive cache_reach :: "hcache \<Rightarrow> bool" where
  opened: "0 < block \<Longrightarrow> open_cache block index = Inr c \<Longrightarrow> index_fits (h_table c) \<Longrightarrow> cache_reach c"
| step: "cache_reach c \<Longrightarrow> allowed op c \<Longrightarrow> run_op fuel op c = (r, c') \<Longrightarrow> cache_reach c'"

section \<open>Adding entries\<close>

lemma unat_scast_small:
  assumes "unat (w :: u32) < 2 ^ 31"
  shows "unat (scast w :: u64) = unat w"
proof -
  have "int (unat w) < int (2 ^ 31)" using assms by (simp only: of_nat_less_iff)
  then have u: "uint w < 2 ^ 31" by simp
  then have "sint w = uint w" by (simp add: sint_uint signed_take_bit_int_eq_self order.trans [OF _ uint_ge_0])
  moreover have "take_bit 64 (uint w) = uint w" using u by (simp add: take_bit_int_eq_self)
  moreover have "uint (scast w :: u64) = take_bit 64 (sint w)" by (simp only: scast_eq unsigned_of_int) simp
  ultimately have "uint (scast w :: u64) = uint w" by simp
  then show ?thesis by (simp only: unat_eq_nat_uint)
qed

lemma add_entry_result:
  assumes "c_hash e = h" "h \<in> {0..<cache_table_size}"
  shows "add_entry_to_cache_table e t =
    (Inr (), t\<lparr>t_slots := (t_slots t)(h := t_slots t h @ [e]),
               t_current := t_current t + scast (entry_disk_space (c_size e) (t_block t)), t_new := s32 (t_new t + 1)\<rparr>)"
  using assms by (simp add: add_entry_to_cache_table_def)

lemma table_ok_slots_iff:
  "table_ok n X (t\<lparr>t_slots := f\<rparr>) =
     (distinct (map fst (t_locked t)) \<and> (\<forall>h. slot_ok n (t_locked t) X h (f h)) \<and>
      (\<forall>h k. 0 < holders (t_locked t) X h k \<longrightarrow> (\<exists>e \<in> set (f h). c_id e = k)))"
  by (simp add: table_ok_def)

lemma table_ok_append:
  assumes "table_ok n None t" "c_hash e = h" "c_id e = n" "lock_ok e" "0 \<le> c_readers e"
  shows "table_ok (Suc n) None (t\<lparr>t_slots := (t_slots t)(h := t_slots t h @ [e])\<rparr>)"
proof -
  have so: "slot_ok n (t_locked t) None h' (t_slots t h')" for h' using assms(1) unfolding table_ok_def by blast
  have ids: "\<forall>x \<in> set (t_slots t h'). c_id x < n" for h'
    using so [of h'] unfolding slot_ok_def entry_ok_def by blast
  have "holders (t_locked t) None h n = 0"
  proof (rule ccontr)
    assume "holders (t_locked t) None h n \<noteq> 0"
    then have "0 < holders (t_locked t) None h n" by simp
    then have "\<exists>x \<in> set (t_slots t h). c_id x = n" using assms(1) unfolding table_ok_def by blast
    with ids [of h] show False by auto
  qed
  then have "entry_ok (Suc n) h (holders (t_locked t) None h (c_id e)) e"
    using assms(2-4) by (simp add: entry_ok_def)
  moreover have "c_id e \<notin> set (map c_id (t_slots t h))" using ids [of h] assms(3) by auto
  moreover have "slot_ok (Suc n) (t_locked t) None h (t_slots t h)" by (rule slot_ok_mono [OF so]) simp
  ultimately have e: "slot_ok (Suc n) (t_locked t) None h (t_slots t h @ [e])"
    by (simp add: slot_ok_def)
  have "slot_ok (Suc n) (t_locked t) None h' (((t_slots t)(h := t_slots t h @ [e])) h')" for h'
    using e slot_ok_mono [OF so [of h'], of "Suc n"] by simp
  moreover have "\<exists>x \<in> set (((t_slots t)(h := t_slots t h @ [e])) h'). c_id x = k" if "0 < holders (t_locked t) None h' k" for h' k
  proof -
    have "\<exists>x \<in> set (t_slots t h'). c_id x = k" using assms(1) that unfolding table_ok_def by blast
    then show ?thesis by auto
  qed
  moreover have "distinct (map fst (t_locked t))" using assms(1) unfolding table_ok_def by blast
  ultimately show ?thesis unfolding table_ok_slots_iff by blast
qed

lemma accounted_append:
  assumes "accounted t" "h \<in> {0..<cache_table_size}" "entry_space (t_block t) e < 2 ^ 31"
    "unat (t_current t) + entry_space (t_block t) e < 2 ^ 64"
  shows "accounted (t\<lparr>t_slots := (t_slots t)(h := t_slots t h @ [e]),
                    t_current := t_current t + scast (entry_disk_space (c_size e) (t_block t)), t_new := k\<rparr>)"
proof -
  let ?s = "scast (entry_disk_space (c_size e) (t_block t)) :: u64"
  have s: "unat ?s = entry_space (t_block t) e"
    using assms(3) unat_scast_small by (simp add: entry_space_def)
  with assms(4) have "unat (t_current t + ?s) = unat (t_current t) + entry_space (t_block t) e"
    by (simp add: unat_add_lem [where 'a = 64, simplified, THEN iffD1])
  moreover have "total_space (t\<lparr>t_slots := (t_slots t)(h := t_slots t h @ [e])\<rparr>) = total_space t + entry_space (t_block t) e"
    using total_space_upd [OF assms(2), of t "t_slots t h @ [e]"] by simp
  ultimately show ?thesis using assms(1,2) by (auto simp: accounted_def total_space_def)
qed

lemma sound_append:
  assumes "sound gh n t" "h \<in> {0..<cache_table_size}" "entry_space (t_block t) e < 2 ^ 31"
    "unat (t_current t) + entry_space (t_block t) e < 2 ^ 64" "c_id e = n"
  shows "sound gh (Suc n) (t\<lparr>t_slots := (t_slots t)(h := t_slots t h @ [e]),
                    t_current := t_current t + scast (entry_disk_space (c_size e) (t_block t)), t_new := k\<rparr>)"
  using accounted_append [OF _ assms(2-4)] assms(1,5) by (auto simp: sound_def kept_def)

lemma keep_space: "total_space (t\<lparr>t_slots := s, t_current := c, t_new := k\<rparr>) = total_space (t\<lparr>t_slots := s\<rparr>)"
  by (simp add: total_space_def)

section \<open>Reading the index\<close>

lemma parsed_entry:
  "c_id (cache_index_parse_line n l) = n" "c_readers (cache_index_parse_line n l) = 0"
  "lock_ok (cache_index_parse_line n l)"
  by (simp_all add: cache_index_parse_line_def new_entry_def lock_ok_def split: prod.splits)

lemma add_lines_step:
  assumes "add_lines n (l # ls) t = (Inr m, t')"
  obtains t1 where "c_hash (cache_index_parse_line n l) \<in> {0..<cache_table_size}"
    "add_entry_to_cache_table (cache_index_parse_line n l) t = (Inr (), t1)" "add_lines (Suc n) ls t1 = (Inr m, t')"
proof -
  obtain r t1 where a: "add_entry_to_cache_table (cache_index_parse_line n l) t = (r, t1)" by fastforce
  with assms have "r = Inr ()" "add_lines (Suc n) ls t1 = (Inr m, t')" by (cases r; simp)+
  moreover from a this(1) have "c_hash (cache_index_parse_line n l) \<in> {0..<cache_table_size}"
    by (auto simp: add_entry_to_cache_table_def split: if_splits)
  ultimately show ?thesis using that a by blast
qed

lemma add_lines_grow:
  "add_lines n ls t = (Inr m, t') \<Longrightarrow>
   t_block t' = t_block t \<and> t_locked t' = t_locked t \<and> total_space t \<le> total_space t' \<and> (\<forall>h. set (t_slots t h) \<subseteq> set (t_slots t' h))"
proof (induction ls arbitrary: n t)
  case (Cons l ls)
  let ?e = "cache_index_parse_line n l"
  obtain t1 where t1: "c_hash ?e \<in> {0..<cache_table_size}" "add_entry_to_cache_table ?e t = (Inr (), t1)"
    "add_lines (Suc n) ls t1 = (Inr m, t')"
    using Cons.prems by (rule add_lines_step)
  have e: "t1 = t\<lparr>t_slots := (t_slots t)(c_hash ?e := t_slots t (c_hash ?e) @ [?e]),
      t_current := t_current t + scast (entry_disk_space (c_size ?e) (t_block t)), t_new := s32 (t_new t + 1)\<rparr>"
    using t1(2) add_entry_result [OF refl t1(1), of t] by simp
  have "total_space t \<le> total_space t1"
    using total_space_upd [OF t1(1), of t "t_slots t (c_hash ?e) @ [?e]"] by (simp add: e keep_space)
  with Cons.IH [OF t1(3)] show ?case by (fastforce simp: e)
qed simp

lemma add_lines_good:
  "add_lines n ls t = (Inr m, t') \<Longrightarrow> good_table gh n t \<Longrightarrow> index_fits t' \<Longrightarrow> good_table gh m t'"
proof (induction ls arbitrary: n t)
  case (Cons l ls)
  let ?e = "cache_index_parse_line n l"
  obtain t1 where t1: "c_hash ?e \<in> {0..<cache_table_size}" "add_entry_to_cache_table ?e t = (Inr (), t1)"
    "add_lines (Suc n) ls t1 = (Inr m, t')"
    using Cons.prems(1) by (rule add_lines_step)
  have e: "t1 = t\<lparr>t_slots := (t_slots t)(c_hash ?e := t_slots t (c_hash ?e) @ [?e]),
      t_current := t_current t + scast (entry_disk_space (c_size ?e) (t_block t)), t_new := s32 (t_new t + 1)\<rparr>"
    using t1(2) add_entry_result [OF refl t1(1), of t] by simp
  note g = add_lines_grow [OF t1(3)]
  have "?e \<in> set (t_slots t1 (c_hash ?e))" by (simp add: e)
  with g have "?e \<in> set (t_slots t' (c_hash ?e))" by auto
  with Cons.prems(3) g e have s: "entry_space (t_block t) ?e < 2 ^ 31" by (auto simp: index_fits_def)
  have "total_space t1 = total_space t + entry_space (t_block t) ?e"
    using total_space_upd [OF t1(1), of t "t_slots t (c_hash ?e) @ [?e]"] by (simp add: e keep_space)
  with g Cons.prems(2,3) have f: "unat (t_current t) + entry_space (t_block t) ?e < 2 ^ 64"
    by (auto simp: index_fits_def good_table_def sound_def accounted_def)
  have ok: "table_ok n None t" "sound gh n t" using Cons.prems(2) by (simp_all add: good_table_def)
  have "table_ok (Suc n) None (t\<lparr>t_slots := (t_slots t)(c_hash ?e := t_slots t (c_hash ?e) @ [?e])\<rparr>)"
    using parsed_entry [of n l] by (intro table_ok_append [OF ok(1)]) simp_all
  then have "table_ok (Suc n) None t1" by (simp add: e table_ok_def)
  moreover have "sound gh (Suc n) t1" unfolding e using parsed_entry(1) by (intro sound_append [OF ok(2) t1(1) s f])
  ultimately have "good_table gh (Suc n) t1" by (simp add: good_table_def)
  from Cons.IH [OF t1(3) this Cons.prems(3)] show ?case .
qed simp

definition no_ghost :: ghost where "no_ghost = (\<lambda>_. None, \<lambda>_. None)"

lemma good_new_table: "good_table no_ghost n (new_table block)"
  by (simp add: good_table_def table_ok_def slot_ok_def holders_def sound_def kept_def accounted_def total_space_def
      new_table_def no_ghost_def)

lemma open_cache_inv: "open_cache block index = Inr c \<Longrightarrow> index_fits (h_table c) \<Longrightarrow> cache_inv no_ghost c"
proof -
  assume a: "open_cache block index = Inr c" "index_fits (h_table c)"
  show ?thesis
  proof (cases index)
    case None
    with a(1) have "c = (new_cache block)\<lparr>h_table := new_table block, h_next := 0\<rparr>"
      by (simp add: open_cache_def cache_index_read_def)
    then show ?thesis by (simp add: cache_inv_def good_new_table new_cache_def mega_def)
  next
    case (Some s)
    obtain r t where l: "add_lines 0 (file_lines s) (new_table block) = (r, t)" by fastforce
    with a(1) Some obtain m where r: "r = Inr m" "c = (new_cache block)\<lparr>h_table := t\<lparr>t_new := 0\<rparr>, h_next := m\<rparr>"
      by (cases r) (auto simp: open_cache_def cache_index_read_def)
    with a(2) have "index_fits t" by (simp add: index_fits_def total_space_def)
    from add_lines_good [OF l [unfolded r(1)] good_new_table this] r(2) show ?thesis
      by (simp add: cache_inv_def good_table_def new_cache_def mega_def)
  qed
qed

section \<open>Every operation keeps the invariant\<close>

lemma locked_result:
  assumes "locked act c = (r, c')"
  obtains (taken) "h_mutex c" "c' = c" "r = Inl No_Return"
  | (ran) c1 where "act (c\<lparr>h_mutex := True\<rparr>) = (r, c1)" "h_table c' = h_table c1" "h_next c' = h_next c1" "\<not> h_mutex c"
      "h_total_size c' = h_total_size c1" "h_folder_size c' = h_folder_size c1" "h_gc_buffer c' = h_gc_buffer c1"
  using assms unfolding locked_def by (auto split: if_splits prod.splits sum.splits exn.splits)

lemma keeps_discard [keeps_intros]: "keeps I act \<Longrightarrow> keeps I (discard act)"
  unfolding discard_def by (intro keeps_intros)

lemma keeps_table_new [keeps_intros]: "keeps (good_table gh n) (\<lambda>t. (r, t\<lparr>t_new := k\<rparr>))"
  by (simp add: keeps_def good_table_def)

lemma keeps_settings [keeps_intros]:
  "keeps (cache_inv gh) (\<lambda>c. (r, c\<lparr>h_enabled := b\<rparr>))" "keeps (cache_inv gh) (\<lambda>c. (r, c\<lparr>h_expire_ignored := b\<rparr>))"
  "keeps (cache_inv gh) (\<lambda>c. (r, c\<lparr>h_always_validate := b\<rparr>))" "keeps (cache_inv gh) (\<lambda>c. (r, c\<lparr>h_default_expiration := i\<rparr>))"
  "keeps (cache_inv gh) (\<lambda>c. (r, c\<lparr>h_req_max_age := i\<rparr>))" "keeps (cache_inv gh) (\<lambda>c. (r, c\<lparr>h_max_stale := i\<rparr>))"
  "keeps (cache_inv gh) (\<lambda>c. (r, c\<lparr>h_min_fresh := i\<rparr>))"
  by (simp_all add: keeps_def cache_inv_def)

lemma keeps_delete [keeps_intros]:
  "keeps (good_table gh n) (delete_expired_entries now t)" "keeps (good_table gh n) (delete_by_hits hits)"
  "keeps (good_table gh n) (delete_by_size sz)" "keeps (good_table gh n) (remove_entry_from_cache_table url)"
  "keeps (good_table gh n) delete_all_entries"
  unfolding delete_expired_entries_def delete_by_hits_def delete_by_size_def remove_entry_from_cache_table_def
    delete_all_entries_def
  by (intro keeps_intros)+

lemma keeps_hits_loop [keeps_intros]: "keeps (cache_inv gh) (hits_loop fuel hits)"
proof (induction fuel arbitrary: hits)
  case 0
  show ?case by (simp add: keeps_def)
next
  case (Suc fuel)
  have "keeps (cache_inv gh) (bindS (on_table (delete_by_hits hits)) (\<lambda>_. hits_loop fuel (hits + 1)))"
    by (intro keeps_intros Suc)
  then show ?case by (simp add: keeps_def)
qed

lemma keeps_collection [keeps_intros]: "keeps (cache_inv gh) (perform_garbage_collection fuel env)"
proof -
  have "keeps (cache_inv gh) (expired_gc env)"
    using keeps_on_table [OF keeps_delete(1)] by (simp add: keeps_def expired_gc_def)
  moreover have "keeps (cache_inv gh) too_big_gc"
    using keeps_on_table [OF keeps_delete(3)] by (simp add: keeps_def too_big_gc_def)
  moreover have "keeps (cache_inv gh) (hits_gc fuel)"
    using keeps_hits_loop by (simp add: keeps_def hits_gc_def)
  ultimately show ?thesis unfolding perform_garbage_collection_def by (intro keeps_intros)
qed

lemma keeps_index_write [keeps_intros]: "keeps (cache_inv gh) (cache_index_write env)"
  unfolding cache_index_write_def by (intro keeps_intros)

lemma keeps_collect_and_write: "keeps (cache_inv gh) (bindS (perform_garbage_collection fuel env) (\<lambda>_. cache_index_write env))"
  by (intro keeps_intros)

lemma keeps_updated:
  "keeps (cache_inv gh) act \<Longrightarrow> cache_inv gh c \<Longrightarrow> h_next c' = h_next c \<Longrightarrow> h_table c' = h_table c \<Longrightarrow>
   h_folder_size c' < h_total_size c' - h_gc_buffer c' \<Longrightarrow> cache_inv gh (snd (act c'))"
  by (simp add: keeps_def cache_inv_def)

lemma new_limits: "5 * mega \<le> sz \<Longrightarrow> sz div 10 < sz - sz div 10"
proof -
  assume "5 * mega \<le> sz"
  then have s: "5242880 \<le> unat sz" by (simp add: mega_def word_le_nat_alt)
  have d: "unat (sz div 10) = unat sz div 10" by (simp add: unat_div)
  have "sz div 10 \<le> sz" unfolding word_le_nat_alt d by simp
  then have "unat (sz - sz div 10) = unat sz - unat sz div 10" by (simp add: unat_sub d)
  with s d show ?thesis by (simp add: word_less_nat_alt)
qed

lemma megabytes: "5 \<le> sz \<Longrightarrow> sz < 2 ^ 44 \<Longrightarrow> 5 * mega \<le> sz * mega"
proof -
  assume a: "5 \<le> sz" "sz < 2 ^ 44"
  then have s: "5 \<le> unat sz" "unat sz < 2 ^ 44" by (simp_all add: word_le_nat_alt word_less_nat_alt)
  then have "unat sz * 1048576 < 2 ^ 64" by simp
  then have "unat (sz * mega) = unat sz * 1048576"
    by (simp add: mega_def unat_mult_lem [THEN iffD1])
  with s show ?thesis by (simp add: mega_def word_le_nat_alt)
qed

lemma set_max_size_inv: "cache_inv gh c \<Longrightarrow> sz < 2 ^ 44 \<Longrightarrow> cache_inv gh (snd (set_max_size fuel env sz c))"
proof -
  assume i: "cache_inv gh c" and sz: "sz < 2 ^ 44"
  let ?n = "if sz < 5 then 5 * mega else sz * mega"
  let ?c = "c\<lparr>h_mutex := True, h_total_size := ?n, h_folder_size := ?n div 10, h_gc_buffer := ?n div 10\<rparr>"
  have l: "?n div 10 < ?n - ?n div 10"
    using sz megabytes [of sz] by (intro new_limits) (simp add: not_less)
  have "cache_inv gh (snd (bindS (perform_garbage_collection fuel env) (\<lambda>_. cache_index_write env) ?c))"
    by (rule keeps_updated [OF keeps_collect_and_write i]) (use l in simp_all)
  moreover have "cache_inv gh ?c" using i l by (simp add: cache_inv_def)
  moreover obtain r c' where s: "set_max_size fuel env sz c = (r, c')" by fastforce
  ultimately show ?thesis
    using s [unfolded set_max_size_def] i
    by (elim locked_result) (auto simp: Let_def cache_inv_def simp del: bindS.simps split: if_splits)
qed

lemma keeps_set_size [keeps_intros]: "keeps (cache_inv gh) (set_max_entry_size fuel env sz)"
  unfolding set_max_entry_size_def
proof (rule keeps_locked, rule)
  fix c r c'
  assume i: "cache_inv gh c" and e: "(let new_size = sz * mega in
     if 0 < new_size \<and> new_size < h_total_size c - h_folder_size c
     then (let old_size = h_max_entry_size c; c' = c\<lparr>h_max_entry_size := new_size\<rparr> in
           if new_size < old_size \<and> startGC c'
           then bindS (perform_garbage_collection fuel env) (\<lambda>_. cache_index_write env) c'
           else (Inr (), c'))
     else (Inr (), c)) = (r, c')"
  let ?c = "c\<lparr>h_max_entry_size := sz * mega\<rparr>"
  have c: "cache_inv gh ?c" using i by (simp add: cache_inv_def)
  then have "cache_inv gh (snd (bindS (perform_garbage_collection fuel env) (\<lambda>_. cache_index_write env) ?c))"
    using keeps_collect_and_write by (simp add: keeps_def)
  with c i e show "cache_inv gh c'" by (auto simp: Let_def simp del: bindS.simps split: if_splits)
qed

lemma keeps_cache_control_headers [keeps_intros]: "keeps (cache_inv gh) (cache_control_headers env hs)"
proof (induction hs)
  case (Cons h hs)
  have "keeps (cache_inv gh) (cache_control_header env h)"
    by (auto simp: keeps_def cache_control_header_def result_def Let_def cache_inv_def split: sum.splits)
  then show ?case by (simp del: bindS.simps add: keeps_intros Cons)
qed (simp del: returnS_def add: keeps_intros)

lemma keeps_set_cache_control [keeps_intros]: "keeps (cache_inv gh) (set_cache_control env cc)"
  unfolding set_cache_control_def
  by (rule keeps_locked, rule keepsI, rule keepsD [OF keeps_cache_control_headers]) (simp_all add: cache_inv_def)

lemma keeps_read_entry [keeps_intros]: "keeps (cache_inv gh) (read_entry url f)" "keeps (cache_inv gh) (is_url_in_cache url)"
  unfolding read_entry_def is_url_in_cache_def by (intro keeps_intros)+

lemma keeps_is_url_valid [keeps_intros]: "keeps (cache_inv gh) (is_url_valid env url)"
  unfolding is_url_valid_def
  by (rule keeps_locked, rule keepsI, auto split: if_splits dest: keepsD [OF keeps_read_entry(1)])

lemma keeps_conditional [keeps_intros]: "keeps (cache_inv gh) (get_conditional_request_headers env url)"
  unfolding get_conditional_request_headers_def by (intro keeps_intros)

lemma keeps_purge [keeps_intros]: "keeps (cache_inv gh) purge_cache"
  unfolding purge_cache_def
  by (rule keeps_locked, rule keeps_if_state, intro keeps_intros, intro keeps_intros)

lemma keeps_release: "snd gh body = None \<Longrightarrow> keeps (cache_inv gh) (release_cached_response body)"
  unfolding release_cached_response_def
proof (intro keeps_locked keeps_on_table, rule)
  fix n t r t'
  assume free: "snd gh body = None"
  have erased: "map_of (erase_file body ls) b = map_of ls b" if "snd gh b = Some p" for ls b p
    using that free by (metis map_of_erase option.distinct(1))
  assume g: "good_table gh n t" and u: "uncouple_entry_from_data body t = (r, t')"
  then have ok: "table_ok n None t" "sound gh n t" by (simp_all add: good_table_def)
  show "good_table gh n t'"
  proof (cases "unbound t body")
    case True
    have "sound gh n (t\<lparr>t_locked := (body, None) # erase_file body (t_locked t)\<rparr>)"
      using ok(2) erased free by (intro sound_locked) auto
    with uncouple_unbound [OF ok(1) True] u show ?thesis by (auto simp: good_table_def)
  next
    case False
    then obtain h k where m: "map_of (t_locked t) body = Some (Some (h, k))" by (auto simp: unbound_def)
    obtain r1 t1 where c: "change_entry unlock_read_response h k (t\<lparr>t_locked := erase_file body (t_locked t)\<rparr>) = (r1, t1)"
      by fastforce
    have "sound gh n t1" 
      by (rule change_entry_sound [OF c _ sound_locked [OF ok(2)]], rule unlock_read_file) (use erased in auto)
    moreover have "t' = t1" using u m c by (auto simp: uncouple_entry_from_data_def split: sum.splits if_splits)
    moreover have "table_ok n None t'" using uncouple_ok [OF ok(1) m] u by auto
    ultimately show ?thesis by (simp add: good_table_def)
  qed
qed

text \<open>Updating an entry.\<close>

definition same_frame :: "centry \<Rightarrow> centry \<Rightarrow> bool" where
  "same_frame e e' = (c_id e' = c_id e \<and> c_url e' = c_url e \<and> c_hash e' = c_hash e \<and> c_size e' = c_size e \<and> c_readers e' = c_readers e \<and>
     c_rlock e' = c_rlock e \<and> c_wlock e' = c_wlock e \<and> c_cachename e' = c_cachename e \<and> c_hits e' = c_hits e)"

lemma parse_headers_frame: "same_frame e (snd (parse_headers time sz hs e))"
proof (induction hs arbitrary: e)
  case (Cons h hs)
  have 1: "same_frame e (snd (parse_header time sz h e))"
    by (simp add: parse_header_def same_frame_def set_time_def Let_def split: sum.split)
  obtain r e1 where p: "parse_header time sz h e = (r, e1)" by fastforce
  with 1 Cons.IH [of e1] show ?case by (cases r) (simp_all add: same_frame_def)
qed (simp add: same_frame_def)

lemma calculate_time_frame: "same_frame e (calculate_time e d r n)"
  by (simp add: calculate_time_def same_frame_def Let_def)

lemma update_entry_frame: "update_entry env sz d rt hs e = (r, e') \<Longrightarrow> same_frame e e'"
proof -
  assume u: "update_entry env sz d rt hs e = (r, e')"
  obtain r1 e1 where p: "parse_headers (e_time env) sz hs e = (r1, e1)" by fastforce
  with parse_headers_frame [of e "e_time env" sz hs] have f: "same_frame e e1" by simp
  with u p calculate_time_frame [of e1 d rt "e_now env"] show ?thesis
    by (cases r1) (auto simp: update_entry_def same_frame_def)
qed

lemma unlock_after_update:
  assumes "same_frame e e'" "c_rlock e" "c_wlock e" "c_readers e = 0"
  shows "\<exists>x. unlock_write_response e' = Inr x \<and> lock_ok x \<and> c_readers x = 0 \<and> same_file e x \<and> c_hash x = c_hash e"
    "\<exists>x. unlock_read_response e' = Inr x \<and> lock_ok x \<and> c_readers x = -1 \<and> same_file e x \<and> c_hash x = c_hash e"
  using assms by (simp_all add: same_file_def same_frame_def unlock_write_response_def unlock_read_response_def lock_ok_def)

lemma write_locked_idle:
  assumes "good_table gh n t" "get_write_locked_entry_from_cache_table url t = (Inr (Some e), t1)"
  shows "c_rlock e \<and> c_wlock e \<and> c_readers e = 0"
proof -
  obtain xs e0 ys where s: "t_slots t (get_hash url) = xs @ e0 # ys" "\<not> c_rlock e0" "\<not> c_wlock e0"
    "e = e0\<lparr>c_rlock := True, c_wlock := True\<rparr>"
    using assms(2) by (rule get_write_locked_split)
  with slot_elem [of n None t, OF _ s(1)] assms(1) show ?thesis
    by (auto simp: good_table_def entry_ok_def lock_ok_def split: if_splits)
qed

lemma get_write_unchanged:
  "get_write_locked_entry_from_cache_table url t = (r, t1) \<Longrightarrow> \<forall>e. r \<noteq> Inr (Some e) \<Longrightarrow> t1 = t"
  unfolding get_write_locked_entry_from_cache_table_def using get_entry_unchanged by blast

lemma keeps_update [keeps_intros]: "keeps (cache_inv gh) (update_response env url rt hs)"
  unfolding update_response_def
proof (rule keeps_locked, rule)
  fix c r c'
  assume i: "cache_inv gh c"
  let ?act = "bindS (get_write_locked_entry_from_cache_table url) (\<lambda>r. case r of None \<Rightarrow> throwS (no_entry url)
     | Some e \<Rightarrow>
         (case update_entry env (h_max_entry_size c) (h_default_expiration c) rt hs e of
            (Inr _, e') \<Rightarrow> bindS (change_entry (\<lambda>_. unlock_write_response e') (get_hash url) (c_id e)) (\<lambda>_. returnS ())
          | (Inl ex, e') \<Rightarrow> bindS (change_entry (\<lambda>_. unlock_read_response e') (get_hash url) (c_id e)) (\<lambda>_. throwS ex)))"
  assume u: "on_table ?act c = (r, c')"
  have "keeps (good_table gh n) ?act" for n
  proof
    fix t r t'
    assume g: "good_table gh n t" and a: "?act t = (r, t')"
    obtain r1 t1 where l: "get_write_locked_entry_from_cache_table url t = (r1, t1)" by fastforce
    show "good_table gh n t'"
    proof (cases "\<exists>e. r1 = Inr (Some e)")
      case True
      then obtain e where r1: "r1 = Inr (Some e)" by blast
      note w = write_locked_idle [OF g l [unfolded r1]]
      obtain r2 e' where p: "update_entry env (h_max_entry_size c) (h_default_expiration c) rt hs e = (r2, e')" by fastforce
      note f = update_entry_frame [OF p]
      show ?thesis
      proof (cases r2)
        case (Inl ex)
        from unlock_after_update(2) [OF f] w obtain x where
          x: "unlock_read_response e' = Inr x" "lock_ok x" "c_readers x = -1" "same_file e x" "c_hash x = c_hash e"
          by blast
        from write_locked_update [OF g l [unfolded r1] x(4,5,2), of "\<lambda>_. unlock_read_response e'"] x(1,3) obtain t2 where
          "change_entry (\<lambda>_. unlock_read_response e') (get_hash url) (c_id e) t1 = (Inr x, t2)" "good_table gh n t2" by blast
        with a l r1 p Inl show ?thesis by simp
      next
        case (Inr v)
        from unlock_after_update(1) [OF f] w obtain x where
          x: "unlock_write_response e' = Inr x" "lock_ok x" "c_readers x = 0" "same_file e x" "c_hash x = c_hash e"
          by blast
        from write_locked_update [OF g l [unfolded r1] x(4,5,2), of "\<lambda>_. unlock_write_response e'"] x(1,3) obtain t2 where
          "change_entry (\<lambda>_. unlock_write_response e') (get_hash url) (c_id e) t1 = (Inr x, t2)" "good_table gh n t2" by blast
        with a l r1 p Inr show ?thesis by simp
      qed
    next
      case False
      with get_write_unchanged [OF l] a l g show ?thesis by (cases r1) (auto split: option.splits)
    qed
  qed
  from keepsD [OF keeps_on_table [OF this] i u] show "cache_inv gh c'" .
qed

text \<open>Caching a response.\<close>

lemma shrink_le: "unat (shrink block e current) \<le> unat current"
  by (simp add: shrink_def Let_def not_less unat_sub split: if_splits)

lemma sweep_current_le: "sweep P g block es current = (x, es', current') \<Longrightarrow> unat current' \<le> unat current"
proof (induction P g block es current arbitrary: x es' current' rule: sweep.induct)
  case (2 P guard block e es current)
  show ?case
  proof (cases "P e \<and> guard e = None \<and> (\<exists>c. remove_cache_entry block e current = Inr c)")
    case True
    then obtain c where c: "P e" "guard e = None" "remove_cache_entry block e current = Inr c" by blast
    then have "unat c \<le> unat current"
      using shrink_le [of block e current] by (auto simp: remove_cache_entry_def split: if_splits)
    with 2(1) [OF c] 2(3) c show ?thesis by fastforce
  next
    case False
    with 2(2) 2(3) show ?thesis
      by (cases "P e"; cases "guard e"; cases "remove_cache_entry block e current") (auto split: prod.splits)
  qed
qed simp

lemma remove_entry_result:
  "remove_entry_from_cache_table url t = (r, t') \<Longrightarrow>
   t_block t' = t_block t \<and> t_locked t' = t_locked t \<and> unat (t_current t') \<le> unat (t_current t)"
  by (auto simp: remove_entry_from_cache_table_def sweep_slot_def dest: sweep_current_le split: prod.splits)

lemma get_hash_range: "get_hash url \<in> {0..<cache_table_size}"
proof -
  have "foldl (\<lambda>h c. (h * 3 + int (ord_of c)) mod cache_table_size) h s \<in> {0..<cache_table_size}"
    if "h \<in> {0..<cache_table_size}" for h s
    using that by (induction s arbitrary: h) (auto simp: cache_table_size_def)
  then show ?thesis by (simp add: get_hash_def cache_table_size_def)
qed

lemma response_entry_result:
  assumes "response_entry env sz d n url rt hs = Inr (Some e)"
  shows "c_id e = n" "c_url e = url" "c_hash e = get_hash url" "c_readers e = 0" "c_rlock e" "c_wlock e" "c_hits e = 0"
    "\<exists>bytes. e_body env = Inr bytes \<and> c_size e = scast bytes"
proof -
  let ?e0 = "(new_entry n url)\<lparr>c_rlock := True, c_wlock := True\<rparr>"
  have l: "lock_write_response (new_entry n url) = Inr ?e0" by (simp add: lock_write_response_def new_entry_def)
  obtain r e1 where p: "parse_headers (e_time env) sz hs ?e0 = (r, e1)" by fastforce
  with parse_headers_frame [of ?e0 "e_time env" sz hs] have f: "same_frame ?e0 e1" by simp
  note f2 = calculate_time_frame [of e1 d rt "e_now env"]
  obtain name bytes where "e_body env = Inr bytes"
    "e = (calculate_time e1 d rt (e_now env))\<lparr>c_cachename := name, c_size := scast bytes\<rparr>"
    using assms l p by (cases r) (auto simp: response_entry_def unlock_write_response_def Let_def split: if_splits)
  with f f2 show "c_id e = n" "c_url e = url" "c_hash e = get_hash url" "c_readers e = 0" "c_rlock e" "c_wlock e" "c_hits e = 0"
    "\<exists>bytes. e_body env = Inr bytes \<and> c_size e = scast bytes"
    by (auto simp: same_frame_def new_entry_def)
qed

lemma add_response:
  assumes "good_table gh n t" "c_id e = n" "c_hash e = h" "h \<in> {0..<cache_table_size}" "c_readers e = 0" "c_rlock e" "c_wlock e"
    "entry_space (t_block t) e < 2 ^ 31" "unat (t_current t) + entry_space (t_block t) e < 2 ^ 64"
  shows "\<exists>t1 e' t2. add_entry_to_cache_table e t = (Inr (), t1) \<and>
     change_entry unlock_write_response h n t1 = (Inr e', t2) \<and> good_table gh (Suc n) t2 \<and>
     e' = e\<lparr>c_rlock := False, c_wlock := False\<rparr> \<and> t_slots t2 = (t_slots t)(h := t_slots t h @ [e'])"
proof -
  let ?e = "e\<lparr>c_rlock := False, c_wlock := False\<rparr>"
  let ?c = "t_current t + scast (entry_disk_space (c_size e) (t_block t))"
  let ?t1 = "t\<lparr>t_slots := (t_slots t)(h := t_slots t h @ [e]), t_current := ?c, t_new := s32 (t_new t + 1)\<rparr>"
  let ?t2 = "t\<lparr>t_slots := (t_slots t)(h := t_slots t h @ [?e]), t_current := ?c, t_new := s32 (t_new t + 1)\<rparr>"
  have ok: "table_ok n None t" "sound gh n t" using assms(1) by (simp_all add: good_table_def)
  have a: "add_entry_to_cache_table e t = (Inr (), ?t1)" using add_entry_result [OF assms(3,4)] .
  have ids: "\<forall>x \<in> set (t_slots t h). c_id x < n"
  proof -
    have "slot_ok n (t_locked t) None h (t_slots t h)" using ok(1) unfolding table_ok_def by blast
    then show ?thesis unfolding slot_ok_def entry_ok_def by blast
  qed
  have d: "distinct (map c_id (t_slots ?t1 h))"
    using table_ok_distinct [OF ok(1), of h] ids assms(2) by auto
  have c: "change_entry unlock_write_response h n ?t1 = (Inr ?e, ?t2)"
    using change_entry_split [OF _ d assms(2), of "t_slots t h" "[]" unlock_write_response] assms(6,7)
    by (simp add: unlock_write_response_def)
  have "table_ok (Suc n) None (t\<lparr>t_slots := (t_slots t)(h := t_slots t h @ [?e])\<rparr>)"
    using assms by (intro table_ok_append [OF ok(1)]) (simp_all add: lock_ok_def)
  then have "table_ok (Suc n) None ?t2" by (simp add: table_ok_def)
  moreover have "sound gh (Suc n) ?t2"
    using sound_append [OF ok(2) assms(4), of ?e "s32 (t_new t + 1)"] assms(2,8,9) by (simp add: entry_space_def)
  ultimately have g: "good_table gh (Suc n) ?t2" by (simp add: good_table_def)
  show ?thesis
    by (rule exI [of _ ?t1], rule exI [of _ ?e], rule exI [of _ ?t2]) (simp add: a c g)
qed

lemma keeps_dump [keeps_intros]: "keeps (cache_inv gh) (dump_index fuel env)"
proof -
  have "keeps (cache_inv gh) (bindS (\<lambda>c. if startGC c then perform_garbage_collection fuel env c else (Inr (), c))
             (\<lambda>_. cache_index_write env))"
    by (intro keeps_intros)
  then show ?thesis by (simp add: keeps_def dump_index_def del: bindS.simps)
qed

lemma body_fits_mono:
  "body_fits env c \<Longrightarrow> t_block (h_table c') = t_block (h_table c) \<Longrightarrow>
   unat (t_current (h_table c')) \<le> unat (t_current (h_table c)) \<Longrightarrow> body_fits env c'"
  by (auto simp: body_fits_def Let_def split: sum.splits)

text \<open>What \<open>cache_response\<close> does once the entry for the URL is gone, inside the interface lock.\<close>

definition store_response :: "nat \<Rightarrow> env \<Rightarrow> string \<Rightarrow> int \<Rightarrow> string list \<Rightarrow> (hcache, bool) action" where
  "store_response fuel env url request_time headers = bindS fresh_id (\<lambda>n c.
     case response_entry env (h_max_entry_size c) (h_default_expiration c) n url request_time headers of
       Inl ex \<Rightarrow> (Inl ex, c)
     | Inr None \<Rightarrow> (Inr False, c)
     | Inr (Some e) \<Rightarrow>
         bindS (on_table (add_entry_to_cache_table e)) (\<lambda>_.
         bindS (on_table (change_entry unlock_write_response (c_hash e) n)) (\<lambda>_.
         bindS (dump_index fuel env) (\<lambda>_. returnS True))) c)"

lemma store_response_cases:
  assumes "cache_inv gh c" "body_fits env c"
  obtains (fails) ex where "\<And>fuel. store_response fuel env url rt hs c = (Inl ex, c\<lparr>h_next := Suc (h_next c)\<rparr>)"
      "response_entry env (h_max_entry_size c) (h_default_expiration c) (h_next c) url rt hs = Inl ex"
  | (rejects) "\<And>fuel. store_response fuel env url rt hs c = (Inr False, c\<lparr>h_next := Suc (h_next c)\<rparr>)"
  | (stores) e t where "response_entry env (h_max_entry_size c) (h_default_expiration c) (h_next c) url rt hs = Inr (Some e)"
      "good_table gh (Suc (h_next c)) t" "t_slots t = (t_slots (h_table c))(get_hash url :=
         t_slots (h_table c) (get_hash url) @ [e\<lparr>c_rlock := False, c_wlock := False\<rparr>])"
      "\<And>fuel. store_response fuel env url rt hs c = bindS (dump_index fuel env) (\<lambda>_. returnS True) (c\<lparr>h_next := Suc (h_next c), h_table := t\<rparr>)"
proof -
  let ?r = "response_entry env (h_max_entry_size c) (h_default_expiration c) (h_next c) url rt hs"
  show thesis
  proof (cases ?r)
    case (Inl ex)
    with fails show thesis by (simp add: store_response_def fresh_id_def)
  next
    case (Inr o1)
    show thesis
    proof (cases o1)
      case None
      with Inr rejects show thesis by (simp add: store_response_def fresh_id_def)
    next
      case (Some e)
      with Inr have re: "?r = Inr (Some e)" by simp
      note e = response_entry_result [OF re]
      from e(8) obtain bytes where b: "e_body env = Inr bytes" "c_size e = scast bytes" by blast
      have sp: "entry_space (t_block (h_table c)) e < 2 ^ 31"
        "unat (t_current (h_table c)) + entry_space (t_block (h_table c)) e < 2 ^ 64"
        using assms(2) b by (simp_all add: body_fits_def entry_space_def Let_def)
      have "good_table gh (h_next c) (h_table c)" using assms(1) by (simp add: cache_inv_def)
      from add_response [OF this e(1,3) get_hash_range e(4,5,6) sp]
      obtain t1 t2 where t: "add_entry_to_cache_table e (h_table c) = (Inr (), t1)"
        "change_entry unlock_write_response (get_hash url) (h_next c) t1 = (Inr (e\<lparr>c_rlock := False, c_wlock := False\<rparr>), t2)"
        "good_table gh (Suc (h_next c)) t2"
        "t_slots t2 = (t_slots (h_table c))(get_hash url := t_slots (h_table c) (get_hash url) @ [e\<lparr>c_rlock := False, c_wlock := False\<rparr>])"
        by blast
      have "store_response fuel env url rt hs c =
          bindS (dump_index fuel env) (\<lambda>_. returnS True) (c\<lparr>h_next := Suc (h_next c), h_table := t2\<rparr>)" for fuel
        by (simp add: store_response_def fresh_id_def re on_table_def t e(3))
      from stores [OF re t(3,4) this] show thesis .
    qed
  qed
qed

lemma store_response_inv:
  assumes "cache_inv gh c" "body_fits env c" "store_response fuel env url rt hs c = (r, c')"
  shows "cache_inv gh c'"
proof -
  have next_ok: "cache_inv gh (c\<lparr>h_next := Suc (h_next c)\<rparr>)"
    using assms(1) table_ok_mono [of "h_next c" None "h_table c" "Suc (h_next c)"] by (simp add: cache_inv_def good_table_def sound_def kept_def)
  from assms(1,2) show ?thesis
  proof (cases rule: store_response_cases [where url = url and rt = rt and hs = hs])
    case (fails ex)
    with assms(3) next_ok show ?thesis by simp
  next
    case rejects
    with assms(3) next_ok show ?thesis by simp
  next
    case (stores e t)
    have "keeps (cache_inv gh) (bindS (dump_index fuel env) (\<lambda>_. returnS True))" by (intro keeps_intros)
    moreover have "cache_inv gh (c\<lparr>h_next := Suc (h_next c), h_table := t\<rparr>)" using stores(2) assms(1) by (simp add: cache_inv_def)
    moreover have "bindS (dump_index fuel env) (\<lambda>_. returnS True) (c\<lparr>h_next := Suc (h_next c), h_table := t\<rparr>) = (r, c')"
      using assms(3) stores(4) by simp
    ultimately show ?thesis by (rule keepsD)
  qed
qed

lemma cache_response_unfold:
  "cache_response fuel env url rt hs = locked (
     if str_find ''http:'' url 0 = None \<and> str_find ''https:'' url 0 = None then returnS False
     else bindS (on_table (remove_entry_from_cache_table url)) (\<lambda>_. store_response fuel env url rt hs))"
  by (simp only: cache_response_def store_response_def)

lemma cache_response_inv:
  assumes "cache_inv gh c" "body_fits env c" "cache_response fuel env url rt hs c = (r, c')"
  shows "cache_inv gh c'"
  using assms(3) [unfolded cache_response_unfold]
proof (cases rule: locked_result)
  case (ran c1)
  let ?c = "c\<lparr>h_mutex := True\<rparr>"
  have i: "cache_inv gh ?c" using assms(1) by (simp add: cache_inv_def)
  have b: "body_fits env ?c" by (rule body_fits_mono [OF assms(2)]) simp_all
  have "cache_inv gh c1"
  proof (cases "str_find ''http:'' url 0 = None \<and> str_find ''https:'' url 0 = None")
    case True
    with ran(1) i show ?thesis by auto
  next
    case False
    obtain r1 t where t: "remove_entry_from_cache_table url (h_table c) = (r1, t)" by fastforce
    have "good_table gh (h_next c) t"
      using keepsD [OF keeps_delete(4) _ t] i by (simp add: cache_inv_def)
    then have i2: "cache_inv gh (?c\<lparr>h_table := t\<rparr>)" using i by (simp add: cache_inv_def)
    have b2: "body_fits env (?c\<lparr>h_table := t\<rparr>)"
      by (rule body_fits_mono [OF b]) (use remove_entry_result [OF t] in simp_all)
    show ?thesis
    proof (cases r1)
      case (Inl ex)
      have "c1 = ?c\<lparr>h_table := t\<rparr>" using ran(1) False t Inl by (auto simp: on_table_def)
      with i2 show ?thesis by simp
    next
      case (Inr u)
      have "store_response fuel env url rt hs (?c\<lparr>h_table := t\<rparr>) = (r, c1)"
        using ran(1) False t Inr by (auto simp: on_table_def)
      then show ?thesis by (rule store_response_inv [OF i2 b2])
    qed
  qed
  with ran(2,3,5-7) show ?thesis by (simp add: cache_inv_def)
qed (use assms in simp)

text \<open>Handing out a response.\<close>

lemma get_cached_response_table:
  assumes "good_table gh n t" "\<forall>b. e_open env = Inr b \<longrightarrow> unbound t b"
    "bindS (get_locked_entry_from_cache_table url) (\<lambda>r. case r of
       None \<Rightarrow> returnS None
     | Some e \<Rightarrow>
         (\<lambda>t. case bindE (e_read_meta env) read_metadata of
            Inl ex \<Rightarrow> (Inl ex, t)
          | Inr headers \<Rightarrow>
              (case e_open env of
                 Inl ex \<Rightarrow> (Inl ex, t)
               | Inr body \<Rightarrow>
                   bindS (bind_entry_to_data (get_hash url) (c_id e) body)
                     (\<lambda>_. returnS (Some (body, headers, c_cachename e))) t))) t = (r, t')"
  shows "good_table gh n t'" "\<And>b p. unbound t b \<Longrightarrow> map_of (t_locked t') b = Some (Some p) \<Longrightarrow> e_open env = Inr b"
proof -
  obtain r1 t1 where l: "get_locked_entry_from_cache_table url t = (r1, t1)" by fastforce
  have ok: "table_ok n None t" "sound gh n t" using assms(1) by (simp_all add: good_table_def)
  note a1 = get_locked_sound [OF ok(1) l ok(2)]
  have "good_table gh n t' \<and> (\<forall>b p. unbound t b \<longrightarrow> map_of (t_locked t') b = Some (Some p) \<longrightarrow> e_open env = Inr b)"
  proof (cases "\<exists>e. r1 = Inr (Some e)")
    case True
    then obtain e where r1: "r1 = Inr (Some e)" by blast
    note held = get_locked_entry_ok(1,2) [OF ok(1) l [unfolded r1]]
    have g1: "good_table gh n t1" using table_ok_weaken [OF held(1)] a1 by (simp add: good_table_def)
    show ?thesis
    proof (cases "\<exists>hs b. bindE (e_read_meta env) read_metadata = Inr hs \<and> e_open env = Inr b")
      case False
      then have "t' = t1" using assms(3) l r1 by (auto split: sum.splits)
      with g1 held(2) show ?thesis by (auto simp: unbound_def)
    next
      case True
      then obtain hs b where b: "bindE (e_read_meta env) read_metadata = Inr hs" "e_open env = Inr b" by blast
      have u: "unbound t1 b" using assms(2) b(2) held(2) by (simp add: unbound_def)
      from bind_entry_ok [OF held(1) u] obtain t2 where
        t2: "bind_entry_to_data (get_hash url) (c_id e) b t1 = (Inr (), t2)" "table_ok n None t2"
          "map_of (t_locked t2) b = Some (Some (get_hash url, c_id e))"
          "\<forall>b'. b' \<noteq> b \<longrightarrow> map_of (t_locked t2) b' = map_of (t_locked t1) b'" by blast
      have "t' = t2" using assms(3) l r1 b t2(1) by (auto simp del: bindE_eq_Inr)
      moreover have "sound gh n t2"
      proof -
        obtain r3 t3 where c: "change_entry (\<lambda>e. Inr (e\<lparr>c_hits := s32 (c_hits e + 1)\<rparr>)) (get_hash url) (c_id e) t1 = (r3, t3)"
          by fastforce
        have "sound gh n t3" by (rule change_entry_sound [OF c _ a1]) (auto simp: same_file_def)
        moreover have "t_locked t3 = t_locked t1" using c by (auto simp: change_entry_def split: sum.splits)
        moreover have "map_of ((b, v) # erase_file b (t_locked t1)) b' = map_of (t_locked t1) b'" if "snd gh b' = Some p" for b' p v
        proof -
          have "map_of (t_locked t1) b' = Some (Some p)" using that a1 unfolding sound_def kept_def by blast
          then have "b' \<noteq> b" using u unfolding unbound_def by metis
          then show ?thesis by (simp add: map_of_erase)
        qed
        ultimately have "sound gh n (t3\<lparr>t_locked := (b, Some (get_hash url, c_id e)) # erase_file b (t_locked t1)\<rparr>)"
          by (intro sound_locked) auto
        with t2(1) c \<open>t_locked t3 = t_locked t1\<close> show ?thesis by (cases r3) (auto simp: bind_entry_to_data_def)
      qed
      ultimately show ?thesis using t2 b(2) held(2) by (auto simp: good_table_def unbound_def)
    qed
  next
    case False
    have "t1 = t" using get_entry_unchanged [OF l [unfolded get_locked_entry_from_cache_table_def] False [simplified]] .
    with assms l False show ?thesis by (cases r1) (auto simp: unbound_def split: option.splits)
  qed
  then show "good_table gh n t'" "\<And>b p. unbound t b \<Longrightarrow> map_of (t_locked t') b = Some (Some p) \<Longrightarrow> e_open env = Inr b" by blast+
qed

lemma get_cached_response_inv:
  assumes "cache_inv gh c" "opens_unbound env c" "get_cached_response env url c = (r, c')"
  shows "cache_inv gh c'"
  using assms(3) [unfolded get_cached_response_def]
proof (cases rule: locked_result)
  case (ran c1)
  have u: "\<forall>b. e_open env = Inr b \<longrightarrow> unbound (h_table c) b" using assms(2) by (auto simp: opens_unbound_def)
  have g: "good_table gh (h_next c) (h_table c)" using assms(1) by (simp add: cache_inv_def)
  show ?thesis
    using assms(1) ran get_cached_response_table(1) [OF g u, of url]
    by (fastforce simp: on_table_def cache_inv_def simp del: bindS.simps split: prod.splits)
qed (use assms in simp)

lemma discard_state: "snd (discard act s) = snd (act s)"
  by (simp add: discard_def split: prod.split sum.split)

lemma run_op_inv:
  assumes "cache_inv gh c" "allowed op c" "\<And>b. op = Release b \<Longrightarrow> snd gh b = None"
  shows "cache_inv gh (snd (run_op fuel op c))"
proof -
  have k: "cache_inv gh (snd (act c))" if "keeps (cache_inv gh) act" for act :: "(hcache, 'a) action"
    using assms(1) that by (simp add: keeps_def)
  show ?thesis
  proof (cases op)
    case (Cache_Response env url rt hs)
    with assms(2) cache_response_inv [OF assms(1), of env fuel url rt hs] show ?thesis
      by (cases "cache_response fuel env url rt hs c") (simp add: discard_state)
  next
    case (Get_Response env url)
    with assms(2) get_cached_response_inv [OF assms(1), of env url] show ?thesis
      by (cases "get_cached_response env url c") (simp add: discard_state)
  next
    case (Set_Max_Size env sz)
    with assms(2) set_max_size_inv [OF assms(1)] show ?thesis by simp
  next
    case (Release b)
    with k [OF keeps_release [OF assms(3)]] show ?thesis by simp
  next
    case (Set_Enabled mode)
    have "keeps (cache_inv gh) (set_cache_enabled mode)" unfolding set_cache_enabled_def by (intro keeps_intros)
    with k Set_Enabled show ?thesis by simp
  next
    case (Set_Expire_Ignored mode)
    have "keeps (cache_inv gh) (set_expire_ignored mode)" unfolding set_expire_ignored_def by (intro keeps_intros)
    with k Set_Expire_Ignored show ?thesis by simp
  next
    case (Set_Always_Validate mode)
    have "keeps (cache_inv gh) (\<lambda>c. (Inr (), c\<lparr>h_always_validate := mode\<rparr>))" by (intro keeps_intros)
    from k [OF this] Set_Always_Validate show ?thesis by (simp add: set_always_validate_def)
  next
    case (Set_Default_Expiration t)
    have "keeps (cache_inv gh) (set_default_expiration t)" unfolding set_default_expiration_def by (intro keeps_intros)
    with k Set_Default_Expiration show ?thesis by simp
  qed (simp_all add: discard_state k keeps_intros)
qed

lemma cache_reach_inv: "cache_reach c \<Longrightarrow> cache_inv no_ghost c"
proof (induction rule: cache_reach.induct)
  case (step c op fuel r c')
  then show ?case using run_op_inv [of no_ghost c op fuel] by (simp add: no_ghost_def)
qed (rule open_cache_inv)

end
