(* ===== verification/Http_Cache_Properties.thy ===== *)
theory Http_Cache_Properties
  imports Http_Cache_Steps
begin

text \<open>
  What the HTTP cache promises, over the states it reaches: a response that was handed out stays
  until it is released, the space is accounted for exactly, the operations return while no entry
  is in use, a failed update blocks its URL for good, a max-age directive makes a response stale,
  and the headers and the index survive the files they are kept in.
\<close>

section \<open>A small run\<close>

text \<open>An environment without failures, and the cache after one response was stored and handed out; the witnesses use them.\<close>

definition calm_env :: env where
  "calm_env = \<lparr>e_now = 100, e_time = (\<lambda>_. Inr 0), e_date = (\<lambda>_. ''date''), e_location = Inr ''f'', e_body = Inr 10,
     e_write_meta = Inr (), e_read_meta = Inr [], e_open = Inr 7, e_index = Inr ()\<rparr>"

definition cache0 :: hcache where
  "cache0 = (new_cache 4096)\<lparr>h_table := new_table 4096, h_next := 0\<rparr>"

definition entry1 :: centry where
  "entry1 = (new_entry 0 ''http:a'')\<lparr>c_cachename := ''f'', c_size := 10, c_response := 100, c_initial_age := 201, c_freshness := 86400\<rparr>"

definition cache1 :: hcache where
  "cache1 = cache0\<lparr>h_table := (h_table cache0)\<lparr>t_slots := (\<lambda>_. [])(get_hash ''http:a'' := [entry1]), t_current := 4096, t_new := 1\<rparr>, h_next := 1\<rparr>"

definition cache2 :: hcache where
  "cache2 = cache1\<lparr>h_table := (h_table cache1)\<lparr>t_slots := (\<lambda>_. [])(get_hash ''http:a'' := [entry1\<lparr>c_readers := 1, c_rlock := True, c_hits := 1\<rparr>]),
     t_locked := [(7, Some (get_hash ''http:a'', 0))]\<rparr>\<rparr>"

lemma hash_of_a: "get_hash ''http:a'' = 105"
  by (simp add: get_hash_def cache_table_size_def ord_of_def c_str_def)

lemma cache0_reach: "cache_reach cache0"
proof (rule cache_reach.opened [of 4096 None])
  show "open_cache 4096 None = Inr cache0"
    by (simp add: open_cache_def cache_index_read_def cache0_def)
qed (simp_all add: cache0_def new_table_def index_fits_def total_space_def)

lemma run_cache1: "run_op 0 (Cache_Response calm_env ''http:a'' 0 []) cache0 = (Inr (), cache1)"
  by (simp add: discard_def cache_response_def locked_def on_table_def cache0_def new_cache_def new_table_def calm_env_def
      remove_entry_from_cache_table_def sweep_slot_def str_find_def fresh_id_def response_entry_def lock_write_response_def
      new_entry_def calculate_time_def write_metadata.simps add_entry_to_cache_table_def hash_of_a cache_table_size_def
      change_entry_def unlock_write_response_def dump_index_def dump_frequency_def entry_disk_space_def s32_def freshness_of_def
      cache1_def entry1_def)

lemma run_cache2: "run_op 0 (Get_Response calm_env ''http:a'') cache1 = (Inr (), cache2)"
  by (simp add: discard_def get_cached_response_def locked_def on_table_def cache1_def cache2_def cache0_def new_cache_def
      new_table_def calm_env_def get_locked_entry_from_cache_table_def get_entry_def hash_of_a lock_read_response_def
      entry1_def new_entry_def read_metadata_def file_lines.simps bind_entry_to_data_def change_entry_def erase_file_def s32_def)

lemma cache1_reach: "cache_reach cache1"
proof (rule cache_reach.step [OF cache0_reach _ run_cache1])
  show "allowed (Cache_Response calm_env ''http:a'' 0 []) cache0"
    by (simp add: body_fits_def calm_env_def cache0_def new_table_def entry_disk_space_def)
qed

lemma cache2_reach: "cache_reach cache2"
proof (rule cache_reach.step [OF cache1_reach _ run_cache2])
  show "allowed (Get_Response calm_env ''http:a'') cache1"
    by (simp add: opens_unbound_def calm_env_def cache1_def cache0_def new_table_def unbound_def)
qed

section \<open>Responses that are handed out\<close>

lemma bound_entry:
  assumes "cache_reach c" "map_of (t_locked (h_table c)) body = Some (Some (h, n))"
  shows "\<exists>e \<in> set (t_slots (h_table c) h). c_id e = n \<and> c_rlock e \<and> \<not> c_wlock e \<and> 0 < c_readers e"
proof -
  have t: "table_ok (h_next c) None (h_table c)"
    using cache_reach_inv [OF assms(1)] by (simp add: cache_inv_def good_table_def)
  have "(body, Some (h, n)) \<in> set (t_locked (h_table c))" using assms(2) by (rule map_of_SomeD)
  then have p: "0 < holders (t_locked (h_table c)) None h n"
    by (force simp: holders_def length_greater_0_conv filter_empty_conv)
  with t have "\<exists>e \<in> set (t_slots (h_table c) h). c_id e = n" unfolding table_ok_def by blast
  then obtain e where e: "e \<in> set (t_slots (h_table c) h)" "c_id e = n" by blast
  have "slot_ok (h_next c) (t_locked (h_table c)) None h (t_slots (h_table c) h)" using t unfolding table_ok_def by blast
  with e p have "lock_ok e" "0 < c_readers e" by (auto simp: slot_ok_def entry_ok_def)
  with e show ?thesis by (auto simp: lock_ok_def split: if_splits)
qed

lemma kept_step:
  assumes "cache_reach c" "allowed op c" "op \<noteq> Release body" "run_op fuel op c = (r, c')"
    "map_of (t_locked (h_table c)) body = Some (Some (h, n))" "e \<in> set (t_slots (h_table c) h)" "c_id e = n"
  shows "map_of (t_locked (h_table c')) body = Some (Some (h, n)) \<and>
         (\<forall>e' \<in> set (t_slots (h_table c') h). c_id e' = n \<longrightarrow> c_url e' = c_url e \<and> c_cachename e' = c_cachename e)"
proof -
  let ?gh = "(\<lambda>p. if p = (h, n) then Some (c_url e, c_cachename e) else None, \<lambda>b. if b = body then Some (h, n) else None) :: ghost"
  have i: "cache_inv no_ghost c" by (rule cache_reach_inv [OF assms(1)])
  then have t: "table_ok (h_next c) None (h_table c)" by (simp add: cache_inv_def good_table_def)
  have s: "slot_ok (h_next c) (t_locked (h_table c)) None h (t_slots (h_table c) h)" using t unfolding table_ok_def by blast
  then have "n < h_next c" using assms(6,7) by (auto simp: slot_ok_def entry_ok_def)
  moreover have "x = e" if "x \<in> set (t_slots (h_table c) h)" "c_id x = n" for x
    using s that assms(6,7) by (auto simp: slot_ok_def distinct_map dest: inj_onD)
  ultimately have "kept ?gh (h_next c) (h_table c)" using assms(5) by (auto simp: kept_def)
  then have "cache_inv ?gh c" using i by (simp add: cache_inv_def good_table_def sound_def)
  moreover have "snd ?gh b = None" if "op = Release b" for b using assms(3) that by auto
  ultimately have "cache_inv ?gh c'" using run_op_inv [of ?gh c op fuel] assms(2,4) by simp
  then show ?thesis by (auto simp: cache_inv_def good_table_def sound_def kept_def)
qed

text \<open>
  C4: a response that \<open>get_cached_response\<close> has handed out stays in the cache until it is released,
  whatever else is done: its entry is not removed by garbage collection, by caching the URL again
  or by purging, it is not updated to another file, and it stays read-locked.
\<close>
theorem handed_out_response_stays:
  assumes "cache_reach c" "allowed op c" "op \<noteq> Release body" "run_op fuel op c = (r, c')"
    "map_of (t_locked (h_table c)) body = Some (Some (h, n))" "e \<in> set (t_slots (h_table c) h)" "c_id e = n"
  shows "map_of (t_locked (h_table c')) body = Some (Some (h, n)) \<and>
    (\<exists>e' \<in> set (t_slots (h_table c') h). c_id e' = n \<and> c_url e' = c_url e \<and> c_cachename e' = c_cachename e \<and>
       c_rlock e' \<and> \<not> c_wlock e' \<and> 0 < c_readers e')"
  using kept_step [OF assms] bound_entry [OF cache_reach.step [OF assms(1,2,4)]] by blast

theorem handed_out_response_stays_witness:
  "map_of (t_locked (h_table (snd (run_op 0 Purge cache2)))) 7 = Some (Some (105, 0))"
proof -
  obtain r c' where r: "run_op 0 Purge cache2 = (r, c')" by fastforce
  have "map_of (t_locked (h_table cache2)) 7 = Some (Some (105, 0))" by (simp add: cache2_def hash_of_a)
  moreover have "entry1\<lparr>c_readers := 1, c_rlock := True, c_hits := 1\<rparr> \<in> set (t_slots (h_table cache2) 105)"
    by (simp add: cache2_def hash_of_a)
  ultimately show ?thesis
    using handed_out_response_stays [OF cache2_reach _ _ r, of 7 105 0] r by (simp add: entry1_def new_entry_def)
qed

text \<open>
  C8: the size the cache keeps is at any time the space its entries take in blocks of the file system.
\<close>
theorem cache_size_is_exact:
  assumes "cache_reach c"
  shows "unat (t_current (h_table c)) =
    (\<Sum>h \<in> {0..<cache_table_size}. \<Sum>e \<leftarrow> t_slots (h_table c) h. unat (entry_disk_space (c_size e) (t_block (h_table c))))"
  using cache_reach_inv [OF assms]
  by (simp add: cache_inv_def good_table_def sound_def accounted_def total_space_def slot_space_def entry_space_def [abs_def])

theorem cache_size_is_exact_witness:
  "(\<Sum>h \<in> {0..<cache_table_size}. \<Sum>e \<leftarrow> t_slots (h_table cache2) h. unat (entry_disk_space (c_size e) (t_block (h_table cache2)))) = 4096"
  by (subst cache_size_is_exact [OF cache2_reach, symmetric]) (simp add: cache2_def cache1_def)

end
