(* ===== verification/Http_Cache_Return.thy ===== *)
theory Http_Cache_Return
  imports Http_Cache_Properties
begin

text \<open>
  When the operations of the HTTP cache return.  While no entry is in use none of them waits for a
  lock and the garbage collection ends; a failed update leaves an entry for which every further
  operation waits forever, and so does a collection that an entry in use keeps from its goal.
\<close>

section \<open>Operations that return\<close>

definition returns :: "('s, 'a) action \<Rightarrow> 's \<Rightarrow> bool" where
  "returns act s = (fst (act s) \<noteq> Inl No_Return)"

definition idle :: "ctable \<Rightarrow> bool" where
  "idle t = (\<forall>h. \<forall>e \<in> set (t_slots t h). c_readers e = 0)"

text \<open>None of the results of the environment is that it does not return.\<close>

definition responsive :: "env \<Rightarrow> bool" where
  "responsive env = ((\<forall>s. e_time env s \<noteq> Inl No_Return) \<and> e_location env \<noteq> Inl No_Return \<and> e_body env \<noteq> Inl No_Return \<and>
     e_write_meta env \<noteq> Inl No_Return \<and> e_read_meta env \<noteq> Inl No_Return \<and> e_open env \<noteq> Inl No_Return \<and>
     e_index env \<noteq> Inl No_Return)"

primrec op_env :: "cache_op \<Rightarrow> env option" where
  "op_env (Cache_Response env url time headers) = Some env"
| "op_env (Update_Response env url time headers) = Some env"
| "op_env (Get_Response env url) = Some env"
| "op_env (Release body) = None"
| "op_env Purge = None"
| "op_env (Url_Valid env url) = Some env"
| "op_env (Url_In_Cache url) = None"
| "op_env (Conditional_Headers env url) = Some env"
| "op_env (Set_Max_Size env sz) = Some env"
| "op_env (Set_Max_Entry_Size env sz) = Some env"
| "op_env (Set_Cache_Control env headers) = Some env"
| "op_env (Set_Enabled mode) = None"
| "op_env (Set_Expire_Ignored mode) = None"
| "op_env (Set_Always_Validate mode) = None"
| "op_env (Set_Default_Expiration t) = None"

named_theorems returns_intros

lemma returns_basic [returns_intros]: "returns (returnS x) s" "returns (\<lambda>s. (Inr x, s)) s"
  by (simp_all add: returns_def)

lemma returns_throw [returns_intros]: "ex \<noteq> No_Return \<Longrightarrow> returns (throwS ex) s"
  by (simp add: returns_def)

lemma returns_result [returns_intros]: "r \<noteq> Inl No_Return \<Longrightarrow> returns (result r) s"
  by (simp add: returns_def result_def)

lemma returns_bind: "returns m s \<Longrightarrow> (\<And>x s'. m s = (Inr x, s') \<Longrightarrow> returns (f x) s') \<Longrightarrow> returns (bindS m f) s"
  by (auto simp: returns_def split: prod.splits sum.splits)

lemma returns_on_table [returns_intros]: "returns act (h_table c) \<Longrightarrow> returns (on_table act) c"
  by (auto simp: returns_def on_table_def split: prod.splits)

lemma returns_locked: "\<not> h_mutex c \<Longrightarrow> returns act (c\<lparr>h_mutex := True\<rparr>) \<Longrightarrow> returns (locked act) c"
  by (auto simp: returns_def locked_def split: prod.splits sum.splits exn.splits)

lemma returns_at: "returns (act s) s \<Longrightarrow> returns (\<lambda>s. act s s) s"
  by (simp add: returns_def)

lemma returns_discard [returns_intros]: "returns act s \<Longrightarrow> returns (discard act) s"
  by (auto simp: discard_def intro: returns_bind returns_intros)

section \<open>Entries that are not in use\<close>

lemma idle_free: "table_ok n X t \<Longrightarrow> idle t \<Longrightarrow> e \<in> set (t_slots t h) \<Longrightarrow> \<not> c_rlock e \<and> \<not> c_wlock e \<and> c_readers e = 0"
proof -
  assume a: "table_ok n X t" "idle t" "e \<in> set (t_slots t h)"
  have "slot_ok n (t_locked t) X h (t_slots t h)" using a(1) unfolding table_ok_def by blast
  with a(2,3) show ?thesis by (auto simp: slot_ok_def entry_ok_def lock_ok_def idle_def)
qed

lemma lock_first_free:
  "\<forall>e \<in> set es. \<exists>e'. lock e = Inr e' \<Longrightarrow> \<exists>r es'. lock_first lock url es = Inr (r, es')"
proof (induction es)
  case (Cons e es)
  then obtain r es' where "lock_first lock url es = Inr (r, es')" by auto
  moreover from Cons obtain e' where "lock e = Inr e'" by auto
  ultimately show ?case by simp
qed simp

lemma returns_get_entry:
  "(\<And>e. e \<in> set (t_slots t h) \<Longrightarrow> \<exists>e'. lock e = Inr e') \<Longrightarrow> returns (get_entry lock h url) t"
  using lock_first_free [of "t_slots t h" lock url] by (auto simp: returns_def get_entry_def)

lemma returns_locks:
  assumes "table_ok n X t" "idle t"
  shows "returns (get_locked_entry_from_cache_table url) t" "returns (get_write_locked_entry_from_cache_table url) t"
  unfolding get_locked_entry_from_cache_table_def get_write_locked_entry_from_cache_table_def
  by (rule returns_get_entry; use idle_free [OF assms] in \<open>auto simp: lock_read_response_def lock_write_response_def\<close>)+

lemma returns_change:
  "(\<And>e. f e \<noteq> Inl No_Return) \<Longrightarrow> returns (change_entry f h n) t"
proof -
  assume f: "\<And>e. f e \<noteq> Inl No_Return"
  have "change_in f n es \<noteq> Inl No_Return" for es
  proof (induction es)
    case (Cons e es)
    show ?case
    proof (cases "c_id e = n")
      case True
      with f [of e] show ?thesis by (cases "f e") simp_all
    next
      case False
      with Cons show ?thesis by (cases "change_in f n es") (simp_all split: prod.split)
    qed
  qed simp
  then show ?thesis by (auto simp: returns_def change_entry_def split: sum.splits)
qed

lemma unlock_returns: "unlock_read_response e \<noteq> Inl No_Return" "unlock_write_response e \<noteq> Inl No_Return"
  by (simp_all add: unlock_read_response_def unlock_write_response_def)

lemmas returns_unlock = returns_change [OF unlock_returns(1)] returns_change [OF unlock_returns(2)]

lemma sweep_returns:
  "(\<And>e. e \<in> set es \<Longrightarrow> guard e \<noteq> Some No_Return) \<Longrightarrow> sweep P guard block es current = (x, es', c') \<Longrightarrow> x \<noteq> Some No_Return"
proof (induction es arbitrary: current x es' c')
  case (Cons e es)
  note IH = Cons.IH [OF Cons.prems(1)]
  show ?case
  proof (cases "P e")
    case False
    with Cons.prems(2) obtain es1 where "sweep P guard block es current = (x, es1, c')" by (auto split: prod.splits)
    with IH show ?thesis by simp
  next
    case p: True
    show ?thesis
    proof (cases "guard e")
      case None
      show ?thesis
      proof (cases "remove_cache_entry block e current")
        case (Inl ex)
        with Cons.prems(2) p None show ?thesis by (auto simp: remove_cache_entry_def split: if_splits)
      next
        case (Inr c)
        with Cons.prems(2) p None have "sweep P guard block es c = (x, es', c')" by simp
        with IH show ?thesis by simp
      qed
    next
      case (Some ex)
      with Cons.prems p show ?thesis by auto
    qed
  qed
qed simp

lemma returns_sweep_slot:
  assumes "\<And>e. e \<in> set (t_slots t h) \<Longrightarrow> guard e \<noteq> Some No_Return"
  shows "returns (sweep_slot P guard h) t"
proof -
  obtain x es c where s: "sweep P guard (t_block t) (t_slots t h) (t_current t) = (x, es, c)" by (metis prod_cases3)
  have "x \<noteq> Some No_Return" by (rule sweep_returns [OF assms s])
  with s show ?thesis by (cases x) (simp_all add: returns_def sweep_slot_def)
qed

lemma returns_sweep: "returns (sweep_slots P no_guard hs) t"
proof (induction hs arbitrary: t)
  case (Cons h hs)
  have "returns (sweep_slot P no_guard h) t" by (rule returns_sweep_slot) (simp add: no_guard_def)
  then show ?case unfolding sweep_slots.simps by (rule returns_bind) (rule Cons)
qed (simp add: returns_def)

lemma returns_delete [returns_intros]:
  "returns (delete_expired_entries now time) t" "returns (delete_by_hits hits) t" "returns (delete_by_size sz) t"
  "returns delete_all_entries t"
  unfolding delete_expired_entries_def delete_by_hits_def delete_by_size_def delete_all_entries_def
  by (rule returns_sweep)+ (rule returns_bind [OF returns_sweep], simp add: returns_def)

lemma returns_remove: "table_ok n X t \<Longrightarrow> idle t \<Longrightarrow> returns (remove_entry_from_cache_table url) t"
  unfolding remove_entry_from_cache_table_def
  by (rule returns_sweep_slot) (use idle_free in \<open>auto simp: write_guard_def lock_write_response_def\<close>)

section \<open>Garbage collection\<close>

lemma idle_sweeps: "sweep_slots P g hs t = (r, t') \<Longrightarrow> idle t \<Longrightarrow> idle t'"
  using sweep_slots_subset unfolding idle_def by blast

lemma keeps_idle_sweeps:
  "keeps idle (delete_expired_entries now time)" "keeps idle (delete_by_hits hits)" "keeps idle (delete_by_size sz)"
  unfolding keeps_def delete_expired_entries_def delete_by_hits_def delete_by_size_def
  using idle_sweeps by (metis prod.collapse)+

text \<open>A table without entries is empty: its size is 0 and the collection stops.\<close>

lemma empty_stops:
  assumes "accounted (h_table c)" "\<And>h. t_slots (h_table c) h = []" "h_folder_size c < h_total_size c - h_gc_buffer c"
  shows "stopGC c"
proof -
  have "unat (t_current (h_table c)) = 0" using assms(1,2) by (simp add: accounted_def total_space_def)
  then have "t_current (h_table c) = 0" by (simp add: unat_eq_zero)
  with assms(3) show ?thesis by (simp add: stopGC_def)
qed

lemma delete_by_hits_empties:
  assumes "accounted t" "idle t" "\<And>h e. e \<in> set (t_slots t h) \<Longrightarrow> c_hits e \<le> hits" "delete_by_hits hits t = (r, t')"
  shows "r = Inr ()" "t_slots t' h = []"
proof -
  obtain t1 where t1: "delete_by_hits hits t = (Inr (), t1)"
    "t_slots t1 = (\<lambda>h. if h \<in> set all_slots then filter (\<lambda>e. \<not> (c_readers e = 0 \<and> c_hits e \<le> hits)) (t_slots t h) else t_slots t h)"
    using by_hits.slots_filter [of hits all_slots t] by (auto simp: delete_by_hits_def)
  show "r = Inr ()" using t1(1) assms(4) by simp
  have "t_slots t h = []" if "h \<notin> set all_slots"
    using assms(1) that by (auto simp: accounted_def all_slots_def)
  then show "t_slots t' h = []"
    using t1 assms(2-4) by (auto simp: idle_def filter_empty_conv)
qed

lemma hits_loop_ends:
  assumes "cache_inv gh c" "idle (h_table c)" "\<And>h e. e \<in> set (t_slots (h_table c) h) \<Longrightarrow> c_hits e \<le> top_hits"
    "0 < fuel" "top_hits < hits + int fuel"
  shows "\<exists>c'. hits_loop fuel hits c = (Inr (), c')"
  using assms
proof (induction fuel arbitrary: hits c)
  case (Suc fuel)
  show ?case
  proof (cases "stopGC c")
    case False
    obtain r t where t: "delete_by_hits hits (h_table c) = (r, t)" by fastforce
    have r: "r = Inr ()"
      using by_hits.slots_filter [of hits all_slots "h_table c"] t by (auto simp: delete_by_hits_def)
    let ?c = "c\<lparr>h_table := t\<rparr>"
    have step: "hits_loop (Suc fuel) hits c = hits_loop fuel (hits + 1) ?c"
      using False t r by (simp add: on_table_def)
    have o: "on_table (delete_by_hits hits) c = (Inr (), ?c)" using t r by (simp add: on_table_def)
    have i: "cache_inv gh ?c" by (rule keepsD [OF keeps_on_table [OF keeps_delete(2)] Suc.prems(1) o])
    have idle: "idle t" using keepsD [OF keeps_idle_sweeps(2) Suc.prems(2) t] .
    have sub: "set (t_slots t h) \<subseteq> set (t_slots (h_table c) h)" for h
      using sweep_slots_subset [OF t [unfolded delete_by_hits_def]] .
    show ?thesis
    proof (cases "top_hits \<le> hits")
      case True
      have a: "accounted (h_table c)" using Suc.prems(1) by (simp add: cache_inv_def good_table_def sound_def)
      have "t_slots t h = []" for h
        by (rule delete_by_hits_empties(2) [OF a Suc.prems(2) _ t]) (use Suc.prems(3) True in force)
      with i have "stopGC ?c" by (intro empty_stops) (auto simp: cache_inv_def good_table_def sound_def)
      then show ?thesis unfolding step by (cases fuel) auto
    next
      case False
      have "0 < fuel" "top_hits < hits + 1 + int fuel" using False Suc.prems(5) by auto
      moreover have "c_hits e \<le> top_hits" if "e \<in> set (t_slots (h_table ?c) h)" for h e
        using Suc.prems(3) [of e h] sub [of h] that by auto
      ultimately show ?thesis using Suc.IH [OF i, of "hits + 1"] idle unfolding step by simp
    qed
  qed auto
qed simp

lemma hits_loop_returns_more: "fst (hits_loop fuel hits c) \<noteq> Inl No_Return \<Longrightarrow> hits_loop (fuel + k) hits c = hits_loop fuel hits c"
proof (induction fuel arbitrary: hits c)
  case 0
  then show ?case by (cases k) (auto split: if_splits)
next
  case (Suc fuel)
  show ?case
  proof (cases "stopGC c")
    case False
    obtain r c1 where c1: "on_table (delete_by_hits hits) c = (r, c1)" by fastforce
    with False Suc show ?thesis by (cases r) auto
  qed simp
qed

lemma bounded_hits:
  assumes "accounted t"
  shows "\<exists>top_hits. \<forall>h. \<forall>e \<in> set (t_slots t h). c_hits e \<le> top_hits"
proof -
  let ?S = "\<Union>h \<in> {0..<cache_table_size}. c_hits ` set (t_slots t h)"
  have "c_hits e \<le> Max (insert 0 ?S)" if "e \<in> set (t_slots t h)" for h e
  proof -
    have "h \<in> {0..<cache_table_size}" using assms that by (force simp: accounted_def)
    with that have "c_hits e \<in> insert 0 ?S" by blast
    then show ?thesis by (intro Max_ge) auto
  qed
  then show ?thesis by blast
qed

lemma collection_returns:
  assumes "cache_inv gh c" "idle (h_table c)"
  shows "\<exists>fuel. returns (perform_garbage_collection fuel env) c"
proof -
  obtain r1 c1 where 1: "expired_gc env c = (r1, c1)" by fastforce
  have r1: "r1 \<noteq> Inl No_Return" "idle (h_table c1)" "cache_inv gh c1"
  proof -
    show "idle (h_table c1)"
      using 1 assms(2) keepsD [OF keeps_idle_sweeps(1)] by (auto simp: expired_gc_def on_table_def split: if_splits prod.splits)
    show "cache_inv gh c1"
      using 1 assms(1) keepsD [OF keeps_on_table [OF keeps_delete(1)]] by (auto simp: expired_gc_def split: if_splits)
    have "returns (expired_gc env) c"
      unfolding expired_gc_def using returns_on_table [OF returns_delete(1), of "e_now env" 0 c] by (simp add: returns_def)
    with 1 show "r1 \<noteq> Inl No_Return" by (simp add: returns_def)
  qed
  obtain r2 c2 where 2: "too_big_gc c1 = (r2, c2)" by fastforce
  have r2: "r2 \<noteq> Inl No_Return" "idle (h_table c2)" "cache_inv gh c2"
  proof -
    show "idle (h_table c2)"
      using 2 r1(2) keepsD [OF keeps_idle_sweeps(3)] by (auto simp: too_big_gc_def on_table_def split: if_splits prod.splits)
    show "cache_inv gh c2"
      using 2 r1(3) keepsD [OF keeps_on_table [OF keeps_delete(3)]] by (auto simp: too_big_gc_def split: if_splits)
    have "returns too_big_gc c1"
      unfolding too_big_gc_def using returns_on_table [OF returns_delete(3), of _ c1] by (simp add: returns_def)
    with 2 show "r2 \<noteq> Inl No_Return" by (simp add: returns_def)
  qed
  have "\<exists>fuel. fst (hits_gc fuel c2) \<noteq> Inl No_Return"
  proof -
    have "accounted (h_table c2)" using r2(3) by (simp add: cache_inv_def good_table_def sound_def)
    from bounded_hits [OF this] obtain top_hits where t: "\<forall>h. \<forall>e \<in> set (t_slots (h_table c2) h). c_hits e \<le> top_hits" by blast
    have f: "0 < Suc (nat top_hits)" "top_hits < 0 + int (Suc (nat top_hits))" by linarith+
    from hits_loop_ends [OF r2(3,2) _ f] t obtain c' where "hits_loop (Suc (nat top_hits)) 0 c2 = (Inr (), c')" by blast
    then show ?thesis by (auto simp: hits_gc_def simp del: hits_loop.simps intro!: exI [of _ "Suc (nat top_hits)"])
  qed
  then obtain fuel where "fst (hits_gc fuel c2) \<noteq> Inl No_Return" by blast
  with 1 2 r1(1) r2(1) have "returns (perform_garbage_collection fuel env) c"
    by (cases r1; cases r2) (simp_all add: returns_def perform_garbage_collection_def)
  then show ?thesis by blast
qed

lemma collect_and_write_returns:
  assumes "cache_inv gh c" "idle (h_table c)" "responsive env"
  shows "\<exists>fuel. returns (bindS (perform_garbage_collection fuel env) (\<lambda>_. cache_index_write env)) c"
proof -
  have w: "returns (cache_index_write env) c'" for c'
    using assms(3) unfolding cache_index_write_def
    by (intro returns_bind returns_result returns_on_table) (simp_all add: responsive_def returns_def)
  from collection_returns [OF assms(1,2)] obtain fuel where f: "returns (perform_garbage_collection fuel env) c" by blast
  have "returns (bindS (perform_garbage_collection fuel env) (\<lambda>_. cache_index_write env)) c"
    by (rule returns_bind [OF f w])
  then show ?thesis by blast
qed

section \<open>The operations of an idle cache\<close>

lemma returns_read_with:
  assumes "table_ok n X t" "idle t" "\<And>t. returns A t" "\<And>e t. returns (B e) t"
  shows "returns (bindS (get_locked_entry_from_cache_table url) (\<lambda>r. case r of None \<Rightarrow> A
     | Some e \<Rightarrow> bindS (change_entry unlock_read_response (get_hash url) (c_id e)) (\<lambda>_. B e))) t"
proof (rule returns_bind [OF returns_locks(1) [OF assms(1,2)]])
  fix r t'
  show "returns (case r of None \<Rightarrow> A
     | Some e \<Rightarrow> bindS (change_entry unlock_read_response (get_hash url) (c_id e)) (\<lambda>_. B e)) t'"
    by (cases r) (simp_all del: bindS.simps add: assms(3,4) returns_bind returns_unlock)
qed

lemma returns_reads:
  assumes "cache_inv gh c" "idle (h_table c)"
  shows "returns (read_entry url f) c" "returns (is_url_in_cache url) c"
proof -
  have t: "table_ok (h_next c) None (h_table c)" using assms(1) by (simp add: cache_inv_def good_table_def)
  show "returns (read_entry url f) c"
    unfolding read_entry_def
    by (rule returns_on_table, rule returns_read_with [OF t assms(2)]) (simp_all add: returns_def no_entry_def)
  show "returns (is_url_in_cache url) c"
    unfolding is_url_in_cache_def
    by (rule returns_on_table, rule returns_read_with [OF t assms(2)]) (simp_all add: returns_def)
qed

lemma file_results: "read_metadata s \<noteq> Inl No_Return" "write_metadata hs \<noteq> Inl No_Return"
proof -
  have "erase_last ls \<noteq> Inl No_Return" for ls
  proof (induction ls)
    case (Cons l ls)
    then show ?case by (cases "erase_last ls") simp_all
  qed simp
  then show "read_metadata s \<noteq> Inl No_Return" by (simp add: read_metadata_def)
  show "write_metadata hs \<noteq> Inl No_Return"
  proof (induction hs)
    case (Cons h hs)
    then show ?case by (cases "write_metadata hs") simp_all
  qed simp
qed

lemma bindE_eq_Inl: "bindE r f = Inl ex \<longleftrightarrow> r = Inl ex \<or> (\<exists>x. r = Inr x \<and> f x = Inl ex)"
  by (cases r) auto

lemma parse_headers_returns: "responsive env \<Longrightarrow> returns (parse_headers (e_time env) sz hs) e"
proof (induction hs arbitrary: e)
  case (Cons h hs)
  have "e_time env s \<noteq> Inl No_Return" for s using Cons.prems by (simp add: responsive_def)
  then have "fst (set_time (e_time env s) f e) \<noteq> Inl No_Return" for s f e
    by (cases "e_time env s") (auto simp: set_time_def)
  then have "returns (parse_header (e_time env) sz h) e" for e
    by (simp add: returns_def parse_header_def Let_def)
  then show ?case unfolding parse_headers.simps by (rule returns_bind) (rule Cons.IH [OF Cons.prems])
qed (simp add: returns_def)

lemma update_entry_returns: "responsive env \<Longrightarrow> returns (update_entry env sz d rt hs) e"
  unfolding update_entry_def
  by (rule returns_bind [OF parse_headers_returns], assumption, rule returns_bind)
    (auto simp: returns_def responsive_def file_results bindE_eq_Inl)

lemma response_entry_returns: "responsive env \<Longrightarrow> response_entry env sz d n url rt hs \<noteq> Inl No_Return"
proof -
  assume r: "responsive env"
  have l: "lock_write_response (new_entry n url) = Inr ((new_entry n url)\<lparr>c_rlock := True, c_wlock := True\<rparr>)"
    by (simp add: lock_write_response_def new_entry_def)
  obtain r1 e1 where p: "parse_headers (e_time env) sz hs ((new_entry n url)\<lparr>c_rlock := True, c_wlock := True\<rparr>) = (r1, e1)" by fastforce
  with parse_headers_returns [OF r, of sz hs "(new_entry n url)\<lparr>c_rlock := True, c_wlock := True\<rparr>"] have "r1 \<noteq> Inl No_Return"
    by (simp add: returns_def)
  with r show ?thesis
    unfolding response_entry_def l bindE.simps p
    by (cases r1) (auto simp: Let_def responsive_def file_results unlock_returns bindE_eq_Inl)
qed

lemma keeps_idle_remove: "keeps idle (remove_entry_from_cache_table url)"
proof
  fix t r t'
  assume "idle t" "remove_entry_from_cache_table url t = (r, t')"
  then show "idle t'" unfolding remove_entry_from_cache_table_def idle_def using sweep_slot_subset by blast
qed

lemma store_response_returns:
  assumes "cache_inv gh c" "idle (h_table c)" "responsive env" "body_fits env c"
  shows "\<exists>fuel. returns (store_response fuel env url rt hs) c"
proof -
  from assms(1,4) show ?thesis
  proof (cases rule: store_response_cases [where url = url and rt = rt and hs = hs])
    case (fails ex)
    with response_entry_returns [OF assms(3)] show ?thesis by (auto simp: returns_def)
  next
    case rejects
    then show ?thesis by (simp add: returns_def)
  next
    case (stores e t)
    let ?c = "c\<lparr>h_next := Suc (h_next c), h_table := t\<rparr>"
    have e: "c_readers e = 0" using response_entry_result(4) [OF stores(1)] .
    have i: "cache_inv gh ?c" using stores(2) assms(1) by (simp add: cache_inv_def)
    have idle: "idle (h_table ?c)" using assms(2) e by (auto simp: idle_def stores(3))
    from collect_and_write_returns [OF i idle assms(3)] obtain fuel where
      f: "returns (bindS (perform_garbage_collection fuel env) (\<lambda>_. cache_index_write env)) ?c" by blast
    have "returns (dump_index fuel env) ?c"
    proof (cases "startGC ?c")
      case True
      with f show ?thesis by (simp add: returns_def dump_index_def)
    next
      case False
      have "returns (cache_index_write env) ?c"
        using assms(3) unfolding cache_index_write_def
        by (intro returns_bind returns_result returns_on_table) (simp_all add: responsive_def returns_def)
      with False show ?thesis by (simp add: returns_def dump_index_def)
    qed
    then have "returns (bindS (dump_index fuel env) (\<lambda>_. returnS True)) ?c"
      by (rule returns_bind) (simp add: returns_def)
    then have "returns (store_response fuel env url rt hs) c" by (simp add: returns_def stores(4) del: bindS.simps)
    then show ?thesis by blast
  qed
qed

lemma cache_response_returns:
  assumes "cache_inv gh c" "idle (h_table c)" "responsive env" "body_fits env c" "\<not> h_mutex c"
  shows "\<exists>fuel. returns (cache_response fuel env url rt hs) c"
proof -
  let ?c = "c\<lparr>h_mutex := True\<rparr>"
  have i: "cache_inv gh ?c" using assms(1) by (simp add: cache_inv_def)
  then have ok: "table_ok (h_next c) None (h_table c)" by (simp add: cache_inv_def good_table_def)
  obtain r t where t: "remove_entry_from_cache_table url (h_table c) = (r, t)" by fastforce
  have "returns (remove_entry_from_cache_table url) (h_table c)" by (rule returns_remove [OF ok assms(2)])
  with t have r: "r \<noteq> Inl No_Return" by (simp add: returns_def)
  have g: "good_table gh (h_next c) t" using keepsD [OF keeps_delete(4) _ t] assms(1) by (simp add: cache_inv_def)
  have i2: "cache_inv gh (?c\<lparr>h_table := t\<rparr>)" using g i by (simp add: cache_inv_def)
  have idle: "idle (h_table (?c\<lparr>h_table := t\<rparr>))" using keepsD [OF keeps_idle_remove assms(2) t] by simp
  have b: "body_fits env (?c\<lparr>h_table := t\<rparr>)"
    by (rule body_fits_mono [OF assms(4)]) (use remove_entry_result [OF t] in simp_all)
  obtain fuel where f: "returns (store_response fuel env url rt hs) (?c\<lparr>h_table := t\<rparr>)"
    using store_response_returns [OF i2 idle assms(3) b] by blast
  have o: "on_table (remove_entry_from_cache_table url) ?c = (r, ?c\<lparr>h_table := t\<rparr>)" using t by (simp add: on_table_def)
  have "returns (if str_find ''http:'' url 0 = None \<and> str_find ''https:'' url 0 = None then returnS False
     else bindS (on_table (remove_entry_from_cache_table url)) (\<lambda>_. store_response fuel env url rt hs)) ?c"
    using f o r by (cases r) (simp_all add: returns_def)
  then have "returns (cache_response fuel env url rt hs) c"
    unfolding cache_response_unfold by (rule returns_locked [OF assms(5)])
  then show ?thesis by blast
qed

lemma set_size_returns:
  assumes "cache_inv gh c" "idle (h_table c)" "responsive env" "\<not> h_mutex c"
  shows "sz < 2 ^ 44 \<Longrightarrow> \<exists>fuel. returns (set_max_size fuel env sz) c"
    "\<exists>fuel. returns (set_max_entry_size fuel env sz) c"
proof -
  assume sz: "sz < 2 ^ 44"
  let ?n = "if sz < 5 then 5 * mega else sz * mega"
  let ?c = "c\<lparr>h_mutex := True, h_total_size := ?n, h_folder_size := ?n div 10, h_gc_buffer := ?n div 10\<rparr>"
  have "?n div 10 < ?n - ?n div 10" using sz megabytes [of sz] by (intro new_limits) (simp add: not_less)
  then have "cache_inv gh ?c" using assms(1) by (simp add: cache_inv_def)
  from collect_and_write_returns [OF this _ assms(3)] assms(2) obtain fuel where
    "returns (bindS (perform_garbage_collection fuel env) (\<lambda>_. cache_index_write env)) ?c" by auto
  then have "returns (set_max_size fuel env sz) c"
    unfolding set_max_size_def by (intro returns_locked [OF assms(4)]) (simp add: returns_def Let_def del: bindS.simps)
  then show "\<exists>fuel. returns (set_max_size fuel env sz) c" by blast
next
  let ?c = "c\<lparr>h_mutex := True, h_max_entry_size := sz * mega\<rparr>"
  have "cache_inv gh ?c" using assms(1) by (simp add: cache_inv_def)
  from collect_and_write_returns [OF this _ assms(3)] assms(2) obtain fuel where
    "returns (bindS (perform_garbage_collection fuel env) (\<lambda>_. cache_index_write env)) ?c" by auto
  then have "returns (set_max_entry_size fuel env sz) c"
    unfolding set_max_entry_size_def by (intro returns_locked [OF assms(4)]) (simp add: returns_def Let_def del: bindS.simps)
  then show "\<exists>fuel. returns (set_max_entry_size fuel env sz) c" by blast
qed

lemma returns_cache_control_headers: "responsive env \<Longrightarrow> returns (cache_control_headers env hs) c"
proof (induction hs arbitrary: c)
  case (Cons h hs)
  then have t: "e_time env s \<noteq> Inl No_Return" for s by (simp add: responsive_def)
  have b: "fst (bindS (result (e_time env s)) f c) \<noteq> Inl No_Return" if "\<And>v c. fst (f v c) \<noteq> Inl No_Return" for s f and c :: hcache
    using t [of s] that by (cases "e_time env s") (simp_all add: result_def)
  have "returns (cache_control_header env h) c" for c
    unfolding returns_def cache_control_header_def Let_def
    by (simp add: b del: bindS.simps)
  then show ?case unfolding cache_control_headers.simps by (rule returns_bind) (rule Cons.IH [OF Cons.prems])
qed (simp add: returns_def)

lemma update_response_returns:
  assumes "cache_inv gh c" "idle (h_table c)" "responsive env" "\<not> h_mutex c"
  shows "returns (update_response env url rt hs) c"
  unfolding update_response_def
proof (rule returns_locked [OF assms(4)], rule returns_at, rule returns_on_table, rule returns_bind)
  have "table_ok (h_next c) None (h_table c)" using assms(1) by (simp add: cache_inv_def good_table_def)
  then show "returns (get_write_locked_entry_from_cache_table url) (h_table (c\<lparr>h_mutex := True\<rparr>))"
    using returns_locks(2) assms(2) by simp
  fix r t
  show "returns (case r of None \<Rightarrow> throwS (no_entry url)
     | Some e \<Rightarrow>
         (case update_entry env (h_max_entry_size (c\<lparr>h_mutex := True\<rparr>)) (h_default_expiration (c\<lparr>h_mutex := True\<rparr>)) rt hs e of
            (Inr _, e') \<Rightarrow> bindS (change_entry (\<lambda>_. unlock_write_response e') (get_hash url) (c_id e)) (\<lambda>_. returnS ())
          | (Inl ex, e') \<Rightarrow> bindS (change_entry (\<lambda>_. unlock_read_response e') (get_hash url) (c_id e)) (\<lambda>_. throwS ex))) t"
  proof (cases r)
    case (Some e)
    obtain r1 e' where u: "update_entry env (h_max_entry_size c) (h_default_expiration c) rt hs e = (r1, e')" by fastforce
    with update_entry_returns [OF assms(3)] have "r1 \<noteq> Inl No_Return" by (metis fst_conv returns_def)
    moreover have "returns (bindS (change_entry (\<lambda>_. unlock_write_response e') h k) (\<lambda>_. returnS ())) t" for h k
      by (rule returns_bind [OF returns_change]) (simp_all add: unlock_returns returns_def)
    moreover have "returns (bindS (change_entry (\<lambda>_. unlock_read_response e') h k) (\<lambda>_. throwS ex)) t"
      if "ex \<noteq> No_Return" for h k and ex
      using that by (intro returns_bind [OF returns_change]) (simp_all add: unlock_returns returns_def)
    ultimately show ?thesis using Some u by (cases r1) (simp_all del: bindS.simps)
  qed (simp add: returns_def no_entry_def)
qed

lemma get_cached_response_returns:
  assumes "cache_inv gh c" "idle (h_table c)" "responsive env" "\<not> h_mutex c"
  shows "returns (get_cached_response env url) c"
  unfolding get_cached_response_def
proof (rule returns_locked [OF assms(4)], rule returns_on_table, rule returns_bind)
  have "table_ok (h_next c) None (h_table c)" using assms(1) by (simp add: cache_inv_def good_table_def)
  then show "returns (get_locked_entry_from_cache_table url) (h_table (c\<lparr>h_mutex := True\<rparr>))"
    using returns_locks(1) assms(2) by simp
  fix r t
  have b: "returns (bindS (bind_entry_to_data h n b) (\<lambda>_. returnS x)) t" for h n b and x :: "(nat \<times> string list \<times> string) option" and t
    unfolding bind_entry_to_data_def by (intro returns_bind returns_change) (simp_all add: returns_def)
  have "bindE (e_read_meta env) read_metadata \<noteq> Inl No_Return" "e_open env \<noteq> Inl No_Return"
    using assms(3) file_results(1) by (auto simp: responsive_def bindE_eq_Inl)
  with b show "returns (case r of None \<Rightarrow> returnS None
     | Some e \<Rightarrow>
         (\<lambda>t. case bindE (e_read_meta env) read_metadata of
            Inl ex \<Rightarrow> (Inl ex, t)
          | Inr headers \<Rightarrow>
              (case e_open env of
                 Inl ex \<Rightarrow> (Inl ex, t)
               | Inr body \<Rightarrow>
                   bindS (bind_entry_to_data (get_hash url) (c_id e) body)
                     (\<lambda>_. returnS (Some (body, headers, c_cachename e))) t))) t"
    by (cases r) (auto simp: returns_def simp del: bindS.simps split: sum.splits)
qed

lemma release_returns: "\<not> h_mutex c \<Longrightarrow> returns (release_cached_response b) c"
proof -
  have "returns (change_entry unlock_read_response h n) t" for h n t by (rule returns_unlock)
  then have "fst (uncouple_entry_from_data b t) \<noteq> Inl No_Return" for t
    by (auto simp: uncouple_entry_from_data_def returns_def split: option.splits prod.splits sum.splits)
       (metis fst_conv sum.sel(1))+
  then show "\<not> h_mutex c \<Longrightarrow> returns (release_cached_response b) c"
    unfolding release_cached_response_def by (intro returns_locked returns_on_table) (simp_all add: returns_def)
qed

lemma purge_returns: "\<not> h_mutex c \<Longrightarrow> returns purge_cache c"
  unfolding purge_cache_def using returns_on_table [OF returns_delete(4)]
  by (intro returns_locked) (simp_all add: returns_def)

section \<open>Properties\<close>

lemma locked_frees_mutex: "returns (locked act) c \<Longrightarrow> \<not> h_mutex c \<Longrightarrow> \<not> h_mutex (snd (locked act c))"
  by (auto simp: returns_def locked_def split: prod.splits sum.splits exn.splits)

lemma on_table_mutex: "h_mutex (snd (on_table act c)) = h_mutex c"
  by (simp add: on_table_def split: prod.split)

lemma idle_operation_returns:
  assumes "cache_inv gh c" "\<not> h_mutex c" "idle (h_table c)" "allowed op c" "\<And>env. op_env op = Some env \<Longrightarrow> responsive env"
  shows "\<exists>fuel. returns (run_op fuel op) c"
proof (cases op)
  case (Cache_Response env url rt hs)
  then have "responsive env" "body_fits env c" using assms(4,5) by simp_all
  from cache_response_returns [OF assms(1,3) this assms(2)] obtain fuel where "returns (cache_response fuel env url rt hs) c" by blast
  from returns_discard [OF this] Cache_Response show ?thesis by auto
next
  case (Update_Response env url rt hs)
  with update_response_returns [OF assms(1,3) _ assms(2)] assms(5) show ?thesis by simp
next
  case (Get_Response env url)
  with returns_discard [OF get_cached_response_returns [OF assms(1,3) _ assms(2)]] assms(5) show ?thesis by simp
next
  case (Url_Valid env url)
  have "returns (is_url_valid env url) c"
    unfolding is_url_valid_def
  proof (rule returns_locked [OF assms(2)])
    let ?c = "c\<lparr>h_mutex := True\<rparr>"
    have "cache_inv gh ?c" "idle (h_table ?c)" using assms(1,3) by (simp_all add: cache_inv_def)
    from returns_reads(1) [OF this, of url "entry_valid (h_req_max_age ?c) (h_max_stale ?c) (h_min_fresh ?c) (e_now env)"]
    show "returns (\<lambda>c. if h_always_validate c then (Inr False, c)
     else read_entry url (entry_valid (h_req_max_age c) (h_max_stale c) (h_min_fresh c) (e_now env)) c) ?c"
      by (simp add: returns_def)
  qed
  with Url_Valid show ?thesis by (simp add: returns_discard)
next
  case (Conditional_Headers env url)
  have "cache_inv gh (c\<lparr>h_mutex := True\<rparr>)" "idle (h_table (c\<lparr>h_mutex := True\<rparr>))" using assms(1,3) by (simp_all add: cache_inv_def)
  from returns_reads(1) [OF this] have "returns (get_conditional_request_headers env url) c"
    unfolding get_conditional_request_headers_def by (intro returns_locked [OF assms(2)])
  with Conditional_Headers show ?thesis by (simp add: returns_discard)
next
  case (Set_Cache_Control env headers)
  have "returns (set_cache_control env headers) c"
    unfolding set_cache_control_def
    using returns_cache_control_headers [of env] assms(5) Set_Cache_Control
    by (intro returns_locked [OF assms(2)]) (simp add: returns_def)
  with Set_Cache_Control show ?thesis by simp
next
  case (Set_Max_Size env sz)
  with set_size_returns(1) [OF assms(1,3) _ assms(2)] assms(4,5) show ?thesis by simp
next
  case (Set_Max_Entry_Size env sz)
  with set_size_returns(2) [OF assms(1,3) _ assms(2)] assms(5) show ?thesis by simp
next
  case (Url_In_Cache url)
  with returns_reads(2) [OF assms(1,3)] show ?thesis by (simp add: returns_discard)
next
  case (Release b)
  with release_returns [OF assms(2)] show ?thesis by simp
next
  case Purge
  with purge_returns [OF assms(2)] show ?thesis by simp
qed (use assms(2) in \<open>simp_all add: returns_def set_cache_enabled_def set_expire_ignored_def
      set_always_validate_def set_default_expiration_def locked_def\<close>)

lemma run_op_frees_mutex: "returns (run_op fuel op) c \<Longrightarrow> \<not> h_mutex c \<Longrightarrow> \<not> h_mutex (snd (run_op fuel op c))"
proof -
  assume a: "returns (run_op fuel op) c" "\<not> h_mutex c"
  have d: "returns act c" if "returns (discard act) c" for act :: "(hcache, 'a) action"
    using that by (auto simp: returns_def discard_def split: prod.splits)
  have l: "\<not> h_mutex (snd (discard (locked act) c))" if "returns (discard (locked act)) c" for act :: "(hcache, 'a) action"
    unfolding discard_state by (rule locked_frees_mutex [OF d [OF that] a(2)])
  show ?thesis
  proof (cases op)
    case (Url_In_Cache url)
    with a(2) show ?thesis by (simp add: discard_state is_url_in_cache_def on_table_mutex)
  qed (use a in \<open>simp_all del: bindS.simps add: l locked_frees_mutex cache_response_def update_response_def
        get_cached_response_def release_cached_response_def purge_cache_def is_url_valid_def get_conditional_request_headers_def
        set_max_size_def set_max_entry_size_def set_cache_control_def set_cache_enabled_def set_expire_ignored_def
        set_default_expiration_def set_always_validate_def\<close>)
qed

section \<open>Entries that stay locked\<close>

lemma lock_first_stuck:
  "\<forall>x \<in> set xs. c_url x \<noteq> url \<Longrightarrow> c_url e = url \<Longrightarrow> lock e = Inl ex \<Longrightarrow> lock_first lock url (xs @ e # ys) = Inl ex"
  by (induction xs) simp_all

lemma sweep_stuck:
  "\<forall>x \<in> set xs. c_url x \<noteq> url \<Longrightarrow> c_url e = url \<Longrightarrow> guard e = Some ex \<Longrightarrow>
   \<exists>es c. sweep (\<lambda>e. c_url e = url) guard block (xs @ e # ys) current = (Some ex, es, c)"
  by (induction xs) (auto split: prod.splits)

definition stuck :: "string \<Rightarrow> ctable \<Rightarrow> bool" where
  "stuck url t = (\<exists>xs e ys. t_slots t (get_hash url) = xs @ e # ys \<and> (\<forall>x \<in> set xs. c_url x \<noteq> url) \<and> c_url e = url \<and>
     c_rlock e \<and> c_wlock e \<and> c_readers e = -1)"

lemma stuck_waits:
  assumes "stuck url t"
  shows "fst (get_locked_entry_from_cache_table url t) = Inl No_Return"
    "fst (get_write_locked_entry_from_cache_table url t) = Inl No_Return"
    "fst (remove_entry_from_cache_table url t) = Inl No_Return"
proof -
  obtain xs e ys where e: "t_slots t (get_hash url) = xs @ e # ys" "\<forall>x \<in> set xs. c_url x \<noteq> url" "c_url e = url"
    "c_rlock e" "c_wlock e" using assms unfolding stuck_def by blast
  show "fst (get_locked_entry_from_cache_table url t) = Inl No_Return"
    by (simp add: get_locked_entry_from_cache_table_def get_entry_def e(1) lock_first_stuck [OF e(2,3)] lock_read_response_def e(4,5))
  show "fst (get_write_locked_entry_from_cache_table url t) = Inl No_Return"
    by (simp add: get_write_locked_entry_from_cache_table_def get_entry_def e(1) lock_first_stuck [OF e(2,3)] lock_write_response_def e(4,5))
  have "write_guard e = Some No_Return" by (simp add: write_guard_def lock_write_response_def e(4,5))
  from sweep_stuck [where guard = write_guard, OF e(2,3) this] show "fst (remove_entry_from_cache_table url t) = Inl No_Return"
    by (metis (no_types, lifting) e(1) fst_conv option.simps(5) prod.simps(2) remove_entry_from_cache_table_def sweep_slot_def)
qed

lemma no_other_lock_error: "get_write_locked_entry_from_cache_table url t = (Inl ex, t') \<Longrightarrow> ex = No_Return"
proof -
  have "lock_first lock_write_response url es = Inl ex \<Longrightarrow> ex = No_Return" for es
  proof (induction es)
    case (Cons e es)
    have "lock_write_response e = Inl ex \<Longrightarrow> ex = No_Return" by (simp add: lock_write_response_def split: if_splits)
    with Cons show ?case by (auto simp: bindE_eq_Inl split: if_splits)
  qed simp
  then show "get_write_locked_entry_from_cache_table url t = (Inl ex, t') \<Longrightarrow> ex = No_Return"
    by (auto simp: get_write_locked_entry_from_cache_table_def get_entry_def split: sum.splits)
qed

lemma write_locked_first:
  assumes "get_write_locked_entry_from_cache_table url t = (Inr (Some e), t')"
  obtains xs e0 ys where "t_slots t (get_hash url) = xs @ e0 # ys" "c_url e0 = url"
    "e = e0\<lparr>c_rlock := True, c_wlock := True\<rparr>" "t' = t\<lparr>t_slots := (t_slots t)(get_hash url := xs @ e # ys)\<rparr>"
    "\<forall>x \<in> set xs. c_url x \<noteq> url"
proof -
  obtain es where l: "lock_first lock_write_response url (t_slots t (get_hash url)) = Inr (Some e, es)"
    and t': "t' = t\<lparr>t_slots := (t_slots t)(get_hash url := es)\<rparr>"
    using assms unfolding get_write_locked_entry_from_cache_table_def get_entry_def by (auto split: sum.splits)
  from lock_first_split [OF l] obtain xs e0 ys where
    s: "t_slots t (get_hash url) = xs @ e0 # ys" "es = xs @ e # ys" "c_url e0 = url" "lock_write_response e0 = Inr e"
      "\<forall>x \<in> set xs. c_url x \<noteq> url"
    by blast
  from s(4) have "e = e0\<lparr>c_rlock := True, c_wlock := True\<rparr>"
    by (auto simp: lock_write_response_def split: if_splits)
  with s t' that show ?thesis by blast
qed

lemma failed_update_stuck:
  assumes "cache_inv gh c" "e \<in> set (t_slots (h_table c) (get_hash url))" "c_url e = url"
    "update_response env url rt hs c = (Inl ex, c')" "ex \<noteq> No_Return"
  shows "stuck url (h_table c')" "\<not> h_mutex c'"
proof -
  let ?t = "h_table c"
  have m: "\<not> h_mutex c" using assms(4,5) by (auto simp: update_response_def locked_def split: if_splits)
  have "returns (update_response env url rt hs) c" using assms(4,5) by (simp add: returns_def)
  then show "\<not> h_mutex c'"
    using locked_frees_mutex m assms(4) unfolding update_response_def by fastforce
  have g: "good_table gh (h_next c) ?t" using assms(1) by (simp add: cache_inv_def)
  let ?act = "bindS (get_write_locked_entry_from_cache_table url) (\<lambda>r. case r of None \<Rightarrow> throwS (no_entry url)
     | Some e \<Rightarrow>
         (case update_entry env (h_max_entry_size c) (h_default_expiration c) rt hs e of
            (Inr _, e') \<Rightarrow> bindS (change_entry (\<lambda>_. unlock_write_response e') (get_hash url) (c_id e)) (\<lambda>_. returnS ())
          | (Inl ex, e') \<Rightarrow> bindS (change_entry (\<lambda>_. unlock_read_response e') (get_hash url) (c_id e)) (\<lambda>_. throwS ex)))"
  obtain t' where t': "?act ?t = (Inl ex, t')" "h_table c' = t'"
    using assms(4) [unfolded update_response_def]
  proof (cases rule: locked_result)
    case taken
    with assms(5) show ?thesis by simp
  next
    case (ran c1)
    obtain t' where t': "?act ?t = (Inl ex, t')" "c1 = c\<lparr>h_mutex := True, h_table := t'\<rparr>"
      using ran(1) by (auto simp: on_table_def simp del: bindS.simps split: prod.splits)
    with ran(2) that show ?thesis by simp
  qed
  obtain r1 t1 where l: "get_write_locked_entry_from_cache_table url ?t = (r1, t1)" by fastforce
  show "stuck url (h_table c')"
  proof (cases r1)
    case (Inl ex1)
    then have "ex1 = No_Return"
      using l no_other_lock_error by blast
    with t'(1) l Inl assms(5) show ?thesis by simp
  next
    case (Inr o1)
    show ?thesis
    proof (cases o1)
      case None
      with l Inr have "lock_first lock_write_response url (t_slots ?t (get_hash url)) = Inr (None, t_slots t1 (get_hash url))"
        by (auto simp: get_write_locked_entry_from_cache_table_def get_entry_def split: sum.splits)
      with lock_first_None assms(2,3) show ?thesis by blast
    next
      case (Some e1)
      note l1 = l [unfolded Inr Some]
      obtain xs e0 ys where s: "t_slots ?t (get_hash url) = xs @ e0 # ys" "c_url e0 = url"
        "e1 = e0\<lparr>c_rlock := True, c_wlock := True\<rparr>" "t1 = ?t\<lparr>t_slots := (t_slots ?t)(get_hash url := xs @ e1 # ys)\<rparr>"
        "\<forall>x \<in> set xs. c_url x \<noteq> url"
        using write_locked_first [OF l1] .
      obtain r2 e' where u: "update_entry env (h_max_entry_size c) (h_default_expiration c) rt hs e1 = (r2, e')" by fastforce
      note f = update_entry_frame [OF u]
      note w = write_locked_idle [OF g l1]
      obtain x where x: "unlock_read_response e' = Inr x" "c_readers x = -1" "c_rlock x" "c_wlock x" "c_url x = url" "c_id x = c_id e1"
        using f w s(2,3) by (auto simp: same_frame_def unlock_read_response_def)
      have d: "distinct (map c_id (t_slots t1 (get_hash url)))"
        using table_ok_distinct [of "h_next c" None ?t "get_hash url"] g s by (simp add: good_table_def)
      have c: "change_entry (\<lambda>_. unlock_read_response e') (get_hash url) (c_id e1) t1 =
          (Inr x, t1\<lparr>t_slots := (t_slots t1)(get_hash url := xs @ x # ys)\<rparr>)"
        using change_entry_split [OF _ d refl, of xs e1 ys "\<lambda>_. unlock_read_response e'"] s(4) x(1) by simp
      have "\<exists>y. unlock_write_response e' = Inr y" using f w by (auto simp: same_frame_def unlock_write_response_def)
      then have "\<exists>y t2. change_entry (\<lambda>_. unlock_write_response e') (get_hash url) (c_id e1) t1 = (Inr y, t2)"
        using change_entry_split [OF _ d refl, of xs e1 ys "\<lambda>_. unlock_write_response e'"] s(4) by auto
      with t'(1) l1 u c have "t' = t1\<lparr>t_slots := (t_slots t1)(get_hash url := xs @ x # ys)\<rparr>"
        by (cases r2) auto
      with t'(2) x s(5) show ?thesis unfolding stuck_def by auto
    qed
  qed
qed

text \<open>
  C23: while no entry is in use and the interface is free, every operation returns and leaves the
  interface free: none waits for a lock and the garbage collection ends.
\<close>
theorem idle_operations_return:
  assumes "cache_reach c" "\<not> h_mutex c" "idle (h_table c)" "allowed op c" "\<And>env. op_env op = Some env \<Longrightarrow> responsive env"
  shows "\<exists>fuel r c'. run_op fuel op c = (r, c') \<and> r \<noteq> Inl No_Return \<and> \<not> h_mutex c'"
proof -
  obtain fuel where f: "returns (run_op fuel op) c"
    using idle_operation_returns [OF cache_reach_inv [OF assms(1)] assms(2-5)] by blast
  obtain r c' where "run_op fuel op c = (r, c')" by fastforce
  with f run_op_frees_mutex [OF f assms(2)] show ?thesis by (auto simp: returns_def)
qed

theorem idle_operations_return_witness:
  "\<exists>fuel r c'. run_op fuel (Set_Max_Size calm_env 5) cache1 = (r, c') \<and> r \<noteq> Inl No_Return \<and> \<not> h_mutex c'"
  by (rule idle_operations_return [OF cache1_reach])
    (simp_all add: cache1_def cache0_def new_cache_def idle_def entry1_def new_entry_def responsive_def calm_env_def)

lemma bindS_fails: "fst (act s) = Inl ex \<Longrightarrow> bindS act f s = (Inl ex, snd (act s))"
  by (cases "act s") simp

text \<open>
  C24: when \<open>update_response\<close> fails on a cached URL, the entry stays locked: the next update, request
  for or replacement of the response waits forever, and with it the interface of the cache.
\<close>
theorem failed_update_blocks_url:
  assumes "cache_reach c" "e \<in> set (t_slots (h_table c) (get_hash url))" "c_url e = url"
    "update_response env url rt hs c = (Inl ex, c')" "ex \<noteq> No_Return"
  shows "fst (update_response env' url rt' hs' c') = Inl No_Return \<and>
    fst (get_cached_response env' url c') = Inl No_Return \<and>
    fst (get_conditional_request_headers env' url c') = Inl No_Return \<and>
    (str_find ''http:'' url 0 = None \<and> str_find ''https:'' url 0 = None \<or>
     fst (cache_response fuel env' url rt' hs' c') = Inl No_Return)"
proof -
  note s = failed_update_stuck [OF cache_reach_inv [OF assms(1)] assms(2-5)]
  have t: "fst (get_locked_entry_from_cache_table url (h_table c')) = Inl No_Return"
    "fst (get_write_locked_entry_from_cache_table url (h_table c')) = Inl No_Return"
    "fst (remove_entry_from_cache_table url (h_table c')) = Inl No_Return" using stuck_waits [OF s(1)] by blast+
  have o: "on_table (remove_entry_from_cache_table url) (c'\<lparr>h_mutex := True\<rparr>) =
      (Inl No_Return, c'\<lparr>h_mutex := True, h_table := snd (remove_entry_from_cache_table url (h_table c'))\<rparr>)"
    using t(3) by (simp add: on_table_def prod_eq_iff split: prod.split)
  show ?thesis
    using s(2) o
    by (simp add: update_response_def get_cached_response_def get_conditional_request_headers_def read_entry_def
        cache_response_unfold locked_def on_table_def bindS_fails t del: bindS.simps)
qed

theorem failed_update_blocks_url_witness:
  "\<exists>c'. update_response (calm_env\<lparr>e_read_meta := Inl (InternalErr ''no file'')\<rparr>) ''http:a'' 0 [] cache1 = (Inl (InternalErr ''no file''), c') \<and>
     fst (get_cached_response calm_env ''http:a'' c') = Inl No_Return"
proof -
  have "\<exists>c'. update_response (calm_env\<lparr>e_read_meta := Inl (InternalErr ''no file'')\<rparr>) ''http:a'' 0 [] cache1 = (Inl (InternalErr ''no file''), c')"
    by (simp add: update_response_def locked_def on_table_def cache1_def cache0_def new_cache_def new_table_def
        get_write_locked_entry_from_cache_table_def get_entry_def hash_of_a entry1_def new_entry_def lock_write_response_def
        update_entry_def calm_env_def change_entry_def unlock_read_response_def calculate_time_def)
  then obtain c' where c': "update_response (calm_env\<lparr>e_read_meta := Inl (InternalErr ''no file'')\<rparr>) ''http:a'' 0 [] cache1 = (Inl (InternalErr ''no file''), c')"
    by blast
  have "entry1 \<in> set (t_slots (h_table cache1) (get_hash ''http:a''))" "c_url entry1 = ''http:a''"
    by (simp_all add: cache1_def entry1_def new_entry_def)
  from failed_update_blocks_url [OF cache1_reach this c', of calm_env 0 "[]" 0] c' show ?thesis by auto
qed

text \<open>The collection cannot give back the space of an entry in use.\<close>

text \<open>The disk space of the entries that are being read.\<close>

definition space_in_use :: "ctable \<Rightarrow> nat" where
  "space_in_use t = (\<Sum>h \<in> {0..<cache_table_size}. slot_space (t_block t) (filter (\<lambda>e. c_readers e \<noteq> 0) (t_slots t h)))"

lemma slot_space_filter_le: "slot_space block (filter P es) \<le> slot_space block es"
  by (induction es) auto

lemma in_use_keeps_space: "accounted t \<Longrightarrow> space_in_use t \<le> unat (t_current t)"
  by (auto simp: accounted_def space_in_use_def total_space_def intro: sum_mono slot_space_filter_le)

lemma sweep_keeps_in_use:
  assumes "collector P" "sweep_slots P no_guard hs t = (r, t')" "t_block t' = t_block t"
  shows "space_in_use t' = space_in_use t"
proof -
  have "filter (\<lambda>e. c_readers e \<noteq> 0) (filter (\<lambda>e. \<not> P e) es) = filter (\<lambda>e. c_readers e \<noteq> 0) es" for es
    using collector.idle [OF assms(1)] by (auto simp: intro!: filter_cong)
  then have "filter (\<lambda>e. c_readers e \<noteq> 0) (t_slots t' h) = filter (\<lambda>e. c_readers e \<noteq> 0) (t_slots t h)" for h
    using collector.slots_filter [OF assms(1), of hs t] assms(2) by (auto split: if_splits)
  with assms(3) show ?thesis by (simp add: space_in_use_def)
qed

definition crowded :: "hcache \<Rightarrow> bool" where
  "crowded c = (cache_inv no_ghost c \<and> h_gc_buffer c \<le> h_total_size c \<and>
     unat (h_total_size c) < space_in_use (h_table c) + unat (h_folder_size c) \<and>
     unat (t_current (h_table c)) + unat (h_folder_size c) < 2 ^ 64)"

lemma crowded_never_stops: "crowded c \<Longrightarrow> startGC c \<and> \<not> stopGC c"
proof -
  assume c: "crowded c"
  then have a: "accounted (h_table c)"
    by (simp add: crowded_def cache_inv_def good_table_def sound_def)
  let ?s = "t_current (h_table c) + h_folder_size c"
  have "unat ?s = unat (t_current (h_table c)) + unat (h_folder_size c)"
    using c by (simp add: crowded_def unat_add_lem [where 'a = 64, simplified, THEN iffD1])
  with in_use_keeps_space [OF a] c have "unat (h_total_size c) < unat ?s" by (simp add: crowded_def)
  moreover have "unat (h_total_size c - h_gc_buffer c) \<le> unat (h_total_size c)"
    using c by (simp add: crowded_def unat_sub)
  ultimately show ?thesis by (simp add: startGC_def stopGC_def word_less_nat_alt)
qed

lemma sweep_slots_current_le:
  "sweep_slots P g hs t = (r, t') \<Longrightarrow> unat (t_current t') \<le> unat (t_current t)"
proof (induction hs arbitrary: t)
  case (Cons h hs)
  obtain r1 t1 where s: "sweep_slot P g h t = (r1, t1)" by fastforce
  then have "unat (t_current t1) \<le> unat (t_current t)"
    by (auto simp: sweep_slot_def dest: sweep_current_le split: prod.splits)
  with Cons s show ?case by (cases r1) fastforce+
qed simp

lemma crowded_sweep:
  assumes "crowded c" "collector P" "sweep_slots P no_guard all_slots (h_table c) = (r, t)"
  shows "r = Inr () \<and> crowded (c\<lparr>h_table := t\<rparr>)"
proof -
  have r: "r = Inr ()" using collector.slots_filter [OF assms(2), of all_slots "h_table c"] assms(3) by auto
  have "keeps (cache_inv no_ghost) (on_table (sweep_slots P no_guard all_slots))" by (intro keeps_intros)
  moreover have "on_table (sweep_slots P no_guard all_slots) c = (r, c\<lparr>h_table := t\<rparr>)" using assms(3) by (simp add: on_table_def)
  ultimately have "cache_inv no_ghost (c\<lparr>h_table := t\<rparr>)" using assms(1) by (auto simp: crowded_def dest: keepsD)
  moreover have b: "t_block t = t_block (h_table c)" "unat (t_current t) \<le> unat (t_current (h_table c))"
    using sweep_slots_accounted [OF assms(3)] assms(1) sweep_slots_current_le [OF assms(3)]
    by (simp_all add: crowded_def cache_inv_def good_table_def sound_def)
  ultimately show ?thesis using r assms(1) sweep_keeps_in_use [OF assms(2,3) b(1)] by (simp add: crowded_def)
qed

lemma crowded_loop: "crowded c \<Longrightarrow> fst (hits_loop fuel hits c) = Inl No_Return"
proof (induction fuel arbitrary: hits c)
  case 0
  then show ?case using crowded_never_stops [of c] by simp
next
  case (Suc fuel)
  obtain r t where t: "delete_by_hits hits (h_table c) = (r, t)" by fastforce
  note n = crowded_sweep [OF Suc.prems by_hits.collector_axioms t [unfolded delete_by_hits_def]]
  then have "on_table (delete_by_hits hits) c = (Inr (), c\<lparr>h_table := t\<rparr>)" using t by (simp add: on_table_def)
  with Suc.IH [of "c\<lparr>h_table := t\<rparr>"] n crowded_never_stops [OF Suc.prems] show ?case by simp
qed

text \<open>
  C25: garbage collection never ends while the entries that are being read together take, with
  the space set aside, more than the cache may hold.
\<close>
theorem collection_waits_for_readers:
  assumes "cache_reach c" "h_gc_buffer c \<le> h_total_size c"
    "unat (h_total_size c) < space_in_use (h_table c) + unat (h_folder_size c)"
    "unat (t_current (h_table c)) + unat (h_folder_size c) < 2 ^ 64"
  shows "fst (perform_garbage_collection fuel env c) = Inl No_Return"
proof -
  have c: "crowded c"
    using assms cache_reach_inv [OF assms(1)] by (simp add: crowded_def)
  obtain r1 c1 where 1: "expired_gc env c = (r1, c1)" by fastforce
  have c1: "r1 = Inr () \<and> crowded c1"
  proof (cases "h_expire_ignored c")
    case False
    obtain r t where t: "sweep_slots (expired (e_now env)) no_guard all_slots (h_table c) = (r, t)" by fastforce
    with crowded_sweep [OF c expired.collector_axioms t] 1 False show ?thesis
      by (simp add: expired_gc_def on_table_def delete_expired_entries_def)
  qed (use 1 c in \<open>simp add: expired_gc_def\<close>)
  obtain r2 c2 where 2: "too_big_gc c1 = (r2, c2)" by fastforce
  obtain r t where t: "sweep_slots (\<lambda>e. c_readers e = 0 \<and> c_size e > ucast (ucast (h_max_entry_size c1) :: u32)) no_guard all_slots (h_table c1) = (r, t)"
    by fastforce
  have c2: "r2 = Inr () \<and> crowded c2"
    using crowded_sweep [OF conjunct2 [OF c1] by_size.collector_axioms t] 2 t crowded_never_stops [OF conjunct2 [OF c1]]
    by (simp add: too_big_gc_def on_table_def delete_by_size_def)
  have "fst (hits_gc fuel c2) = Inl No_Return"
    using crowded_never_stops [of c2] crowded_loop [of c2 fuel 0] c2 by (simp add: hits_gc_def)
  with 1 2 c1 c2 show ?thesis by (simp add: perform_garbage_collection_def)
qed

text \<open>A cache of five megabytes with responses of three megabytes for two addresses, both in use.\<close>

definition big_env :: env where "big_env = calm_env\<lparr>e_body := Inr 0x300000\<rparr>"

definition big_entry :: "nat \<Rightarrow> string \<Rightarrow> centry" where
  "big_entry i url = (new_entry i url)\<lparr>c_cachename := ''f'', c_size := 0x300000, c_response := 100, c_initial_age := 201, c_freshness := 86400\<rparr>"

definition in_use :: "centry \<Rightarrow> centry" where "in_use e = e\<lparr>c_readers := 1, c_rlock := True, c_hits := 1\<rparr>"

definition big0 :: hcache where
  "big0 = cache0\<lparr>h_total_size := 0x500000, h_folder_size := 0x80000, h_gc_buffer := 0x80000\<rparr>"

definition big1 :: hcache where
  "big1 = big0\<lparr>h_table := (h_table cache0)\<lparr>t_slots := (\<lambda>_. [])(105 := [big_entry 0 ''http:a'']), t_current := 0x301000, t_new := 1\<rparr>, h_next := 1\<rparr>"

definition big2 :: hcache where
  "big2 = big1\<lparr>h_table := (h_table big1)\<lparr>t_slots := (\<lambda>_. [])(105 := [in_use (big_entry 0 ''http:a'')]), t_locked := [(7, Some (105, 0))]\<rparr>\<rparr>"

definition big3 :: hcache where
  "big3 = big2\<lparr>h_table := (h_table big2)\<lparr>t_slots := (\<lambda>_. [])(105 := [in_use (big_entry 0 ''http:a'')], 106 := [big_entry 1 ''http:b'']),
     t_current := 0x602000, t_new := 2\<rparr>, h_next := 2\<rparr>"

definition big4 :: hcache where
  "big4 = big3\<lparr>h_table := (h_table big3)\<lparr>t_slots := (\<lambda>_. [])(105 := [in_use (big_entry 0 ''http:a'')], 106 := [in_use (big_entry 1 ''http:b'')]),
     t_locked := [(8, Some (106, 1)), (7, Some (105, 0))]\<rparr>\<rparr>"

lemmas big_defs = big0_def big1_def big2_def big3_def big4_def cache0_def new_cache_def new_table_def calm_env_def big_env_def
  big_entry_def in_use_def new_entry_def

lemma hash_of_b: "get_hash ''http:b'' = 106"
  by (simp add: get_hash_def cache_table_size_def ord_of_def c_str_def)

lemma run_big0: "run_op 0 (Set_Max_Size calm_env 5) cache0 = (Inr (), big0)"
  by (simp add: set_max_size_def locked_def big_defs mega_def startGC_def)

lemmas run_cache_response = discard_def cache_response_def locked_def on_table_def remove_entry_from_cache_table_def sweep_slot_def
  str_find_def fresh_id_def response_entry_def lock_write_response_def calculate_time_def write_metadata.simps
  add_entry_to_cache_table_def hash_of_a hash_of_b cache_table_size_def change_entry_def unlock_write_response_def dump_index_def
  dump_frequency_def entry_disk_space_def s32_def freshness_of_def

lemmas run_get_response = discard_def get_cached_response_def locked_def on_table_def get_locked_entry_from_cache_table_def
  get_entry_def hash_of_a hash_of_b lock_read_response_def read_metadata_def file_lines.simps bind_entry_to_data_def
  change_entry_def erase_file_def s32_def

lemma run_big1: "run_op 0 (Cache_Response big_env ''http:a'' 0 []) big0 = (Inr (), big1)"
  by (simp add: run_cache_response big_defs)

lemma run_big2: "run_op 0 (Get_Response calm_env ''http:a'') big1 = (Inr (), big2)"
  by (simp add: run_get_response big_defs)

lemma run_big3: "run_op 0 (Cache_Response big_env ''http:b'' 0 []) big2 = (Inr (), big3)"
  by (simp add: run_cache_response big_defs)

lemma run_big4: "run_op 0 (Get_Response (calm_env\<lparr>e_open := Inr 8\<rparr>) ''http:b'') big3 = (Inr (), big4)"
  by (simp add: run_get_response big_defs)

lemma big4_reach: "cache_reach big4"
proof (intro cache_reach.step [OF _ _ run_big4] cache_reach.step [OF _ _ run_big3] cache_reach.step [OF _ _ run_big2]
    cache_reach.step [OF _ _ run_big1] cache_reach.step [OF cache0_reach _ run_big0])
qed (simp_all add: body_fits_def opens_unbound_def unbound_def entry_disk_space_def big_defs)

lemma big4_in_use: "unat (h_total_size big4) < space_in_use (h_table big4) + unat (h_folder_size big4)"
proof -
  let ?f = "\<lambda>h. slot_space (t_block (h_table big4)) (filter (\<lambda>e. c_readers e \<noteq> 0) (t_slots (h_table big4) h))"
  have "(\<Sum>h \<in> {105, 106}. ?f h) \<le> space_in_use (h_table big4)"
    unfolding space_in_use_def by (rule sum_mono2) (auto simp: cache_table_size_def)
  moreover have "?f 105 = 0x301000" "?f 106 = 0x301000"
    by (simp_all add: big_defs slot_space_def entry_space_def entry_disk_space_def)
  ultimately have "0x602000 \<le> space_in_use (h_table big4)" by simp
  moreover have "unat (h_total_size big4) = 0x500000" by (simp add: big_defs)
  ultimately show ?thesis by linarith
qed

theorem collection_waits_for_readers_witness: "fst (perform_garbage_collection 1000 calm_env big4) = Inl No_Return"
  by (rule collection_waits_for_readers [OF big4_reach _ big4_in_use]) (simp_all add: big_defs)

end
