(* ===== verification/Http_Cache_Files.thy ===== *)
theory Http_Cache_Files
  imports Http_Cache
begin

text \<open>
  What the HTTP cache writes to its files is what it reads: the headers of a response and the
  index.  Lines longer than the buffer of \<open>fgets\<close> and words with blanks are excluded, which the code
  does not do.
\<close>

section \<open>Lines\<close>

lemma fgets_line: "newline \<notin> set h \<Longrightarrow> length h < n \<Longrightarrow> fgets n (h @ newline # s) = h @ [newline]"
proof (induction h arbitrary: n)
  case Nil
  then show ?case by (cases n) simp_all
next
  case (Cons c h)
  then show ?case by (cases n) auto
qed

lemma file_lines_line:
  "newline \<notin> set h \<Longrightarrow> length h < 1023 \<Longrightarrow> file_lines (h @ newline # s) = (h @ [newline]) # file_lines s"
  by (subst file_lines.simps) (simp add: fgets_line)

lemma file_lines_nil: "file_lines [] = []"
  by (simp add: file_lines.simps)

section \<open>Headers\<close>

definition plain_header :: "string \<Rightarrow> bool" where
  "plain_header h = (h \<noteq> [] \<and> newline \<notin> set h \<and> nul \<notin> set h \<and> length h < 1023)"

lemma write_metadata_lines:
  "\<forall>h \<in> set hs. plain_header h \<Longrightarrow>
   write_metadata hs = Inr (concat (map (\<lambda>h. h @ [newline]) (filter (\<lambda>h. \<not> is_hop_by_hop_header h) hs)))"
  by (induction hs) (auto simp: plain_header_def)

lemma read_lines:
  "\<forall>h \<in> set hs. plain_header h \<Longrightarrow> read_metadata (concat (map (\<lambda>h. h @ [newline]) hs)) = Inr hs"
proof (induction hs)
  case Nil
  show ?case by (simp add: read_metadata_def file_lines_nil)
next
  case (Cons h hs)
  have h: "plain_header h" using Cons.prems by simp
  then have "file_lines (h @ newline # concat (map (\<lambda>h. h @ [newline]) hs)) = (h @ [newline]) # file_lines (concat (map (\<lambda>h. h @ [newline]) hs))"
    by (intro file_lines_line) (simp_all add: plain_header_def)
  moreover have "c_str (h @ [newline]) = h @ [newline]" using h by (intro c_str_id) (simp add: plain_header_def)
  ultimately show ?case using Cons by (simp add: read_metadata_def)
qed

section \<open>Merged headers\<close>

lemma insert_header_names: "header_name ` set (insert_header h xs) = insert (header_name h) (header_name ` set xs)"
  by (induction xs) (auto simp: not_less_iff_gr_or_eq)

lemma insert_header_sorted:
  "sorted_wrt (\<lambda>a b. header_name a < header_name b) xs \<Longrightarrow> sorted_wrt (\<lambda>a b. header_name a < header_name b) (insert_header h xs)"
proof (induction xs)
  case (Cons x xs)
  have n: "header_name ` set (insert_header h xs) = insert (header_name h) (header_name ` set xs)" by (rule insert_header_names)
  show ?case
  proof (cases "header_name x < header_name h")
    case True
    have "header_name x < header_name y" if "y \<in> set (insert_header h xs)" for y
    proof -
      have "header_name y \<in> insert (header_name h) (header_name ` set xs)" using n that by blast
      with True Cons.prems show ?thesis by auto
    qed
    with True Cons show ?thesis by auto
  next
    case False
    with Cons.prems show ?thesis by (auto intro: order.strict_trans)
  qed
qed simp

text \<open>A header by its name: the first one.\<close>

definition header_of :: "string list \<Rightarrow> string \<Rightarrow> string option" where
  "header_of hs = map_of (map (\<lambda>h. (header_name h, h)) hs)"

lemma header_of_simps [simp]:
  "header_of [] n = None" "header_of (h # hs) n = (if header_name h = n then Some h else header_of hs n)"
  by (simp_all add: header_of_def)

lemma header_of_None: "header_of hs n = None \<longleftrightarrow> n \<notin> header_name ` set hs"
  by (induction hs) auto

abbreviation by_name :: "string list \<Rightarrow> bool" where
  "by_name \<equiv> sorted_wrt (\<lambda>a b. header_name a < header_name b)"

lemma header_of_insert:
  "by_name s \<Longrightarrow> header_of (insert_header h s) n = (case header_of s n of Some x \<Rightarrow> Some x | None \<Rightarrow> if header_name h = n then Some h else None)"
proof (induction s)
  case (Cons x s)
  show ?case
  proof (cases "header_name h < header_name x")
    case True
    have "header_of s (header_name h) = None"
      using True Cons.prems by (auto simp: header_of_None dest: order.strict_trans)
    with True show ?thesis by (auto split: option.split)
  next
    case False
    with Cons show ?thesis by (auto simp: not_less_iff_gr_or_eq split: option.split)
  qed
qed simp

lemma header_of_foldl:
  "by_name s \<Longrightarrow> by_name (foldl (\<lambda>s h. insert_header h s) s hs) \<and>
   header_of (foldl (\<lambda>s h. insert_header h s) s hs) n = (case header_of s n of Some x \<Rightarrow> Some x | None \<Rightarrow> header_of hs n)"
proof (induction hs arbitrary: s)
  case (Cons h hs)
  from Cons.IH [OF insert_header_sorted [OF Cons.prems, of h]] header_of_insert [OF Cons.prems, of h n] show ?case
    by (auto split: option.split)
qed (simp split: option.split)

lemma header_of_append: "header_of (xs @ ys) n = (case header_of xs n of Some x \<Rightarrow> Some x | None \<Rightarrow> header_of ys n)"
  by (induction xs) (auto split: option.split)

lemma header_of_rev: "by_name s \<Longrightarrow> header_of (rev s) n = header_of s n"
proof (induction s)
  case (Cons x s)
  have "header_of s (header_name x) = None" using Cons.prems by (auto simp: header_of_None)
  with Cons show ?case by (auto simp: header_of_append split: option.split)
qed simp

text \<open>
  updating a response keeps of each header the new one, or the old one when there is no new one,
  and writes them ordered by name.
\<close>
lemma merged_headers_prefer_new:
  "header_of (merge_headers headers old) n = (case header_of headers n of Some h \<Rightarrow> Some h | None \<Rightarrow> header_of old n) \<and>
   sorted_wrt (\<lambda>a b. header_name b < header_name a) (merge_headers headers old)"
proof -
  let ?s = "foldl (\<lambda>s h. insert_header h s) [] headers"
  have s: "by_name ?s" "header_of ?s n = header_of headers n" using header_of_foldl [of "[]" headers n] by simp_all
  from header_of_foldl [OF s(1), of old n] s(2) show ?thesis
    by (simp add: merge_headers_def header_of_rev sorted_wrt_rev)
qed

text \<open>
  the headers written for a response are read back, without those that belong to the connection.
\<close>
lemma headers_read_back:
  assumes "\<forall>h \<in> set hs. plain_header h"
  shows "bindE (write_metadata hs) read_metadata = Inr (filter (\<lambda>h. \<not> is_hop_by_hop_header h) hs)"
  using write_metadata_lines [OF assms] read_lines [of "filter (\<lambda>h. \<not> is_hop_by_hop_header h) hs"] assms
  by (simp del: bindE_eq_Inr)

lemma headers_read_back_witness:
  "bindE (write_metadata [''ETag: x'', ''Connection: close'']) read_metadata = Inr [''ETag: x'']"
  by (subst headers_read_back) (simp_all add: plain_header_def is_hop_by_hop_header_def str_find_def)

section \<open>The index\<close>

definition word :: "string \<Rightarrow> bool" where
  "word w = (w \<noteq> [] \<and> (\<forall>c \<in> set w. \<not> is_space c \<and> c \<noteq> nul))"

definition rest_of_line :: "string list \<Rightarrow> string" where
  "rest_of_line ws = concat (map (\<lambda>w. CHR '' '' # w) ws) @ [CHR 0x0D, newline]"

lemma rest_of_line_Cons: "rest_of_line (w # ws) = CHR '' '' # w @ rest_of_line ws"
  by (simp add: rest_of_line_def)

lemma separated_line: "separated (w # ws) @ [CHR 0x0D, newline] = w @ rest_of_line ws"
  by (induction ws arbitrary: w) (simp_all add: rest_of_line_def)

lemma rest_of_line_head: "\<exists>c s. rest_of_line ws = c # s \<and> is_space c \<and> \<not> is_digit c"
  by (cases ws) (simp_all add: rest_of_line_def is_space_def is_digit_def ord_of_def)

lemma get_word_rest: "word w \<Longrightarrow> get_word (Some (w @ rest_of_line ws)) old = (w, Some (rest_of_line ws))"
proof -
  assume w: "word w"
  obtain c s where r: "rest_of_line ws = c # s" "is_space c" using rest_of_line_head by blast
  obtain a w' where a: "w = a # w'" "\<not> is_space a" using w by (cases w) (auto simp: word_def)
  then have "dropWhile is_space (w @ rest_of_line ws) = w @ rest_of_line ws" by simp
  moreover have "takeWhile (\<lambda>c. \<not> is_space c) (w @ c # s) = w" "dropWhile (\<lambda>c. \<not> is_space c) (w @ c # s) = c # s"
    using w r(2) by (auto simp: word_def takeWhile_append2 dropWhile_append2)
  ultimately show ?thesis using a(1) by (simp add: get_word_def Let_def r(1))
qed

lemma space_dropped: "dropWhile is_space (CHR '' '' # s) = dropWhile is_space s"
  by (simp add: is_space_def)

lemma get_word_line: "word w \<Longrightarrow> get_word (Some (rest_of_line (w # ws))) old = (w, Some (rest_of_line ws))"
  using get_word_rest [of w ws old] by (simp only: rest_of_line_Cons get_word_def option.case Let_def space_dropped)

lemma get_number_line:
  "get_number conv (Some (rest_of_line (ostream_int v # ws))) old =
     (case conv v of (w, good) \<Rightarrow> (w, if good then Some (rest_of_line ws) else None))"
proof -
  obtain c s where r: "rest_of_line ws = c # s" "\<not> is_digit c" using rest_of_line_head by blast
  obtain ds where ds: "digits_of 10 (nat \<bar>v\<bar>) = map digit_char ds" "ds \<noteq> []" "\<forall>d \<in> set ds. d < 10" "foldl (\<lambda>a d. a * 10 + d) 0 ds = nat \<bar>v\<bar>"
    using digits_of_digits by blast
  obtain d ds' where d: "ds = d # ds'" using ds(2) by (cases ds) simp_all
  have h: "\<not> is_space (digit_char d)" "digit_char d \<noteq> CHR ''-''" "digit_char d \<noteq> CHR ''+''"
    using is_digit_head [OF digit_char_is_digit, of d] ds(3) d by simp_all
  have m: "\<not> is_space (CHR ''-'')" by (simp add: is_space_def ord_of_def)
  have dg: "is_digit x" if "x \<in> set (map digit_char ds)" for x using that ds(3) digit_char_is_digit by auto
  have t: "takeWhile is_digit (map digit_char ds @ c # s) = map digit_char ds"
    "dropWhile is_digit (map digit_char ds @ c # s) = c # s" 
    using r(2) takeWhile_append2 [of "map digit_char ds" is_digit "c # s", OF dg] dropWhile_append2 [of "map digit_char ds" is_digit "c # s", OF dg]
    by simp_all
  have v: "int (digits_value 10 0 (map digit_char ds)) = \<bar>v\<bar>" by (simp add: digits_value_digits [OF ds(3)] ds(4))
  have hd: "hd (map digit_char ds @ c # s) = digit_char d" "dropWhile is_space (map digit_char ds @ c # s) = map digit_char ds @ c # s"
    using d h(1) by simp_all
  show ?thesis
  proof (cases "v < 0")
    case True
    then have o: "ostream_int v = CHR ''-'' # map digit_char ds" using ds(1) by (simp add: ostream_int_def)
    show ?thesis
      unfolding rest_of_line_Cons o get_number_def option.case Let_def space_dropped r(1)
      using m t v True ds(2) by (simp split: prod.split)
  next
    case False
    then have o: "ostream_int v = map digit_char ds" using ds(1) by (simp add: ostream_int_def)
    show ?thesis
      unfolding rest_of_line_Cons o get_number_def option.case Let_def space_dropped r(1) hd(2) hd(1)
      using h t v False ds(2) by (simp split: prod.split)
  qed
qed

text \<open>An entry the format of the index can hold, and what it keeps of it.\<close>

definition long_range :: "int \<Rightarrow> bool" where "long_range v = (- (2 ^ 63) \<le> v \<and> v < 2 ^ 63)"
definition int_range :: "int \<Rightarrow> bool" where "int_range v = (- (2 ^ 31) \<le> v \<and> v < 2 ^ 31)"

definition index_safe :: "centry \<Rightarrow> bool" where
  "index_safe e = (word (c_url e) \<and> word (c_cachename e) \<and> (c_etag e = [] \<or> word (c_etag e) \<and> c_etag e \<noteq> empty_etag) \<and>
     long_range (c_lm e) \<and> long_range (c_expires e) \<and> int_range (c_hash e) \<and> int_range (c_hits e) \<and>
     long_range (c_freshness e) \<and> long_range (c_response e) \<and> long_range (c_initial_age e) \<and>
     length (write_one_cache_entry e) \<le> 1023)"

definition persisted :: "nat \<Rightarrow> centry \<Rightarrow> centry" where
  "persisted n e = (new_entry n [])\<lparr>c_url := c_url e, c_hash := c_hash e, c_hits := c_hits e, c_cachename := c_cachename e,
     c_etag := c_etag e, c_lm := c_lm e, c_expires := c_expires e, c_size := c_size e, c_freshness := c_freshness e,
     c_response := c_response e, c_initial_age := c_initial_age e, c_must_revalidate := c_must_revalidate e\<rparr>"

lemma clamped_ok: "long_range v \<Longrightarrow> clamped 63 v = (v, True)" "int_range v \<Longrightarrow> clamped 31 v = (v, True)"
  by (simp_all add: clamped_def long_range_def int_range_def)

lemma size_read: "to_ulong (sint (w :: u64)) = (uint w, True)"
proof -
  have "\<bar>sint w\<bar> < 2 ^ 64" using sint_greater_eq [of w] sint_less [of w] by (simp add: abs_less_iff)
  moreover have "sint w mod 2 ^ 64 = uint w"
    using uint_sint [of w] by (simp add: take_bit_eq_mod)
  ultimately show ?thesis by (simp add: to_ulong_def)
qed

lemma word_c_str: "word w \<Longrightarrow> c_str w = w"
  by (intro c_str_id) (auto simp: word_def)

lemma flag_text: "(if b then ''1'' else ''0'') = ostream_int (if b then 1 else 0)"
proof -
  have "digit_char 1 = CHR ''1''" "digit_char 0 = CHR ''0''" by code_simp+
  then show ?thesis by (simp add: ostream_int_def digits_of.simps)
qed

lemma ostream_int_chars: "c \<in> set (ostream_int v) \<Longrightarrow> is_digit c \<or> c = CHR ''-''"
proof -
  assume c: "c \<in> set (ostream_int v)"
  obtain ds where "digits_of 10 (nat \<bar>v\<bar>) = map digit_char ds" "\<forall>d \<in> set ds. d < 10" using digits_of_digits by blast
  then have "is_digit x" if "x \<in> set (digits_of 10 (nat \<bar>v\<bar>))" for x using that digit_char_is_digit by auto
  with c show ?thesis by (auto simp: ostream_int_def split: if_splits)
qed

lemma number_no_nul: "nul \<notin> set (ostream_int v)"
  using ostream_int_chars [of nul v] by (auto simp: is_digit_def ord_of_def)

lemma number_no_newline: "newline \<notin> set (ostream_int v)"
  using ostream_int_chars [of newline v] by (auto simp: is_digit_def ord_of_def)

lemma word_no_nul: "word w \<Longrightarrow> nul \<notin> set w"
  unfolding word_def by blast

lemma word_no_newline: "word w \<Longrightarrow> newline \<notin> set w"
proof -
  have "is_space newline" by (simp add: is_space_def ord_of_def)
  then show "word w \<Longrightarrow> newline \<notin> set w" unfolding word_def by blast
qed

lemma empty_etag_word: "word empty_etag"
  by (simp add: word_def empty_etag_def is_space_def ord_of_def)

definition written_etag :: "centry \<Rightarrow> string" where
  "written_etag e = (if c_etag e = [] then empty_etag else c_etag e)"

definition numbers :: "centry \<Rightarrow> int list" where
  "numbers e = [c_lm e, c_expires e, sint (c_size e), 0, c_hash e, c_hits e, c_freshness e, c_response e,
     c_initial_age e, if c_must_revalidate e then 1 else 0]"

lemma index_words:
  assumes "index_safe e"
  shows "word (c_url e)" "word (c_cachename e)" "word (written_etag e)" "(if written_etag e = empty_etag then [] else written_etag e) = c_etag e"
  using assms empty_etag_word unfolding index_safe_def written_etag_def by (blast, blast, simp split: if_split, blast, auto)

lemma index_fields_safe:
  assumes "index_safe e"
  shows "index_fields e = c_url e # c_cachename e # written_etag e # map ostream_int (numbers e)"
proof -
  have z: "''0'' = ostream_int 0" using flag_text [of False] by simp
  have "(if c_etag e = [] then empty_etag else c_str (c_etag e)) = written_etag e"
    using word_c_str index_words(3) [OF assms] by (simp add: written_etag_def split: if_splits)
  then show ?thesis
    using index_words [OF assms] flag_text [of "c_must_revalidate e"] z by (simp add: index_fields_def word_c_str numbers_def)
qed

lemma rest_of_line_chars: "c \<in> set (rest_of_line ws) \<Longrightarrow> c = CHR '' '' \<or> c = CHR 0x0D \<or> c = newline \<or> (\<exists>w \<in> set ws. c \<in> set w)"
  by (induction ws) (auto simp: rest_of_line_def)

lemma written_line_words:
  "index_safe e \<Longrightarrow> write_one_cache_entry e = c_url e @ rest_of_line (c_cachename e # written_etag e # map ostream_int (numbers e))"
  unfolding write_one_cache_entry_def by (simp only: index_fields_safe separated_line)

lemma written_line_c_str:
  assumes "index_safe e"
  shows "c_str (write_one_cache_entry e) = write_one_cache_entry e"
proof (rule c_str_id)
  have "\<forall>w \<in> set (c_cachename e # written_etag e # map ostream_int (numbers e)). nul \<notin> set w"
    using index_words [OF assms] word_no_nul number_no_nul by simp
  then show "nul \<notin> set (write_one_cache_entry e)"
    using rest_of_line_chars [of nul] index_words(1) [OF assms] word_no_nul unfolding written_line_words [OF assms] by fastforce
qed

lemma flags_read: "to_bool 0 = (0, True)" "to_bool (if b then 1 else 0) = (if b then 1 else 0, True)"
  by (simp_all add: to_bool_def)

lemma flag_back: "((if b then 1 else 0) \<noteq> (0 :: int)) = b"
  by simp

lemma parse_written_line:
  assumes "index_safe e"
  shows "cache_index_parse_line n (write_one_cache_entry e) = persisted n e"
proof -
  note w = index_words [OF assms]
  have r: "long_range (c_lm e)" "long_range (c_expires e)" "int_range (c_hash e)" "int_range (c_hits e)"
    "long_range (c_freshness e)" "long_range (c_response e)" "long_range (c_initial_age e)"
    using assms unfolding index_safe_def by blast+
  show ?thesis
    unfolding cache_index_parse_line_def written_line_c_str [OF assms]
    unfolding written_line_words [OF assms] numbers_def list.map get_word_rest [OF w(1)] Let_def prod.case
    unfolding get_word_line [OF w(2)] prod.case get_word_line [OF w(3)] get_number_line
    by (simp only: get_number_line clamped_ok r size_read flags_read prod.case if_True w(4) flag_back) (simp add: persisted_def)
qed

lemma written_line:
  assumes "index_safe e"
  shows "\<exists>l. write_one_cache_entry e = l @ [newline] \<and> newline \<notin> set l \<and> length l < 1023"
proof -
  have sep: "newline \<notin> set (separated ws)" if "\<forall>w \<in> set ws. newline \<notin> set w" for ws
    using that by (induction ws rule: separated.induct) auto
  have "\<forall>w \<in> set (index_fields e). newline \<notin> set w"
    using index_words [OF assms] word_no_newline number_no_newline by (simp add: index_fields_safe [OF assms])
  then have "newline \<notin> set (separated (index_fields e) @ [CHR 0x0D])" using sep by simp
  moreover have "write_one_cache_entry e = (separated (index_fields e) @ [CHR 0x0D]) @ [newline]"
    by (simp add: write_one_cache_entry_def)
  moreover have "length (write_one_cache_entry e) \<le> 1023" using assms by (simp add: index_safe_def)
  ultimately show ?thesis by (intro exI [of _ "separated (index_fields e) @ [CHR 0x0D]"]) simp
qed

lemma index_lines:
  "\<forall>e \<in> set es. index_safe e \<Longrightarrow> file_lines (concat (map write_one_cache_entry es)) = map write_one_cache_entry es"
proof (induction es)
  case (Cons e es)
  then obtain l where l: "write_one_cache_entry e = l @ [newline]" "newline \<notin> set l" "length l < 1023"
    using written_line [of e] by auto
  with Cons show ?case by (simp add: file_lines_line)
qed (simp add: file_lines_nil)

definition forget :: "centry \<Rightarrow> centry" where "forget = persisted 0"

lemma forget_persisted: "forget (persisted n e) = forget e"
  by (simp add: forget_def persisted_def)

lemma add_lines_written:
  "\<forall>e \<in> set es. index_safe e \<and> c_hash e \<in> {0..<cache_table_size} \<Longrightarrow>
   \<exists>t'. add_lines n (map write_one_cache_entry es) t = (Inr (n + length es), t') \<and> t_locked t' = t_locked t \<and>
     (\<forall>h. map forget (t_slots t' h) = map forget (t_slots t h) @ map forget (filter (\<lambda>e. c_hash e = h) es))"
proof (induction es arbitrary: n t)
  case (Cons e es)
  have p: "cache_index_parse_line n (write_one_cache_entry e) = persisted n e"
    using parse_written_line Cons.prems by simp
  have h: "c_hash (persisted n e) = c_hash e" by (simp add: persisted_def)
  obtain t1 where t1: "add_entry_to_cache_table (persisted n e) t = (Inr (), t1)"
    "t_slots t1 = (t_slots t)(c_hash e := t_slots t (c_hash e) @ [persisted n e])" "t_locked t1 = t_locked t"
    using Cons.prems by (simp add: add_entry_to_cache_table_def h)
  from Cons.IH [of "Suc n" t1] Cons.prems obtain t' where
    t': "add_lines (Suc n) (map write_one_cache_entry es) t1 = (Inr (Suc n + length es), t')" "t_locked t' = t_locked t1"
    "\<forall>h. map forget (t_slots t' h) = map forget (t_slots t1 h) @ map forget (filter (\<lambda>e. c_hash e = h) es)" by auto
  then show ?case using p t1 by (simp add: forget_persisted)
qed simp

lemma filter_slots:
  assumes "\<And>h e. e \<in> set (f h) \<Longrightarrow> c_hash e = h" "distinct hs"
  shows "filter (\<lambda>e. c_hash e = h) (concat (map f hs)) = (if h \<in> set hs then f h else [])"
  using assms(2)
proof (induction hs)
  case (Cons k hs)
  have "filter (\<lambda>e. c_hash e = h) (f k) = (if k = h then f k else [])"
    using assms(1) [of _ k] by (auto simp: filter_empty_conv filter_id_conv)
  with Cons show ?case by auto
qed simp

text \<open>
  C18: reading the index that was written gives the table back: every slot holds its entries in the
  same order, with all the fields that the index keeps (\<open>forget\<close> drops the others).  The entries
  are in the slots of their hash and can be written (\<open>index_safe\<close>): the URL, the file name and the
  tag are words without blanks, the tag is not the marker of an empty one, the numbers are those the
  reader takes back, and the line has at most 1023 bytes.
\<close>
theorem index_read_back:
  assumes "\<And>h e. e \<in> set (t_slots t h) \<Longrightarrow> index_safe e \<and> c_hash e = h \<and> h \<in> {0..<cache_table_size}"
  shows "\<exists>n t'. cache_index_read (Some (cache_index_text t)) (new_table block) = (Inr n, t') \<and>
    (\<forall>h. map forget (t_slots t' h) = map forget (t_slots t h))"
proof -
  let ?es = "concat (map (t_slots t) all_slots)"
  have s: "\<forall>e \<in> set ?es. index_safe e \<and> c_hash e \<in> {0..<cache_table_size}" using assms by fastforce
  have l: "file_lines (cache_index_text t) = map write_one_cache_entry ?es"
    unfolding cache_index_text_def by (rule index_lines) (use s in blast)
  obtain t' where t': "add_lines 0 (map write_one_cache_entry ?es) (new_table block) = (Inr (0 + length ?es), t')"
    "\<forall>h. map forget (t_slots t' h) = map forget (t_slots (new_table block) h) @ map forget (filter (\<lambda>e. c_hash e = h) ?es)"
    using add_lines_written [OF s, of 0 "new_table block"] by blast
  have d: "distinct all_slots" by (simp add: all_slots_def)
  have "t_slots t h = []" if "h \<notin> set all_slots" for h
  proof (rule ccontr)
    assume "t_slots t h \<noteq> []"
    then have "\<exists>e. e \<in> set (t_slots t h)" by (cases "t_slots t h") auto
    then obtain e where "e \<in> set (t_slots t h)" by blast
    with assms that show False by (auto simp: all_slots_def)
  qed
  then have "filter (\<lambda>e. c_hash e = h) ?es = t_slots t h" for h
    using filter_slots [of "t_slots t" all_slots h] assms d by simp
  with t' l show ?thesis by (auto simp: cache_index_read_def new_table_def)
qed

text \<open>An entry with an empty ETag and a size of 10 bytes.\<close>

definition sample_entry :: centry where
  "sample_entry = (new_entry 5 ''http:a'')\<lparr>c_cachename := ''/tmp/f'', c_size := 10, c_hits := 3, c_must_revalidate := True\<rparr>"

theorem index_read_back_witness:
  "\<exists>n t'. cache_index_read (Some (cache_index_text ((new_table 4096)\<lparr>t_slots := (\<lambda>_. [])(get_hash ''http:a'' := [sample_entry])\<rparr>))) (new_table 4096) = (Inr n, t') \<and>
    (\<forall>h. map forget (t_slots t' h) = map forget (((\<lambda>_. [])(get_hash ''http:a'' := [sample_entry])) h))"
proof -
  let ?t = "(new_table 4096)\<lparr>t_slots := (\<lambda>_. [])(get_hash ''http:a'' := [sample_entry])\<rparr>"
  have h: "get_hash ''http:a'' = 105"
    by (simp add: get_hash_def cache_table_size_def ord_of_def c_str_def)
  have sf: "index_safe sample_entry" by code_simp
  have "\<exists>n t'. cache_index_read (Some (cache_index_text ?t)) (new_table 4096) = (Inr n, t') \<and>
      (\<forall>h. map forget (t_slots t' h) = map forget (t_slots ?t h))"
    by (rule index_read_back) (use sf in \<open>auto simp: h cache_table_size_def sample_entry_def new_entry_def split: if_splits\<close>)
  then show ?thesis by simp
qed

end
