(* ===== verification/Attr_Tables.thy ===== *)
theory Attr_Tables
  imports Escaping Dap_Util
begin

text \<open>
  Attribute tables (\<open>AttrTable.h\<close>, \<open>AttrTable.cc\<close>) and the DAS that holds one (\<open>DAS.cc\<close>).  Tables and
  vectors of values are shared through pointers, by aliases, so they live in a store of objects
  by address.  An entry is owned by the table it is in and is kept in its list; an iterator is
  the address of a table and an index.  An access to an object that was deleted, to a null pointer or
  to a pointer never set is \<open>Undefined\<close>.  Functions that follow containers take the depth of
  the stack: a recursion that is deeper is \<open>Undefined\<close>.
\<close>

section \<open>Spaces in names\<close>

text \<open>The loops search from the start of the string each time.\<close>

function remove_space_encoding :: "string \<Rightarrow> string" where
  "remove_space_encoding s =
     (case str_find ''%20'' s 0 of None \<Rightarrow> s | Some pos \<Rightarrow> remove_space_encoding (str_replace s pos 3 '' ''))"
  by pat_completeness auto
termination
  by (relation "measure length") (auto simp: str_replace_def dest!: str_find_Some)

declare remove_space_encoding.simps [simp del]

lemma str_find_char: "str_find [c] s 0 = Some k \<Longrightarrow> k < length s \<and> s ! k = c"
proof -
  have "find_sub [c] s = Some k \<Longrightarrow> k < length s \<and> s ! k = c" for k
  proof (induction s arbitrary: k)
    case (Cons d ds)
    then show ?case by (cases "d = c") auto
  qed simp
  then show "str_find [c] s 0 = Some k \<Longrightarrow> k < length s \<and> s ! k = c" by (simp add: str_find_def map_option_case split: option.splits)
qed

function add_space_encoding :: "string \<Rightarrow> string" where
  "add_space_encoding s =
     (case str_find '' '' s 0 of None \<Rightarrow> s | Some pos \<Rightarrow> add_space_encoding (str_replace s pos 1 ''%20''))"
  by pat_completeness auto
termination
proof (relation "measure (\<lambda>s. count_from (\<lambda>c. c = CHR '' '') s 0)")
  fix s k assume "str_find '' '' s 0 = Some k"
  then have "k < length s" "s ! k = CHR '' ''" using str_find_char by blast+
  then have s: "s = take k s @ CHR '' '' # drop (Suc k) s" by (metis id_take_nth_drop)
  have "length (filter (\<lambda>c. c = CHR '' '') s) =
      Suc (length (filter (\<lambda>c. c = CHR '' '') (take k s)) + length (filter (\<lambda>c. c = CHR '' '') (drop (Suc k) s)))"
    by (subst s) simp
  then show "(str_replace s k 1 ''%20'', s) \<in> measure (\<lambda>s. count_from (\<lambda>c. c = CHR '' '') s 0)"
    by (simp add: str_replace_def count_from_def)
qed simp

declare add_space_encoding.simps [simp del]

section \<open>Types of attributes\<close>

datatype attr_type = Attr_unknown | Attr_container | Attr_byte | Attr_int16 | Attr_uint16 | Attr_int32 | Attr_uint32
  | Attr_float32 | Attr_float64 | Attr_string | Attr_url | Attr_other_xml

fun AttrType_to_String :: "attr_type \<Rightarrow> string" where
  "AttrType_to_String Attr_container = ''Container''"
| "AttrType_to_String Attr_byte = ''Byte''"
| "AttrType_to_String Attr_int16 = ''Int16''"
| "AttrType_to_String Attr_uint16 = ''UInt16''"
| "AttrType_to_String Attr_int32 = ''Int32''"
| "AttrType_to_String Attr_uint32 = ''UInt32''"
| "AttrType_to_String Attr_float32 = ''Float32''"
| "AttrType_to_String Attr_float64 = ''Float64''"
| "AttrType_to_String Attr_string = ''String''"
| "AttrType_to_String Attr_url = ''Url''"
| "AttrType_to_String Attr_other_xml = ''OtherXML''"
| "AttrType_to_String Attr_unknown = ''''"

definition String_to_AttrType :: "string \<Rightarrow> attr_type" where
  "String_to_AttrType s =
     (let s2 = downcase s in
      if s2 = ''container'' then Attr_container
      else if s2 = ''byte'' then Attr_byte
      else if s2 = ''int16'' then Attr_int16
      else if s2 = ''uint16'' then Attr_uint16
      else if s2 = ''int32'' then Attr_int32
      else if s2 = ''uint32'' then Attr_uint32
      else if s2 = ''float32'' then Attr_float32
      else if s2 = ''float64'' then Attr_float64
      else if s2 = ''string'' then Attr_string
      else if s2 = ''url'' then Attr_url
      else if s2 = ''otherxml'' then Attr_other_xml
      else Attr_unknown)"

section \<open>The store\<close>

text \<open>A pointer is null, the address of an object, or was never set.\<close>

datatype ptr = Null | At nat | Uninit

record entry =
  e_name :: string
  e_type :: attr_type
  e_is_alias :: bool
  e_aliased_to :: string
  e_is_global :: bool
  e_attributes :: ptr
  e_attr :: ptr

definition entry0 :: entry where
  "entry0 = \<lparr>e_name = [], e_type = Attr_unknown, e_is_alias = False, e_aliased_to = [], e_is_global = True,
     e_attributes = Null, e_attr = Null\<rparr>"

record atable =
  a_name :: string
  a_parent :: ptr
  a_map :: "entry list"
  a_global :: bool

definition table0 :: atable where
  "table0 = \<lparr>a_name = [], a_parent = Null, a_map = [], a_global = True\<rparr>"

record astore =
  s_tables :: "nat \<Rightarrow> atable option"
  s_vectors :: "nat \<Rightarrow> string list option"
  s_next :: nat

definition empty_store :: astore where
  "empty_store = \<lparr>s_tables = (\<lambda>_. None), s_vectors = (\<lambda>_. None), s_next = 0\<rparr>"

text \<open>Reading, writing, allocating and freeing objects.\<close>

definition table_at :: "nat \<Rightarrow> astore \<Rightarrow> atable res" where
  "table_at a s = (case s_tables s a of None \<Rightarrow> Inl Undefined | Some t \<Rightarrow> Inr t)"

fun vector_at :: "ptr \<Rightarrow> astore \<Rightarrow> string list res" where
  "vector_at (At v) s = (case s_vectors s v of None \<Rightarrow> Inl Undefined | Some xs \<Rightarrow> Inr xs)"
| "vector_at p s = Inl Undefined"

fun deref :: "ptr \<Rightarrow> nat res" where
  "deref (At a) = Inr a"
| "deref p = Inl Undefined"

definition readS :: "('s \<Rightarrow> 'a res) \<Rightarrow> ('s, 'a) action" where
  "readS f s = (f s, s)"

definition put_table :: "nat \<Rightarrow> atable \<Rightarrow> (astore, unit) action" where
  "put_table a t s = (Inr (), s\<lparr>s_tables := (s_tables s)(a \<mapsto> t)\<rparr>)"

definition put_vector :: "nat \<Rightarrow> string list \<Rightarrow> (astore, unit) action" where
  "put_vector v xs s = (Inr (), s\<lparr>s_vectors := (s_vectors s)(v \<mapsto> xs)\<rparr>)"

definition alloc_table :: "atable \<Rightarrow> (astore, nat) action" where
  "alloc_table t s = (Inr (s_next s), s\<lparr>s_tables := (s_tables s)(s_next s \<mapsto> t), s_next := Suc (s_next s)\<rparr>)"

definition alloc_vector :: "string list \<Rightarrow> (astore, nat) action" where
  "alloc_vector xs s = (Inr (s_next s), s\<lparr>s_vectors := (s_vectors s)(s_next s \<mapsto> xs), s_next := Suc (s_next s)\<rparr>)"

text \<open>\<open>delete\<close> of a vector: of null it does nothing, of a freed one it is undefined.\<close>

fun free_vector :: "ptr \<Rightarrow> (astore, unit) action" where
  "free_vector (At v) s = (case s_vectors s v of None \<Rightarrow> (Inl Undefined, s)
     | Some _ \<Rightarrow> (Inr (), s\<lparr>s_vectors := (s_vectors s)(v := None)\<rparr>))"
| "free_vector Null s = (Inr (), s)"
| "free_vector Uninit s = (Inl Undefined, s)"

definition free_table :: "nat \<Rightarrow> (astore, unit) action" where
  "free_table a s = (Inr (), s\<lparr>s_tables := (s_tables s)(a := None)\<rparr>)"

definition update_table :: "nat \<Rightarrow> (atable \<Rightarrow> atable) \<Rightarrow> (astore, unit) action" where
  "update_table a f = bindS (readS (table_at a)) (\<lambda>t. put_table a (f t))"

fun each :: "('a \<Rightarrow> ('s, unit) action) \<Rightarrow> 'a list \<Rightarrow> ('s, unit) action" where
  "each f [] = returnS ()"
| "each f (x # xs) = bindS (f x) (\<lambda>_. each f xs)"

section \<open>Deleting\<close>

fun delete_entry :: "(nat \<Rightarrow> (astore, unit) action) \<Rightarrow> entry \<Rightarrow> (astore, unit) action" where
  "delete_entry del e =
     (if e_is_alias e then returnS ()
      else if e_type e = Attr_container
      then (case e_attributes e of Null \<Rightarrow> returnS () | At b \<Rightarrow> del b | Uninit \<Rightarrow> throwS Undefined)
      else free_vector (e_attr e))"

text \<open>The entries are deleted in turn, then the map is cleared.\<close>

definition delete_attr_table :: "(nat \<Rightarrow> (astore, unit) action) \<Rightarrow> nat \<Rightarrow> (astore, unit) action" where
  "delete_attr_table del a =
     bindS (readS (table_at a)) (\<lambda>t. bindS (each (delete_entry del) (a_map t)) (\<lambda>_. update_table a (a_map_update (\<lambda>_. []))))"

primrec delete_table :: "nat \<Rightarrow> nat \<Rightarrow> (astore, unit) action" where
  "delete_table 0 a = throwS Undefined"
| "delete_table (Suc n) a = bindS (delete_attr_table (delete_table n) a) (\<lambda>_. free_table a)"

text \<open>\<open>erase\<close> also clears the name.\<close>

definition erase :: "nat \<Rightarrow> nat \<Rightarrow> (astore, unit) action" where
  "erase n a = bindS (delete_attr_table (delete_table n) a) (\<lambda>_. update_table a (a_name_update (\<lambda>_. [])))"

section \<open>Copying\<close>

text \<open>
  The copy constructor of \<open>entry\<close> sets the pointer that belongs to the type, no other; \<open>clone\<close> makes
  the table the parent of every container it gets, also of those that are only aliased.
\<close>

fun copy_entry :: "(nat \<Rightarrow> (astore, nat) action) \<Rightarrow> entry \<Rightarrow> (astore, entry) action" where
  "copy_entry cp e =
     (let e' = e\<lparr>e_attributes := Uninit, e_attr := Uninit\<rparr> in
      if e_type e = Attr_unknown then returnS e'
      else if e_type e = Attr_container
      then if e_is_alias e then returnS (e'\<lparr>e_attributes := e_attributes e\<rparr>)
           else bindS (readS (\<lambda>_. deref (e_attributes e))) (\<lambda>b. bindS (cp b) (\<lambda>c. returnS (e'\<lparr>e_attributes := At c\<rparr>)))
      else if e_is_alias e then returnS (e'\<lparr>e_attr := e_attr e\<rparr>)
      else bindS (readS (vector_at (e_attr e))) (\<lambda>xs. bindS (alloc_vector xs) (\<lambda>v. returnS (e'\<lparr>e_attr := At v\<rparr>))))"

definition attach_copy :: "nat \<Rightarrow> entry \<Rightarrow> (astore, unit) action" where
  "attach_copy a e =
     bindS (update_table a (a_map_update (\<lambda>m. m @ [e]))) (\<lambda>_.
       if e_type e = Attr_container
       then (case e_attributes e of Null \<Rightarrow> throwS Assert_Failed | Uninit \<Rightarrow> throwS Undefined
             | At b \<Rightarrow> update_table b (a_parent_update (\<lambda>_. At a)))
       else returnS ())"

definition append_copy :: "(nat \<Rightarrow> (astore, nat) action) \<Rightarrow> nat \<Rightarrow> entry \<Rightarrow> (astore, unit) action" where
  "append_copy cp a e = bindS (copy_entry cp e) (attach_copy a)"

definition clone :: "(nat \<Rightarrow> (astore, nat) action) \<Rightarrow> nat \<Rightarrow> nat \<Rightarrow> (astore, unit) action" where
  "clone cp a rhs =
     bindS (readS (table_at rhs)) (\<lambda>r.
     bindS (update_table a (\<lambda>t. t\<lparr>a_name := a_name r, a_global := a_global r, a_parent := Null\<rparr>)) (\<lambda>_.
     each (append_copy cp a) (a_map r)))"

primrec copy_table :: "nat \<Rightarrow> nat \<Rightarrow> (astore, nat) action" where
  "copy_table 0 rhs = throwS Undefined"
| "copy_table (Suc n) rhs = bindS (alloc_table table0) (\<lambda>a. bindS (clone (copy_table n) a rhs) (\<lambda>_. returnS a))"

definition assign_table :: "nat \<Rightarrow> nat \<Rightarrow> nat \<Rightarrow> (astore, unit) action" where
  "assign_table n a rhs =
     (if a \<noteq> rhs then bindS (delete_attr_table (delete_table n) a) (\<lambda>_. clone (copy_table n) a rhs) else returnS ())"

section \<open>Finding\<close>

fun find_index :: "string \<Rightarrow> entry list \<Rightarrow> nat" where
  "find_index target [] = 0"
| "find_index target (e # es) = (if target = e_name e then 0 else Suc (find_index target es))"

definition get_size :: "nat \<Rightarrow> astore \<Rightarrow> nat res" where
  "get_size a s = bindE (table_at a s) (\<lambda>t. Inr (length (a_map t)))"

text \<open>An iterator past the last entry is the end.\<close>

type_synonym iter = "nat \<times> nat"

definition simple_find :: "nat \<Rightarrow> string \<Rightarrow> astore \<Rightarrow> iter res" where
  "simple_find a target s = bindE (table_at a s) (\<lambda>t. Inr (a, find_index target (a_map t)))"

definition entry_at :: "iter \<Rightarrow> astore \<Rightarrow> entry res" where
  "entry_at i s = bindE (table_at (fst i) s) (\<lambda>t. if snd i < length (a_map t) then Inr (a_map t ! snd i) else Inl Undefined)"

definition is_end :: "nat \<Rightarrow> iter \<Rightarrow> astore \<Rightarrow> bool res" where
  "is_end a i s = bindE (table_at a s) (\<lambda>t. Inr (i = (a, length (a_map t))))"

definition is_container :: "iter \<Rightarrow> astore \<Rightarrow> bool res" where
  "is_container i s = bindE (entry_at i s) (\<lambda>e. Inr (e_type e = Attr_container))"

fun first_container :: "string \<Rightarrow> entry list \<Rightarrow> ptr" where
  "first_container target [] = Null"
| "first_container target (e # es) =
     (if e_type e = Attr_container \<and> target = e_name e then e_attributes e else first_container target es)"

definition simple_find_container :: "nat \<Rightarrow> string \<Rightarrow> astore \<Rightarrow> ptr res" where
  "simple_find_container a target s =
     bindE (table_at a s) (\<lambda>t. Inr (if a_name t = target then At a else first_container target (a_map t)))"

text \<open>A dotted name goes down one container for each component.\<close>

function find_container :: "string \<Rightarrow> nat \<Rightarrow> astore \<Rightarrow> ptr res" where
  "find_container target a s =
     (case str_find ''.'' target 0 of
        Some dotpos \<Rightarrow> bindE (simple_find_container a (take dotpos target) s) (\<lambda>p.
          (case p of Null \<Rightarrow> Inr Null | At b \<Rightarrow> find_container (drop (dotpos + 1) target) b s | Uninit \<Rightarrow> Inl Undefined))
      | None \<Rightarrow> simple_find_container a target s)"
  by pat_completeness auto
termination
  by (relation "measure (\<lambda>(t, a, s). length t)") (auto dest!: str_find_Some)

declare find_container.simps [simp del]

text \<open>
  The entries before \<open>i\<close> and what they contain are searched first.  The result is the table, null
  when nothing was found, and the iterator that was set last.
\<close>

fun scan_entries :: "(nat \<Rightarrow> (nat option \<times> iter) res) \<Rightarrow> string \<Rightarrow> nat \<Rightarrow> entry list \<Rightarrow> nat \<Rightarrow> (nat option \<times> iter) res" where
  "scan_entries rec target a [] i = Inr (None, (a, i))"
| "scan_entries rec target a (e # es) i =
     (if target = e_name e then Inr (Some a, (a, i))
      else if e_type e = Attr_container
      then bindE (deref (e_attributes e)) (\<lambda>b. bindE (rec b) (\<lambda>r.
             if fst r \<noteq> None then Inr r else scan_entries rec target a es (Suc i)))
      else scan_entries rec target a es (Suc i))"

primrec recurrsive_find :: "nat \<Rightarrow> string \<Rightarrow> astore \<Rightarrow> nat \<Rightarrow> (nat option \<times> iter) res" where
  "recurrsive_find 0 target s a = Inl Undefined"
| "recurrsive_find (Suc n) target s a =
     bindE (table_at a s) (\<lambda>t. scan_entries (recurrsive_find n target s) target a (a_map t) 0)"

definition find :: "nat \<Rightarrow> nat \<Rightarrow> string \<Rightarrow> astore \<Rightarrow> (nat option \<times> iter) res" where
  "find n a target s =
     (case str_rfind (CHR ''.'') target of
        Some dotpos \<Rightarrow> bindE (find_container (take dotpos target) a s) (\<lambda>p.
          (case p of
             At b \<Rightarrow> bindE (simple_find b (drop (dotpos + 1) target) s) (\<lambda>i. Inr (Some b, i))
           | Null \<Rightarrow> bindE (table_at a s) (\<lambda>t. Inr (None, (a, length (a_map t))))
           | Uninit \<Rightarrow> Inl Undefined))
      | None \<Rightarrow> recurrsive_find n target s a)"

section \<open>Adding attributes\<close>

definition different_type :: "string \<Rightarrow> exn" where
  "different_type name = Error unknown_error (''An attribute called `'' @ name @ [CHR 0x27] @ '' already exists but is of a different type'')"

definition already_container :: "string \<Rightarrow> exn" where
  "already_container name = Error unknown_error (''An attribute called `'' @ name @ [CHR 0x27] @ '' already exists but is a container.'')"

definition already_there :: "string \<Rightarrow> string \<Rightarrow> exn" where
  "already_there name what = Error unknown_error (''There already exists a container called `'' @ name @ what)"

text \<open>
  The values are added to an entry of the same type, or make a new one.  A new attribute whose type
  is \<open>container\<close> is an entry of that type with values and without a table.
\<close>

definition append_attr_vector :: "nat \<Rightarrow> string \<Rightarrow> string \<Rightarrow> string list \<Rightarrow> (astore, nat) action" where
  "append_attr_vector a name type values =
     (let lname = remove_space_encoding name in
      bindS (readS (simple_find a lname)) (\<lambda>i.
      bindS (readS (is_end a i)) (\<lambda>end.
        if \<not> end
        then bindS (readS (entry_at i)) (\<lambda>e.
               if e_type e \<noteq> String_to_AttrType type then throwS (different_type name)
               else if AttrType_to_String (e_type e) = ''Container'' then throwS (already_container name)
               else bindS (readS (\<lambda>_. deref (e_attr e))) (\<lambda>v.
                    bindS (readS (vector_at (At v))) (\<lambda>xs.
                    bindS (put_vector v (xs @ values)) (\<lambda>_. returnS (length (xs @ values))))))
        else bindS (alloc_vector values) (\<lambda>v.
             bindS (update_table a (a_map_update (\<lambda>m. m @ [entry0\<lparr>e_name := lname, e_type := String_to_AttrType type, e_attr := At v\<rparr>])))
               (\<lambda>_. returnS (length values))))))"

definition append_attr :: "nat \<Rightarrow> string \<Rightarrow> string \<Rightarrow> string \<Rightarrow> (astore, nat) action" where
  "append_attr a name type value = append_attr_vector a name type [value]"

text \<open>The search is for the name as it is given, what is stored is the decoded name.\<close>

definition set_name :: "nat \<Rightarrow> string \<Rightarrow> (astore, unit) action" where
  "set_name a n = update_table a (a_name_update (\<lambda>_. remove_space_encoding n))"

definition append_container_at :: "nat \<Rightarrow> nat \<Rightarrow> string \<Rightarrow> (astore, nat) action" where
  "append_container_at a at name =
     (let lname = remove_space_encoding name in
      bindS (readS (simple_find a name)) (\<lambda>i.
      bindS (readS (is_end a i)) (\<lambda>end.
        if \<not> end then throwS (already_there name ([CHR 0x27] @ '' in this attribute table. (1)''))
        else bindS (set_name at lname) (\<lambda>_.
             bindS (update_table a (a_map_update (\<lambda>m. m @ [entry0\<lparr>e_name := lname, e_type := Attr_container, e_attributes := At at\<rparr>]))) (\<lambda>_.
             bindS (update_table at (a_parent_update (\<lambda>_. At a))) (\<lambda>_. returnS at))))))"

text \<open>A container that could not be appended is deleted again.\<close>

definition append_container :: "nat \<Rightarrow> nat \<Rightarrow> string \<Rightarrow> (astore, nat) action" where
  "append_container n a name =
     bindS (alloc_table table0) (\<lambda>new_at s.
       case append_container_at a new_at name s of
         (Inl (Error c m), s') \<Rightarrow> bindS (delete_table n new_at) (\<lambda>_. throwS (Error c m)) s'
       | (Inl (InternalErr m), s') \<Rightarrow> bindS (delete_table n new_at) (\<lambda>_. throwS (InternalErr m)) s'
       | r \<Rightarrow> r)"

section \<open>Reading attributes\<close>

text \<open>The iterator is asserted not to be the end.\<close>

definition checked_entry :: "iter \<Rightarrow> astore \<Rightarrow> entry res" where
  "checked_entry i s = bindE (table_at (fst i) s) (\<lambda>t. if snd i = length (a_map t) then Inl Assert_Failed else entry_at i s)"

definition get_type_at :: "iter \<Rightarrow> astore \<Rightarrow> string res" where
  "get_type_at i s = bindE (checked_entry i s) (\<lambda>e. Inr (AttrType_to_String (e_type e)))"

definition get_attr_type_at :: "iter \<Rightarrow> astore \<Rightarrow> attr_type res" where
  "get_attr_type_at i s = bindE (entry_at i s) (\<lambda>e. Inr (e_type e))"

definition get_name_at :: "iter \<Rightarrow> astore \<Rightarrow> string res" where
  "get_name_at i s = bindE (checked_entry i s) (\<lambda>e. Inr (e_name e))"

definition get_attr_table_at :: "iter \<Rightarrow> astore \<Rightarrow> ptr res" where
  "get_attr_table_at i s = bindE (checked_entry i s) (\<lambda>e. Inr (if e_type e = Attr_container then e_attributes e else Null))"

definition get_attr_num_at :: "iter \<Rightarrow> astore \<Rightarrow> nat res" where
  "get_attr_num_at i s = bindE (checked_entry i s) (\<lambda>e.
     if e_type e = Attr_container then bindE (deref (e_attributes e)) (\<lambda>b. get_size b s)
     else bindE (vector_at (e_attr e) s) (\<lambda>xs. Inr (length xs)))"

text \<open>An index past the last value is not checked.\<close>

definition get_attr_at :: "iter \<Rightarrow> nat \<Rightarrow> astore \<Rightarrow> string res" where
  "get_attr_at i k s = bindE (checked_entry i s) (\<lambda>e.
     if e_type e = Attr_container then Inr ''None''
     else bindE (vector_at (e_attr e) s) (\<lambda>xs. if k < length xs then Inr (xs ! k) else Inl Undefined))"

definition get_attr_vector_at :: "iter \<Rightarrow> astore \<Rightarrow> ptr res" where
  "get_attr_vector_at i s = bindE (checked_entry i s) (\<lambda>e. Inr (if e_type e \<noteq> Attr_container then e_attr e else Null))"

definition is_global_at :: "iter \<Rightarrow> astore \<Rightarrow> bool res" where
  "is_global_at i s = bindE (checked_entry i s) (\<lambda>e.
     if e_type e = Attr_container then bindE (deref (e_attributes e)) (\<lambda>b. bindE (table_at b s) (\<lambda>t. Inr (a_global t)))
     else Inr (e_is_global e))"

text \<open>The accessors by name look in one table; what is not there has a default.\<close>

definition by_name :: "(iter \<Rightarrow> astore \<Rightarrow> 'a res) \<Rightarrow> 'a \<Rightarrow> nat \<Rightarrow> string \<Rightarrow> astore \<Rightarrow> 'a res" where
  "by_name f d a name s =
     bindE (simple_find a name s) (\<lambda>i. bindE (is_end a i s) (\<lambda>end. if \<not> end then f i s else Inr d))"

definition get_type :: "nat \<Rightarrow> string \<Rightarrow> astore \<Rightarrow> string res" where "get_type = by_name get_type_at []"
definition get_attr_type :: "nat \<Rightarrow> string \<Rightarrow> astore \<Rightarrow> attr_type res" where "get_attr_type = by_name get_attr_type_at Attr_unknown"
definition get_attr_num :: "nat \<Rightarrow> string \<Rightarrow> astore \<Rightarrow> nat res" where "get_attr_num = by_name get_attr_num_at 0"
definition get_attr_vector :: "nat \<Rightarrow> string \<Rightarrow> astore \<Rightarrow> ptr res" where "get_attr_vector = by_name get_attr_vector_at Null"
definition get_attr :: "nat \<Rightarrow> string \<Rightarrow> nat \<Rightarrow> astore \<Rightarrow> string res" where
  "get_attr a name k = by_name (\<lambda>i. get_attr_at i k) [] a name"
definition get_attr_table :: "nat \<Rightarrow> string \<Rightarrow> astore \<Rightarrow> ptr res" where "get_attr_table a name = find_container name a"

section \<open>Changing and removing attributes\<close>

definition update_entry :: "iter \<Rightarrow> (entry \<Rightarrow> entry) \<Rightarrow> (astore, unit) action" where
  "update_entry i f = bindS (readS (entry_at i)) (\<lambda>e. update_table (fst i) (a_map_update (\<lambda>m. m[snd i := f e])))"

definition set_is_global_attribute :: "nat \<Rightarrow> bool \<Rightarrow> (astore, unit) action" where
  "set_is_global_attribute a ga = update_table a (a_global_update (\<lambda>_. ga))"

definition set_is_global_at :: "iter \<Rightarrow> bool \<Rightarrow> (astore, unit) action" where
  "set_is_global_at i ga = bindS (readS (checked_entry i)) (\<lambda>e.
     if e_type e = Attr_container
     then bindS (readS (\<lambda>_. deref (e_attributes e))) (\<lambda>b. set_is_global_attribute b ga)
     else update_entry i (e_is_global_update (\<lambda>_. ga)))"

definition remove_at :: "nat \<Rightarrow> 'a list \<Rightarrow> 'a list" where "remove_at k xs = take k xs @ drop (Suc k) xs"

definition del_attr :: "nat \<Rightarrow> nat \<Rightarrow> string \<Rightarrow> int \<Rightarrow> (astore, unit) action" where
  "del_attr n a name k =
     (let lname = remove_space_encoding name in
      bindS (readS (simple_find a lname)) (\<lambda>i.
      bindS (readS (is_end a i)) (\<lambda>end.
        if end then returnS ()
        else bindS (readS (entry_at i)) (\<lambda>e.
          if k = -1
          then bindS (update_table a (a_map_update (remove_at (snd i)))) (\<lambda>_. delete_entry (delete_table n) e)
          else if e_type e = Attr_container then returnS ()
          else bindS (readS (\<lambda>_. deref (e_attr e))) (\<lambda>v.
               bindS (readS (vector_at (At v))) (\<lambda>xs.
                 if 0 \<le> k \<and> k < int (length xs) then put_vector v (remove_at (nat k) xs)
                 else throwS Assert_Failed))))))"

text \<open>The table that is taken out belongs to the caller.\<close>

definition del_attr_table :: "iter \<Rightarrow> (astore, iter) action" where
  "del_attr_table i = bindS (readS (entry_at i)) (\<lambda>e.
     if e_type e \<noteq> Attr_container then returnS (fst i, Suc (snd i))
     else bindS (case e_attributes e of Null \<Rightarrow> returnS () | Uninit \<Rightarrow> throwS Undefined
                 | At b \<Rightarrow> update_table b (a_parent_update (\<lambda>_. Null))) (\<lambda>_.
          bindS (update_table (fst i) (a_map_update (remove_at (snd i)))) (\<lambda>_. returnS i)))"

section \<open>Aliases\<close>

definition add_container_alias :: "nat \<Rightarrow> string \<Rightarrow> nat \<Rightarrow> (astore, unit) action" where
  "add_container_alias a name src =
     (let lname = remove_space_encoding name in
      bindS (readS (simple_find a lname)) (\<lambda>i.
      bindS (readS (is_end a i)) (\<lambda>end.
        if \<not> end then throwS (already_there name ''in this attribute table. (2)'')
        else bindS (readS (table_at src)) (\<lambda>t.
             update_table a (a_map_update (\<lambda>m. m @ [entry0\<lparr>e_name := lname, e_is_alias := True, e_aliased_to := a_name t,
               e_type := Attr_container, e_attributes := At src\<rparr>]))))))"

definition not_found :: "string \<Rightarrow> exn" where
  "not_found source = Error unknown_error (''Could not find the attribute `'' @ source @ [CHR 0x27] @ '' in the attribute object.'')"

definition top_level_value :: exn where
  "top_level_value = Error unknown_error (''A value cannot be aliased to the top level of the DAS;'' @ [CHR 0x0A] @
     ''Only containers may be present at that level of the DAS.'')"

text \<open>What \<open>find\<close> found, if it is an entry.\<close>

definition found :: "nat option \<times> iter \<Rightarrow> astore \<Rightarrow> iter option res" where
  "found r s = (case fst r of None \<Rightarrow> Inr None
     | Some at \<Rightarrow> bindE (is_end at (snd r) s) (\<lambda>end. Inr (if end then None else Some (snd r))))"

text \<open>The source is searched from the top of the attribute object, then from this table.\<close>

definition alias_source :: "nat \<Rightarrow> nat \<Rightarrow> nat \<Rightarrow> string \<Rightarrow> astore \<Rightarrow> iter option res" where
  "alias_source n a das lsource s =
     bindE (find n das lsource s) (\<lambda>r. bindE (found r s) (\<lambda>o1.
       case o1 of Some i \<Rightarrow> Inr (Some i)
       | None \<Rightarrow> bindE (find n a lsource s) (\<lambda>r. found r s)))"

definition add_value_alias :: "nat \<Rightarrow> nat \<Rightarrow> nat \<Rightarrow> string \<Rightarrow> string \<Rightarrow> (astore, unit) action" where
  "add_value_alias n a das name source =
     (let lname = remove_space_encoding name; lsource = remove_space_encoding source in
      bindS (readS (alias_source n a das lsource)) (\<lambda>src.
        case src of None \<Rightarrow> throwS (not_found source)
        | Some iter \<Rightarrow> bindS (readS (entry_at iter)) (\<lambda>e.
            if e_type e \<noteq> Attr_container \<and> a = das then throwS top_level_value
            else bindS (readS (simple_find a lname)) (\<lambda>i.
                 bindS (readS (is_end a i)) (\<lambda>end.
                   if \<not> end then throwS (already_there name ''in this attribute table. (3)'')
                   else let e' = entry0\<lparr>e_name := lname, e_is_alias := True, e_aliased_to := lsource, e_type := e_type e\<rparr> in
                        update_table a (a_map_update (\<lambda>m. m @
                          [if e_type e = Attr_container then e'\<lparr>e_attributes := e_attributes e\<rparr> else e'\<lparr>e_attr := e_attr e\<rparr>])))))))"

definition attr_alias :: "nat \<Rightarrow> nat \<Rightarrow> string \<Rightarrow> nat \<Rightarrow> string \<Rightarrow> (astore, bool) action" where
  "attr_alias n a alias at name = bindS (add_value_alias n a at alias name) (\<lambda>_. returnS True)"

definition attr_alias_here :: "nat \<Rightarrow> nat \<Rightarrow> string \<Rightarrow> string \<Rightarrow> (astore, bool) action" where
  "attr_alias_here n a alias name = attr_alias n a alias a name"

section \<open>Printing\<close>

definition write_string_attribute_for_das :: "string \<Rightarrow> string \<Rightarrow> string" where
  "write_string_attribute_for_das v term = (if is_quoted v then v else [dquote] @ v @ [dquote]) @ term"

definition write_xml_attribute_for_das :: "string \<Rightarrow> string \<Rightarrow> string" where
  "write_xml_attribute_for_das v term =
     (if is_quoted v then escape_double_quotes v else [dquote] @ escape_double_quotes v @ [dquote]) @ term"

text \<open>All values but the last are followed by a comma; without values the last does not exist.\<close>

definition print_values :: "(string \<Rightarrow> string \<Rightarrow> string) \<Rightarrow> string list \<Rightarrow> string res" where
  "print_values w xs =
     (if xs = [] then Inl Undefined
      else Inr (concat (map (\<lambda>x. w x '', '') (butlast xs)) @ w (last xs) ('';'' @ [CHR 0x0A])))"

definition value_writer :: "attr_type \<Rightarrow> string \<Rightarrow> string \<Rightarrow> string" where
  "value_writer t =
     (if t = Attr_string then write_string_attribute_for_das
      else if t = Attr_other_xml then write_xml_attribute_for_das else (\<lambda>v term. v @ term))"

definition simple_print :: "(nat \<Rightarrow> string \<Rightarrow> string res) \<Rightarrow> astore \<Rightarrow> string \<Rightarrow> entry \<Rightarrow> string res" where
  "simple_print pr s pad e =
     (if e_type e = Attr_container
      then bindE (deref (e_attributes e)) (\<lambda>b. bindE (pr b (pad @ ''    '')) (\<lambda>body.
             Inr (pad @ add_space_encoding (e_name e) @ '' {'' @ [CHR 0x0A] @ body @ pad @ ''}'' @ [CHR 0x0A])))
      else bindE (vector_at (e_attr e) s) (\<lambda>xs. bindE (print_values (value_writer (e_type e)) xs) (\<lambda>vs.
             Inr (pad @ AttrType_to_String (e_type e) @ '' '' @ add_space_encoding (e_name e) @ '' '' @ vs))))"

fun concatE :: "('a \<Rightarrow> string res) \<Rightarrow> 'a list \<Rightarrow> string res" where
  "concatE f [] = Inr []"
| "concatE f (x # xs) = bindE (f x) (\<lambda>o1. bindE (concatE f xs) (\<lambda>o2. Inr (o1 @ o2)))"

primrec print :: "nat \<Rightarrow> bool \<Rightarrow> astore \<Rightarrow> nat \<Rightarrow> string \<Rightarrow> string res" where
  "print 0 dereference s a pad = Inl Undefined"
| "print (Suc n) dereference s a pad =
     bindE (table_at a s) (\<lambda>t. concatE (\<lambda>e.
       if e_is_alias e \<and> \<not> dereference
       then Inr (pad @ ''Alias '' @ add_space_encoding (e_name e) @ '' '' @ add_space_encoding (e_aliased_to e) @ '';'' @ [CHR 0x0A])
       else simple_print (print n dereference s) s pad e) (a_map t))"

section \<open>The DAS\<close>

text \<open>The attribute object: its table, the container in use and the name of that one.\<close>

record das =
  das_attrs :: nat
  das_container :: ptr
  das_container_name :: string

type_synonym das_state = "das \<times> astore"

definition in_store :: "(astore, 'a) action \<Rightarrow> (das_state, 'a) action" where
  "in_store m ds = (case m (snd ds) of (r, s') \<Rightarrow> (r, fst ds, s'))"

text \<open>The table every operation works on.\<close>

definition das_table :: "das \<Rightarrow> nat res" where
  "das_table d = (case das_container d of Null \<Rightarrow> Inr (das_attrs d) | At c \<Rightarrow> Inr c | Uninit \<Rightarrow> Inl Undefined)"

definition das_get_table :: "string \<Rightarrow> das \<Rightarrow> astore \<Rightarrow> ptr res" where
  "das_get_table name d s = bindE (das_table d) (\<lambda>a. get_attr_table a name s)"

definition das_get_size :: "das \<Rightarrow> astore \<Rightarrow> nat res" where
  "das_get_size d s = bindE (das_table d) (\<lambda>a. get_size a s)"

definition das_erase :: "nat \<Rightarrow> (das_state, unit) action" where
  "das_erase n = bindS (readS (\<lambda>ds. das_table (fst ds))) (\<lambda>a. in_store (erase n a))"

definition add_table :: "string \<Rightarrow> nat \<Rightarrow> (das_state, nat) action" where
  "add_table name at = bindS (readS (\<lambda>ds. das_table (fst ds))) (\<lambda>a.
     bindS (\<lambda>ds. if das_container (fst ds) \<noteq> Null then in_store (set_is_global_attribute at False) ds else (Inr (), ds)) (\<lambda>_.
     in_store (append_container_at a at name)))"

definition set_das_container :: "ptr \<Rightarrow> (das_state, unit) action" where
  "set_das_container p ds = (Inr (), (fst ds)\<lparr>das_container := p\<rparr>, snd ds)"

text \<open>A container of the name is looked for at the top and added when there is none.\<close>

definition container_name :: "string \<Rightarrow> (das_state, unit) action" where
  "container_name cn ds =
     (if cn = das_container_name (fst ds) then (Inr (), ds)
      else bindS (set_das_container Null) (\<lambda>_.
           bindS (if cn = [] then returnS ()
                  else bindS (readS (\<lambda>ds. das_get_table cn (fst ds) (snd ds))) (\<lambda>p.
                    if p \<noteq> Null then set_das_container p
                    else bindS (in_store (alloc_table table0)) (\<lambda>b.
                         bindS (add_table cn b) (\<lambda>c. set_das_container (At c))))) (\<lambda>_.
           (\<lambda>ds. (Inr (), (fst ds)\<lparr>das_container_name := cn\<rparr>, snd ds)))) ds)"

definition das_print :: "nat \<Rightarrow> bool \<Rightarrow> das \<Rightarrow> astore \<Rightarrow> string res" where
  "das_print n dereference d s =
     bindE (print n dereference s (das_attrs d) ''    '') (\<lambda>body. Inr (''Attributes {'' @ [CHR 0x0A] @ body @ ''}'' @ [CHR 0x0A]))"

end
