(* ===== verification/Attr_Ownership.thy ===== *)
theory Attr_Ownership
  imports Attr_Tables
begin

text \<open>
  Who owns what in a store of attribute tables: every value and every contained table belongs to
  one entry, aliases own nothing, and no table is inside itself.  Deleting a table frees what it
  contains, once.
\<close>

section \<open>Owned objects\<close>

definition owned :: "entry \<Rightarrow> nat option" where
  "owned e = (if e_is_alias e then None
     else case if e_type e = Attr_container then e_attributes e else e_attr e of At x \<Rightarrow> Some x | _ \<Rightarrow> None)"

definition owned_list :: "entry list \<Rightarrow> nat list" where
  "owned_list es = List.map_filter owned es"

lemma owned_list_simps [simp]:
  "owned_list [] = []"
  "owned_list (e # es) = (case owned e of None \<Rightarrow> owned_list es | Some x \<Rightarrow> x # owned_list es)"
  "owned_list (xs @ ys) = owned_list xs @ owned_list ys"
  by (simp_all add: owned_list_def List.map_filter_def split: option.splits)

lemma in_owned_list: "x \<in> set (owned_list es) \<longleftrightarrow> (\<exists>e \<in> set es. owned e = Some x)"
  by (induction es) (auto split: option.splits)

text \<open>
  An entry of type container that \<open>append_attr\<close> made has values and no table.  It is freed without its
  values, which it does not own then, but no other entry has them.
\<close>

definition held :: "entry \<Rightarrow> nat option" where
  "held e = (if \<not> e_is_alias e \<and> e_type e = Attr_container \<and> e_attributes e = Null
     then (case e_attr e of At v \<Rightarrow> Some v | _ \<Rightarrow> None) else owned e)"

definition held_list :: "entry list \<Rightarrow> nat list" where
  "held_list es = List.map_filter held es"

lemma held_list_simps [simp]:
  "held_list [] = []"
  "held_list (e # es) = (case held e of None \<Rightarrow> held_list es | Some x \<Rightarrow> x # held_list es)"
  "held_list (xs @ ys) = held_list xs @ held_list ys"
  by (simp_all add: held_list_def List.map_filter_def split: option.splits)

lemma in_held_list: "x \<in> set (held_list es) \<longleftrightarrow> (\<exists>e \<in> set es. held e = Some x)"
  by (induction es) (auto split: option.splits)

lemma owned_held: "owned e = Some x \<Longrightarrow> held e = Some x"
  by (auto simp: owned_def held_def split: if_splits)

lemma owned_list_held: "set (owned_list es) \<subseteq> set (held_list es)" "distinct (held_list es) \<Longrightarrow> distinct (owned_list es)"
proof -
  show sub: "set (owned_list es) \<subseteq> set (held_list es)" for es
    using owned_held by (fastforce simp: in_owned_list in_held_list)
  show "distinct (held_list es) \<Longrightarrow> distinct (owned_list es)"
  proof (induction es)
    case (Cons e es)
    then show ?case using sub [of es] owned_held [of e] by (cases "owned e"; cases "held e") auto
  qed simp
qed

definition entry_ok :: "astore \<Rightarrow> entry \<Rightarrow> bool" where
  "entry_ok s e = ((\<forall>b. e_attributes e = At b \<or> e_attr e = At b \<longrightarrow> b < s_next s) \<and>
     (\<not> e_is_alias e \<longrightarrow>
       (if e_type e = Attr_container \<and> e_attributes e \<noteq> Null
        then \<exists>b. e_attributes e = At b \<and> s_tables s b \<noteq> None
        else \<exists>v. e_attr e = At v \<and> s_vectors s v \<noteq> None)))"

definition children :: "astore \<Rightarrow> nat \<Rightarrow> nat list" where
  "children s a = (case s_tables s a of None \<Rightarrow> [] | Some t \<Rightarrow> owned_list (a_map t))"

definition holdings :: "astore \<Rightarrow> nat \<Rightarrow> nat list" where
  "holdings s a = (case s_tables s a of None \<Rightarrow> [] | Some t \<Rightarrow> held_list (a_map t))"

lemma children_held: "x \<in> set (children s a) \<Longrightarrow> x \<in> set (holdings s a)" "distinct (holdings s a) \<Longrightarrow> distinct (children s a)"
  using owned_list_held by (auto simp: children_def holdings_def split: option.splits)

definition child :: "astore \<Rightarrow> nat \<Rightarrow> nat \<Rightarrow> bool" where
  "child s a x \<longleftrightarrow> x \<in> set (children s a)"

text \<open>A table with all it contains.\<close>

definition contents :: "astore \<Rightarrow> nat \<Rightarrow> nat set" where
  "contents s a = {x. (child s)\<^sup>*\<^sup>* a x}"

lemma contents_self [simp]: "a \<in> contents s a"
  by (simp add: contents_def)

lemma contents_step: "contents s a = insert a (\<Union>x \<in> set (children s a). contents s x)"
proof -
  have "(child s)\<^sup>*\<^sup>* a z \<longleftrightarrow> a = z \<or> (\<exists>x \<in> set (children s a). (child s)\<^sup>*\<^sup>* x z)" for z
    by (auto simp: child_def elim: converse_rtranclpE intro: converse_rtranclp_into_rtranclp)
  then show ?thesis by (auto simp: contents_def)
qed

lemma contents_rtrancl: "x \<in> contents s a \<longleftrightarrow> (a, x) \<in> {(p, y). child s p y}\<^sup>*"
proof -
  have "child s = (\<lambda>p y. (p, y) \<in> {(p, y). child s p y})" by simp
  then show ?thesis unfolding contents_def mem_Collect_eq by (metis rtranclp_rtrancl_eq)
qed

lemma contents_mono: "(\<And>p y. child s' p y \<Longrightarrow> child s p y) \<Longrightarrow> contents s' a \<subseteq> contents s a"
  unfolding contents_def by (auto elim: rtranclp_mono [THEN predicate2D, rotated])

lemma acyclic_mono: "acyclicP (child s) \<Longrightarrow> (\<And>p y. child s' p y \<Longrightarrow> child s p y) \<Longrightarrow> acyclicP (child s')"
  by (erule acyclic_subset) auto

text \<open>
  Addresses are used once and in order; every entry that is no alias holds an object that is there;
  no object is held twice, and no table contains itself.
\<close>

definition store_ok :: "astore \<Rightarrow> bool" where
  "store_ok s \<longleftrightarrow>
     (\<forall>x. s_tables s x = None \<or> s_vectors s x = None) \<and>
     (\<forall>x. s_next s \<le> x \<longrightarrow> s_tables s x = None \<and> s_vectors s x = None) \<and>
     (\<forall>a t e. s_tables s a = Some t \<longrightarrow> e \<in> set (a_map t) \<longrightarrow> entry_ok s e) \<and>
     (\<forall>a. distinct (holdings s a)) \<and>
     (\<forall>a b x. x \<in> set (holdings s a) \<longrightarrow> x \<in> set (holdings s b) \<longrightarrow> a = b) \<and>
     acyclicP (child s)"

lemma store_okD:
  assumes "store_ok s"
  shows "s_tables s x = None \<or> s_vectors s x = None" "s_next s \<le> x \<Longrightarrow> s_tables s x = None" "s_next s \<le> x \<Longrightarrow> s_vectors s x = None"
    "s_tables s a = Some t \<Longrightarrow> e \<in> set (a_map t) \<Longrightarrow> entry_ok s e" "distinct (children s a)"
    "x \<in> set (children s a) \<Longrightarrow> x \<in> set (children s b) \<Longrightarrow> a = b" "x \<in> set (children s a) \<Longrightarrow> a \<notin> contents s x"
    "distinct (holdings s a)" "x \<in> set (holdings s a) \<Longrightarrow> x \<in> set (holdings s b) \<Longrightarrow> a = b" "acyclicP (child s)"
proof -
  note ok = assms [unfolded store_ok_def]
  show "s_tables s x = None \<or> s_vectors s x = None" by (rule spec [OF conjunct1 [OF ok]])
  show "s_next s \<le> x \<Longrightarrow> s_tables s x = None" using ok by blast
  show "s_next s \<le> x \<Longrightarrow> s_vectors s x = None" using ok by blast
  show "s_tables s a = Some t \<Longrightarrow> e \<in> set (a_map t) \<Longrightarrow> entry_ok s e" using ok by blast
  show d: "distinct (holdings s a)" using ok by blast
  then show "distinct (children s a)" by (rule children_held)
  show h: "x \<in> set (holdings s a) \<Longrightarrow> x \<in> set (holdings s b) \<Longrightarrow> a = b" using ok by blast
  then show "x \<in> set (children s a) \<Longrightarrow> x \<in> set (children s b) \<Longrightarrow> a = b" using children_held(1) by blast
  show ac: "acyclicP (child s)" using ok by blast
  show "a \<notin> contents s x" if "x \<in> set (children s a)"
  proof
    assume "a \<in> contents s x"
    then have "(x, a) \<in> {(p, y). child s p y}\<^sup>*" by (simp only: contents_rtrancl)
    moreover have "(a, x) \<in> {(p, y). child s p y}" using that by (simp add: child_def)
    ultimately have "(a, a) \<in> {(p, y). child s p y}\<^sup>+" by (rule rtrancl_into_trancl2 [rotated])
    then show False using ac by (simp add: acyclic_def)
  qed
qed

lemma empty_store_ok: "store_ok empty_store"
  by (simp add: store_ok_def empty_store_def holdings_def child_def [abs_def] children_def acyclic_def)

lemma same_holdings_ok:
  assumes "store_ok s" "holdings s' = holdings s" "children s' = children s"
    and "\<And>x. s_tables s' x = None \<or> s_vectors s' x = None" "\<And>x. s_next s' \<le> x \<Longrightarrow> s_tables s' x = None \<and> s_vectors s' x = None"
    and "\<And>a t e. s_tables s' a = Some t \<Longrightarrow> e \<in> set (a_map t) \<Longrightarrow> entry_ok s' e"
  shows "store_ok s'"
proof -
  have "child s' = child s" by (simp add: child_def fun_eq_iff assms(3))
  then have ac: "acyclicP (child s')" using store_okD(10) [OF assms(1)] by simp
  show ?thesis unfolding store_ok_def assms(2)
  proof (intro conjI allI impI)
    show "s_tables s' x = None" "s_vectors s' x = None" if "s_next s' \<le> x" for x using assms(5) that by simp_all
    show "a = b" if "x \<in> set (holdings s a)" "x \<in> set (holdings s b)" for a b x by (rule store_okD(9) [OF assms(1) that])
  qed (rule assms(4), rule assms(6), assumption+, rule store_okD(8) [OF assms(1)], rule ac)
qed

lemma holdings_table: "store_ok s \<Longrightarrow> x \<in> set (holdings s p) \<Longrightarrow> s_vectors s x = None \<Longrightarrow> x \<in> set (children s p)"
proof -
  assume ok: "store_ok s" and "x \<in> set (holdings s p)" and v: "s_vectors s x = None"
  then obtain t e where t: "s_tables s p = Some t" "e \<in> set (a_map t)" "held e = Some x"
    by (cases "s_tables s p") (auto simp: holdings_def in_held_list)
  have "owned e = Some x" using t(3) v store_okD(4) [OF ok t(1,2)] by (auto simp: held_def entry_ok_def split: if_splits ptr.splits)
  with t show ?thesis by (auto simp: children_def in_owned_list)
qed

lemma child_below: "store_ok s \<Longrightarrow> x \<in> set (children s p) \<Longrightarrow> x < s_next s"
proof -
  assume ok: "store_ok s" and "x \<in> set (children s p)"
  then obtain t e where "s_tables s p = Some t" "e \<in> set (a_map t)" "owned e = Some x"
    by (cases "s_tables s p") (auto simp: children_def in_owned_list)
  then show ?thesis using store_okD(4) [OF ok] by (auto simp: entry_ok_def owned_def split: if_splits ptr.splits)
qed

lemma contents_below: "store_ok s \<Longrightarrow> x \<in> contents s a \<Longrightarrow> a < s_next s \<Longrightarrow> x < s_next s"
proof -
  assume ok: "store_ok s" and "x \<in> contents s a" and a: "a < s_next s"
  then have "(child s)\<^sup>*\<^sup>* a x" by (simp add: contents_def)
  then show ?thesis by (induction rule: rtranclp_induct) (use a child_below [OF ok] in \<open>auto simp: child_def\<close>)
qed

lemma table_live: "store_ok s \<Longrightarrow> s_tables s a = Some t \<Longrightarrow> a < s_next s"
  using store_okD(2) [of s a] by (cases "a < s_next s") auto

text \<open>What a table contains is finite, and more than what its parts contain: this bounds the recursions.\<close>

lemma contents_finite: "store_ok s \<Longrightarrow> a < s_next s \<Longrightarrow> finite (contents s a) \<and> card (contents s a) \<le> s_next s"
proof -
  assume "store_ok s" "a < s_next s"
  then have "contents s a \<subseteq> {..<s_next s}" using contents_below by blast
  from finite_subset [OF this] card_mono [OF _ this] show ?thesis by simp
qed

lemma contents_smaller: "store_ok s \<Longrightarrow> s_tables s a = Some t \<Longrightarrow> x \<in> set (children s a) \<Longrightarrow> card (contents s x) < card (contents s a)"
proof -
  assume ok: "store_ok s" and a: "s_tables s a = Some t" and x: "x \<in> set (children s a)"
  have "contents s x \<subseteq> contents s a" using contents_step [of s a] x by blast
  moreover have "a \<notin> contents s x" by (rule store_okD(7) [OF ok x])
  ultimately have "contents s x \<subset> contents s a" using contents_self [of a s] by blast
  then show ?thesis using contents_finite [OF ok table_live [OF ok a]] by (intro psubset_card_mono) simp_all
qed

lemma contents_leaf: "s_tables s x = None \<Longrightarrow> contents s x = {x}"
  by (subst contents_step) (simp add: children_def)

lemma one_path:
  assumes "store_ok s" "x \<in> contents s a" "x \<in> contents s b"
  shows "b \<in> contents s a \<or> a \<in> contents s b"
proof -
  have "(child s)\<^sup>*\<^sup>* a x" using assms(2) by (simp add: contents_def)
  then show ?thesis using assms(3)
  proof (induction rule: rtranclp_induct)
    case (step y z)
    show ?case
    proof (cases "b = z")
      case True
      then show ?thesis using step(1,2) by (auto simp: contents_def)
    next
      case False
      then obtain y' where "(child s)\<^sup>*\<^sup>* b y'" "child s y' z"
        using step(4) unfolding contents_def mem_Collect_eq by (metis rtranclp.cases)
      moreover from this have "y' = y" using step(2) store_okD(6) [OF assms(1)] by (auto simp: child_def)
      ultimately show ?thesis using step(3) by (simp add: contents_def)
    qed
  qed (simp add: contents_def)
qed

lemma siblings_disjoint:
  assumes "store_ok s" "x \<in> set (children s a)" "y \<in> set (children s a)" "x \<noteq> y"
  shows "contents s x \<inter> contents s y = {}"
proof -
  have no: "q \<notin> contents s p" if "p \<in> set (children s a)" "q \<in> set (children s a)" "p \<noteq> q" for p q
  proof
    assume "q \<in> contents s p"
    then obtain r where r: "r \<in> contents s p" "child s r q"
      using \<open>p \<noteq> q\<close> unfolding contents_def mem_Collect_eq by (metis rtranclp.cases)
    then have "r = a" using that(2) store_okD(6) [OF assms(1)] by (auto simp: child_def)
    then show False using r(1) store_okD(7) [OF assms(1) that(1)] by simp
  qed
  then show ?thesis using one_path [OF assms(1)] assms by blast
qed

section \<open>Removing objects\<close>

definition cut :: "nat set \<Rightarrow> astore \<Rightarrow> astore" where
  "cut X s = s\<lparr>s_tables := (\<lambda>x. if x \<in> X then None else s_tables s x), s_vectors := (\<lambda>x. if x \<in> X then None else s_vectors s x)\<rparr>"

lemma cut_simps [simp]:
  "s_tables (cut X s) x = (if x \<in> X then None else s_tables s x)"
  "s_vectors (cut X s) x = (if x \<in> X then None else s_vectors s x)" "s_next (cut X s) = s_next s"
  by (simp_all add: cut_def)

lemma cut_empty [simp]: "cut {} s = s"
  by (simp add: cut_def)

lemma entry_ok_cut: "entry_ok s e \<Longrightarrow> (\<And>x. held e = Some x \<Longrightarrow> x \<notin> X) \<Longrightarrow> entry_ok (cut X s) e"
  by (cases "e_is_alias e"; cases "e_type e = Attr_container"; cases "e_attributes e"; cases "e_attr e")
    (auto simp: entry_ok_def owned_def held_def)

lemma cut_ok:
  assumes "store_ok s" "\<And>p x. x \<in> set (holdings s p) \<Longrightarrow> x \<in> X \<Longrightarrow> p \<in> X"
  shows "store_ok (cut X s)"
proof -
  have h: "holdings (cut X s) a = (if a \<in> X then [] else holdings s a)" for a by (simp add: holdings_def)
  have c: "child (cut X s) p y \<Longrightarrow> child s p y" for p y by (simp add: child_def children_def split: if_splits)
  have e: "entry_ok (cut X s) e" if "s_tables s a = Some t" "e \<in> set (a_map t)" "a \<notin> X" for a t e
  proof -
    have "x \<notin> X" if "held e = Some x" for x
      using assms(2) [of x a] that \<open>s_tables s a = Some t\<close> \<open>e \<in> set (a_map t)\<close> \<open>a \<notin> X\<close>
      by (auto simp: holdings_def in_held_list)
    then show ?thesis by (intro entry_ok_cut store_okD(4) [OF assms(1) that(1,2)])
  qed
  have "acyclicP (child (cut X s))" by (rule acyclic_mono [OF store_okD(10) [OF assms(1)] c])
  then show ?thesis
    using assms(1) e unfolding store_ok_def h by (auto split: if_splits)
qed

text \<open>Deleting what is left of the store.\<close>

lemma delete_entries:
  assumes "\<And>b X. s_tables s b \<noteq> None \<Longrightarrow> b \<in> owners \<Longrightarrow> contents s b \<inter> X = {} \<Longrightarrow> del b (cut X s) = (Inr (), cut (X \<union> contents s b) s)"
    "\<forall>e \<in> set es. entry_ok s e" "set (owned_list es) \<subseteq> owners" "\<forall>x. s_tables s x = None \<or> s_vectors s x = None"
    "distinct (owned_list es)" "\<And>x y. x \<in> set (owned_list es) \<Longrightarrow> y \<in> set (owned_list es) \<Longrightarrow> x \<noteq> y \<Longrightarrow> contents s x \<inter> contents s y = {}"
    "\<And>x. x \<in> set (owned_list es) \<Longrightarrow> contents s x \<inter> X = {}"
  shows "each (delete_entry del) es (cut X s) = (Inr (), cut (X \<union> (\<Union>x \<in> set (owned_list es). contents s x)) s)"
  using assms(2-)
proof (induction es arbitrary: X)
  case (Cons e es)
  show ?case
  proof (cases "owned e")
    case None
    then have "delete_entry del e (cut X s) = (Inr (), cut X s)"
      using Cons.prems(1) by (auto simp: owned_def entry_ok_def split: ptr.splits if_splits)
    with Cons None show ?thesis by simp
  next
    case (Some x)
    have fresh: "x \<notin> X" 
    proof -
      have "contents s x \<inter> X = {}" using Cons.prems(6) [of x] Some by simp
      with contents_self [of x s] show ?thesis by blast
    qed
    have "delete_entry del e (cut X s) = (Inr (), cut (X \<union> contents s x) s)"
    proof (cases "e_type e = Attr_container")
      case True
      then have x: "e_attributes e = At x" "\<not> e_is_alias e" using Some by (auto simp: owned_def split: ptr.splits if_splits)
      then have "s_tables s x \<noteq> None" using Cons.prems(1) True by (auto simp: entry_ok_def)
      then show ?thesis using x True assms(1) [of x X] Cons.prems(2,6) Some by auto
    next
      case False
      then have x: "e_attr e = At x" "\<not> e_is_alias e" using Some by (auto simp: owned_def split: ptr.splits if_splits)
      then have v: "s_vectors s x \<noteq> None" "s_tables s x = None" using Cons.prems(1,3) False by (auto simp: entry_ok_def)
      have "s\<lparr>s_tables := T, s_vectors := V\<rparr>\<lparr>s_vectors := W\<rparr> = s\<lparr>s_tables := T, s_vectors := W\<rparr>" for T V W by simp
      then have "(cut X s)\<lparr>s_vectors := (s_vectors (cut X s))(x := None)\<rparr> = cut (X \<union> {x}) s"
        using v(2) by (auto simp: cut_def fun_eq_iff)
      then show ?thesis using x False v fresh by (auto simp: contents_leaf)
    qed
    moreover have "each (delete_entry del) es (cut (X \<union> contents s x) s) =
        (Inr (), cut (X \<union> contents s x \<union> (\<Union>x \<in> set (owned_list es). contents s x)) s)"
      by (rule Cons.IH) (use Cons.prems Some in \<open>auto simp: Int_Un_distrib\<close>)
    ultimately show ?thesis using Some by (simp add: Un_assoc del: delete_entry.simps)
  qed
qed simp

lemma cut_cut: "cut X (cut Y s) = cut (X \<union> Y) s"
  by (auto simp: cut_def fun_eq_iff)

lemma table_not_in_children_contents: "store_ok s \<Longrightarrow> x \<in> set (children s a) \<Longrightarrow> a \<notin> contents s x"
  by (rule store_okD(7))

lemma delete_attr_table_cut:
  assumes "store_ok s" "s_tables s a = Some t" "(contents s a - {a}) \<inter> X = {}" "a \<notin> X"
    "\<And>b X. s_tables s b \<noteq> None \<Longrightarrow> b \<in> set (children s a) \<Longrightarrow> contents s b \<inter> X = {} \<Longrightarrow> del b (cut X s) = (Inr (), cut (X \<union> contents s b) s)"
  shows "delete_attr_table del a (cut X s) =
    (Inr (), (cut (X \<union> (contents s a - {a})) s)\<lparr>s_tables := (s_tables (cut (X \<union> (contents s a - {a})) s))(a \<mapsto> t\<lparr>a_map := []\<rparr>)\<rparr>)"
proof -
  have ch: "children s a = owned_list (a_map t)" using assms(2) by (simp add: children_def)
  let ?U = "\<Union>x \<in> set (owned_list (a_map t)). contents s x"
  have U: "contents s a - {a} = ?U"
    using contents_step [of s a] table_not_in_children_contents [OF assms(1), of _ a] ch by auto
  have "each (delete_entry del) (a_map t) (cut X s) = (Inr (), cut (X \<union> ?U) s)"
  proof (rule delete_entries)
    show "del b (cut X s) = (Inr (), cut (X \<union> contents s b) s)"
      if "s_tables s b \<noteq> None" "b \<in> set (children s a)" "contents s b \<inter> X = {}" for b X
      using assms(5) that by blast
    show "\<forall>e \<in> set (a_map t). entry_ok s e" using store_okD(4) [OF assms(1,2)] by blast
    show "set (owned_list (a_map t)) \<subseteq> set (children s a)" using ch by simp
    show "\<forall>x. s_tables s x = None \<or> s_vectors s x = None" using store_okD(1) [OF assms(1)] by blast
    show "distinct (owned_list (a_map t))" using store_okD(5) [OF assms(1), of a] ch by simp
    show "contents s x \<inter> contents s y = {}" if "x \<in> set (owned_list (a_map t))" "y \<in> set (owned_list (a_map t))" "x \<noteq> y" for x y
      using siblings_disjoint [OF assms(1), of x a y] that ch by simp
    show "contents s x \<inter> X = {}" if "x \<in> set (owned_list (a_map t))" for x
      using assms(3) U that by blast
  qed
  moreover have "a \<notin> X \<union> ?U" using U assms(4) by blast
  ultimately show ?thesis
    using assms(2,4) by (simp add: delete_attr_table_def readS_def table_at_def update_table_def put_table_def U)
qed

lemma delete_table_cut:
  assumes "store_ok s" "s_tables s a \<noteq> None" "contents s a \<inter> X = {}" "card (contents s a) \<le> n"
  shows "delete_table n a (cut X s) = (Inr (), cut (X \<union> contents s a) s)"
  using assms(2-)
proof (induction n arbitrary: a X)
  case (Suc n)
  then obtain t where t: "s_tables s a = Some t" by blast
  have ax: "a \<notin> X" using Suc.prems(2) contents_self [of a s] by blast
  have d: "delete_attr_table (delete_table n) a (cut X s) =
      (Inr (), (cut (X \<union> (contents s a - {a})) s)\<lparr>s_tables := (s_tables (cut (X \<union> (contents s a - {a})) s))(a \<mapsto> t\<lparr>a_map := []\<rparr>)\<rparr>)"
  proof (rule delete_attr_table_cut [OF assms(1) t _ ax])
    show "(contents s a - {a}) \<inter> X = {}" using Suc.prems(2) by blast
    show "delete_table n b (cut X s) = (Inr (), cut (X \<union> contents s b) s)"
      if "s_tables s b \<noteq> None" "b \<in> set (children s a)" "contents s b \<inter> X = {}" for b X
      using Suc.IH [OF that(1,3)] contents_smaller [OF assms(1) t that(2)] Suc.prems(3) by simp
  qed
  have v: "s_vectors s a = None" using store_okD(1) [OF assms(1), of a] t by simp
  have s: "contents s a = insert a (contents s a - {a})" using contents_self [of a s] by blast
  have "free_table a ((cut (X \<union> (contents s a - {a})) s)\<lparr>s_tables := (s_tables (cut (X \<union> (contents s a - {a})) s))(a \<mapsto> t\<lparr>a_map := []\<rparr>)\<rparr>) =
      (Inr (), cut (X \<union> contents s a) s)"
    using v by (subst (3) s) (auto simp: free_table_def cut_def fun_eq_iff)
  with d show ?case by simp
next
  case 0
  then obtain t where "s_tables s a = Some t" by blast
  with 0 contents_finite [OF assms(1) table_live [OF assms(1)], of a t] contents_self [of a s] show ?case by auto
qed

section \<open>Every operation keeps the store in order\<close>

lemma children_update:
  "children (s\<lparr>s_tables := (s_tables s)(a \<mapsto> t)\<rparr>) b = (if b = a then owned_list (a_map t) else children s b)"
  by (simp add: children_def)

lemma holdings_update:
  "holdings (s\<lparr>s_tables := (s_tables s)(a \<mapsto> t)\<rparr>) b = (if b = a then held_list (a_map t) else holdings s b)"
  by (simp add: holdings_def)

lemma entry_ok_mono:
  assumes "entry_ok s e" "\<And>x. s_tables s x \<noteq> None \<Longrightarrow> s_tables s' x \<noteq> None" "\<And>x. s_vectors s x \<noteq> None \<Longrightarrow> s_vectors s' x \<noteq> None"
    "s_next s \<le> s_next s'"
  shows "entry_ok s' e"
  unfolding entry_ok_def
proof (intro conjI impI allI)
  show "b < s_next s'" if "e_attributes e = At b \<or> e_attr e = At b" for b
    using assms(1,4) that unfolding entry_ok_def by (meson less_le_trans)
  show "if e_type e = Attr_container \<and> e_attributes e \<noteq> Null then \<exists>b. e_attributes e = At b \<and> s_tables s' b \<noteq> None
      else \<exists>v. e_attr e = At v \<and> s_vectors s' v \<noteq> None" if "\<not> e_is_alias e"
    using assms(1-3) that unfolding entry_ok_def by (cases "e_type e = Attr_container \<and> e_attributes e \<noteq> Null") auto
qed

text \<open>Changing a table whose entries have part of what they did.\<close>

lemma shrink_table_ok:
  assumes "store_ok s" "s_tables s a \<noteq> None" "set (a_map t) \<subseteq> set m" "\<forall>e \<in> set m. entry_ok s e"
    "distinct (held_list (a_map t))" "set (held_list (a_map t)) \<subseteq> set (holdings s a)" "set (owned_list (a_map t)) \<subseteq> set (children s a)"
  shows "store_ok (s\<lparr>s_tables := (s_tables s)(a \<mapsto> t)\<rparr>)"
proof -
  let ?s = "s\<lparr>s_tables := (s_tables s)(a \<mapsto> t)\<rparr>"
  have sub: "set (holdings ?s b) \<subseteq> set (holdings s b)" for b using assms(6) by (simp add: holdings_update)
  have c: "child ?s p y \<Longrightarrow> child s p y" for p y using assms(7) by (auto simp: child_def children_update split: if_splits)
  have e: "entry_ok ?s e" if "entry_ok s e" for e by (rule entry_ok_mono [OF that]) simp_all
  have a: "a < s_next s" "s_vectors s a = None"
    using assms(2) store_okD(1,2) [OF assms(1), of a] by (cases "a < s_next s"; auto)+
  show ?thesis
    unfolding store_ok_def
  proof (intro conjI allI impI)
    show "s_tables ?s x = None \<or> s_vectors ?s x = None" for x using store_okD(1) [OF assms(1), of x] a by simp
    show "s_tables ?s x = None" if "s_next ?s \<le> x" for x using that store_okD(2) [OF assms(1), of x] a by auto
    show "s_vectors ?s x = None" if "s_next ?s \<le> x" for x using that store_okD(3) [OF assms(1), of x] by simp
    show "entry_ok ?s e'" if "s_tables ?s b = Some u" "e' \<in> set (a_map u)" for b u e'
      by (rule e) (use that assms(3,4) store_okD(4) [OF assms(1), of b u e'] in \<open>auto split: if_splits\<close>)
    show "distinct (holdings ?s b)" for b using assms(5) store_okD(8) [OF assms(1), of b] by (simp add: holdings_update)
    show "b = c" if "x \<in> set (holdings ?s b)" "x \<in> set (holdings ?s c)" for b c x
      using store_okD(9) [OF assms(1)] sub that by blast
    show "acyclicP (child ?s)" by (rule acyclic_mono [OF store_okD(10) [OF assms(1)] c])
  qed
qed

lemma same_map_ok:
  "store_ok s \<Longrightarrow> s_tables s a = Some t \<Longrightarrow> a_map t' = a_map t \<Longrightarrow> store_ok (s\<lparr>s_tables := (s_tables s)(a \<mapsto> t')\<rparr>)"
  using store_okD(4) [of s a t] store_okD(8) [of s a] by (intro shrink_table_ok [where m = "a_map t"]) (auto simp: children_def holdings_def)

lemma clear_map_ok:
  "store_ok s \<Longrightarrow> s_tables s a \<noteq> None \<Longrightarrow> a_map t = [] \<Longrightarrow> store_ok (s\<lparr>s_tables := (s_tables s)(a \<mapsto> t)\<rparr>)"
  by (intro shrink_table_ok [where m = "[]"]) simp_all

text \<open>Allocating objects.\<close>

lemma alloc_vector_ok:
  assumes "store_ok s"
  shows "store_ok (s\<lparr>s_vectors := (s_vectors s)(s_next s \<mapsto> xs), s_next := Suc (s_next s)\<rparr>)"
proof -
  let ?s = "s\<lparr>s_vectors := (s_vectors s)(s_next s \<mapsto> xs), s_next := Suc (s_next s)\<rparr>"
  have e: "entry_ok ?s e" if "entry_ok s e" for e by (rule entry_ok_mono [OF that]) simp_all
  show ?thesis
    by (rule same_holdings_ok [OF assms])
      (use e store_okD(1-4) [OF assms] in \<open>auto simp: children_def holdings_def fun_eq_iff\<close>)
qed

lemma alloc_table_ok:
  assumes "store_ok s" "a_map t = []"
  shows "store_ok (s\<lparr>s_tables := (s_tables s)(s_next s \<mapsto> t), s_next := Suc (s_next s)\<rparr>)"
proof -
  let ?s = "s\<lparr>s_tables := (s_tables s)(s_next s \<mapsto> t), s_next := Suc (s_next s)\<rparr>"
  have e: "entry_ok ?s e" if "entry_ok s e" for e by (rule entry_ok_mono [OF that]) simp_all
  show ?thesis
    by (rule same_holdings_ok [OF assms(1)])
      (use e assms(2) store_okD(1-4) [OF assms(1)] in \<open>auto simp: children_def holdings_def fun_eq_iff split: if_splits\<close>)
qed

text \<open>A new entry for an object no other has, and that does not contain the table.\<close>

lemma append_entry_ok:
  assumes "store_ok s" "s_tables s a = Some t" "entry_ok s e"
    "\<And>x. owned e = Some x \<Longrightarrow> a \<notin> contents s x" "\<And>x b. held e = Some x \<Longrightarrow> x \<notin> set (holdings s b)"
  shows "store_ok (s\<lparr>s_tables := (s_tables s)(a \<mapsto> t\<lparr>a_map := a_map t @ [e]\<rparr>)\<rparr>)"
proof -
  let ?s = "s\<lparr>s_tables := (s_tables s)(a \<mapsto> t\<lparr>a_map := a_map t @ [e]\<rparr>)\<rparr>"
  have h: "holdings ?s b = (if b = a then holdings s a @ held_list [e] else holdings s b)" for b
    using assms(2) by (simp add: holdings_def)
  have i: "x \<in> set (holdings ?s b) \<longleftrightarrow> x \<in> set (holdings s b) \<or> b = a \<and> held e = Some x" for b x
    unfolding h by (auto simp: in_held_list simp del: held_list_simps)
  have c: "{(p, y). child ?s p y} = (case owned e of None \<Rightarrow> {(p, y). child s p y} | Some x \<Rightarrow> insert (a, x) {(p, y). child s p y})"
    using assms(2) by (auto simp: child_def children_def split: option.splits if_splits)
  have "acyclicP (child ?s)"
    unfolding c using store_okD(10) [OF assms(1)] assms(4) by (auto simp: contents_rtrancl split: option.splits)
  moreover have ok: "entry_ok ?s f" if "entry_ok s f" for f by (rule entry_ok_mono [OF that]) simp_all
  have a: "a < s_next s" "s_vectors s a = None"
    using assms(2) store_okD(1,2) [OF assms(1), of a] by (cases "a < s_next s"; auto)+
  ultimately show ?thesis
    unfolding store_ok_def
  proof (intro conjI allI impI)
    show "s_tables ?s x = None \<or> s_vectors ?s x = None" for x using store_okD(1) [OF assms(1), of x] a by simp
    show "s_tables ?s x = None" if "s_next ?s \<le> x" for x using that store_okD(2) [OF assms(1), of x] a by auto
    show "s_vectors ?s x = None" if "s_next ?s \<le> x" for x using that store_okD(3) [OF assms(1), of x] by simp
    show "entry_ok ?s f" if "s_tables ?s b = Some u" "f \<in> set (a_map u)" for b u f
      by (rule ok) (use that assms(2,3) store_okD(4) [OF assms(1), of b _ f] in \<open>auto split: if_splits\<close>)
    show "distinct (holdings ?s b)" for b
      using store_okD(8) [OF assms(1), of b] assms(5) [of _ b] by (cases "held e") (auto simp: h)
    show "b = d" if "x \<in> set (holdings ?s b)" "x \<in> set (holdings ?s d)" for b d x
      using that assms(5) store_okD(9) [OF assms(1)] unfolding i by blast
  qed
qed

definition orderly :: "(astore, 'a) action \<Rightarrow> bool" where
  "orderly m \<longleftrightarrow> (\<forall>s. store_ok s \<longrightarrow> store_ok (snd (m s)))"

named_theorems orderly_intros

lemma orderlyI: "(\<And>s. store_ok s \<Longrightarrow> store_ok (snd (m s))) \<Longrightarrow> orderly m"
  by (simp add: orderly_def)

lemma orderlyD: "orderly m \<Longrightarrow> store_ok s \<Longrightarrow> store_ok (snd (m s))"
  by (simp add: orderly_def)

lemma orderly_bind [orderly_intros]: "orderly m \<Longrightarrow> (\<And>x. orderly (f x)) \<Longrightarrow> orderly (bindS m f)"
  unfolding orderly_def by (auto split: prod.split sum.split)

lemma orderly_read [orderly_intros]: "orderly (readS f)" by (simp add: orderly_def readS_def)
lemma orderly_return [orderly_intros]: "orderly (returnS x)" by (simp add: orderly_def)
lemma orderly_throw [orderly_intros]: "orderly (throwS e)" by (simp add: orderly_def)
lemma orderly_if [orderly_intros]: "orderly m \<Longrightarrow> orderly m' \<Longrightarrow> orderly (if b then m else m')" by simp
lemma orderly_ptr [orderly_intros]: "orderly m \<Longrightarrow> (\<And>a. orderly (f a)) \<Longrightarrow> orderly u \<Longrightarrow> orderly (case p of Null \<Rightarrow> m | At a \<Rightarrow> f a | Uninit \<Rightarrow> u)"
  by (cases p) simp_all

lemma update_table_eq:
  "update_table a f s = (case s_tables s a of None \<Rightarrow> (Inl Undefined, s) | Some t \<Rightarrow> (Inr (), s\<lparr>s_tables := (s_tables s)(a \<mapsto> f t)\<rparr>))"
  by (simp add: update_table_def readS_def table_at_def put_table_def split: option.split)

lemma update_map_eq:
  "update_table a (a_map_update f) s = (case s_tables s a of None \<Rightarrow> (Inl Undefined, s)
     | Some t \<Rightarrow> (Inr (), s\<lparr>s_tables := (s_tables s)(a \<mapsto> t\<lparr>a_map := f (a_map t)\<rparr>)\<rparr>))"
proof -
  have m: "a_map_update f t = t\<lparr>a_map := f (a_map t)\<rparr>" for t by (cases t) simp
  show ?thesis
  proof (cases "s_tables s a")
    case (Some t)
    show ?thesis unfolding update_table_eq Some option.case by (subst m) (rule refl)
  qed (simp add: update_table_eq)
qed

lemma orderly_update [orderly_intros]: "(\<And>t. a_map (f t) = a_map t) \<Longrightarrow> orderly (update_table a f)"
  by (rule orderlyI) (auto simp: update_table_eq intro: same_map_ok split: option.split)

lemma held_list_split: "i < length m \<Longrightarrow> held_list m = held_list (take i m) @ held_list [m ! i] @ held_list (drop (Suc i) m)"
proof -
  assume "i < length m"
  then have "m = take i m @ [m ! i] @ drop (Suc i) m" by (simp add: id_take_nth_drop)
  then show ?thesis by (metis held_list_simps(3))
qed

lemma distinct_without: "distinct (xs @ ys @ zs) \<Longrightarrow> distinct (xs @ zs)"
  by auto

lemma remove_at_subset: "set (remove_at i m) \<subseteq> set m"
  using set_drop_subset [of "Suc i" m] set_take_subset [of i m] by (simp add: remove_at_def)

lemma remove_at_held:
  "set (held_list (remove_at i m)) \<subseteq> set (held_list m)" "set (owned_list (remove_at i m)) \<subseteq> set (owned_list m)"
  "distinct (held_list m) \<Longrightarrow> distinct (held_list (remove_at i m))"
proof -
  show "set (held_list (remove_at i m)) \<subseteq> set (held_list m)" "set (owned_list (remove_at i m)) \<subseteq> set (owned_list m)"
    using remove_at_subset [of i m] unfolding in_held_list in_owned_list subset_iff by blast+
  show "distinct (held_list m) \<Longrightarrow> distinct (held_list (remove_at i m))"
  proof (cases "i < length m")
    case True
    assume "distinct (held_list m)"
    then show ?thesis unfolding held_list_split [OF True] remove_at_def held_list_simps(3) by (rule distinct_without)
  qed (simp add: remove_at_def)
qed

lemma remove_entry_ok:
  "store_ok s \<Longrightarrow> s_tables s a = Some t \<Longrightarrow> store_ok (s\<lparr>s_tables := (s_tables s)(a \<mapsto> t\<lparr>a_map := remove_at i (a_map t)\<rparr>)\<rparr>)"
  using store_okD(4) [of s a t] store_okD(8) [of s a] remove_at_held [where i = i and m = "a_map t"] remove_at_subset [of i "a_map t"]
  by (intro shrink_table_ok [where m = "a_map t"]) (auto simp: children_def holdings_def)

lemma orderly_remove [orderly_intros]: "orderly (update_table a (a_map_update (remove_at i)))"
  by (rule orderlyI) (auto simp: update_map_eq intro: remove_entry_ok split: option.split)

lemma orderly_put_vector:
  assumes "store_ok s" "s_vectors s v \<noteq> None"
  shows "store_ok (snd (put_vector v xs s))"
proof -
  let ?s = "s\<lparr>s_vectors := (s_vectors s)(v \<mapsto> xs)\<rparr>"
  have e: "entry_ok ?s e" if "entry_ok s e" for e by (rule entry_ok_mono [OF that]) simp_all
  have v: "s_tables s v = None" "v < s_next s"
    using assms(2) store_okD(1,3) [OF assms(1), of v] by (cases "v < s_next s"; auto)+
  have "store_ok ?s"
    by (rule same_holdings_ok [OF assms(1)])
      (use e v store_okD(1-4) [OF assms(1)] in \<open>auto simp: children_def holdings_def fun_eq_iff\<close>)
  then show ?thesis by (simp add: put_vector_def)
qed

lemma orderly_change_vector [orderly_intros]:
  "orderly (bindS (readS (vector_at (At v))) (\<lambda>xs. if P xs then put_vector v (f xs) else throwS (e xs)))"
  "orderly (bindS (readS (vector_at (At v))) (\<lambda>xs. bindS (put_vector v (f xs)) (\<lambda>_. returnS (g xs))))"
  by (rule orderlyI; auto simp: readS_def put_vector_def split: option.split intro: orderly_put_vector [unfolded put_vector_def snd_conv])+

text \<open>Appending an entry that owns nothing, or a new vector.\<close>

lemma orderly_append_free:
  "store_ok s \<Longrightarrow> entry_ok s e \<Longrightarrow> held e = None \<Longrightarrow> store_ok (snd (update_table a (a_map_update (\<lambda>m. m @ [e])) s))"
proof -
  assume a: "store_ok s" "entry_ok s e" "held e = None"
  then have o: "owned e \<noteq> Some x" for x by (auto dest: owned_held)
  show ?thesis
  proof (cases "s_tables s a")
    case (Some t)
    with append_entry_ok [OF a(1) Some a(2)] a(3) o show ?thesis by (simp add: update_map_eq)
  qed (simp add: update_map_eq a)
qed

lemma not_held_yet: "store_ok s \<Longrightarrow> s_next s \<notin> set (holdings s b)"
proof
  assume ok: "store_ok s" and "s_next s \<in> set (holdings s b)"
  then obtain t e where t: "s_tables s b = Some t" "e \<in> set (a_map t)" "held e = Some (s_next s)"
    by (cases "s_tables s b") (auto simp: holdings_def in_held_list)
  then have "e_attributes e = At (s_next s) \<or> e_attr e = At (s_next s)"
    by (auto simp: held_def owned_def split: if_splits ptr.splits)
  then show False using store_okD(4) [OF ok t(1,2)] by (auto simp: entry_ok_def)
qed

lemma not_owned_yet: "store_ok s \<Longrightarrow> s_next s \<notin> set (children s b)"
  using not_held_yet [of s b] children_held(1) by blast

lemma orderly_append_vector [orderly_intros]:
  assumes "\<And>v. e_attr (e v) = At v" "\<And>v. e_attributes (e v) = Null" "\<And>v. \<not> e_is_alias (e v)" "\<And>v. orderly (g v)"
  shows "orderly (bindS (alloc_vector xs) (\<lambda>v. bindS (update_table a (a_map_update (\<lambda>m. m @ [e v]))) (\<lambda>_. g v)))"
proof (rule orderlyI)
  fix s :: astore assume ok: "store_ok s"
  let ?v = "s_next s"
  let ?s = "s\<lparr>s_vectors := (s_vectors s)(?v \<mapsto> xs), s_next := Suc ?v\<rparr>"
  note ok1 = alloc_vector_ok [OF ok, of xs]
  have "store_ok (snd (update_table a (a_map_update (\<lambda>m. m @ [e ?v])) ?s))"
  proof (cases "s_tables s a")
    case None
    with ok1 show ?thesis by (simp add: update_map_eq)
  next
    case (Some t)
    have "a < ?v" by (rule table_live [OF ok Some])
    then have c: "a \<notin> contents ?s ?v" using store_okD(2) [OF ok, of ?v] contents_leaf [of ?s ?v] by simp
    have h: "held (e ?v) = Some x \<Longrightarrow> x = ?v" for x using assms(1-3) by (auto simp: held_def owned_def split: if_splits)
    have "holdings ?s b = holdings s b" for b by (simp add: holdings_def)
    then have f: "?v \<notin> set (holdings ?s b)" for b using not_held_yet [OF ok] by simp
    have e: "entry_ok ?s (e ?v)" using assms(1-3) by (simp add: entry_ok_def)
    have "store_ok (?s\<lparr>s_tables := (s_tables ?s)(a \<mapsto> t\<lparr>a_map := a_map t @ [e ?v]\<rparr>)\<rparr>)"
      by (rule append_entry_ok [OF ok1 _ e]) (use Some c h f owned_held in auto)
    then show ?thesis by (simp add: update_map_eq Some)
  qed
  then show "store_ok (snd (bindS (alloc_vector xs) (\<lambda>v. bindS (update_table a (a_map_update (\<lambda>m. m @ [e v]))) (\<lambda>_. g v)) s))"
    using orderlyD [OF assms(4)] by (auto simp: alloc_vector_def split: prod.split sum.split)
qed

end
