(* ===== verification/Attr_Steps.thy ===== *)
theory Attr_Steps
  imports Attr_Ownership
begin

text \<open>
  The operations on attribute tables keep the store in order: in the states a program reaches
  with them every value and every table is owned once, and deleting is safe in all of them.
\<close>

section \<open>Operations that delete nothing\<close>

lemma entry0_simps [simp]: "e_is_alias entry0 = False" "e_attributes entry0 = Null" "e_attr entry0 = Null"
  by (simp_all add: entry0_def)

lemma orderly_append_attr: "orderly (append_attr_vector a name type values)"
  unfolding append_attr_vector_def Let_def by (intro orderly_intros) simp_all

lemma orderly_set_name: "orderly (set_name a n)"
  unfolding set_name_def by (intro orderly_intros) simp

lemma owned_global: "owned (e\<lparr>e_is_global := g\<rparr>) = owned e" "held (e\<lparr>e_is_global := g\<rparr>) = held e" "entry_ok s (e\<lparr>e_is_global := g\<rparr>) = entry_ok s e"
  by (simp_all add: owned_def held_def entry_ok_def)

lemma owned_list_replace: "i < length m \<Longrightarrow> owned e = owned (m ! i) \<Longrightarrow> owned_list (m[i := e]) = owned_list m"
  by (induction m arbitrary: i) (auto split: nat.split option.split)

lemma held_list_replace: "i < length m \<Longrightarrow> held e = held (m ! i) \<Longrightarrow> held_list (m[i := e]) = held_list m"
  by (induction m arbitrary: i) (auto split: nat.split option.split)

lemma orderly_entry_global: "orderly (update_entry i (e_is_global_update (\<lambda>_. g)))"
proof (rule orderlyI)
  fix s :: astore assume ok: "store_ok s"
  show "store_ok (snd (update_entry i (e_is_global_update (\<lambda>_. g)) s))"
  proof (cases "entry_at i s")
    case (Inr e)
    then obtain t where t: "s_tables s (fst i) = Some t" "snd i < length (a_map t)" "e = a_map t ! snd i"
      by (auto simp: entry_at_def table_at_def split: option.splits if_splits)
    let ?e = "e\<lparr>e_is_global := g\<rparr>"
    have o: "owned_list ((a_map t)[snd i := ?e]) = owned_list (a_map t)"
      by (rule owned_list_replace) (simp_all add: t owned_global)
    have h: "held_list ((a_map t)[snd i := ?e]) = held_list (a_map t)"
      by (rule held_list_replace) (simp_all add: t owned_global)
    have "entry_ok s f" if "f \<in> set ((a_map t)[snd i := ?e])" for f
      using set_update_subset_insert [of "a_map t" "snd i" ?e] that store_okD(4) [OF ok t(1)] t(2,3) nth_mem [OF t(2)] owned_global(3)
      by auto
    then have "store_ok (s\<lparr>s_tables := (s_tables s)(fst i \<mapsto> t\<lparr>a_map := (a_map t)[snd i := ?e]\<rparr>)\<rparr>)"
      using store_okD(8) [OF ok, of "fst i"] t(1)
      by (intro shrink_table_ok [OF ok, where m = "(a_map t)[snd i := ?e]"]) (simp_all add: o h children_def holdings_def)
    then show ?thesis using Inr t(1) by (simp add: update_entry_def readS_def update_map_eq)
  qed (simp add: update_entry_def readS_def ok)
qed

lemma orderly_table_global: "orderly (set_is_global_attribute a ga)"
  unfolding set_is_global_attribute_def by (intro orderly_intros) simp

lemma orderly_set_global: "orderly (set_is_global_at i ga)"
  unfolding set_is_global_at_def by (intro orderly_intros orderly_entry_global orderly_table_global)

lemma orderly_take: "orderly (del_attr_table i)"
  unfolding del_attr_table_def by (intro orderly_intros) simp

lemma orderly_container_alias: "orderly (add_container_alias a name src)"
proof (rule orderlyI)
  fix s :: astore assume ok: "store_ok s"
  have "store_ok (snd (update_table a (a_map_update (\<lambda>m. m @ [entry0\<lparr>e_name := l, e_is_alias := True, e_aliased_to := n,
      e_type := Attr_container, e_attributes := At src\<rparr>])) s))" if "s_tables s src = Some t" for l n t
    by (rule orderly_append_free [OF ok]) (use table_live [OF ok that] in \<open>simp_all add: entry_ok_def held_def owned_def\<close>)
  then show "store_ok (snd (add_container_alias a name src s))"
    using ok by (auto simp: add_container_alias_def Let_def readS_def table_at_def split: sum.split option.split)
qed

lemma entry_at_ok: "store_ok s \<Longrightarrow> entry_at i s = Inr e \<Longrightarrow> entry_ok s e"
  using store_okD(4) [of s "fst i" _ e] by (auto simp: entry_at_def table_at_def split: option.splits if_splits)

lemma ok_after_read:
  "store_ok s \<Longrightarrow> (\<And>x. g s = Inr x \<Longrightarrow> store_ok (snd (f x s))) \<Longrightarrow> store_ok (snd (bindS (readS g) f s))"
  by (cases "g s") (simp_all add: readS_def)

lemma orderly_value_alias: "orderly (add_value_alias n a das name source)"
proof (rule orderlyI)
  fix s :: astore assume ok: "store_ok s"
  let ?app = "\<lambda>l k e. update_table a (a_map_update (\<lambda>m. m @
      [if e_type e = Attr_container then entry0\<lparr>e_name := l, e_is_alias := True, e_aliased_to := k, e_type := e_type e, e_attributes := e_attributes e\<rparr>
       else entry0\<lparr>e_name := l, e_is_alias := True, e_aliased_to := k, e_type := e_type e, e_attr := e_attr e\<rparr>]))"
  have app: "store_ok (snd (?app l k e s))" if "entry_at i s = Inr e" for i e l k
    by (rule orderly_append_free [OF ok]) (use entry_at_ok [OF ok that] in \<open>simp_all add: entry_ok_def held_def owned_def\<close>)
  have "store_ok (snd ((if P then throwS x else bindS (readS f) (\<lambda>j. bindS (readS (g j)) (\<lambda>end. if \<not> end then throwS y else ?app l k e))) s))"
    if "entry_at i s = Inr e" for P x f g y l k e i
  proof (cases P)
    case False
    show ?thesis unfolding if_not_P [OF False]
      by (rule ok_after_read [OF ok], rule ok_after_read [OF ok]) (use app [OF that] ok in simp)
  qed (simp add: ok)
  then have inner: "store_ok (snd (bindS (readS (entry_at i)) (\<lambda>e. if P e then throwS x else bindS (readS f) (\<lambda>j. bindS (readS (g j)) (\<lambda>end. if \<not> end then throwS y else ?app l k e))) s))"
    for P x f g y l k i
    by (rule ok_after_read [OF ok])
  show "store_ok (snd (add_value_alias n a das name source s))"
    unfolding add_value_alias_def Let_def
  proof (rule ok_after_read [OF ok])
    fix src
    show "store_ok (snd ((case src of None \<Rightarrow> throwS (not_found source) | Some iter \<Rightarrow>
        bindS (readS (entry_at iter)) (\<lambda>e. if e_type e \<noteq> Attr_container \<and> a = das then throwS top_level_value
          else bindS (readS (simple_find a (remove_space_encoding name))) (\<lambda>i. bindS (readS (is_end a i)) (\<lambda>end.
            if \<not> end then throwS (already_there name ''in this attribute table. (3)'')
            else ?app (remove_space_encoding name) (remove_space_encoding source) e)))) s))"
      using inner ok by (cases src) simp_all
  qed
qed

section \<open>Containers\<close>

text \<open>A table that no entry owns and that does not contain \<open>a\<close> becomes a container of \<open>a\<close>.\<close>

lemma append_container_at_ok:
  assumes ok: "store_ok s" and a: "s_tables s a = Some t" and b: "s_tables s b = Some u"
    and free: "\<And>p. b \<notin> set (children s p)" and cyc: "a \<notin> contents s b"
  shows "store_ok (snd (append_container_at a b name s))"
proof -
  define l where "l = remove_space_encoding name"
  have ab: "a \<noteq> b" using cyc contents_self [of b s] by blast
  show ?thesis
  proof (cases "find_index name (a_map t) = length (a_map t)")
    case False
    then show ?thesis using a ok by (simp add: append_container_at_def Let_def readS_def simple_find_def table_at_def is_end_def)
  next
    case True
    define v where "v = u\<lparr>a_name := remove_space_encoding l\<rparr>"
    let ?s2 = "s\<lparr>s_tables := (s_tables s)(b \<mapsto> v)\<rparr>"
    let ?e = "entry0\<lparr>e_name := l, e_type := Attr_container, e_attributes := At b\<rparr>"
    let ?s3 = "?s2\<lparr>s_tables := (s_tables ?s2)(a \<mapsto> t\<lparr>a_map := a_map t @ [?e]\<rparr>)\<rparr>"
    let ?s4 = "?s3\<lparr>s_tables := (s_tables ?s3)(b \<mapsto> v\<lparr>a_parent := At a\<rparr>)\<rparr>"
    have v: "a_map v = a_map u" by (simp add: v_def)
    have ok2: "store_ok ?s2" by (rule same_map_ok [OF ok b v])
    have c: "children ?s2 = children s" "holdings ?s2 = holdings s" using b v by (auto simp: children_def holdings_def fun_eq_iff)
    then have "contents ?s2 = contents s" by (simp add: contents_def child_def [abs_def] fun_eq_iff)
    moreover have "b \<notin> set (holdings s p)" for p
      using holdings_table [OF ok, of b p] free store_okD(1) [OF ok, of b] b by auto
    moreover have "b < s_next s" by (rule table_live [OF ok b])
    ultimately have "store_ok ?s3"
      using ab a cyc by (intro append_entry_ok [OF ok2]) (auto simp: entry_ok_def held_def owned_def c)
    then have "store_ok ?s4" by (rule same_map_ok [where t = v]) (use ab in simp_all)
    moreover have m: "a_map_update (\<lambda>m. m @ [e]) t = t\<lparr>a_map := a_map t @ [e]\<rparr>" for e by (cases t) simp
    moreover have n: "a_name_update (\<lambda>_. x) u = u\<lparr>a_name := x\<rparr>" for x by simp
    have "append_container_at a b name s = (Inr b, ?s4)"
      using a b ab True by (simp add: append_container_at_def Let_def readS_def simple_find_def
          table_at_def is_end_def set_name_def update_table_eq l_def v_def) (simp only: m)
    ultimately show ?thesis by simp
  qed
qed

lemma append_container_ok:
  assumes ok: "store_ok s" and a: "s_tables s a = Some t" and n: "1 < n"
  shows "store_ok (snd (append_container n a name s))"
proof -
  let ?b = "s_next s"
  let ?s = "s\<lparr>s_tables := (s_tables s)(?b \<mapsto> table0), s_next := Suc ?b\<rparr>"
  have ab: "a < ?b" by (rule table_live [OF ok a])
  have ok1: "store_ok ?s" by (rule alloc_table_ok [OF ok]) (simp add: table0_def)
  have ch: "holdings ?s c = holdings s c" for c
    using store_okD(2) [OF ok, of ?b] by (simp add: holdings_def table0_def)
  have free: "?b \<notin> set (holdings ?s c)" for c using not_held_yet [OF ok] ch by simp
  have "children ?s ?b = []" by (simp add: children_def table0_def)
  then have cont: "contents ?s ?b = {?b}" by (subst contents_step) simp
  have del: "delete_table n ?b ?s = (Inr (), cut {?b} ?s)"
    using delete_table_cut [OF ok1, of ?b "{}" n] n by (simp add: cont)
  have ok2: "store_ok (cut {?b} ?s)" by (rule cut_ok [OF ok1]) (use free in auto)
  have ok3: "store_ok (snd (append_container_at a ?b name ?s))"
    by (rule append_container_at_ok [OF ok1]) (use ab a cont free children_held(1) [of ?b ?s] in auto)
  show ?thesis
  proof (cases "find_index name (a_map t) = length (a_map t)")
    case False
    then show ?thesis
      using a ab del ok2 by (simp add: append_container_def alloc_table_def append_container_at_def Let_def readS_def simple_find_def
          table_at_def is_end_def already_there_def)
  next
    case True
    have "fst (append_container_at a ?b name ?s) = Inr ?b"
      using a ab True by (simp add: append_container_at_def Let_def readS_def simple_find_def
          table_at_def is_end_def set_name_def update_table_eq)
    with ok3 show ?thesis by (cases "append_container_at a ?b name ?s") (simp add: append_container_def alloc_table_def)
  qed
qed

section \<open>Deleting\<close>

lemma contents_bound: "store_ok s \<Longrightarrow> s_tables s a \<noteq> None \<Longrightarrow> card (contents s a) \<le> s_next s"
  using contents_finite [of s a] table_live [of s a] by auto

lemma contents_closed:
  assumes "store_ok s" "\<And>p. x \<notin> set (holdings s p)" "y \<in> set (holdings s p)" "y \<in> contents s x"
  shows "p \<in> contents s x"
proof -
  have "y \<noteq> x" using assms(2,3) by blast
  then obtain q where q: "q \<in> contents s x" "child s q y"
    using assms(4) unfolding contents_def mem_Collect_eq by (metis rtranclp.cases)
  then have "q = p" using store_okD(9) [OF assms(1) children_held(1) assms(3)] by (simp add: child_def)
  with q(1) show ?thesis by simp
qed

lemma delete_entry_ok:
  assumes ok: "store_ok s" and e: "entry_ok s e" and free: "\<And>x p. owned e = Some x \<Longrightarrow> x \<notin> set (holdings s p)" and n: "s_next s < n"
  shows "delete_entry (delete_table n) e s = (Inr (), cut (case owned e of None \<Rightarrow> {} | Some x \<Rightarrow> contents s x) s) \<and>
    store_ok (cut (case owned e of None \<Rightarrow> {} | Some x \<Rightarrow> contents s x) s)"
proof -
  have "each (delete_entry (delete_table n)) [e] (cut {} s) = (Inr (), cut ({} \<union> (\<Union>x \<in> set (owned_list [e]). contents s x)) s)"
  proof (rule delete_entries [where owners = UNIV])
    show "delete_table n b (cut X s) = (Inr (), cut (X \<union> contents s b) s)"
      if "s_tables s b \<noteq> None" "b \<in> UNIV" "contents s b \<inter> X = {}" for b X
      by (rule delete_table_cut [OF ok that(1,3)]) (use that(1) n contents_bound [OF ok] in \<open>blast intro: order.trans less_imp_le\<close>)
    show "\<forall>x. s_tables s x = None \<or> s_vectors s x = None" using store_okD(1) [OF ok] by blast
  qed (use e in \<open>auto split: option.splits\<close>)
  then have "delete_entry (delete_table n) e s = (Inr (), cut (case owned e of None \<Rightarrow> {} | Some x \<Rightarrow> contents s x) s)"
    by (auto split: option.splits prod.splits sum.splits simp del: delete_entry.simps)
  moreover have "store_ok (cut (case owned e of None \<Rightarrow> {} | Some x \<Rightarrow> contents s x) s)"
  proof (cases "owned e")
    case (Some x)
    with contents_closed [OF ok free] show ?thesis by (simp add: cut_ok [OF ok])
  qed (simp add: ok)
  ultimately show ?thesis by blast
qed

lemma del_attr_ok:
  assumes ok: "store_ok s" and n: "s_next s < n"
  shows "store_ok (snd (del_attr n a name k s))"
proof (cases "s_tables s a")
  case None
  then show ?thesis using ok by (simp add: del_attr_def Let_def readS_def simple_find_def table_at_def)
next
  case (Some t)
  define i where "i = find_index (remove_space_encoding name) (a_map t)"
  consider "i = length (a_map t)" | "i \<noteq> length (a_map t)" "\<not> i < length (a_map t)" | "i < length (a_map t)" "k = -1" | "i < length (a_map t)" "k \<noteq> -1" by fastforce
  then show ?thesis
  proof cases
    case 3
    let ?e = "a_map t ! i"
    let ?s = "s\<lparr>s_tables := (s_tables s)(a \<mapsto> t\<lparr>a_map := remove_at i (a_map t)\<rparr>)\<rparr>"
    have ok1: "store_ok ?s" by (rule remove_entry_ok [OF ok Some])
    have e1: "entry_ok ?s ?e"
      by (rule entry_ok_mono [OF store_okD(4) [OF ok Some nth_mem [OF 3(1)]]]) simp_all
    have "x \<notin> set (holdings ?s p)" if "owned ?e = Some x" for x p
    proof
      assume p: "x \<in> set (holdings ?s p)"
      have x: "held ?e = Some x" by (rule owned_held [OF that])
      then have xa: "x \<in> set (holdings s a)" using 3(1) Some by (auto simp: holdings_def in_held_list)
      have "set (holdings ?s p) \<subseteq> set (holdings s p)"
        using remove_at_held(1) [where i = i and m = "a_map t"] Some by (auto simp: holdings_def)
      then have "p = a" using p xa store_okD(9) [OF ok] by blast
      then have "x \<in> set (held_list (take i (a_map t) @ drop (Suc i) (a_map t)))" using p by (simp add: holdings_def remove_at_def)
      moreover have "distinct (held_list (take i (a_map t)) @ held_list [?e] @ held_list (drop (Suc i) (a_map t)))"
        using store_okD(8) [OF ok, of a] Some held_list_split [OF 3(1)] by (simp add: holdings_def)
      ultimately show False using x by auto
    qed
    from delete_entry_ok [OF ok1 e1 this, of n] n have "store_ok (snd (delete_entry (delete_table n) ?e ?s))"
      by (simp del: delete_entry.simps)
    then show ?thesis
      using Some 3 by (simp add: del_attr_def Let_def readS_def simple_find_def table_at_def is_end_def entry_at_def update_map_eq
          i_def [symmetric] del: delete_entry.simps)
  next
    case 4
    have "orderly (del_attr n a name k)"
      unfolding del_attr_def Let_def if_not_P [OF 4(2)] by (intro orderly_intros)
    from orderlyD [OF this ok] show ?thesis .
  qed (use Some ok in \<open>simp_all add: del_attr_def Let_def readS_def simple_find_def table_at_def is_end_def entry_at_def i_def [symmetric]\<close>)
qed

text \<open>Emptying a table frees what it contains, and nothing else.\<close>

definition emptied :: "nat \<Rightarrow> atable \<Rightarrow> astore \<Rightarrow> astore" where
  "emptied a t s = (cut (contents s a - {a}) s)\<lparr>s_tables := (s_tables (cut (contents s a - {a}) s))(a \<mapsto> t)\<rparr>"

lemma emptied_ok:
  assumes ok: "store_ok s" and t: "s_tables s a \<noteq> None" and m: "a_map u = []"
  shows "store_ok (emptied a u s)"
proof -
  let ?U = "contents s a - {a}"
  let ?s = "s\<lparr>s_tables := (s_tables s)(a \<mapsto> u)\<rparr>"
  have ok1: "store_ok ?s" by (rule clear_map_ok [OF ok t m])
  have c: "holdings ?s p = (if p = a then [] else holdings s p)" for p by (simp add: holdings_def m)
  have "store_ok (cut ?U ?s)"
  proof (rule cut_ok [OF ok1])
    fix p x assume x: "x \<in> set (holdings ?s p)" "x \<in> ?U"
    then have p: "p \<noteq> a" "x \<in> set (holdings s p)" by (simp_all add: c split: if_splits)
    from x obtain q where "q \<in> contents s a" "child s q x"
      unfolding contents_def by (auto elim: rtranclp.cases)
    then have "p \<in> contents s a" using store_okD(9) [OF ok children_held(1) p(2)] by (auto simp: child_def)
    with p(1) show "p \<in> ?U" by simp
  qed
  moreover have "cut ?U ?s = emptied a u s" by (simp add: cut_def emptied_def fun_eq_iff)
  ultimately show ?thesis by simp
qed

lemma delete_attr_table_frees:
  assumes ok: "store_ok s" and t: "s_tables s a = Some t" and n: "s_next s < n"
  shows "delete_attr_table (delete_table n) a s = (Inr (), emptied a (t\<lparr>a_map := []\<rparr>) s)"
proof -
  have "delete_table n b (cut X s) = (Inr (), cut (X \<union> contents s b) s)" if "s_tables s b \<noteq> None" "contents s b \<inter> X = {}" for b X
    by (rule delete_table_cut [OF ok that]) (use that(1) n contents_bound [OF ok] in \<open>blast intro: order.trans less_imp_le\<close>)
  then have "delete_attr_table (delete_table n) a (cut {} s) =
      (Inr (), (cut ({} \<union> (contents s a - {a})) s)\<lparr>s_tables := (s_tables (cut ({} \<union> (contents s a - {a})) s))(a \<mapsto> t\<lparr>a_map := []\<rparr>)\<rparr>)"
    by (intro delete_attr_table_cut [OF ok t]) simp_all
  then show ?thesis by (simp add: emptied_def)
qed

definition erased :: "nat \<Rightarrow> atable \<Rightarrow> astore \<Rightarrow> astore" where
  "erased a t s = emptied a (t\<lparr>a_map := [], a_name := []\<rparr>) s"

lemma erase_frees:
  assumes ok: "store_ok s" and t: "s_tables s a = Some t" and n: "s_next s < n"
  shows "erase n a s = (Inr (), erased a t s) \<and> store_ok (erased a t s)"
proof
  show "erase n a s = (Inr (), erased a t s)"
    using delete_attr_table_frees [OF ok t n] by (simp add: erase_def update_table_eq erased_def emptied_def)
  show "store_ok (erased a t s)" unfolding erased_def by (rule emptied_ok [OF ok]) (use t in simp_all)
qed

end
