(* ===== verification/Attr_Copy.thy ===== *)
theory Attr_Copy
  imports Attr_Steps
begin

text \<open>
  The copy constructor of \<open>AttrTable\<close>: the copy prints as the original does, shares no owned object
  with it and leaves the original as it was, but for the parents of containers that are aliased.
  Copying and assigning keep the ownership of the store in order.
\<close>

section \<open>A store that grows\<close>

definition same_but_parent :: "atable option \<Rightarrow> atable option \<Rightarrow> bool" where
  "same_but_parent o1 o2 \<longleftrightarrow> map_option (a_parent_update (\<lambda>_. Null)) o1 = map_option (a_parent_update (\<lambda>_. Null)) o2"

definition agree :: "nat set \<Rightarrow> astore \<Rightarrow> astore \<Rightarrow> bool" where
  "agree X s s' \<longleftrightarrow> (\<forall>x \<in> X. s_vectors s' x = s_vectors s x \<and> same_but_parent (s_tables s x) (s_tables s' x))"

definition grown :: "astore \<Rightarrow> astore \<Rightarrow> bool" where
  "grown s s' \<longleftrightarrow> s_next s \<le> s_next s' \<and> agree {..<s_next s} s s'"

lemma same_but_parent_refl [simp]: "same_but_parent r r"
  by (simp add: same_but_parent_def)

lemma same_but_parent_None: "same_but_parent None r \<longleftrightarrow> r = None"
  by (cases r) (simp_all add: same_but_parent_def)

lemma same_but_parent_Some:
  "same_but_parent (Some t) r \<Longrightarrow> \<exists>t'. r = Some t' \<and> a_map t' = a_map t \<and> a_name t' = a_name t \<and> a_global t' = a_global t"
  by (cases r; cases t; cases "the r") (simp_all add: same_but_parent_def)

lemma agree_refl [simp]: "agree X s s"
  by (simp add: agree_def)

lemma agree_trans: "agree X s s' \<Longrightarrow> agree X s' s'' \<Longrightarrow> agree X s s''"
  by (simp add: agree_def same_but_parent_def)

lemma agree_subset: "agree X s s' \<Longrightarrow> Y \<subseteq> X \<Longrightarrow> agree Y s s'"
  unfolding agree_def by blast

lemma agreeD: "agree X s s' \<Longrightarrow> x \<in> X \<Longrightarrow> s_vectors s' x = s_vectors s x"
  "agree X s s' \<Longrightarrow> x \<in> X \<Longrightarrow> same_but_parent (s_tables s x) (s_tables s' x)"
  by (simp_all add: agree_def)

lemma grown_refl [simp]: "grown s s"
  by (simp add: grown_def)

lemma grown_trans: "grown s s' \<Longrightarrow> grown s' s'' \<Longrightarrow> grown s s''"
  unfolding grown_def using agree_trans [of "{..<s_next s}" s s' s''] agree_subset [of "{..<s_next s'}" s' s'' "{..<s_next s}"] by auto

lemma agree_children: "agree X s s' \<Longrightarrow> x \<in> X \<Longrightarrow> children s' x = children s x"
proof (cases "s_tables s x")
  case None
  assume "agree X s s'" "x \<in> X"
  then have "same_but_parent (s_tables s x) (s_tables s' x)" by (simp add: agree_def)
  with None show ?thesis by (simp add: children_def same_but_parent_None)
next
  case (Some t)
  assume "agree X s s'" "x \<in> X"
  then have "same_but_parent (s_tables s x) (s_tables s' x)" by (simp add: agree_def)
  with Some show ?thesis by (auto simp: children_def dest!: same_but_parent_Some)
qed

lemma agree_contents:
  assumes "agree X s s'" "contents s a \<subseteq> X"
  shows "contents s' a = contents s a"
proof -
  have step: "child s' x y \<longleftrightarrow> child s x y" if "x \<in> contents s a" for x y
    using agree_children [OF assms(1)] assms(2) that by (auto simp: child_def)
  have "(child s')\<^sup>*\<^sup>* a z \<Longrightarrow> (child s)\<^sup>*\<^sup>* a z" for z
  proof (induction rule: rtranclp_induct)
    case (step y z)
    then show ?case using \<open>\<And>y x. x \<in> contents s a \<Longrightarrow> child s' x y = child s x y\<close> [of y z] by (auto simp: contents_def)
  qed simp
  moreover have "(child s)\<^sup>*\<^sup>* a z \<Longrightarrow> (child s')\<^sup>*\<^sup>* a z" for z
  proof (induction rule: rtranclp_induct)
    case (step y z)
    then show ?case using \<open>\<And>y x. x \<in> contents s a \<Longrightarrow> child s' x y = child s x y\<close> [of y z] by (auto simp: contents_def)
  qed simp
  ultimately show ?thesis by (auto simp: contents_def)
qed

text \<open>Nothing that was there gets an owner.\<close>

definition no_new_owner :: "astore \<Rightarrow> astore \<Rightarrow> bool" where
  "no_new_owner s s' \<longleftrightarrow> (\<forall>p x. x \<in> set (children s' p) \<longrightarrow> x < s_next s \<longrightarrow> x \<in> set (children s p))"

lemma no_new_owner_trans:
  "no_new_owner s s' \<Longrightarrow> no_new_owner s' s'' \<Longrightarrow> s_next s \<le> s_next s' \<Longrightarrow> no_new_owner s s''"
  unfolding no_new_owner_def by (meson less_le_trans)

lemma contents_of_new:
  assumes "store_ok s" "no_new_owner s s'" "s_next s \<le> c" "x \<in> contents s' c"
  shows "s_next s \<le> x"
proof -
  have "(child s')\<^sup>*\<^sup>* c x" using assms(4) by (simp add: contents_def)
  then show ?thesis
  proof (induction rule: rtranclp_induct)
    case (step y z)
    show ?case
    proof (rule ccontr)
      assume "\<not> s_next s \<le> z"
      then have "z \<in> set (children s y)" using step(2) assms(2) by (auto simp: child_def no_new_owner_def)
      moreover have "s_tables s y = None" by (rule store_okD(2) [OF assms(1) step(3)])
      ultimately show False by (simp add: children_def)
    qed
  qed (rule assms(3))
qed

section \<open>Printing depends on what is there\<close>

definition print_entry :: "nat \<Rightarrow> bool \<Rightarrow> astore \<Rightarrow> string \<Rightarrow> entry \<Rightarrow> string res" where
  "print_entry n dereference s pad e =
     (if e_is_alias e \<and> \<not> dereference
      then Inr (pad @ ''Alias '' @ add_space_encoding (e_name e) @ '' '' @ add_space_encoding (e_aliased_to e) @ '';'' @ [CHR 0x0A])
      else simple_print (print n dereference s) s pad e)"

lemma print_Suc: "print (Suc n) d s a pad = bindE (table_at a s) (\<lambda>t. concatE (print_entry n d s pad) (a_map t))"
  by (simp add: print_entry_def [abs_def])

lemma concatE_cong: "list_all2 (\<lambda>x y. f x = g y) xs ys \<Longrightarrow> concatE f xs = concatE g ys"
  by (induction rule: list_all2_induct) simp_all

lemma print_entry_grown:
  assumes "grown s s'" "entry_ok s e" "\<And>b p. b < s_next s \<Longrightarrow> print n d s' b p = print n d s b p"
  shows "print_entry n d s' pad e = print_entry n d s pad e"
proof -
  have "vector_at (e_attr e) s' = vector_at (e_attr e) s"
    using assms(1,2) by (cases "e_attr e") (auto simp: entry_ok_def grown_def agree_def)
  moreover have "print n d s' b p = print n d s b p" if "e_attributes e = At b" for b p
    using assms(2,3) that by (simp add: entry_ok_def)
  ultimately show ?thesis by (cases "e_attributes e") (simp_all add: print_entry_def simple_print_def)
qed

lemma print_grown:
  assumes "grown s s'" "store_ok s"
  shows "a < s_next s \<Longrightarrow> print n d s' a pad = print n d s a pad"
proof (induction n arbitrary: a pad)
  case (Suc n)
  have sp: "same_but_parent (s_tables s a) (s_tables s' a)" using Suc.prems assms(1) by (simp add: grown_def agree_def)
  show ?case
  proof (cases "s_tables s a")
    case None
    with sp show ?thesis by (simp add: table_at_def same_but_parent_None)
  next
    case (Some t)
    with sp obtain t' where t': "s_tables s' a = Some t'" "a_map t' = a_map t"
      using same_but_parent_Some by metis
    have "print_entry n d s' pad e = print_entry n d s pad e" if "e \<in> set (a_map t)" for e
      by (rule print_entry_grown [OF assms(1) store_okD(4) [OF assms(2) Some that]]) (rule Suc.IH)
    then have "concatE (print_entry n d s' pad) (a_map t) = concatE (print_entry n d s pad) (a_map t)"
      by (intro concatE_cong) (simp add: list_all2_same)
    with t' Some show ?thesis unfolding print_Suc by (simp add: table_at_def)
  qed
qed simp

section \<open>Copying\<close>

text \<open>Tables whose entries have a known type and whose containers are there.\<close>

definition copyable_entry :: "astore \<Rightarrow> entry \<Rightarrow> bool" where
  "copyable_entry s e \<longleftrightarrow> e_type e \<noteq> Attr_unknown \<and>
     (e_type e = Attr_container \<longrightarrow> (\<exists>c. e_attributes e = At c \<and> s_tables s c \<noteq> None))"

definition copyable :: "astore \<Rightarrow> nat \<Rightarrow> bool" where
  "copyable s a \<longleftrightarrow> (\<forall>b \<in> contents s a. \<forall>t e. s_tables s b = Some t \<longrightarrow> e \<in> set (a_map t) \<longrightarrow> copyable_entry s e)"

text \<open>What a copy of \<open>r\<close>, made in \<open>s1\<close>, has to be: it is printed as \<open>r\<close> is in every store where it is kept.\<close>

definition copied :: "astore \<Rightarrow> nat \<Rightarrow> astore \<Rightarrow> astore \<Rightarrow> bool" where
  "copied s r s1 s2 \<longleftrightarrow> store_ok s2 \<and> grown s1 s2 \<and> s_next s1 < s_next s2 \<and> s_tables s2 (s_next s1) \<noteq> None \<and> (\<forall>p. s_next s1 \<notin> set (children s2 p)) \<and>
     no_new_owner s1 s2 \<and>
     (\<forall>s3. grown s s3 \<longrightarrow> agree {s_next s1..<s_next s2} s2 s3 \<longrightarrow>
       (\<forall>m d pad. print m d s3 (s_next s1) pad = print m d s r pad))"

text \<open>One entry, copied into the table \<open>a\<close>.\<close>

definition entry_copied :: "astore \<Rightarrow> entry \<Rightarrow> nat set \<Rightarrow> astore \<Rightarrow> entry \<Rightarrow> bool" where
  "entry_copied s e X s2 e' \<longleftrightarrow> (\<forall>s3. grown s s3 \<longrightarrow> agree X s2 s3 \<longrightarrow>
     (\<forall>m d pad. print_entry m d s3 pad e' = print_entry m d s pad e))"

lemma print_entry_cong:
  "e_name e' = e_name e \<Longrightarrow> e_type e' = e_type e \<Longrightarrow> e_is_alias e' = e_is_alias e \<Longrightarrow> e_aliased_to e' = e_aliased_to e \<Longrightarrow>
   (e_type e = Attr_container \<Longrightarrow> \<exists>b b'. e_attributes e' = At b' \<and> e_attributes e = At b \<and> (\<forall>p. print m d s3 b' p = print m d s b p)) \<Longrightarrow>
   (e_type e \<noteq> Attr_container \<Longrightarrow> vector_at (e_attr e') s3 = vector_at (e_attr e) s) \<Longrightarrow>
   print_entry m d s3 pad e' = print_entry m d s pad e"
  by (cases "e_type e = Attr_container") (auto simp: print_entry_def simple_print_def)

lemma update_parent_ok:
  assumes "store_ok s" "s_tables s b \<noteq> None"
  shows "\<exists>s'. update_table b (a_parent_update (\<lambda>_. p)) s = (Inr (), s') \<and> store_ok s' \<and> s_next s' = s_next s \<and> agree UNIV s s' \<and>
    children s' = children s \<and> (\<forall>x. x \<noteq> b \<longrightarrow> s_tables s' x = s_tables s x)"
proof -
  obtain t where t: "s_tables s b = Some t" using assms(2) by blast
  let ?s = "s\<lparr>s_tables := (s_tables s)(b \<mapsto> t\<lparr>a_parent := p\<rparr>)\<rparr>"
  have "store_ok ?s" by (rule same_map_ok [OF assms(1) t]) simp
  moreover have "agree UNIV s ?s" using t by (simp add: agree_def same_but_parent_def)
  moreover have "children ?s = children s" using t by (auto simp: children_def fun_eq_iff)
  ultimately show ?thesis using t by (intro exI [of _ ?s]) (simp add: update_table_eq)
qed

lemma append_entry_steps:
  assumes "store_ok s" "s_tables s a = Some t" "entry_ok s e" "\<And>x. held e = Some x \<Longrightarrow> a \<notin> contents s x \<and> (\<forall>b. x \<notin> set (holdings s b))"
  shows "\<exists>s'. update_table a (a_map_update (\<lambda>m. m @ [e])) s = (Inr (), s') \<and> store_ok s' \<and> s_next s' = s_next s \<and>
    s_tables s' a = Some (t\<lparr>a_map := a_map t @ [e]\<rparr>) \<and> agree (- {a}) s s' \<and>
    (\<forall>x b. x \<in> set (children s' b) \<longrightarrow> x \<in> set (children s b) \<or> owned e = Some x)"
proof -
  let ?s = "s\<lparr>s_tables := (s_tables s)(a \<mapsto> t\<lparr>a_map := a_map t @ [e]\<rparr>)\<rparr>"
  have "store_ok ?s" by (rule append_entry_ok [OF assms(1-3)]) (use assms(4) owned_held in blast)+
  moreover have "agree (- {a}) s ?s" by (simp add: agree_def)
  moreover have "\<forall>x b. x \<in> set (children ?s b) \<longrightarrow> x \<in> set (children s b) \<or> owned e = Some x"
    using assms(2) by (auto simp: children_def split: option.splits)
  ultimately show ?thesis using assms(2) by (intro exI [of _ ?s]) (simp add: update_map_eq)
qed

lemma attach_entry:
  assumes "store_ok s" "s_tables s a = Some t" "entry_ok s e" "\<And>x. held e = Some x \<Longrightarrow> a \<notin> contents s x \<and> (\<forall>b. x \<notin> set (holdings s b))"
    "e_type e = Attr_container \<Longrightarrow> \<exists>b. e_attributes e = At b \<and> s_tables s b \<noteq> None"
  shows "\<exists>s' t'. attach_copy a e s = (Inr (), s') \<and> store_ok s' \<and> s_next s' = s_next s \<and>
    s_tables s' a = Some t' \<and> a_map t' = a_map t @ [e] \<and> agree (- {a}) s s' \<and>
    (\<forall>x b. x \<in> set (children s' b) \<longrightarrow> x \<in> set (children s b) \<or> owned e = Some x)"
proof -
  obtain s1 where s1: "update_table a (a_map_update (\<lambda>m. m @ [e])) s = (Inr (), s1)" "store_ok s1" "s_next s1 = s_next s"
    "s_tables s1 a = Some (t\<lparr>a_map := a_map t @ [e]\<rparr>)" "agree (- {a}) s s1"
    "\<forall>x b. x \<in> set (children s1 b) \<longrightarrow> x \<in> set (children s b) \<or> owned e = Some x"
    using append_entry_steps [OF assms(1-4)] by blast
  show ?thesis
  proof (cases "e_type e = Attr_container")
    case False
    with s1 show ?thesis by (auto simp: attach_copy_def)
  next
    case True
    with assms(5) obtain b where b: "e_attributes e = At b" "s_tables s b \<noteq> None" by blast
    have "s_tables s1 b \<noteq> None"
    proof (cases "b = a")
      case False
      then have "same_but_parent (s_tables s b) (s_tables s1 b)" using agreeD(2) [OF s1(5), of b] by simp
      then show ?thesis using b(2) same_but_parent_Some by fastforce
    qed (simp add: s1(4))
    then obtain s2 where s2: "update_table b (a_parent_update (\<lambda>_. At a)) s1 = (Inr (), s2)" "store_ok s2" "s_next s2 = s_next s1"
      "agree UNIV s1 s2" "children s2 = children s1"
      using update_parent_ok [OF s1(2), of b "At a"] by blast
    have "agree (- {a}) s s2" using agree_trans [OF s1(5) agree_subset [OF s2(4)]] by simp
    moreover obtain t2 where "s_tables s2 a = Some t2" "a_map t2 = a_map t @ [e]"
      using agreeD(2) [OF s2(4), of a] s1(4) by (auto dest!: same_but_parent_Some)
    ultimately show ?thesis using s1 s2 b True by (intro exI [of _ s2] exI [of _ t2]) (simp add: attach_copy_def)
  qed
qed

lemma live_grown: "grown s s' \<Longrightarrow> store_ok s \<Longrightarrow> s_tables s x \<noteq> None \<Longrightarrow> x < s_next s \<and> s_tables s' x \<noteq> None"
proof -
  assume g: "grown s s'" and ok: "store_ok s" and x: "s_tables s x \<noteq> None"
  then obtain t where t: "s_tables s x = Some t" by blast
  have lt: "x < s_next s" by (rule table_live [OF ok t])
  with g have "same_but_parent (s_tables s x) (s_tables s' x)" by (simp add: grown_def agree_def)
  with t lt show ?thesis by (auto dest!: same_but_parent_Some)
qed

lemma append_copy_step:
  assumes base: "store_ok s" "entry_ok s e" "copyable_entry s e"
    and cur: "store_ok s1" "grown s s1" "s_tables s1 a = Some t1"
    and cp: "\<And>b. e_type e = Attr_container \<Longrightarrow> owned e = Some b \<Longrightarrow> \<exists>s2. cp b s1 = (Inr (s_next s1), s2) \<and> copied s b s1 s2"
  shows "\<exists>s2 t2 e'. append_copy cp a e s1 = (Inr (), s2) \<and> store_ok s2 \<and> s_next s1 \<le> s_next s2 \<and> s_tables s2 a = Some t2 \<and>
    a_map t2 = a_map t1 @ [e'] \<and> agree ({..<s_next s1} - {a}) s1 s2 \<and> entry_copied s e {s_next s1..<s_next s2} s2 e' \<and> no_new_owner s1 s2"
proof -
  have a1: "a < s_next s1" by (rule table_live [OF cur(1,3)])
  have le: "s_next s \<le> s_next s1" using cur(2) by (simp add: grown_def)
  let ?e = "e\<lparr>e_attributes := Uninit, e_attr := Uninit\<rparr>"
  consider (aliased) "e_is_alias e" | (table) "\<not> e_is_alias e" "e_type e = Attr_container" | (scalar) "\<not> e_is_alias e" "e_type e \<noteq> Attr_container" by blast
  then show ?thesis
  proof cases
    case aliased
    define e' where "e' = (if e_type e = Attr_container then ?e\<lparr>e_attributes := e_attributes e\<rparr> else ?e\<lparr>e_attr := e_attr e\<rparr>)"
    have ce: "copy_entry cp e s1 = (Inr e', s1)" using aliased base(3) by (simp add: e'_def Let_def copyable_entry_def)
    have ok: "entry_ok s1 e'" using base(2) aliased le by (fastforce simp: entry_ok_def e'_def)
    have own: "held e' = None" "owned e' = None" using aliased by (simp_all add: held_def owned_def e'_def)
    have cont: "\<exists>b. e_attributes e' = At b \<and> s_tables s1 b \<noteq> None" if "e_type e' = Attr_container"
    proof -
      from that have c: "e_type e = Attr_container" by (simp add: e'_def split: if_splits)
      with base(3) obtain b where b: "e_attributes e = At b" "s_tables s b \<noteq> None" by (auto simp: copyable_entry_def)
      with live_grown [OF cur(2) base(1) b(2)] c show ?thesis by (auto simp: e'_def)
    qed
    obtain s2 t2 where s2: "append_copy cp a e s1 = (Inr (), s2)" "store_ok s2" "s_next s2 = s_next s1" "s_tables s2 a = Some t2"
      "a_map t2 = a_map t1 @ [e']" "agree (- {a}) s1 s2" "\<forall>x b. x \<in> set (children s2 b) \<longrightarrow> x \<in> set (children s1 b) \<or> owned e' = Some x"
      using attach_entry [OF cur(1,3) ok _ cont] own ce by (auto simp: append_copy_def simp del: copy_entry.simps)
    have "entry_copied s e {s_next s1..<s_next s2} s2 e'"
      unfolding entry_copied_def
    proof (intro allI impI)
      fix s3 m d pad assume g: "grown s s3"
      have "print_entry m d s3 pad e' = print_entry m d s3 pad e"
        using base(3) by (intro print_entry_cong) (auto simp: e'_def copyable_entry_def split: if_splits)
      also have "\<dots> = print_entry m d s pad e"
        by (rule print_entry_grown [OF g base(2)]) (rule print_grown [OF g base(1)])
      finally show "print_entry m d s3 pad e' = print_entry m d s pad e" .
    qed
    moreover have "agree ({..<s_next s1} - {a}) s1 s2" by (rule agree_subset [OF s2(6)]) blast
    moreover have "no_new_owner s1 s2" using s2(7) own(2) by (simp add: no_new_owner_def)
    ultimately show ?thesis using s2 by (intro exI [of _ s2] exI [of _ t2] exI [of _ e']) auto
  next
    case table
    with base(2,3) obtain b where b: "e_attributes e = At b" "s_tables s b \<noteq> None" "owned e = Some b"
      by (auto simp: copyable_entry_def owned_def)
    with cp table obtain s' where s': "cp b s1 = (Inr (s_next s1), s')" "copied s b s1 s'" by blast
    let ?c = "s_next s1"
    let ?f = "?e\<lparr>e_attributes := At ?c\<rparr>"
    have ce: "copy_entry cp e s1 = (Inr ?f, s')" using table b s'(1) base(3) by (simp add: Let_def copyable_entry_def readS_def)
    have c: "store_ok s'" "grown s1 s'" "?c < s_next s'" "s_tables s' ?c \<noteq> None" "\<forall>p. ?c \<notin> set (children s' p)" "no_new_owner s1 s'"
      using s'(2) unfolding copied_def by blast+
    have "same_but_parent (s_tables s1 a) (s_tables s' a)" using c(2) a1 by (simp add: grown_def agree_def)
    then obtain t' where t': "s_tables s' a = Some t'" "a_map t' = a_map t1" using cur(3) same_but_parent_Some by metis
    have own: "owned ?f = Some ?c" "held ?f = Some ?c" using table by (simp_all add: owned_def held_def)
    have new: "a \<notin> contents s' ?c" using contents_of_new [OF cur(1) c(6), of ?c a] a1 by auto
    have free: "?c \<notin> set (holdings s' p)" for p
      using holdings_table [OF c(1), of ?c p] c(4,5) store_okD(1) [OF c(1), of ?c] by auto
    have ok: "entry_ok s' ?f" using table c(3,4) by (simp add: entry_ok_def)
    obtain s2 t2 where s2: "append_copy cp a e s1 = (Inr (), s2)" "store_ok s2" "s_next s2 = s_next s'" "s_tables s2 a = Some t2"
      "a_map t2 = a_map t' @ [?f]" "agree (- {a}) s' s2" "\<forall>x b. x \<in> set (children s2 b) \<longrightarrow> x \<in> set (children s' b) \<or> owned ?f = Some x"
      using attach_entry [OF c(1) t'(1) ok] own ce c(4) new free by (auto simp: append_copy_def simp del: copy_entry.simps)
    have "entry_copied s e {?c..<s_next s2} s2 ?f"
      unfolding entry_copied_def
    proof (intro allI impI)
      fix s3 m d pad assume g: "grown s s3" "agree {?c..<s_next s2} s2 s3"
      have "agree {?c..<s_next s'} s' s3"
        by (rule agree_trans [of _ _ s2]) (use s2(3,6) g(2) a1 in \<open>auto intro: agree_subset\<close>)
      then have "print m d s3 ?c p = print m d s b p" for p using s'(2) g(1) unfolding copied_def by blast
      then show "print_entry m d s3 pad ?f = print_entry m d s pad e"
        using b(1) table by (intro print_entry_cong) auto
    qed
    moreover have "agree ({..<?c} - {a}) s1 s2"
      by (rule agree_trans [of _ _ s']) (use c(2) s2(6) in \<open>auto simp: grown_def intro: agree_subset\<close>)
    moreover have "no_new_owner s1 s2"
      using s2(7) own(1) c(6) unfolding no_new_owner_def by fastforce
    ultimately show ?thesis using s2 c(3) t'(2) by (intro exI [of _ s2] exI [of _ t2] exI [of _ ?f]) simp
  next
    case scalar
    with base(2) obtain v where v: "e_attr e = At v" "s_vectors s v \<noteq> None" by (auto simp: entry_ok_def)
    then obtain xs where xs: "s_vectors s v = Some xs" by blast
    have vs: "v < s_next s" using store_okD(3) [OF base(1), of v] v(2) by (cases "v < s_next s") auto
    then have xs1: "s_vectors s1 v = Some xs" using cur(2) xs by (simp add: grown_def agree_def)
    let ?c = "s_next s1"
    let ?s = "s1\<lparr>s_vectors := (s_vectors s1)(?c \<mapsto> xs), s_next := Suc ?c\<rparr>"
    let ?f = "?e\<lparr>e_attr := At ?c\<rparr>"
    have ce: "copy_entry cp e s1 = (Inr ?f, ?s)"
      using scalar v(1) xs1 base(3) by (simp add: Let_def copyable_entry_def readS_def alloc_vector_def)
    have ok1: "store_ok ?s" by (rule alloc_vector_ok [OF cur(1)])
    have ch: "children ?s p = children s1 p" "holdings ?s p = holdings s1 p" for p by (simp_all add: children_def holdings_def)
    have own: "owned ?f = Some ?c" "held ?f = Some ?c" using scalar by (simp_all add: owned_def held_def)
    have new: "a \<notin> contents ?s ?c" using contents_leaf [of ?s ?c] store_okD(2) [OF cur(1), of ?c] a1 by simp
    have ok: "entry_ok ?s ?f" using scalar by (simp add: entry_ok_def)
    obtain s2 t2 where s2: "append_copy cp a e s1 = (Inr (), s2)" "store_ok s2" "s_next s2 = Suc ?c" "s_tables s2 a = Some t2"
      "a_map t2 = a_map t1 @ [?f]" "agree (- {a}) ?s s2" "\<forall>x b. x \<in> set (children s2 b) \<longrightarrow> x \<in> set (children s1 b) \<or> owned ?f = Some x"
      using attach_entry [of ?s a t1 ?f, OF ok1 _ ok] own ce new cur(3) scalar not_held_yet [OF cur(1)]
      by (auto simp: append_copy_def ch simp del: copy_entry.simps)
    have "s_vectors s2 ?c = Some xs" using agreeD(1) [OF s2(6), of ?c] a1 by simp
    then have "entry_copied s e {?c..<s_next s2} s2 ?f"
      using s2(3) v(1) xs scalar unfolding entry_copied_def
      by (intro allI impI print_entry_cong) (auto dest: agreeD(1) [of _ _ _ ?c])
    moreover have "agree ({..<?c} - {a}) s1 s2"
      by (rule agree_trans [of _ _ ?s]) (use s2(6) in \<open>auto simp: agree_def\<close>)
    moreover have "no_new_owner s1 s2" using s2(7) own(1) by (fastforce simp: no_new_owner_def)
    ultimately show ?thesis using s2 by (intro exI [of _ s2] exI [of _ t2] exI [of _ ?f]) simp
  qed
qed

lemma entry_copied_later:
  assumes "entry_copied s e X s2 e'" "X \<subseteq> Y" "agree X s2 s2'"
  shows "entry_copied s e Y s2' e'"
  unfolding entry_copied_def
proof (intro allI impI)
  fix s3 m d pad assume "grown s s3" "agree Y s2' s3"
  moreover from this have "agree X s2 s3" using agree_trans [OF assms(3)] agree_subset [OF _ assms(2)] by blast
  ultimately show "print_entry m d s3 pad e' = print_entry m d s pad e" using assms(1) by (simp add: entry_copied_def)
qed

lemma grown_step: "grown s s1 \<Longrightarrow> s_next s \<le> a \<Longrightarrow> s_next s1 \<le> s_next s2 \<Longrightarrow> agree ({..<s_next s1} - {a}) s1 s2 \<Longrightarrow> grown s s2"
  unfolding grown_def
  using agree_trans [of "{..<s_next s}" s s1 s2] agree_subset [of "{..<s_next s1} - {a}" s1 s2 "{..<s_next s}"] by force

lemma copy_entries:
  assumes base: "store_ok s" "s_next s \<le> a"
    and cp: "\<And>s1 b. b \<in> set (owned_list es) \<Longrightarrow> s_tables s b \<noteq> None \<Longrightarrow> store_ok s1 \<Longrightarrow> grown s s1 \<Longrightarrow> \<exists>s2. cp b s1 = (Inr (s_next s1), s2) \<and> copied s b s1 s2"
    and es: "\<forall>e \<in> set es. entry_ok s e \<and> copyable_entry s e"
    and cur: "store_ok s1" "grown s s1" "s_tables s1 a = Some t1"
  shows "\<exists>s2 t2 new. each (append_copy cp a) es s1 = (Inr (), s2) \<and> store_ok s2 \<and> grown s s2 \<and> s_next s1 \<le> s_next s2 \<and>
    s_tables s2 a = Some t2 \<and> a_map t2 = a_map t1 @ new \<and> agree ({..<s_next s1} - {a}) s1 s2 \<and>
    list_all2 (\<lambda>e' e. entry_copied s e ({s_next s1..<s_next s2}) s2 e') new es \<and> no_new_owner s1 s2"
  using cp es cur
proof (induction es arbitrary: s1 t1)
  case Nil
  then show ?case by (intro exI [of _ s1] exI [of _ t1] exI [of _ "[]"]) (simp add: no_new_owner_def)
next
  case (Cons e es)
  have "\<exists>s2. cp b s1 = (Inr (s_next s1), s2) \<and> copied s b s1 s2" if "e_type e = Attr_container" "owned e = Some b" for b
  proof (rule Cons.prems(1))
    show "b \<in> set (owned_list (e # es))" using that(2) by simp
    have "copyable_entry s e" using Cons.prems(2) by simp
    with that show "s_tables s b \<noteq> None" by (auto simp: copyable_entry_def owned_def split: if_splits)
  qed (rule Cons.prems(3), rule Cons.prems(4))
  then obtain s2 t2 e' where s2: "append_copy cp a e s1 = (Inr (), s2)" "store_ok s2" "s_next s1 \<le> s_next s2" "s_tables s2 a = Some t2"
    "a_map t2 = a_map t1 @ [e']" "agree ({..<s_next s1} - {a}) s1 s2" "entry_copied s e {s_next s1..<s_next s2} s2 e'" "no_new_owner s1 s2"
    using append_copy_step [OF base(1) _ _ Cons.prems(3-5)] Cons.prems(2) by (metis list.set_intros(1))
  have g2: "grown s s2" by (rule grown_step [OF Cons.prems(4) base(2) s2(3,6)])
  have "\<exists>s3 t3 new. each (append_copy cp a) es s2 = (Inr (), s3) \<and> store_ok s3 \<and> grown s s3 \<and> s_next s2 \<le> s_next s3 \<and>
    s_tables s3 a = Some t3 \<and> a_map t3 = a_map t2 @ new \<and> agree ({..<s_next s2} - {a}) s2 s3 \<and>
    list_all2 (\<lambda>e' e. entry_copied s e ({s_next s2..<s_next s3}) s3 e') new es \<and> no_new_owner s2 s3"
    by (rule Cons.IH) (use Cons.prems(1,2) s2 g2 in \<open>auto split: option.splits\<close>)
  then obtain s3 t3 new where s3: "each (append_copy cp a) es s2 = (Inr (), s3)" "store_ok s3" "grown s s3" "s_next s2 \<le> s_next s3"
    "s_tables s3 a = Some t3" "a_map t3 = a_map t2 @ new" "agree ({..<s_next s2} - {a}) s2 s3"
    "list_all2 (\<lambda>e' e. entry_copied s e ({s_next s2..<s_next s3}) s3 e') new es" "no_new_owner s2 s3" by blast
  have a: "a < s_next s1" by (rule table_live [OF Cons.prems(3,5)])
  have "entry_copied s e {s_next s1..<s_next s3} s3 e'"
    by (rule entry_copied_later [OF s2(7)]) (use s3(4,7) a in \<open>auto intro: agree_subset\<close>)
  moreover have "list_all2 (\<lambda>e' e. entry_copied s e ({s_next s1..<s_next s3}) s3 e') new es"
    by (rule list_all2_mono [OF s3(8)]) (use s2(3) in \<open>auto elim: entry_copied_later\<close>)
  moreover have "agree ({..<s_next s1} - {a}) s1 s3"
    by (rule agree_trans [OF s2(6)]) (use s3(7) s2(3) in \<open>auto intro: agree_subset\<close>)
  moreover have "no_new_owner s1 s3" by (rule no_new_owner_trans [OF s2(8) s3(9) s2(3)])
  ultimately show ?case using s2 s3 by (intro exI [of _ s3] exI [of _ t3] exI [of _ "e' # new"]) simp
qed

lemma copy_table_ok:
  assumes base: "store_ok s" and n: "card (contents s r) \<le> n"
    and r: "s_tables s r \<noteq> None" "copyable s r" and cur: "store_ok s1" "grown s s1"
  shows "\<exists>s2. copy_table n r s1 = (Inr (s_next s1), s2) \<and> copied s r s1 s2"
  using n r cur
proof (induction n arbitrary: r s1)
  case (Suc n)
  let ?a = "s_next s1"
  let ?s = "s1\<lparr>s_tables := (s_tables s1)(?a \<mapsto> table0), s_next := Suc ?a\<rparr>"
  obtain t where t: "s_tables s r = Some t" using Suc.prems(2) by blast
  have rs: "r < s_next s" by (rule table_live [OF base t])
  have le: "s_next s \<le> ?a" using Suc.prems(5) by (simp add: grown_def)
  have "same_but_parent (s_tables s r) (s_tables s1 r)" using Suc.prems(5) rs by (simp add: grown_def agree_def)
  with t obtain t' where t': "s_tables s1 r = Some t'" "a_map t' = a_map t" by (auto dest!: same_but_parent_Some)
  define u where "u = table0\<lparr>a_name := a_name t', a_global := a_global t', a_parent := Null\<rparr>"
  let ?s1 = "?s\<lparr>s_tables := (s_tables ?s)(?a \<mapsto> u)\<rparr>"
  have u: "a_map u = []" by (simp add: u_def table0_def)
  have "store_ok ?s" by (rule alloc_table_ok [OF Suc.prems(4)]) (simp add: table0_def)
  then have ok1: "store_ok ?s1" by (rule same_map_ok [of _ _ table0]) (simp_all add: u_def)
  have sc: "clone cp ?a r ?s = each (append_copy cp ?a) (a_map t) ?s1" for cp
    using t' rs le by (simp add: clone_def readS_def table_at_def update_table_eq u_def)
  have g1: "grown s ?s1"
    by (rule grown_trans [OF Suc.prems(5)]) (simp add: grown_def agree_def)
  have ch: "children ?s1 p = children s1 p" for p
    using store_okD(2) [OF Suc.prems(4), of ?a] by (simp add: children_def u)
  have sub: "x \<in> set (children s r) \<Longrightarrow> contents s x \<subseteq> contents s r" for x using contents_step [of s r] by blast
  have ow: "owned_list (a_map t) = children s r" using t by (simp add: children_def)
  have IH: "\<exists>s3. copy_table n b s2 = (Inr (s_next s2), s3) \<and> copied s b s2 s3"
    if b: "b \<in> set (owned_list (a_map t))" "s_tables s b \<noteq> None" "store_ok s2" "grown s s2" for s2 b
  proof (rule Suc.IH)
    show "card (contents s b) \<le> n" using contents_smaller [OF base t, of b] b(1) ow Suc.prems(1) by simp
    show "copyable s b" using Suc.prems(3) sub [of b] b(1) ow unfolding copyable_def by auto
  qed (rule b(2), rule b(3), rule b(4))
  have es: "\<forall>e \<in> set (a_map t). entry_ok s e \<and> copyable_entry s e"
    using store_okD(4) [OF base t] Suc.prems(3) t unfolding copyable_def by (metis contents_self)
  have nx: "s_next ?s1 = Suc ?a" by simp
  have au: "s_tables ?s1 ?a = Some u" by simp
  obtain s2 t2 new where s2: "each (append_copy (copy_table n) ?a) (a_map t) ?s1 = (Inr (), s2)" "store_ok s2" "grown s s2" "Suc ?a \<le> s_next s2"
    "s_tables s2 ?a = Some t2" "a_map t2 = new" "agree ({..<Suc ?a} - {?a}) ?s1 s2"
    "list_all2 (\<lambda>e' e. entry_copied s e ({Suc ?a..<s_next s2}) s2 e') new (a_map t)" "no_new_owner ?s1 s2"
    using copy_entries [OF base le IH es ok1 g1 au, unfolded nx u append_Nil] by blast
  have "agree {..<?a} s1 s2"
    by (rule agree_trans [of _ _ ?s1]) (use s2(7) in \<open>auto simp: agree_def\<close>)
  then have g: "grown s1 s2" using s2(4) by (simp add: grown_def)
  have "print m d s3 ?a pad = print m d s r pad" if "grown s s3" "agree {?a..<s_next s2} s2 s3" for s3 m d pad
  proof (cases m)
    case (Suc k)
    have "same_but_parent (s_tables s2 ?a) (s_tables s3 ?a)" using that(2) s2(4) by (simp add: agree_def)
    with s2(5) obtain t3 where t3: "s_tables s3 ?a = Some t3" "a_map t3 = new" by (auto dest!: same_but_parent_Some simp: s2(6))
    have "agree {Suc ?a..<s_next s2} s2 s3" by (rule agree_subset [OF that(2)]) simp
    then have "list_all2 (\<lambda>e' e. print_entry k d s3 pad e' = print_entry k d s pad e) new (a_map t)"
      using that(1) by (intro list_all2_mono [OF s2(8)]) (simp add: entry_copied_def)
    then show ?thesis unfolding Suc print_Suc by (simp add: table_at_def t3 t concatE_cong)
  qed simp
  moreover have "no_new_owner s1 s2" using s2(9) ch by (simp add: no_new_owner_def)
  moreover have "?a \<notin> set (children s2 p)" for p
    using s2(9) ch not_owned_yet [OF Suc.prems(4)] by (auto simp: no_new_owner_def)
  ultimately have "copied s r s1 s2" using s2 g by (simp add: copied_def)
  moreover have "copy_table (Suc n) r s1 = (Inr ?a, s2)"
    using s2(1) by (simp add: alloc_table_def sc)
  ultimately show ?case by blast
next
  case 0
  then obtain t where "s_tables s r = Some t" by blast
  with 0 contents_finite [OF base table_live [OF base]] contents_self [of r s] show ?case by auto
qed

lemma copy_is_faithful:
  assumes "store_ok s" "s_tables s r \<noteq> None" "copyable s r" "s_next s < n"
  shows "\<exists>c s'. copy_table n r s = (Inr c, s') \<and> s_tables s c = None \<and> store_ok s' \<and>
    (\<forall>m dereference pad. print m dereference s' c pad = print m dereference s r pad) \<and>
    (\<forall>x < s_next s. s_vectors s' x = s_vectors s x \<and> same_but_parent (s_tables s x) (s_tables s' x))"
proof -
  obtain t where "s_tables s r = Some t" using assms(2) by blast
  then have rs: "r < s_next s" by (rule table_live [OF assms(1)])
  have "card (contents s r) \<le> n" using contents_finite [OF assms(1) rs] assms(4) by simp
  then obtain s' where s': "copy_table n r s = (Inr (s_next s), s')" "copied s r s s'"
    using copy_table_ok [OF assms(1) _ assms(2,3,1) grown_refl] by blast
  have g: "grown s s'" using s'(2) by (simp add: copied_def)
  then have "print m d s' (s_next s) pad = print m d s r pad" for m d pad
    using s'(2) unfolding copied_def by simp
  then show ?thesis
    using s' g store_okD(2) [OF assms(1), of "s_next s"] by (intro exI [of _ "s_next s"] exI [of _ s']) (simp add: copied_def grown_def agree_def)
qed

section \<open>Assigning\<close>

lemma agree_copyable:
  assumes "agree X s s'" "contents s r \<subseteq> X" "copyable s r" "\<And>c. s_tables s c \<noteq> None \<Longrightarrow> s_tables s' c \<noteq> None"
  shows "copyable s' r"
  unfolding copyable_def agree_contents [OF assms(1,2)]
proof (intro ballI allI impI)
  fix b t e assume b: "b \<in> contents s r" "s_tables s' b = Some t" "e \<in> set (a_map t)"
  then have "same_but_parent (s_tables s b) (s_tables s' b)" using agreeD(2) [OF assms(1)] assms(2) by blast
  then obtain u where u: "s_tables s b = Some u" "a_map t = a_map u"
    using b(2) by (cases "s_tables s b") (auto simp: same_but_parent_None dest!: same_but_parent_Some)
  with b assms(3) have "copyable_entry s e" unfolding copyable_def by metis
  with assms(4) show "copyable_entry s' e" unfolding copyable_entry_def by blast
qed

text \<open>
  Copying entries of \<open>r\<close> into a table that \<open>r\<close> does not contain, and that may have an owner: every
  entry is copied from the store as it is by then.
\<close>

lemma copy_into:
  assumes "store_ok s" "s_tables s a \<noteq> None" "s_tables s r = Some t" "set es \<subseteq> set (a_map t)"
    "a \<notin> contents s r" "copyable s r" "card (contents s r) \<le> n"
  shows "store_ok (snd (each (append_copy (copy_table n) a) es s))"
  using assms
proof (induction es arbitrary: s t)
  case (Cons e es)
  obtain t1 where t1: "s_tables s a = Some t1" using Cons.prems(2) by blast
  have live: "x < s_next s" if "x \<in> contents s r" for x
    by (rule contents_below [OF Cons.prems(1) that table_live [OF Cons.prems(1,3)]])
  have e: "entry_ok s e" "copyable_entry s e"
    using store_okD(4) [OF Cons.prems(1,3)] Cons.prems(3,4,6) unfolding copyable_def by (auto intro: contents_self)
  have cp: "\<exists>s2. copy_table n b s = (Inr (s_next s), s2) \<and> copied s b s s2" if "e_type e = Attr_container" "owned e = Some b" for b
  proof (rule copy_table_ok [OF Cons.prems(1) _ _ _ Cons.prems(1) grown_refl])
    have ch: "b \<in> set (children s r)" using that(2) Cons.prems(3,4) by (auto simp: children_def in_owned_list)
    then show "card (contents s b) \<le> n" using contents_smaller [OF Cons.prems(1,3)] Cons.prems(7) by fastforce
    show "s_tables s b \<noteq> None" using that e(2) by (auto simp: copyable_entry_def owned_def split: if_splits)
    have "contents s b \<subseteq> contents s r" using contents_step [of s r] ch by blast
    then show "copyable s b" using Cons.prems(6) unfolding copyable_def by blast
  qed
  from append_copy_step [where cp = "copy_table n", OF Cons.prems(1) e Cons.prems(1) grown_refl t1 cp]
  obtain s2 t2 where s2: "append_copy (copy_table n) a e s = (Inr (), s2)" "store_ok s2" "s_tables s2 a = Some t2"
    "agree ({..<s_next s} - {a}) s s2" by blast
  have sub: "contents s r \<subseteq> {..<s_next s} - {a}" using live Cons.prems(5) by auto
  have c: "contents s2 r = contents s r" by (rule agree_contents [OF s2(4) sub])
  have keep: "s_tables s2 x \<noteq> None" if "s_tables s x \<noteq> None" for x
  proof (cases "x = a")
    case False
    then have "same_but_parent (s_tables s x) (s_tables s2 x)"
      using that table_live [OF Cons.prems(1)] by (intro agreeD(2) [OF s2(4)]) auto
    then show ?thesis using that same_but_parent_Some by fastforce
  qed (simp add: s2(3))
  have "same_but_parent (s_tables s r) (s_tables s2 r)" using sub by (intro agreeD(2) [OF s2(4)]) (use contents_self [of r s] in blast)
  then obtain t' where t': "s_tables s2 r = Some t'" "a_map t' = a_map t" using Cons.prems(3) by (auto dest!: same_but_parent_Some)
  have "store_ok (snd (each (append_copy (copy_table n) a) es s2))"
  proof (rule Cons.IH [OF s2(2) _ t'(1)])
    show "set es \<subseteq> set (a_map t')" using Cons.prems(4) t'(2) by simp
    show "copyable s2 r" by (rule agree_copyable [OF s2(4) sub Cons.prems(6) keep])
  qed (use s2(3) c Cons.prems(5,7) in simp_all)
  with s2(1) show ?case by simp
qed simp

lemma assign_table_ok:
  assumes ok: "store_ok s" and a: "s_tables s a = Some t" and r: "s_tables s r = Some tr" and n: "s_next s < n"
    and sep: "a \<notin> contents s r" "r \<notin> contents s a" and cp: "copyable (cut (contents s a - {a}) s) r"
  shows "store_ok (snd (assign_table n a r s))"
proof -
  let ?U = "contents s a - {a}"
  have ar: "a \<noteq> r" using sep contents_self [of a s] by blast
  define u where "u = t\<lparr>a_map := [], a_name := a_name tr, a_global := a_global tr, a_parent := Null\<rparr>"
  let ?s = "emptied a u s"
  have d: "delete_attr_table (delete_table n) a s = (Inr (), emptied a (t\<lparr>a_map := []\<rparr>) s)" by (rule delete_attr_table_frees [OF ok a n])
  have rU: "r \<notin> ?U" using sep(2) by blast
  have "clone (copy_table n) a r (emptied a (t\<lparr>a_map := []\<rparr>) s) = each (append_copy (copy_table n) a) (a_map tr) ?s"
    using r rU ar by (simp add: clone_def readS_def table_at_def update_table_eq emptied_def u_def)
  then have as: "assign_table n a r s = each (append_copy (copy_table n) a) (a_map tr) ?s"
    using ar d by (simp add: assign_table_def)
  have ag: "agree (- {a}) (cut ?U s) ?s" by (simp add: agree_def emptied_def)
  have "contents (cut ?U s) r \<subseteq> contents s r"
    by (rule contents_mono) (simp add: child_def children_def split: if_splits)
  then have sub: "contents (cut ?U s) r \<subseteq> contents s r" "contents (cut ?U s) r \<subseteq> - {a}" using sep(1) by blast+
  have c: "contents ?s r = contents (cut ?U s) r" by (rule agree_contents [OF ag sub(2)])
  show ?thesis unfolding as
  proof (rule copy_into)
    show "store_ok ?s" by (rule emptied_ok [OF ok]) (simp_all add: a u_def)
    show "s_tables ?s r = Some tr" using r rU ar by (simp add: emptied_def)
    show "copyable ?s r" by (rule agree_copyable [OF ag sub(2) cp]) (auto simp: emptied_def split: if_splits)
    have f: "finite (contents s r)" "card (contents s r) \<le> s_next s" using contents_finite [OF ok table_live [OF ok r]] by simp_all
    then show "card (contents ?s r) \<le> n" unfolding c using card_mono [OF f(1) sub(1)] n by simp
    show "a \<notin> contents ?s r" unfolding c using sub(2) by blast
  qed (simp_all add: emptied_def)
qed

end
