(* ===== verification/Attr_Properties.thy ===== *)
theory Attr_Properties
  imports Attr_Copy
begin

text \<open>
  The stores a program reaches with the operations on attribute tables, and what holds in all of
  them: ownership, erasing, copying, aliases; and the containers of a DAS.
\<close>

section \<open>Reachable stores\<close>

datatype attr_op =
    New_Table
  | Set_Name nat string
  | Append nat string string "string list"
  | Append_Container nat string
  | Append_Table nat nat string
  | Set_Global iter bool
  | Set_Table_Global nat bool
  | Delete nat string int
  | Take_Out iter
  | Alias_Container nat string nat
  | Alias_Value nat nat string string
  | Erase nat
  | Destroy nat
  | Copy nat
  | Assign nat nat

abbreviation nothing :: "'a \<Rightarrow> (astore, unit) action" where "nothing \<equiv> (\<lambda>_. returnS ())"

fun run_attr :: "nat \<Rightarrow> attr_op \<Rightarrow> (astore, unit) action" where
  "run_attr n New_Table = bindS (alloc_table table0) nothing"
| "run_attr n (Set_Name a name) = set_name a name"
| "run_attr n (Append a name type vals) = bindS (append_attr_vector a name type vals) nothing"
| "run_attr n (Append_Container a name) = bindS (append_container n a name) nothing"
| "run_attr n (Append_Table a b name) = bindS (append_container_at a b name) nothing"
| "run_attr n (Set_Global i g) = set_is_global_at i g"
| "run_attr n (Set_Table_Global a g) = set_is_global_attribute a g"
| "run_attr n (Delete a name k) = del_attr n a name k"
| "run_attr n (Take_Out i) = bindS (del_attr_table i) nothing"
| "run_attr n (Alias_Container a name src) = add_container_alias a name src"
| "run_attr n (Alias_Value a d name source) = add_value_alias n a d name source"
| "run_attr n (Erase a) = erase n a"
| "run_attr n (Destroy a) = delete_table n a"
| "run_attr n (Copy r) = bindS (copy_table n r) nothing"
| "run_attr n (Assign a r) = assign_table n a r"

text \<open>
  The tables named are there; the program destroys a table, or makes it a container of another, only
  when no entry owns it, and of none that it contains; a table that is copied has no attribute of an
  unknown type; a table is assigned to one that neither contains it nor is contained in it, and
  it has no alias of what that one contained.
\<close>

fun attr_allowed :: "attr_op \<Rightarrow> astore \<Rightarrow> bool" where
  "attr_allowed (Append_Container a name) s = (s_tables s a \<noteq> None)"
| "attr_allowed (Erase a) s = (s_tables s a \<noteq> None)"
| "attr_allowed (Destroy a) s = (s_tables s a \<noteq> None \<and> (\<forall>p. a \<notin> set (children s p)))"
| "attr_allowed (Copy r) s = (s_tables s r \<noteq> None \<and> copyable s r)"
| "attr_allowed (Append_Table a b name) s =
     (s_tables s a \<noteq> None \<and> s_tables s b \<noteq> None \<and> (\<forall>p. b \<notin> set (children s p)) \<and> a \<notin> contents s b)"
| "attr_allowed (Assign a r) s =
     (s_tables s a \<noteq> None \<and> s_tables s r \<noteq> None \<and>
      (a = r \<or> a \<notin> contents s r \<and> r \<notin> contents s a \<and> copyable (cut (contents s a - {a}) s) r))"
| "attr_allowed op s = True"

inductive attr_reach :: "astore \<Rightarrow> bool" where
  start: "attr_reach empty_store"
| step: "attr_reach s \<Longrightarrow> attr_allowed op s \<Longrightarrow> Suc (s_next s) < n \<Longrightarrow> attr_reach (snd (run_attr n op s))"

lemma snd_nothing: "snd (bindS m nothing s) = snd (m s)"
  by (simp split: prod.split sum.split)

lemma run_attr_ok:
  assumes ok: "store_ok s" and al: "attr_allowed op s" and n: "Suc (s_next s) < n"
  shows "store_ok (snd (run_attr n op s))"
proof (cases op)
  case New_Table
  then show ?thesis using alloc_table_ok [OF ok, of table0] by (simp add: snd_nothing alloc_table_def table0_def del: bindS.simps)
next
  case (Set_Name a name)
  then show ?thesis using orderlyD [OF orderly_set_name ok] by simp
next
  case (Append a name type vals)
  then show ?thesis using orderlyD [OF orderly_append_attr ok] by (simp add: snd_nothing del: bindS.simps)
next
  case (Append_Container a name)
  then obtain t where "s_tables s a = Some t" using al by auto
  from append_container_ok [OF ok this, of n] show ?thesis using Append_Container n by (simp add: snd_nothing del: bindS.simps)
next
  case (Append_Table a b name)
  then obtain t u where t: "s_tables s a = Some t" "s_tables s b = Some u" using al by auto
  have "store_ok (snd (append_container_at a b name s))"
    by (rule append_container_at_ok [OF ok t]) (use al Append_Table in auto)
  then show ?thesis using Append_Table by (simp add: snd_nothing del: bindS.simps)
next
  case (Assign a r)
  show ?thesis
  proof (cases "a = r")
    case False
    obtain t u where t: "s_tables s a = Some t" "s_tables s r = Some u" using al Assign by auto
    have n': "s_next s < n" using n by simp
    show ?thesis unfolding Assign run_attr.simps
      by (rule assign_table_ok [OF ok t n']) (use al False Assign in auto)
  qed (simp add: Assign assign_table_def ok)
next
  case (Set_Global i g)
  then show ?thesis using orderlyD [OF orderly_set_global ok] by simp
next
  case (Set_Table_Global a g)
  then show ?thesis using orderlyD [OF orderly_table_global ok] by simp
next
  case (Delete a name k)
  then show ?thesis using del_attr_ok [OF ok] n by simp
next
  case (Take_Out i)
  then show ?thesis using orderlyD [OF orderly_take ok] by (simp add: snd_nothing del: bindS.simps)
next
  case (Alias_Container a name src)
  then show ?thesis using orderlyD [OF orderly_container_alias ok] by simp
next
  case (Alias_Value a d name source)
  then show ?thesis using orderlyD [OF orderly_value_alias ok] by simp
next
  case (Erase a)
  then obtain t where "s_tables s a = Some t" using al by auto
  from erase_frees [OF ok this, of n] show ?thesis using Erase n by simp
next
  case (Destroy a)
  then have a: "s_tables s a \<noteq> None" "\<And>p. a \<notin> set (children s p)" using al by auto
  have h: "a \<notin> set (holdings s p)" for p using holdings_table [OF ok, of a p] a store_okD(1) [OF ok, of a] by auto
  have c: "card (contents s a) \<le> n" using contents_bound [OF ok a(1)] n by simp
  have "store_ok (cut (contents s a) s)"
    by (rule cut_ok [OF ok]) (rule contents_closed [OF ok h])
  then show ?thesis using delete_table_cut [OF ok a(1), of "{}" n] Destroy c by simp
next
  case (Copy r)
  then show ?thesis using copy_is_faithful [OF ok, of r n] al n by (auto simp: snd_nothing simp del: bindS.simps)
qed

lemma attr_reach_ok: "attr_reach s \<Longrightarrow> store_ok s"
  by (induction rule: attr_reach.induct) (simp_all add: empty_store_ok run_attr_ok)

text \<open>
  C12: in every store a program reaches, each entry that is no alias holds an object that is there: a
  container its table, any other its values, and a container that \<open>append_attr\<close> made, which has no
  table, its values as well.  No object is held twice, by one table or by two, and no table is among
  what it contains.
\<close>
theorem every_value_has_one_owner:
  assumes "attr_reach s" "s_tables s a = Some t" "e \<in> set (a_map t)" "\<not> e_is_alias e"
  shows "(if e_type e = Attr_container \<and> e_attributes e \<noteq> Null then \<exists>b. e_attributes e = At b \<and> s_tables s b \<noteq> None
      else \<exists>v. e_attr e = At v \<and> s_vectors s v \<noteq> None) \<and>
    distinct (holdings s a) \<and> (\<forall>b. b \<noteq> a \<longrightarrow> set (holdings s a) \<inter> set (holdings s b) = {}) \<and>
    (\<forall>x. x \<in> set (children s a) \<longrightarrow> a \<notin> contents s x)"
proof -
  note ok = attr_reach_ok [OF assms(1)]
  have "entry_ok s e" by (rule store_okD(4) [OF ok assms(2,3)])
  with assms(4) show ?thesis using store_okD(7-9) [OF ok] unfolding entry_ok_def by blast
qed

text \<open>
  C13: erasing a table frees every value and every table it contains, once, leaves the table empty and
  without a name, and changes nothing else.
\<close>
theorem erase_frees_contents:
  assumes "attr_reach s" "s_tables s a = Some t" "s_next s < n"
  shows "\<exists>s'. erase n a s = (Inr (), s') \<and> s_tables s' a = Some (t\<lparr>a_name := [], a_map := []\<rparr>) \<and>
    (\<forall>x. x \<noteq> a \<longrightarrow> (if x \<in> contents s a then s_tables s' x = None \<and> s_vectors s' x = None
      else s_tables s' x = s_tables s x \<and> s_vectors s' x = s_vectors s x))"
  using erase_frees [OF attr_reach_ok [OF assms(1)] assms(2,3)]
  by (intro exI [of _ "erased a t s"]) (simp add: erased_def emptied_def)

text \<open>
  C11: a table that is copied, when its attributes have known types and its containers are there, prints as
  the original, with and without following aliases; nothing of the original changes, but for
  the parents of tables.
\<close>
theorem copy_prints_the_same:
  assumes "attr_reach s" "s_tables s r \<noteq> None" "copyable s r" "s_next s < n"
  shows "\<exists>c s'. copy_table n r s = (Inr c, s') \<and> s_tables s c = None \<and>
    (\<forall>m dereference pad. print m dereference s' c pad = print m dereference s r pad) \<and>
    (\<forall>x < s_next s. s_vectors s' x = s_vectors s x \<and> same_but_parent (s_tables s x) (s_tables s' x))"
  using copy_is_faithful [OF attr_reach_ok [OF assms(1)] assms(2-4)] by blast

text \<open>A table with a container that holds one attribute.\<close>

definition sample_attr :: entry where
  "sample_attr = entry0\<lparr>e_name := ''x'', e_type := Attr_int32, e_attr := At 2\<rparr>"

definition sample_table :: atable where
  "sample_table = \<lparr>a_name = ''c'', a_parent = At 0, a_map = [sample_attr], a_global = True\<rparr>"

definition sample_root :: atable where
  "sample_root = table0\<lparr>a_map := [entry0\<lparr>e_name := ''c'', e_type := Attr_container, e_attributes := At 1\<rparr>]\<rparr>"

definition sample :: astore where
  "sample = \<lparr>s_tables = Map.empty(0 \<mapsto> sample_root, 1 \<mapsto> sample_table), s_vectors = Map.empty(2 \<mapsto> [''1'']), s_next = 3\<rparr>"

lemma names_without_code: "remove_space_encoding ''c'' = ''c''" "remove_space_encoding ''x'' = ''x''" "String_to_AttrType ''Int32'' = Attr_int32"
  by code_simp+

lemma sample_reached: "attr_reach sample"
proof -
  let ?s1 = "snd (run_attr 9 New_Table empty_store)"
  let ?s2 = "snd (run_attr 9 (Append_Container 0 ''c'') ?s1)"
  have s1: "?s1 = \<lparr>s_tables = Map.empty(0 \<mapsto> table0), s_vectors = Map.empty, s_next = 1\<rparr>"
    by (simp add: alloc_table_def empty_store_def)
  have s2: "?s2 = \<lparr>s_tables = Map.empty(0 \<mapsto> sample_root, 1 \<mapsto> sample_table\<lparr>a_map := []\<rparr>), s_vectors = Map.empty, s_next = 2\<rparr>"
    unfolding s1 by (simp add: append_container_def alloc_table_def append_container_at_def Let_def readS_def simple_find_def table_at_def is_end_def
        set_name_def update_table_eq names_without_code sample_root_def sample_table_def table0_def)
  have s3: "snd (run_attr 9 (Append 1 ''x'' ''Int32'' [''1'']) ?s2) = sample"
    unfolding s2 by (simp add: append_attr_vector_def Let_def readS_def simple_find_def table_at_def is_end_def alloc_vector_def
        update_table_eq names_without_code sample_table_def sample_def sample_attr_def)
  have r1: "attr_reach ?s1" by (rule attr_reach.step [OF attr_reach.start]) (simp_all add: empty_store_def)
  have r2: "attr_reach ?s2" by (rule attr_reach.step [OF r1]) (simp_all add: s1 del: run_attr.simps)
  show ?thesis unfolding s3 [symmetric] by (rule attr_reach.step [OF r2]) (simp_all add: s2 del: run_attr.simps)
qed

theorem every_value_has_one_owner_witness:
  "(\<exists>v. e_attr sample_attr = At v \<and> s_vectors sample v \<noteq> None) \<and> distinct (holdings sample 1) \<and>
   set (holdings sample 1) \<inter> set (holdings sample 0) = {}"
  using every_value_has_one_owner [OF sample_reached, of 1 sample_table sample_attr]
  by (simp add: sample_def sample_table_def sample_attr_def)

theorem erase_frees_contents_witness:
  "\<exists>s'. erase 4 0 sample = (Inr (), s') \<and> s_tables s' 0 = Some (sample_root\<lparr>a_name := [], a_map := []\<rparr>) \<and>
    s_tables s' 1 = None \<and> s_vectors s' 2 = None"
proof -
  have "s_tables sample 0 = Some sample_root" "s_next sample < 4" by (simp_all add: sample_def)
  from erase_frees_contents [OF sample_reached this] obtain s' where
    s': "erase 4 0 sample = (Inr (), s')" "s_tables s' 0 = Some (sample_root\<lparr>a_name := [], a_map := []\<rparr>)"
    "\<forall>x. x \<noteq> 0 \<longrightarrow> (if x \<in> contents sample 0 then s_tables s' x = None \<and> s_vectors s' x = None
      else s_tables s' x = s_tables sample x \<and> s_vectors s' x = s_vectors sample x)" by blast
  have c: "set (children sample 0) = {1}" "set (children sample 1) = {2}"
    by (simp_all add: children_def sample_def sample_root_def sample_table_def sample_attr_def owned_def)
  have "2 \<in> contents sample 1" "1 \<in> contents sample 0" using contents_step [of sample 1] contents_step [of sample 0] c by auto
  moreover from this have "2 \<in> contents sample 0" using contents_step [of sample 0] c by auto
  ultimately have "s_tables s' 1 = None" "s_vectors s' 2 = None" using s'(3) [rule_format, of 1] s'(3) [rule_format, of 2] by simp_all
  with s'(1,2) show ?thesis by blast
qed

lemma sample_tables: "s_tables sample b = Some t \<Longrightarrow> t = sample_root \<or> t = sample_table"
  by (simp add: sample_def split: if_splits)

lemma sample_copyable: "copyable sample 0"
proof -
  have c: "s_tables sample 1 \<noteq> None" by (simp add: sample_def)
  have "copyable_entry sample e" if "e \<in> set (a_map sample_root)" for e
    using that c by (simp add: sample_root_def copyable_entry_def del: not_None_eq)
  moreover have "copyable_entry sample e" if "e \<in> set (a_map sample_table)" for e
    using that by (simp add: sample_table_def sample_attr_def copyable_entry_def)
  ultimately show ?thesis using sample_tables unfolding copyable_def by blast
qed

theorem copy_prints_the_same_witness:
  "\<exists>c s'. copy_table 4 0 sample = (Inr c, s') \<and> s_tables sample c = None \<and>
    print 3 True s' c [] = print 3 True sample 0 [] \<and> s_vectors s' 2 = Some [''1'']"
proof -
  have "s_tables sample 0 \<noteq> None" "s_next sample < 4" by (simp_all add: sample_def)
  from copy_prints_the_same [OF sample_reached this(1) sample_copyable this(2)] obtain c s' where
    "copy_table 4 0 sample = (Inr c, s')" "s_tables sample c = None"
    "\<forall>m dereference pad. print m dereference s' c pad = print m dereference sample 0 pad"
    "\<forall>x < s_next sample. s_vectors s' x = s_vectors sample x \<and> same_but_parent (s_tables sample x) (s_tables s' x)" by blast
  moreover from this(4) have "s_vectors s' 2 = Some [''1'']" by (simp add: sample_def)
  ultimately show ?thesis by blast
qed

section \<open>Aliases\<close>

lemma type_name_back: "String_to_AttrType (AttrType_to_String t) = t"
  by (cases t) (simp_all, code_simp+)

lemma container_name_iff: "AttrType_to_String t = ''Container'' \<longleftrightarrow> t = Attr_container"
  by (cases t) simp_all

lemma find_index_le: "find_index name es \<le> length es"
  by (induction es) auto

lemma find_index_append:
  "find_index name es = length es \<Longrightarrow> e_name e = name \<Longrightarrow> find_index name (es @ [e]) = length es"
  by (induction es) (auto split: if_splits)

text \<open>
  C27: values appended through an alias are values of the attribute it stands for, whose vector they
  share; every other vector and all entries stay as they are.
\<close>
theorem alias_shares_values:
  assumes "add_value_alias n a das name source s = (Inr (), s1)"
    and "alias_source n a das (remove_space_encoding source) s = Inr (Some i)" "entry_at i s = Inr e" "e_type e \<noteq> Attr_container"
    and "e_attr e = At v" "s_vectors s v = Some xs"
  shows "append_attr_vector a name (AttrType_to_String (e_type e)) vals s1 =
      (Inr (length (xs @ vals)), s1\<lparr>s_vectors := (s_vectors s)(v \<mapsto> xs @ vals)\<rparr>) \<and>
    entry_at i s1 = Inr e"
proof -
  define l where "l = remove_space_encoding name"
  let ?e = "entry0\<lparr>e_name := l, e_is_alias := True, e_aliased_to := remove_space_encoding source, e_type := e_type e, e_attr := e_attr e\<rparr>"
  obtain t where t: "s_tables s a = Some t" "find_index l (a_map t) = length (a_map t)"
    "s1 = s\<lparr>s_tables := (s_tables s)(a \<mapsto> t\<lparr>a_map := a_map t @ [?e]\<rparr>)\<rparr>"
    using assms by (auto simp: add_value_alias_def Let_def readS_def simple_find_def is_end_def table_at_def update_map_eq l_def
        split: option.splits if_splits)
  have f: "find_index l (a_map t @ [?e]) = length (a_map t)" by (rule find_index_append [OF t(2)]) simp
  have "append_attr_vector a name (AttrType_to_String (e_type e)) vals s1 =
      (Inr (length (xs @ vals)), s1\<lparr>s_vectors := (s_vectors s)(v \<mapsto> xs @ vals)\<rparr>)"
    using f assms(4-6) by (simp add: append_attr_vector_def Let_def readS_def simple_find_def is_end_def table_at_def entry_at_def
        type_name_back container_name_iff put_vector_def t(3) l_def [symmetric])
  moreover have "entry_at i s1 = Inr e"
    using assms(3) t(1) by (auto simp: entry_at_def table_at_def t(3) nth_append split: option.splits if_splits)
  ultimately show ?thesis by blast
qed

text \<open>In the sample, \<open>y\<close> becomes an alias of \<open>c.x\<close> in the container.\<close>

theorem alias_shares_values_witness:
  "\<exists>s1 s2. add_value_alias 4 1 0 ''y'' ''c.x'' sample = (Inr (), s1) \<and>
     append_attr_vector 1 ''y'' ''Int32'' [''2''] s1 = (Inr 2, s2) \<and> vector_at (e_attr sample_attr) s2 = Inr [''1'', ''2'']"
proof -
  let ?t = "sample_table\<lparr>a_map := [sample_attr, entry0\<lparr>e_name := ''y'', e_is_alias := True, e_aliased_to := ''c.x'', e_type := Attr_int32, e_attr := At 2\<rparr>]\<rparr>"
  let ?s1 = "sample\<lparr>s_tables := (s_tables sample)(1 \<mapsto> ?t)\<rparr>"
  have n: "remove_space_encoding ''y'' = ''y''" "remove_space_encoding ''c.x'' = ''c.x''" "str_rfind (CHR ''.'') ''c.x'' = Some 1"
    "str_find ''.'' ''c'' 0 = None" by code_simp+
  have "find 4 0 ''c.x'' sample = Inr (Some 1, (1, 0))"
    by (simp add: find_def n find_container.simps simple_find_container_def simple_find_def table_at_def sample_def sample_root_def sample_table_def
        sample_attr_def table0_def)
  then have src: "alias_source 4 1 0 (remove_space_encoding ''c.x'') sample = Inr (Some (1, 0))"
    by (simp add: alias_source_def n found_def is_end_def table_at_def sample_def sample_table_def)
  have e: "entry_at (1, 0) sample = Inr sample_attr" by (simp add: entry_at_def table_at_def sample_def sample_table_def)
  have a: "add_value_alias 4 1 0 ''y'' ''c.x'' sample = (Inr (), ?s1)"
  proof -
    have tb: "s_tables sample 1 = Some sample_table" by (simp add: sample_def)
    have sf: "simple_find 1 ''y'' sample = Inr (1, 1)" "is_end 1 (1, 1) sample = Inr True"
      using tb by (simp_all add: simple_find_def is_end_def table_at_def) (simp_all add: sample_table_def sample_attr_def)
    have ty: "e_type sample_attr = Attr_int32" "e_attr sample_attr = At 2" by (simp_all add: sample_attr_def)
    show ?thesis
      using src unfolding add_value_alias_def Let_def n
      by (simp add: readS_def e sf ty update_table_eq tb del: One_nat_def) (simp add: sample_table_def)
  qed
  have t: "AttrType_to_String (e_type sample_attr) = ''Int32''" by (simp add: sample_attr_def)
  have "append_attr_vector 1 ''y'' (AttrType_to_String (e_type sample_attr)) [''2''] ?s1 =
      (Inr (length ([''1''] @ [''2''])), ?s1\<lparr>s_vectors := (s_vectors sample)(2 \<mapsto> [''1''] @ [''2''])\<rparr>) \<and> entry_at (1, 0) ?s1 = Inr sample_attr"
    by (rule alias_shares_values [OF a src e]) (simp_all add: sample_attr_def sample_def)
  then have r: "append_attr_vector 1 ''y'' ''Int32'' [''2''] ?s1 = (Inr 2, ?s1\<lparr>s_vectors := (s_vectors sample)(2 \<mapsto> [''1''] @ [''2''])\<rparr>)"
    unfolding t by simp
  have v: "vector_at (e_attr sample_attr) (?s1\<lparr>s_vectors := (s_vectors sample)(2 \<mapsto> [''1''] @ [''2''])\<rparr>) = Inr [''1'', ''2'']"
    by (simp add: sample_attr_def)
  show ?thesis by (intro exI conjI) (rule a, rule r, rule v)
qed

section \<open>Containers of a DAS\<close>

lemma find_index_there: "e \<in> set es \<Longrightarrow> find_index (e_name e) es < length es"
  by (induction es) auto

text \<open>
  C30: a container whose name has a dot cannot be made the current one again: the search takes the name
  apart, does not find it, and adding it once more fails.
\<close>
theorem dotted_container_fails:
  assumes "s_tables s (das_attrs d) = Some t" "e \<in> set (a_map t)" "e_name e = cn"
    and "str_find ''.'' cn 0 = Some k" "a_name t \<noteq> take k cn" "first_container (take k cn) (a_map t) = Null"
    and "das_container_name d \<noteq> cn" "das_attrs d < s_next s"
  shows "fst (container_name cn (d, s)) = Inl (already_there cn ([CHR 0x27] @ '' in this attribute table. (1)''))"
proof -
  have "cn \<noteq> []" using assms(4) by (auto simp: str_find_def)
  moreover have "find_container cn (das_attrs d) s = Inr Null"
    using assms(1,4-6) by (subst find_container.simps) (simp add: simple_find_container_def table_at_def)
  moreover have "find_index cn (a_map t) \<noteq> length (a_map t)" using find_index_there [OF assms(2)] assms(3) by simp
  ultimately show ?thesis
    using assms(1,7,8) by (simp add: container_name_def set_das_container_def readS_def das_get_table_def das_table_def get_attr_table_def
        in_store_def alloc_table_def add_table_def set_is_global_attribute_def append_container_at_def Let_def simple_find_def table_at_def is_end_def)
qed

text \<open>Two files are added, then the first is asked for again.\<close>

theorem dotted_container_fails_witness:
  "\<exists>ds1 ds2. container_name ''a.nc'' (\<lparr>das_attrs = 0, das_container = Null, das_container_name = []\<rparr>, empty_store\<lparr>s_tables := Map.empty(0 \<mapsto> table0), s_next := 1\<rparr>) = (Inr (), ds1) \<and>
     container_name ''b.nc'' ds1 = (Inr (), ds2) \<and>
     fst (container_name ''a.nc'' ds2) = Inl (already_there ''a.nc'' ([CHR 0x27] @ '' in this attribute table. (1)''))"
proof -
  let ?d = "\<lparr>das_attrs = 0, das_container = Null, das_container_name = []\<rparr>"
  let ?s = "empty_store\<lparr>s_tables := Map.empty(0 \<mapsto> table0), s_next := 1\<rparr>"
  let ?c = "\<lambda>n name. \<lparr>a_name = name, a_parent = At 0, a_map = [], a_global = True\<rparr>"
  let ?ea = "entry0\<lparr>e_name := ''a.nc'', e_type := Attr_container, e_attributes := At 1\<rparr>"
  let ?eb = "entry0\<lparr>e_name := ''b.nc'', e_type := Attr_container, e_attributes := At 2\<rparr>"
  let ?t1 = "table0\<lparr>a_map := [?ea]\<rparr>"
  let ?t2 = "table0\<lparr>a_map := [?ea, ?eb]\<rparr>"
  let ?s1 = "empty_store\<lparr>s_tables := Map.empty(0 \<mapsto> ?t1, 1 \<mapsto> ?c 1 ''a.nc''), s_next := 2\<rparr>"
  let ?s2 = "empty_store\<lparr>s_tables := Map.empty(0 \<mapsto> ?t2, 1 \<mapsto> ?c 1 ''a.nc'', 2 \<mapsto> ?c 2 ''b.nc''), s_next := 3\<rparr>"
  let ?d1 = "?d\<lparr>das_container := At 1, das_container_name := ''a.nc''\<rparr>"
  let ?d2 = "?d\<lparr>das_container := At 2, das_container_name := ''b.nc''\<rparr>"
  have n: "remove_space_encoding ''a.nc'' = ''a.nc''" "remove_space_encoding ''b.nc'' = ''b.nc''" "str_find ''.'' ''a.nc'' 0 = Some 1"
    "str_find ''.'' ''b.nc'' 0 = Some 1" by code_simp+
  note defs = container_name_def set_das_container_def readS_def das_get_table_def das_table_def get_attr_table_def in_store_def alloc_table_def
    add_table_def append_container_at_def Let_def simple_find_def table_at_def is_end_def find_container.simps simple_find_container_def
    set_name_def update_table_eq table0_def empty_store_def
  have 1: "container_name ''a.nc'' (?d, ?s) = (Inr (), (?d1, ?s1))" by (simp add: n defs fun_eq_iff)
  have 2: "container_name ''b.nc'' (?d1, ?s1) = (Inr (), (?d2, ?s2))" by (simp add: n defs fun_eq_iff)
  have "fst (container_name ''a.nc'' (?d2, ?s2)) = Inl (already_there ''a.nc'' ([CHR 0x27] @ '' in this attribute table. (1)''))"
    by (rule dotted_container_fails [of _ _ ?t2 ?ea _ 1]) (simp_all add: n table0_def)
  with 1 2 show ?thesis by blast
qed

end
