(* ===== verification/Spec2Isabelle.thy ===== *)
theory Spec2Isabelle
  imports Dap_Prelude Dap_Util Escaping Number_Checks Operators Constraint_Eval Arrays Variables Dataset Dap4_Stream Data_Stream Data_Transfer Nested_Sequence Http_Cache_Return Http_Cache_Files Attr_Properties
begin

text \<open>
  libdap is the C++ implementation of the Data Access Protocol.  A server describes a dataset by a
  tree of typed variables, marks the parts of it that a constraint selects, compares values for
  the selection and serializes the data into an XDR or DAP4 stream; a client deserializes them, and
  keeps the responses in a cache on disk.  This development models these parts and proves what
  makes them correct.

  \<^bold>\<open>Theories and sources.\<close>

  \<^item> \<open>Dap_Prelude\<close>: the exceptions (\<open>Error.h\<close>, \<open>InternalErr.h\<close>) as values of a sum, actions on an
    object, machine integers, and the part of the standard library on strings and streams.
  \<^item> \<open>Escaping\<close> (\<open>escaping.cc\<close>): URL, XML and attribute escapes, their scanning loops with
    termination, and the round trips.
  \<^item> \<open>Dap_Util\<close> (\<open>util.cc\<close>): names and kinds of types, helpers on strings, \<open>glob\<close> and the strings
    that a syntax tree of its patterns stands for, numbers printed in any base, guards on sizes.
  \<^item> \<open>Operators\<close> (\<open>Operators.h\<close>, the \<open>ops\<close> members of the scalar classes): comparison of values of
    different types with the clipping of negative numbers.
  \<^item> \<open>Constraint_Eval\<close> (\<open>RValue.cc\<close>, \<open>Clause.cc\<close>, \<open>ConstraintEvaluator.cc\<close>,
    \<open>ServerFunctionsList.cc\<close>): the clauses of a parsed constraint, their evaluation by these
    comparisons, and the registry of server functions, which are values of the model.
  \<^item> \<open>Number_Checks\<close> (\<open>parser-util.cc\<close>): what the parsers accept as numbers of each type.
  \<^item> \<open>Arrays\<close> (\<open>Array.cc\<close>): dimensions and constraints as a state machine with its invariant.
  \<^item> \<open>Variables\<close> (\<open>BaseType.cc\<close>, \<open>Vector.cc\<close>, \<open>Constructor.cc\<close>, \<open>Structure.cc\<close>, \<open>Sequence.cc\<close>,
    \<open>Grid.cc\<close>): the tree of variables, its flags, counts, searches, checks and leaf sequences.
  \<^item> \<open>Dataset\<close> (\<open>DDS.cc\<close>): looking up names, containers, marking, projection.
  \<^item> \<open>Byte_Memory\<close>, \<open>Dap4_Stream\<close> (\<open>DAP4StreamMarshaller.cc\<close>, \<open>DAP4StreamUnMarshaller.cc\<close>): memory in
    both byte orders, the DAP4 stream with its checksums and length prefixes.
  \<^item> \<open>Xdr_Stream\<close> (\<open>XDRStreamMarshaller.cc\<close>, \<open>XDRStreamUnMarshaller.cc\<close>, \<open>XDRUtils.cc\<close>): the DAP2
    stream over the XDR routines, a locale interpreted on the encoding of RFC 4506.
  \<^item> \<open>Data_Stream\<close>, \<open>Data_Transfer\<close>, \<open>Nested_Sequence\<close> (the \<open>serialize\<close> and \<open>deserialize\<close> members,
    \<open>XDRFileMarshaller.cc\<close>, \<open>XDRFileUnMarshaller.cc\<close>): the data of variables through a pair of
    abstract classes, the locale \<open>marshalling\<close>, interpreted on the classes for files and streams.
  \<^item> \<open>Http_Time\<close> (\<open>util_mit.cc\<close>), \<open>Http_Cache_Table\<close> (\<open>HTTPCacheTable.cc\<close>), \<open>Http_Cache_Index\<close> (the
    files of the cache), \<open>Http_Cache\<close> (\<open>HTTPCache.cc\<close>): dates, entries with their locks, accounting,
    garbage collection and the operations of the client cache.  \<open>Http_Cache_Locks\<close> and
    \<open>Http_Cache_Steps\<close> hold the invariant and the reachable states, \<open>Http_Cache_Properties\<close> what
    follows, \<open>Http_Cache_Return\<close> when operations return and when they wait forever, and
    \<open>Http_Cache_Files\<close> the round trips of the files.
  \<^item> \<open>Attr_Tables\<close> (\<open>AttrTable.h\<close>, \<open>AttrTable.cc\<close>, \<open>DAS.cc\<close>): attribute tables, which share values
    and tables by aliases, in a store of objects by address.  \<open>Attr_Ownership\<close> and \<open>Attr_Steps\<close> show
    that every object has one owner, that no table contains itself and that each is freed once, \<open>Attr_Copy\<close> that copies are faithful, and
    \<open>Attr_Properties\<close> has the reachable stores and the properties.

  \<^bold>\<open>How the code is shown.\<close>  A class is a record and a member function an action on it, which
  returns a result or an exception and the object it leaves.  A pointer into a tree of variables is
  the path to it.  Null and past-the-end accesses are \<open>Undefined\<close>; an operation that waits forever
  is \<open>No_Return\<close>.  \<open>int\<close> and its unsigned relatives are kept at their width where the code's
  behaviour depends on it; the byte that the reader of a sequence's markers leaves uninitialised when
  nothing can be read is part of the state of the reader, with any value; \<open>time_t\<close> and the number of readers of a cache entry are unbounded.

  \<^bold>\<open>Bounds and fuel.\<close>  Loops are total functions with a measure except two: the rows of a sequence
  read by \<open>deserialize\<close> and the loop of the garbage collection over hit counts (\<open>hits_loop\<close>).  For the
  rows, the bytes of the file are enough fuel if each row takes input or memory that is not
  initialised does not look like a marker (\<open>file_sequences_end\<close>); otherwise the loop may not end
  (\<open>stale_markers_never_end\<close>).  The collection does not end when the entries in use together take too
  much space (\<open>collection_waits_for_readers\<close>).  Functions that follow containers of attributes take the depth of the
  stack; more than the number of objects in the store is enough.

  \<^bold>\<open>Outside code.\<close>  XDR and OpenSSL routines, floating point arithmetic, regular expressions,
  \<open>timegm\<close> and the file system are parameters.  Their laws are the assumptions of locales, each
  interpreted on a concrete instance, or hypotheses of properties with witnesses.

  \<^bold>\<open>Not modelled.\<close>  The generated parsers, the XML readers and writers (callbacks of libxml2), the
  network client and the server's output, file locks and signals, the bodies of server functions, the
  vendored regular expressions, and the tests.  They are driven by libraries that are not in the
  repository or only move text to streams.
\<close>

end
